(* ===== verification/Prelude.thy ===== *)
theory Prelude
  imports Main "HOL-Library.AList" "HOL-Library.Word"
begin

text \<open>
  Shared ground of the development: the parts of the Go language and of its standard library
  that the modelled code uses.

  \<^item> A Go string is a sequence of bytes: \<^typ>\<open>string\<close>. \<open>strings.Contains\<close>,
    \<open>strings.HasPrefix\<close>, \<open>strings.Index\<close>, \<open>strings.LastIndex\<close>, \<open>strings.TrimSpace\<close>,
    \<open>strings.ToLower\<close>, \<open>strings.EqualFold\<close> and \<open>strconv.Itoa\<close> are written out below. Case folding
    and white space are those of ASCII, which is what Go computes on ASCII text.
  \<^item> A Go map is an association list with distinct keys; the list order stands for one of the
    iteration orders that \<open>range\<close> may choose. \<open>m[k]\<close> is \<^const>\<open>map_of\<close>, an assignment is
    \<^const>\<open>AList.update\<close>, \<open>delete\<close> is \<^const>\<open>AList.delete\<close> and \<open>len\<close> is \<^const>\<open>length\<close>.
  \<^item> A nil pointer is \<^const>\<open>None\<close>. An \<open>int\<close>, an \<open>int64\<close> and a \<open>time.Duration\<close> (in nanoseconds)
    are integers; where a computation can leave 64 bits the wrap-around is written out. A
    \<open>uint64\<close> counter is a 64-bit word.
\<close>

named_theorems go_string_simps \<open>evaluation rules for the string library\<close>
named_theorems go_map_simps \<open>laws of the map operations\<close>

type_synonym ('k, 'v) gomap = "('k \<times> 'v) list"
type_synonym uint64 = "64 word"
type_synonym duration = int
type_synonym instant = int

abbreviation go_second :: duration where
  "go_second \<equiv> 1000000000"

subsection \<open>Strings\<close>

definition is_ascii_space :: "char \<Rightarrow> bool" where
  "is_ascii_space c \<longleftrightarrow> (of_char c :: nat) \<in> {9, 10, 11, 12, 13, 32}"

definition ascii_lower :: "char \<Rightarrow> char" where
  "ascii_lower c = (let n = (of_char c :: nat) in if 65 \<le> n \<and> n \<le> 90 then char_of (n + 32) else c)"

definition strings_ToLower :: "string \<Rightarrow> string" where
  "strings_ToLower s = map ascii_lower s"

definition strings_EqualFold :: "string \<Rightarrow> string \<Rightarrow> bool" where
  "strings_EqualFold s t \<longleftrightarrow> strings_ToLower s = strings_ToLower t"

definition strings_TrimSpace :: "string \<Rightarrow> string" where
  "strings_TrimSpace s = rev (dropWhile is_ascii_space (rev (dropWhile is_ascii_space s)))"

definition strings_HasPrefix :: "string \<Rightarrow> string \<Rightarrow> bool" where
  "strings_HasPrefix s p \<longleftrightarrow> take (length p) s = p"

fun strings_Contains :: "string \<Rightarrow> string \<Rightarrow> bool" where
  "strings_Contains [] sub = (sub = [])"
| "strings_Contains (c # s) sub = (strings_HasPrefix (c # s) sub \<or> strings_Contains s sub)"

fun strings_Index :: "string \<Rightarrow> string \<Rightarrow> nat option" where
  "strings_Index [] sub = (if sub = [] then Some 0 else None)"
| "strings_Index (c # s) sub =
     (if strings_HasPrefix (c # s) sub then Some 0 else map_option Suc (strings_Index s sub))"

fun strings_LastIndex :: "string \<Rightarrow> string \<Rightarrow> nat option" where
  "strings_LastIndex [] sub = (if sub = [] then Some 0 else None)"
| "strings_LastIndex (c # s) sub =
     (case strings_LastIndex s sub of
        Some i \<Rightarrow> Some (Suc i)
      | None \<Rightarrow> if strings_HasPrefix (c # s) sub then Some 0 else None)"

definition digit_char :: "nat \<Rightarrow> char" where
  "digit_char d = char_of (48 + d)"

fun nat_digits :: "nat \<Rightarrow> string" where
  "nat_digits n = (if n < 10 then [digit_char n] else nat_digits (n div 10) @ [digit_char (n mod 10)])"

declare nat_digits.simps [simp del]

definition strconv_Itoa :: "int \<Rightarrow> string" where
  "strconv_Itoa i = (if i < 0 then CHR ''-'' # nat_digits (nat (- i)) else nat_digits (nat i))"

lemmas [go_string_simps] = strings_ToLower_def strings_EqualFold_def strings_HasPrefix_def

text \<open>Evaluation works on the bits of a character.\<close>

lemma ascii_lower_code [code]:
  "ascii_lower (Char b0 b1 b2 b3 b4 b5 b6 b7) =
     (if \<not> b7 \<and> b6 \<and> \<not> b5 \<and> (b0 \<or> b1 \<or> b2 \<or> b3 \<or> b4) \<and> \<not> (b4 \<and> b3 \<and> (b2 \<or> b1 \<and> b0))
      then Char b0 b1 b2 b3 b4 True b6 b7 else Char b0 b1 b2 b3 b4 b5 b6 b7)"
  by (cases b0; cases b1; cases b2; cases b3; cases b4; cases b5; cases b6; cases b7)
    (simp_all add: ascii_lower_def, (code_simp)+)

lemma HasPrefix_code [code]:
  "strings_HasPrefix s [] = True"
  "strings_HasPrefix [] (c # p) = False"
  "strings_HasPrefix (d # s) (c # p) = (c = d \<and> strings_HasPrefix s p)"
  by (auto simp: strings_HasPrefix_def)

lemma HasPrefix_iff: "strings_HasPrefix s p \<longleftrightarrow> (\<exists>t. s = p @ t)"
  unfolding strings_HasPrefix_def by (metis append_eq_conv_conj append_take_drop_id)

lemma HasPrefix_append [simp]: "strings_HasPrefix (p @ t) p"
  by (simp add: strings_HasPrefix_def)

lemma Contains_iff: "strings_Contains s sub \<longleftrightarrow> (\<exists>u v. s = u @ sub @ v)"
proof (induction s)
  case Nil
  then show ?case by simp
next
  case (Cons c s)
  have "(\<exists>u v. c # s = u @ sub @ v) \<longleftrightarrow> (\<exists>v. c # s = sub @ v) \<or> (\<exists>u v. s = u @ sub @ v)"
    by (metis append_Cons append_Nil neq_Nil_conv list.inject)
  with Cons show ?case by (simp add: HasPrefix_iff)
qed

lemma Contains_self [simp]: "strings_Contains s s"
  by (metis Contains_iff append_Nil append_Nil2)

lemma ToLower_idem [simp]: "strings_ToLower (strings_ToLower s) = strings_ToLower s"
proof -
  have "ascii_lower (ascii_lower c) = ascii_lower c" for c
    by (simp add: ascii_lower_def Let_def)
  then show ?thesis by (simp add: strings_ToLower_def)
qed

lemma length_ToLower [simp]: "length (strings_ToLower s) = length s"
  by (simp add: strings_ToLower_def)

lemma EqualFold_refl [simp]: "strings_EqualFold s s"
  by (simp add: strings_EqualFold_def)

lemma EqualFold_sym: "strings_EqualFold s t = strings_EqualFold t s"
  by (auto simp: strings_EqualFold_def)

subsection \<open>Decimal texts\<close>

lemma of_digit_char: "d < 10 \<Longrightarrow> (of_char (digit_char d) :: nat) = 48 + d"
  by (simp add: digit_char_def)

lemma digit_char_colon: "d < 10 \<Longrightarrow> digit_char d \<noteq> CHR '':''"
proof
  assume "d < 10" "digit_char d = CHR '':''"
  then have "48 + d = (58 :: nat)" using of_digit_char [of d] by simp
  then show False using \<open>d < 10\<close> by simp
qed

lemma nat_digits_nonempty: "nat_digits n \<noteq> []"
  by (subst nat_digits.simps) simp

lemma nat_digits_no_colon: "CHR '':'' \<notin> set (nat_digits n)"
proof (induction n rule: nat_digits.induct)
  case (1 n)
  show ?case
    using 1 digit_char_colon [of n] digit_char_colon [of "n mod 10"] by (subst nat_digits.simps) auto
qed

lemma digit_char_minus: "d < 10 \<Longrightarrow> digit_char d \<noteq> CHR ''-''"
proof
  assume "d < 10" "digit_char d = CHR ''-''"
  then have "48 + d = (45 :: nat)" using of_digit_char [of d] by simp
  then show False by simp
qed

lemma nat_digits_minus: "CHR ''-'' \<notin> set (nat_digits n)"
proof (induction n rule: nat_digits.induct)
  case (1 n)
  show ?case
    using 1 digit_char_minus [of n] digit_char_minus [of "n mod 10"] by (subst nat_digits.simps) auto
qed

lemma nat_digits_inj: "nat_digits m = nat_digits n \<Longrightarrow> m = n"
proof (induction m arbitrary: n rule: nat_digits.induct)
  case (1 m)
  have digit: "c = d" if "digit_char c = digit_char d" "c < 10" "d < 10" for c d
    using of_digit_char that by (metis add_left_cancel)
  show ?case
  proof (cases "m < 10")
    case True
    then have "n < 10"
      using "1.prems" nat_digits_nonempty [of "n div 10"] nat_digits.simps [of m] nat_digits.simps [of n]
      by (cases "n < 10") auto
    then show ?thesis using True "1.prems" digit nat_digits.simps [of m] nat_digits.simps [of n] by simp
  next
    case False
    then have "\<not> n < 10"
      using "1.prems" nat_digits_nonempty [of "m div 10"] nat_digits.simps [of m] nat_digits.simps [of n]
      by (cases "n < 10") auto
    then have "nat_digits (m div 10) = nat_digits (n div 10)" "digit_char (m mod 10) = digit_char (n mod 10)"
      using False "1.prems" nat_digits.simps [of m] nat_digits.simps [of n] by simp_all
    then have "m div 10 = n div 10" "m mod 10 = n mod 10" using "1.IH" [OF False] digit by simp_all
    then show ?thesis by (metis div_mult_mod_eq)
  qed
qed

lemma Itoa_no_colon: "CHR '':'' \<notin> set (strconv_Itoa i)"
  by (simp add: strconv_Itoa_def nat_digits_no_colon)

lemma Itoa_inj: "strconv_Itoa i = strconv_Itoa j \<Longrightarrow> i = j"
proof -
  assume eq: "strconv_Itoa i = strconv_Itoa j"
  have "nat_digits n \<noteq> CHR ''-'' # t" for n t using nat_digits_minus [of n] by (metis list.set_intros(1))
  moreover have "CHR ''-'' # t \<noteq> nat_digits n" for n t using nat_digits_minus [of n] by (metis list.set_intros(1))
  ultimately have "(i < 0) = (j < 0)" "nat \<bar>i\<bar> = nat \<bar>j\<bar>"
    using eq by (auto simp: strconv_Itoa_def dest: nat_digits_inj split: if_splits)
  then show "i = j" by arith
qed

subsection \<open>Maps\<close>

abbreviation mapget :: "('k, 'v) gomap \<Rightarrow> 'k \<Rightarrow> 'v option" where
  "mapget m k \<equiv> map_of m k"

abbreviation mapput :: "'k \<Rightarrow> 'v \<Rightarrow> ('k, 'v) gomap \<Rightarrow> ('k, 'v) gomap" where
  "mapput k v m \<equiv> AList.update k v m"

abbreviation mapdel :: "'k \<Rightarrow> ('k, 'v) gomap \<Rightarrow> ('k, 'v) gomap" where
  "mapdel k m \<equiv> AList.delete k m"

definition wf_map :: "('k, 'v) gomap \<Rightarrow> bool" where
  "wf_map m \<longleftrightarrow> distinct (map fst m)"

lemma wf_map_Nil [simp]: "wf_map []"
  by (simp add: wf_map_def)

lemma wf_map_put [simp]: "wf_map m \<Longrightarrow> wf_map (mapput k v m)"
  by (simp add: wf_map_def distinct_update)

lemma wf_map_del [simp]: "wf_map m \<Longrightarrow> wf_map (mapdel k m)"
  by (simp add: wf_map_def distinct_delete)

lemma wf_map_filter [simp]: "wf_map m \<Longrightarrow> wf_map (filter P m)"
  by (simp add: wf_map_def distinct_map_filter)

lemma mapget_put [simp]: "mapget (mapput k v m) k' = (if k' = k then Some v else mapget m k')"
  by (simp add: update_conv)

lemma mapget_del [simp]: "mapget (mapdel k m) k' = (if k' = k then None else mapget m k')"
  by (simp add: delete_conv')

lemma mapget_filter:
  "wf_map m \<Longrightarrow> mapget (filter P m) k =
     (case mapget m k of Some v \<Rightarrow> if P (k, v) then Some v else None | None \<Rightarrow> None)"
proof (induction m)
  case Nil
  then show ?case by simp
next
  case (Cons kv m)
  obtain k1 v1 where kv: "kv = (k1, v1)" by (cases kv)
  have m: "wf_map m" and k1: "k1 \<notin> fst ` set m"
    using Cons.prems kv by (auto simp: wf_map_def)
  have "mapget (filter P m) k1 = None"
    using k1 by (auto simp: map_of_eq_None_iff)
  then show ?case
    using Cons.IH [OF m] kv by auto
qed

lemma mapget_in_set: "wf_map m \<Longrightarrow> (k, v) \<in> set m \<longleftrightarrow> mapget m k = Some v"
  by (simp add: wf_map_def)

subsection \<open>Sixty-four bit integers\<close>

definition wrap64 :: "int \<Rightarrow> int" where
  "wrap64 x = (x + 2 ^ 63) mod 2 ^ 64 - 2 ^ 63"

lemma wrap64_id: "- (2 ^ 63) \<le> x \<Longrightarrow> x < 2 ^ 63 \<Longrightarrow> wrap64 x = x"
  by (simp add: wrap64_def)

lemma wrap64_range: "- (2 ^ 63) \<le> wrap64 x \<and> wrap64 x < 2 ^ 63"
proof -
  have "0 \<le> (x + 2 ^ 63) mod 2 ^ 64" "(x + 2 ^ 63) mod 2 ^ 64 < 2 ^ 64" by simp_all
  then show ?thesis by (simp add: wrap64_def)
qed

end
