(* ===== verification/Schemas.thy ===== *)
theory Schemas
  imports Prelude
begin

text \<open>
  The data that travels between the components (\<open>core/schemas\<close>): providers, API keys with their
  allow and deny lists, the error value of the gateway, the routing information attached to it and
  the per-attempt trail. Go's named string types (\<open>ModelProvider\<close>, \<open>RequestType\<close>) stay strings,
  because configuration may hold any string; their constants are abbreviations. A pointer field
  is an option. Fields that no modelled function reads (opaque payloads, JSON helpers) are left
  out of the records.
\<close>

type_synonym ModelProvider = string
type_synonym RequestType = string

subsection \<open>Providers\<close>

abbreviation OpenAI :: ModelProvider where "OpenAI \<equiv> ''openai''"
abbreviation Azure :: ModelProvider where "Azure \<equiv> ''azure''"
abbreviation Anthropic :: ModelProvider where "Anthropic \<equiv> ''anthropic''"
abbreviation Bedrock :: ModelProvider where "Bedrock \<equiv> ''bedrock''"
abbreviation BedrockMantle :: ModelProvider where "BedrockMantle \<equiv> ''bedrock_mantle''"
abbreviation Vertex :: ModelProvider where "Vertex \<equiv> ''vertex''"
abbreviation Ollama :: ModelProvider where "Ollama \<equiv> ''ollama''"
abbreviation Opencode :: ModelProvider where "Opencode \<equiv> ''opencode''"
abbreviation SGL :: ModelProvider where "SGL \<equiv> ''sgl''"
abbreviation Gemini :: ModelProvider where "Gemini \<equiv> ''gemini''"
abbreviation VLLM :: ModelProvider where "VLLM \<equiv> ''vllm''"
abbreviation Sensenova :: ModelProvider where "Sensenova \<equiv> ''sensenova''"

definition StandardProviders :: "ModelProvider list" where
  "StandardProviders =
    [''anthropic'', ''azure'', ''bedrock'', ''bedrock_mantle'', ''cerebras'', ''cohere'',
     ''deepseek'', ''gemini'', ''groq'', ''mistral'', ''ollama'', ''opencode'',
     ''opencode-go'', ''opencode-zen'', ''openai'', ''parasail'', ''perplexity'', ''sgl'',
     ''vertex'', ''openrouter'', ''elevenlabs'', ''huggingface'', ''nebius'', ''xai'',
     ''replicate'', ''vllm'', ''runway'', ''runware'', ''fireworks'', ''sarvam'', ''wafer'',
     ''alibaba'', ''alibaba_tokenplan'', ''minimax'', ''moonshot'', ''siliconflow'',
     ''volcengine'', ''zhipu'', ''tencent'', ''baidu'', ''sensenova'', ''baichuan'',
     ''iflytek'', ''stepfun'', ''xiaomi_mimo'', ''modelscope'', ''coze'', ''coze_cn'',
     ''gmicloud'']"

definition KeylessProviders :: "ModelProvider list" where
  "KeylessProviders = [Opencode]"

definition IsKeylessProvider :: "ModelProvider \<Rightarrow> bool" where
  "IsKeylessProvider provider \<longleftrightarrow> provider \<in> set KeylessProviders"

subsection \<open>Allow and deny lists\<close>

text \<open>\<open>WhiteList\<close> and \<open>BlackList\<close> of \<open>core/schemas/account.go\<close>. The error values of \<open>Validate\<close>
  are the two messages of the code.\<close>

type_synonym WhiteList = "string list"
type_synonym BlackList = "string list"

datatype list_error = WildcardMixed | DuplicateValue string

definition WhiteList_Contains :: "WhiteList \<Rightarrow> string \<Rightarrow> bool" where
  "WhiteList_Contains wl value = list_ex (\<lambda>s. strings_EqualFold s value) wl"

definition WhiteList_IsUnrestricted :: "WhiteList \<Rightarrow> bool" where
  "WhiteList_IsUnrestricted wl \<longleftrightarrow> length wl = 1 \<and> wl ! 0 = ''*''"

definition WhiteList_IsAllowed :: "WhiteList \<Rightarrow> string \<Rightarrow> bool" where
  "WhiteList_IsAllowed wl value \<longleftrightarrow> WhiteList_IsUnrestricted wl \<or> WhiteList_Contains wl value"

definition WhiteList_IsEmpty :: "WhiteList \<Rightarrow> bool" where
  "WhiteList_IsEmpty wl \<longleftrightarrow> length wl = 0"

definition WhiteList_IsRestricted :: "WhiteList \<Rightarrow> bool" where
  "WhiteList_IsRestricted wl \<longleftrightarrow> \<not> WhiteList_IsUnrestricted wl"

fun list_seen_loop :: "string list \<Rightarrow> string list \<Rightarrow> list_error option" where
  "list_seen_loop seen [] = None"
| "list_seen_loop seen (v # vs) =
     (let normalized = strings_ToLower v in
      if normalized \<in> set seen then Some (DuplicateValue v)
      else list_seen_loop (normalized # seen) vs)"

definition WhiteList_Validate :: "WhiteList \<Rightarrow> list_error option" where
  "WhiteList_Validate wl =
     (if WhiteList_Contains wl ''*'' \<and> length wl > 1 then Some WildcardMixed
      else list_seen_loop [] wl)"

definition BlackList_Contains :: "BlackList \<Rightarrow> string \<Rightarrow> bool" where
  "BlackList_Contains bl value = list_ex (\<lambda>s. strings_EqualFold s value) bl"

definition BlackList_IsBlockAll :: "BlackList \<Rightarrow> bool" where
  "BlackList_IsBlockAll bl \<longleftrightarrow> length bl = 1 \<and> bl ! 0 = ''*''"

definition BlackList_IsBlocked :: "BlackList \<Rightarrow> string \<Rightarrow> bool" where
  "BlackList_IsBlocked bl value \<longleftrightarrow> BlackList_IsBlockAll bl \<or> BlackList_Contains bl value"

definition BlackList_IsEmpty :: "BlackList \<Rightarrow> bool" where
  "BlackList_IsEmpty bl \<longleftrightarrow> length bl = 0"

definition BlackList_Validate :: "BlackList \<Rightarrow> list_error option" where
  "BlackList_Validate bl =
     (if BlackList_Contains bl ''*'' \<and> length bl > 1 then Some WildcardMixed
      else list_seen_loop [] bl)"

subsection \<open>Keys\<close>

text \<open>
  \<open>k_CentiWeight\<close> is \<open>int(key.Weight * 100)\<close>, the only form in which the weight is read. The
  provider specific sub-configurations keep the fields key validation and key selection read:
  the endpoint or URL value, and for vLLM the model name.
\<close>

record VLLMKeyConfig =
  vllm_URL :: string
  vllm_ModelName :: string

record Key =
  k_ID :: string
  k_Name :: string
  k_Value :: string
  k_Models :: WhiteList
  k_BlacklistedModels :: BlackList
  k_CentiWeight :: int
  k_AzureEndpoint :: "string option"
  k_VertexKeyConfig :: "unit option"
  k_VLLMKeyConfig :: "VLLMKeyConfig option"
  k_OllamaURL :: "string option"
  k_SGLURL :: "string option"
  k_Enabled :: "bool option"
  k_UseForBatchAPI :: "bool option"

definition zeroKey :: Key where
  "zeroKey = \<lparr>k_ID = '''', k_Name = '''', k_Value = '''', k_Models = [], k_BlacklistedModels = [],
     k_CentiWeight = 0, k_AzureEndpoint = None, k_VertexKeyConfig = None, k_VLLMKeyConfig = None,
     k_OllamaURL = None, k_SGLURL = None, k_Enabled = None, k_UseForBatchAPI = None\<rparr>"

subsection \<open>Errors and routing information\<close>

record ErrorField =
  ef_Type :: "string option"
  ef_Code :: "string option"
  ef_Message :: string
  ef_Error :: "string option"

record RoutingInfo =
  ri_Provider :: ModelProvider
  ri_Model :: string
  ri_Key :: string
  ri_ResolvedKeyAlias :: "string option"
  ri_IsFallback :: bool
  ri_PrimaryProvider :: "ModelProvider option"
  ri_PrimaryModel :: "string option"

record BifrostErrorExtraFields =
  xf_RoutingInfo :: RoutingInfo
  xf_Provider :: ModelProvider
  xf_OriginalModelRequested :: string
  xf_ResolvedModelUsed :: string
  xf_RequestType :: RequestType
  xf_RetryAfterSeconds :: int
  xf_RawRequest :: "string option"
  xf_RawResponse :: "string option"

record BifrostError =
  be_Type :: "string option"
  be_IsBifrostError :: bool
  be_StatusCode :: "int option"
  be_Error :: "ErrorField option"
  be_AllowFallbacks :: "bool option"
  be_ExtraFields :: BifrostErrorExtraFields

definition zeroRoutingInfo :: RoutingInfo where
  "zeroRoutingInfo = \<lparr>ri_Provider = '''', ri_Model = '''', ri_Key = '''', ri_ResolvedKeyAlias = None,
     ri_IsFallback = False, ri_PrimaryProvider = None, ri_PrimaryModel = None\<rparr>"

definition zeroExtraFields :: BifrostErrorExtraFields where
  "zeroExtraFields = \<lparr>xf_RoutingInfo = zeroRoutingInfo, xf_Provider = '''',
     xf_OriginalModelRequested = '''', xf_ResolvedModelUsed = '''', xf_RequestType = '''',
     xf_RetryAfterSeconds = 0, xf_RawRequest = None, xf_RawResponse = None\<rparr>"

definition zeroError :: BifrostError where
  "zeroError = \<lparr>be_Type = None, be_IsBifrostError = False, be_StatusCode = None, be_Error = None,
     be_AllowFallbacks = None, be_ExtraFields = zeroExtraFields\<rparr>"

abbreviation RequestCancelled :: string where "RequestCancelled \<equiv> ''request_cancelled''"
abbreviation RequestTimedOut :: string where "RequestTimedOut \<equiv> ''request_timed_out''"
abbreviation RequestDropped :: string where "RequestDropped \<equiv> ''request_dropped''"

definition is_cancelled :: "BifrostError \<Rightarrow> bool" where
  "is_cancelled e \<longleftrightarrow>
     (case be_Error e of Some f \<Rightarrow> ef_Type f = Some RequestCancelled | None \<Rightarrow> False)"

definition status_text :: "int \<Rightarrow> string option" where
  "status_text code =
     (if code = 401 then Some ''unauthorized''
      else if code = 403 then Some ''forbidden''
      else if code = 404 then Some ''endpoint not found''
      else if code = 405 then Some ''method not allowed''
      else if code = 429 then Some ''rate limit exceeded''
      else if code = 500 then Some ''internal server error''
      else if code = 502 then Some ''bad gateway''
      else if code = 503 then Some ''service unavailable''
      else if code = 504 then Some ''gateway timeout''
      else None)"

definition GetErrorString :: "BifrostError \<Rightarrow> string" where
  "GetErrorString e =
     (case be_Error e of
        Some f \<Rightarrow> if ef_Message f \<noteq> '''' then ef_Message f
                  else (case be_StatusCode e of
                          Some c \<Rightarrow> (case status_text c of Some t \<Rightarrow> t
                                     | None \<Rightarrow> ''HTTP '' @ strconv_Itoa c @ '' error'')
                        | None \<Rightarrow> (case be_Type e of Some t \<Rightarrow> t | None \<Rightarrow> ''unknown error''))
      | None \<Rightarrow> (case be_StatusCode e of
                   Some c \<Rightarrow> (case status_text c of Some t \<Rightarrow> t
                              | None \<Rightarrow> ''HTTP '' @ strconv_Itoa c @ '' error'')
                 | None \<Rightarrow> (case be_Type e of Some t \<Rightarrow> t | None \<Rightarrow> ''unknown error'')))"

definition PopulateExtraFields ::
    "BifrostError \<Rightarrow> RequestType \<Rightarrow> ModelProvider \<Rightarrow> string \<Rightarrow> string \<Rightarrow> BifrostError" where
  "PopulateExtraFields e requestType provider originalModelRequested resolvedModelUsed =
     e\<lparr>be_ExtraFields := (be_ExtraFields e)
        \<lparr>xf_RequestType := requestType, xf_Provider := provider,
         xf_OriginalModelRequested := originalModelRequested,
         xf_ResolvedModelUsed :=
           (if resolvedModelUsed \<noteq> '''' then resolvedModelUsed else originalModelRequested)\<rparr>\<rparr>"

text \<open>The deprecated triplet (provider, original model, resolved model) follows the finalized
  routing information; the Go helper writes through three pointers, which the errors always pass.\<close>

definition syncDeprecatedFromRoutingInfo ::
    "RoutingInfo \<Rightarrow> BifrostErrorExtraFields \<Rightarrow> BifrostErrorExtraFields" where
  "syncDeprecatedFromRoutingInfo info x =
     x\<lparr>xf_Provider := (if ri_Provider info \<noteq> '''' then ri_Provider info else xf_Provider x),
       xf_OriginalModelRequested :=
         (case (ri_IsFallback info, ri_PrimaryModel info) of
            (True, Some m) \<Rightarrow>
               if m \<noteq> '''' then m
               else if ri_Model info \<noteq> '''' then ri_Model info else xf_OriginalModelRequested x
          | _ \<Rightarrow> if ri_Model info \<noteq> '''' then ri_Model info else xf_OriginalModelRequested x),
       xf_ResolvedModelUsed :=
         (case ri_ResolvedKeyAlias info of
            Some a \<Rightarrow> if a \<noteq> '''' then a
                      else if ri_Model info \<noteq> '''' then ri_Model info else xf_ResolvedModelUsed x
          | None \<Rightarrow> if ri_Model info \<noteq> '''' then ri_Model info else xf_ResolvedModelUsed x)\<rparr>"

definition PopulateRoutingInfo :: "BifrostError \<Rightarrow> RoutingInfo \<Rightarrow> BifrostError" where
  "PopulateRoutingInfo e info =
     e\<lparr>be_ExtraFields :=
        syncDeprecatedFromRoutingInfo info ((be_ExtraFields e)\<lparr>xf_RoutingInfo := info\<rparr>)\<rparr>"

definition SetFallbackRoutingInfo ::
    "BifrostError \<Rightarrow> ModelProvider \<Rightarrow> string \<Rightarrow> BifrostError" where
  "SetFallbackRoutingInfo e primaryProvider primaryModel =
     (let ri = (xf_RoutingInfo (be_ExtraFields e))
            \<lparr>ri_IsFallback := True,
             ri_PrimaryProvider :=
               (if primaryProvider \<noteq> '''' then Some primaryProvider
                else ri_PrimaryProvider (xf_RoutingInfo (be_ExtraFields e))),
             ri_PrimaryModel :=
               (if primaryModel \<noteq> '''' then Some primaryModel
                else ri_PrimaryModel (xf_RoutingInfo (be_ExtraFields e)))\<rparr>
      in e\<lparr>be_ExtraFields :=
            syncDeprecatedFromRoutingInfo ri ((be_ExtraFields e)\<lparr>xf_RoutingInfo := ri\<rparr>)\<rparr>)"

record KeyAttemptRecord =
  ar_Attempt :: int
  ar_KeyID :: string
  ar_KeyName :: string
  ar_FailReason :: "string option"
  ar_TriggeredRotation :: bool

record Fallback =
  fb_Provider :: ModelProvider
  fb_Model :: string

subsection \<open>Facts\<close>

lemma list_seen_loop_None_iff:
  "list_seen_loop seen vs = None \<longleftrightarrow>
     distinct (map strings_ToLower vs) \<and> set (map strings_ToLower vs) \<inter> set seen = {}"
  by (induction vs arbitrary: seen) (auto simp: Let_def)

lemma GetErrorString_message:
  "be_Error e = Some f \<Longrightarrow> ef_Message f \<noteq> [] \<Longrightarrow> GetErrorString e = ef_Message f"
  by (simp add: GetErrorString_def)

lemma is_cancelled_SetFallback [simp]:
  "is_cancelled (SetFallbackRoutingInfo e p m) = is_cancelled e"
  by (simp add: is_cancelled_def SetFallbackRoutingInfo_def Let_def)

lemma IsKeylessProvider_iff [simp]: "IsKeylessProvider p \<longleftrightarrow> p = Opencode"
  by (simp add: IsKeylessProvider_def KeylessProviders_def)

end
