(* ===== verification/Cooldown_Policy.thy ===== *)
theory Cooldown_Policy
  imports Schemas
begin

text \<open>
  The per-provider cooldown policy of \<open>core/schemas/provider.go\<close>: predicates on an error
  (\<open>CooldownPolicyMatch\<close>), rules that group predicates with a duration and a scope
  (\<open>CooldownPolicyRule\<close>), and the pair of rules of a provider (\<open>CooldownPolicy\<close>) with its built-in
  defaults. The lemmas characterise matching and show which errors the defaults can and cannot
  catch.
\<close>

type_synonym CooldownPolicyScope = string

abbreviation CooldownScopeKey :: CooldownPolicyScope where "CooldownScopeKey \<equiv> ''key''"
abbreviation CooldownScopeModel :: CooldownPolicyScope where "CooldownScopeModel \<equiv> ''model''"

definition Scope_OrDefault :: "CooldownPolicyScope \<Rightarrow> CooldownPolicyScope" where
  "Scope_OrDefault s = (if s = CooldownScopeModel then CooldownScopeModel else CooldownScopeKey)"

record CooldownPolicyMatch =
  pm_StatusCode :: "int option"
  pm_MessageContains :: "string list"
  pm_Type :: "string list"
  pm_Code :: "string list"

record CooldownPolicyRule =
  pr_Enabled :: "bool option"
  pr_Scope :: CooldownPolicyScope
  pr_Match :: "CooldownPolicyMatch list"
  pr_MatchMode :: string
  pr_TTLSeconds :: int

record CooldownPolicy =
  cp_RateLimit :: "CooldownPolicyRule option"
  cp_Quota :: "CooldownPolicyRule option"

definition ScopeOrDefault :: "CooldownPolicyRule option \<Rightarrow> CooldownPolicyScope" where
  "ScopeOrDefault r = (case r of None \<Rightarrow> CooldownScopeKey | Some r' \<Rightarrow> Scope_OrDefault (pr_Scope r'))"

definition MatchModeOrDefault :: "CooldownPolicyRule option \<Rightarrow> string" where
  "MatchModeOrDefault r =
     (case r of None \<Rightarrow> ''any'' | Some r' \<Rightarrow> if pr_MatchMode r' = '''' then ''any'' else pr_MatchMode r')"

subsection \<open>Matching an error\<close>

fun any_contained :: "string \<Rightarrow> string list \<Rightarrow> bool" where
  "any_contained msg [] = False"
| "any_contained msg (sub # subs) =
     (if strings_Contains msg (strings_ToLower sub) then True else any_contained msg subs)"

fun any_equal :: "string \<Rightarrow> string list \<Rightarrow> bool" where
  "any_equal x [] = False"
| "any_equal x (want # wants) = (if strings_ToLower want = x then True else any_equal x wants)"

definition Matches :: "CooldownPolicyMatch \<Rightarrow> BifrostError \<Rightarrow> bool" where
  "Matches m err =
     (if pm_StatusCode m = None \<and> length (pm_MessageContains m) = 0 \<and> length (pm_Type m) = 0
         \<and> length (pm_Code m) = 0 then False
      else if pm_StatusCode m \<noteq> None \<and> be_StatusCode err \<noteq> pm_StatusCode m then False
      else if length (pm_MessageContains m) > 0
         \<and> \<not> any_contained (strings_ToLower (GetErrorString err)) (pm_MessageContains m) then False
      else if length (pm_Type m) > 0
         \<and> (case be_Error err of None \<Rightarrow> True
            | Some f \<Rightarrow> (case ef_Type f of None \<Rightarrow> True
               | Some t \<Rightarrow> \<not> any_equal (strings_ToLower t) (pm_Type m))) then False
      else if length (pm_Code m) > 0
         \<and> (case be_Error err of None \<Rightarrow> True
            | Some f \<Rightarrow> (case ef_Code f of None \<Rightarrow> True
               | Some c \<Rightarrow> \<not> any_equal (strings_ToLower c) (pm_Code m))) then False
      else True)"

fun all_match :: "BifrostError \<Rightarrow> CooldownPolicyMatch list \<Rightarrow> bool" where
  "all_match err [] = True"
| "all_match err (m # ms) = (if \<not> Matches m err then False else all_match err ms)"

fun any_match :: "BifrostError \<Rightarrow> CooldownPolicyMatch list \<Rightarrow> bool" where
  "any_match err [] = False"
| "any_match err (m # ms) = (if Matches m err then True else any_match err ms)"

definition MatchesRule :: "CooldownPolicyRule option \<Rightarrow> BifrostError option \<Rightarrow> bool" where
  "MatchesRule r err =
     (case (r, err) of
        (Some r', Some e) \<Rightarrow>
          if length (pr_Match r') = 0 then False
          else if pr_Enabled r' = Some False then False
          else if MatchModeOrDefault r = ''all'' then all_match e (pr_Match r')
          else any_match e (pr_Match r')
      | _ \<Rightarrow> False)"

subsection \<open>Built-in policies\<close>

definition msg_match :: "string list \<Rightarrow> CooldownPolicyMatch" where
  "msg_match subs = \<lparr>pm_StatusCode = None, pm_MessageContains = subs, pm_Type = [], pm_Code = []\<rparr>"

definition type_match :: "string list \<Rightarrow> CooldownPolicyMatch" where
  "type_match ts = \<lparr>pm_StatusCode = None, pm_MessageContains = [], pm_Type = ts, pm_Code = []\<rparr>"

definition code_match :: "string list \<Rightarrow> CooldownPolicyMatch" where
  "code_match cs = \<lparr>pm_StatusCode = None, pm_MessageContains = [], pm_Type = [], pm_Code = cs\<rparr>"

definition default_rule :: "int \<Rightarrow> CooldownPolicyMatch list \<Rightarrow> CooldownPolicyRule" where
  "default_rule ttl ms =
     \<lparr>pr_Enabled = None, pr_Scope = '''', pr_Match = ms, pr_MatchMode = ''any'', pr_TTLSeconds = ttl\<rparr>"

abbreviation DefaultCooldownTTLSeconds :: int where "DefaultCooldownTTLSeconds \<equiv> 300"
abbreviation SensenovaRateLimitTTLSeconds :: int where "SensenovaRateLimitTTLSeconds \<equiv> 30"
abbreviation SensenovaQuotaTTLSeconds :: int where "SensenovaQuotaTTLSeconds \<equiv> 600"
abbreviation AnthropicRateLimitTTLSeconds :: int where "AnthropicRateLimitTTLSeconds \<equiv> 60"
abbreviation GeminiRateLimitTTLSeconds :: int where "GeminiRateLimitTTLSeconds \<equiv> 60"
abbreviation GeminiQuotaTTLSeconds :: int where "GeminiQuotaTTLSeconds \<equiv> 600"
abbreviation OpenAIRateLimitTTLSeconds :: int where "OpenAIRateLimitTTLSeconds \<equiv> 60"
abbreviation OpenAIQuotaTTLSeconds :: int where "OpenAIQuotaTTLSeconds \<equiv> 600"
abbreviation BedrockRateLimitTTLSeconds :: int where "BedrockRateLimitTTLSeconds \<equiv> 60"

definition DefaultCooldownPolicy :: "ModelProvider \<Rightarrow> CooldownPolicy" where
  "DefaultCooldownPolicy provider =
     (if provider = Sensenova then
        \<lparr>cp_RateLimit = Some (default_rule SensenovaRateLimitTTLSeconds
            [msg_match [''http error 429'', ''rate_limit_error''], type_match [''rate_limit_error'']]),
         cp_Quota = Some (default_rule SensenovaQuotaTTLSeconds
            [msg_match [''workspace allocated quota'', ''insufficient_quota'', ''quota exceeded'',
               ''quota_exceeded''], code_match [''insufficient_quota'']])\<rparr>
      else if provider = Anthropic then
        \<lparr>cp_RateLimit = Some (default_rule AnthropicRateLimitTTLSeconds
            [type_match [''rate_limit_error''],
             msg_match [''rate limit'', ''too many requests'', ''tokens per minute'',
               ''requests per minute'']]),
         cp_Quota = None\<rparr>
      else if provider = Gemini \<or> provider = Vertex then
        \<lparr>cp_RateLimit = Some (default_rule GeminiRateLimitTTLSeconds
            [msg_match [''rate limit'', ''throttled'', ''throttling''],
             type_match [''rate_limit_error'']]),
         cp_Quota = Some (default_rule GeminiQuotaTTLSeconds
            [msg_match [''quota exceeded'', ''quota_exceeded'', ''resource_exhausted''],
             type_match [''resource_exhausted'']])\<rparr>
      else if provider = OpenAI then
        \<lparr>cp_RateLimit = Some (default_rule OpenAIRateLimitTTLSeconds
            [type_match [''rate_limit_error''],
             msg_match [''rate limit reached'', ''rate limit exceeded'']]),
         cp_Quota = Some (default_rule OpenAIQuotaTTLSeconds
            [type_match [''insufficient_quota''], code_match [''insufficient_quota''],
             msg_match [''insufficient_quota'', ''quota exceeded'']])\<rparr>
      else if provider = Bedrock then
        \<lparr>cp_RateLimit = Some (default_rule BedrockRateLimitTTLSeconds
            [msg_match [''throttling'', ''throttled'', ''rate limit''],
             type_match [''throttlingexception'']]),
         cp_Quota = None\<rparr>
      else
        \<lparr>cp_RateLimit = Some (default_rule DefaultCooldownTTLSeconds
            [msg_match [''rate limit'', ''rate_limit'', ''ratelimit'', ''too many requests'',
               ''throttled'', ''throttling'', ''rate exceeded'', ''limit exceeded''],
             type_match [''rate_limit_error'']]),
         cp_Quota = Some (default_rule DefaultCooldownTTLSeconds
            [msg_match [''insufficient_quota'', ''quota exceeded'', ''quota_exceeded'', ''billing'',
               ''usage limit''], code_match [''insufficient_quota'']])\<rparr>)"

definition ResolveCooldownPolicy :: "ModelProvider \<Rightarrow> CooldownPolicy option \<Rightarrow> CooldownPolicy" where
  "ResolveCooldownPolicy provider configured =
     (case configured of Some p \<Rightarrow> p | None \<Rightarrow> DefaultCooldownPolicy provider)"

text \<open>The policy part of \<open>ProviderConfig.CheckAndSetDefaults\<close>: an unset match mode becomes \<open>any\<close>.\<close>

definition normalize_rule :: "CooldownPolicyRule \<Rightarrow> CooldownPolicyRule" where
  "normalize_rule r = (if pr_MatchMode r = '''' then r\<lparr>pr_MatchMode := ''any''\<rparr> else r)"

definition normalize_policy :: "CooldownPolicy \<Rightarrow> CooldownPolicy" where
  "normalize_policy p =
     \<lparr>cp_RateLimit = map_option normalize_rule (cp_RateLimit p),
      cp_Quota = map_option normalize_rule (cp_Quota p)\<rparr>"

subsection \<open>Characterisation of the matchers\<close>

lemma Scope_OrDefault_cases: "Scope_OrDefault s = CooldownScopeKey \<or> Scope_OrDefault s = CooldownScopeModel"
  by (simp add: Scope_OrDefault_def)

lemma Scope_OrDefault_idem [simp]: "Scope_OrDefault (Scope_OrDefault s) = Scope_OrDefault s"
  by (simp add: Scope_OrDefault_def)

lemma Scope_OrDefault_consts [simp]:
  "Scope_OrDefault CooldownScopeModel = CooldownScopeModel"
  "Scope_OrDefault CooldownScopeKey = CooldownScopeKey"
  by (simp_all add: Scope_OrDefault_def)

lemma any_contained_iff:
  "any_contained msg subs \<longleftrightarrow> (\<exists>sub \<in> set subs. strings_Contains msg (strings_ToLower sub))"
  by (induction subs) auto

lemma any_equal_iff: "any_equal x wants \<longleftrightarrow> (\<exists>want \<in> set wants. strings_ToLower want = x)"
  by (induction wants) auto

lemma all_match_iff: "all_match err ms \<longleftrightarrow> (\<forall>m \<in> set ms. Matches m err)"
  by (induction ms) auto

lemma any_match_iff: "any_match err ms \<longleftrightarrow> (\<exists>m \<in> set ms. Matches m err)"
  by (induction ms) auto

text \<open>What a match means, predicate by predicate.\<close>

definition status_holds :: "CooldownPolicyMatch \<Rightarrow> BifrostError \<Rightarrow> bool" where
  "status_holds m err \<longleftrightarrow> (\<forall>c. pm_StatusCode m = Some c \<longrightarrow> be_StatusCode err = Some c)"

definition message_holds :: "CooldownPolicyMatch \<Rightarrow> BifrostError \<Rightarrow> bool" where
  "message_holds m err \<longleftrightarrow> pm_MessageContains m = [] \<or>
     (\<exists>sub \<in> set (pm_MessageContains m). \<exists>u v.
        strings_ToLower (GetErrorString err) = u @ strings_ToLower sub @ v)"

definition type_holds :: "CooldownPolicyMatch \<Rightarrow> BifrostError \<Rightarrow> bool" where
  "type_holds m err \<longleftrightarrow> pm_Type m = [] \<or>
     (\<exists>f t. be_Error err = Some f \<and> ef_Type f = Some t \<and>
        (\<exists>want \<in> set (pm_Type m). strings_EqualFold want t))"

definition code_holds :: "CooldownPolicyMatch \<Rightarrow> BifrostError \<Rightarrow> bool" where
  "code_holds m err \<longleftrightarrow> pm_Code m = [] \<or>
     (\<exists>f c. be_Error err = Some f \<and> ef_Code f = Some c \<and>
        (\<exists>want \<in> set (pm_Code m). strings_EqualFold want c))"

lemma message_check:
  "(length (pm_MessageContains m) > 0
      \<and> \<not> any_contained (strings_ToLower (GetErrorString err)) (pm_MessageContains m))
   \<longleftrightarrow> \<not> message_holds m err"
  by (auto simp: message_holds_def any_contained_iff Contains_iff)

lemma type_check:
  "(length (pm_Type m) > 0
      \<and> (case be_Error err of None \<Rightarrow> True
         | Some f \<Rightarrow> (case ef_Type f of None \<Rightarrow> True
            | Some t \<Rightarrow> \<not> any_equal (strings_ToLower t) (pm_Type m))))
   \<longleftrightarrow> \<not> type_holds m err"
  by (auto simp: type_holds_def any_equal_iff strings_EqualFold_def split: option.splits)

lemma code_check:
  "(length (pm_Code m) > 0
      \<and> (case be_Error err of None \<Rightarrow> True
         | Some f \<Rightarrow> (case ef_Code f of None \<Rightarrow> True
            | Some c \<Rightarrow> \<not> any_equal (strings_ToLower c) (pm_Code m))))
   \<longleftrightarrow> \<not> code_holds m err"
  by (auto simp: code_holds_def any_equal_iff strings_EqualFold_def split: option.splits)

lemma status_check:
  "(pm_StatusCode m \<noteq> None \<and> be_StatusCode err \<noteq> pm_StatusCode m) \<longleftrightarrow> \<not> status_holds m err"
  by (auto simp: status_holds_def)

lemma Matches_iff:
  "Matches m err \<longleftrightarrow>
     (pm_StatusCode m \<noteq> None \<or> pm_MessageContains m \<noteq> [] \<or> pm_Type m \<noteq> [] \<or> pm_Code m \<noteq> []) \<and>
     status_holds m err \<and> message_holds m err \<and> type_holds m err \<and> code_holds m err"
  unfolding Matches_def message_check type_check code_check status_check by auto

lemma MatchesRule_Some:
  "MatchesRule (Some r) (Some e) \<longleftrightarrow>
     pr_Match r \<noteq> [] \<and> pr_Enabled r \<noteq> Some False \<and>
     (if pr_MatchMode r = ''all'' then \<forall>m \<in> set (pr_Match r). Matches m e
      else \<exists>m \<in> set (pr_Match r). Matches m e)"
  by (auto simp: MatchesRule_def MatchModeOrDefault_def all_match_iff any_match_iff)

lemma MatchesRule_None [simp]: "\<not> MatchesRule None err" "\<not> MatchesRule r None"
  by (auto simp: MatchesRule_def split: option.splits)

lemma MatchesRule_normalize [simp]:
  "MatchesRule (map_option normalize_rule r) err = MatchesRule r err"
  by (cases r; cases err) (auto simp: MatchesRule_Some normalize_rule_def)

lemmas default_policy_defs =
  DefaultCooldownPolicy_def default_rule_def msg_match_def type_match_def code_match_def


subsection \<open>Properties\<close>

definition names_predicate :: "CooldownPolicyMatch \<Rightarrow> bool" where
  "names_predicate m \<longleftrightarrow>
     pm_StatusCode m \<noteq> None \<or> pm_MessageContains m \<noteq> [] \<or> pm_Type m \<noteq> [] \<or> pm_Code m \<noteq> []"

text \<open>A cooldown rule fires on an error exactly when it is not disabled, has at least one match,
  and - depending on the mode - every match or at least one match is satisfied, where a match is
  satisfied when it names at least one predicate and every predicate it names holds: the status
  code is equal, the lower-cased message contains one of the substrings, and the type and the code
  are present and equal to a listed one up to case. In particular a match without predicates never
  fires.\<close>
theorem policy_rule_fires_iff:
  "MatchesRule (Some r) (Some e) \<longleftrightarrow>
     pr_Match r \<noteq> [] \<and> pr_Enabled r \<noteq> Some False \<and>
     (let sat = (\<lambda>m. names_predicate m \<and> status_holds m e \<and> message_holds m e \<and> type_holds m e \<and> code_holds m e)
      in if pr_MatchMode r = ''all'' then list_all sat (pr_Match r) else list_ex sat (pr_Match r))"
  unfolding MatchesRule_Some Let_def Matches_iff names_predicate_def [symmetric]
  by (simp add: list_all_iff list_ex_iff)

definition bare_error :: "BifrostError \<Rightarrow> bool" where
  "bare_error e \<longleftrightarrow> (case be_Error e of None \<Rightarrow> True
     | Some f \<Rightarrow> ef_Message f = [] \<and> ef_Type f = None \<and> ef_Code f = None)"

lemma bare_429_string:
  "be_StatusCode e = Some 429 \<Longrightarrow> bare_error e \<Longrightarrow> GetErrorString e = ''rate limit exceeded''"
  by (auto simp: bare_error_def GetErrorString_def status_text_def split: option.splits)

lemma Matches_msg:
  "GetErrorString e = s \<Longrightarrow> Matches (msg_match subs) e \<longleftrightarrow> any_contained (strings_ToLower s) subs"
  by (cases subs) (auto simp: Matches_def msg_match_def)

lemma Matches_bare:
  "bare_error e \<Longrightarrow> \<not> Matches (type_match ts) e"
  "bare_error e \<Longrightarrow> \<not> Matches (code_match ts) e"
  by (auto simp: Matches_def type_match_def code_match_def bare_error_def split: option.splits)

text \<open>An HTTP 429 that carries no message, type or code takes no built-in quota cooldown at any
  provider, and takes the built-in rate-limit cooldown at every provider except Sensenova (whose
  rule looks for texts the rendered error does not contain).\<close>
theorem bare_429_default_policy:
  assumes "be_StatusCode e = Some 429" and "bare_error e"
  shows "\<not> MatchesRule (cp_Quota (DefaultCooldownPolicy p)) (Some e) \<and>
    (MatchesRule (cp_RateLimit (DefaultCooldownPolicy p)) (Some e) \<longleftrightarrow> p \<noteq> Sensenova)"
proof -
  note m = Matches_msg [OF bare_429_string [OF assms]] Matches_bare [OF assms(2)]
  have "\<not> MatchesRule (cp_Quota (DefaultCooldownPolicy p)) (Some e)"
    by (simp add: DefaultCooldownPolicy_def default_rule_def MatchesRule_Some m del: any_contained.simps)
       (intro impI conjI; code_simp)
  moreover have "MatchesRule (cp_RateLimit (DefaultCooldownPolicy p)) (Some e) \<longleftrightarrow> p \<noteq> Sensenova"
    by (simp add: DefaultCooldownPolicy_def default_rule_def MatchesRule_Some m del: any_contained.simps)
       (intro impI conjI; code_simp)
  ultimately show ?thesis by blast
qed

theorem bare_429_default_policy_witness:
  "\<not> MatchesRule (cp_Quota (DefaultCooldownPolicy OpenAI)) (Some (zeroError\<lparr>be_StatusCode := Some 429\<rparr>)) \<and>
   MatchesRule (cp_RateLimit (DefaultCooldownPolicy OpenAI)) (Some (zeroError\<lparr>be_StatusCode := Some 429\<rparr>))"
  using bare_429_default_policy [of "zeroError\<lparr>be_StatusCode := Some 429\<rparr>" OpenAI]
  by (simp add: zeroError_def bare_error_def)

definition wf_rule :: "CooldownPolicyRule \<Rightarrow> bool" where
  "wf_rule r \<longleftrightarrow> pr_Match r \<noteq> [] \<and> pr_Enabled r \<noteq> Some False \<and> 0 < pr_TTLSeconds r \<and>
     pr_MatchMode r \<in> {''any'', ''all''} \<and>
     list_all names_predicate (pr_Match r)"

text \<open>Every provider, known or not, gets an effective built-in policy: its rate-limit rule is
  present and well formed, its quota rule, when present, is well formed and cools for at least as
  long, both cool the whole key, and normalising the policy leaves it unchanged.\<close>
theorem default_policy_effective:
  "\<exists>rl. cp_RateLimit (DefaultCooldownPolicy p) = Some rl \<and> wf_rule rl \<and>
     ScopeOrDefault (Some rl) = CooldownScopeKey \<and>
     pred_option (\<lambda>q. wf_rule q \<and> pr_TTLSeconds rl \<le> pr_TTLSeconds q \<and>
       ScopeOrDefault (Some q) = CooldownScopeKey) (cp_Quota (DefaultCooldownPolicy p)) \<and>
     normalize_policy (ResolveCooldownPolicy p None) = DefaultCooldownPolicy p"
  by (simp add: default_policy_defs wf_rule_def names_predicate_def ScopeOrDefault_def Scope_OrDefault_def
      ResolveCooldownPolicy_def normalize_policy_def normalize_rule_def)

end
