(* ===== verification/Expiring_Store.thy ===== *)
theory Expiring_Store
  imports Prelude
begin

text \<open>
  The interface two components share: a store whose entries stop being visible at a deadline and
  whose dead entries a background sweep removes (\<open>cleanupExpired\<close> of \<open>framework/kvstore\<close>, the
  garbage collector of the cooldown plugin). The locale names what a client relies on - what a
  lookup returns after a write, and that a sweep never changes what a lookup returns - and proves
  once that a schedule of writes with any number of sweeps in between is observed like the same
  schedule without them. Both components interpret it on their own operations.
\<close>

datatype ('k, 'v, 'e) store_op = Put 'k 'v 'e | Sweep instant

fun apply_ops ::
    "('k \<Rightarrow> 'v \<Rightarrow> 'e \<Rightarrow> 's \<Rightarrow> 's) \<Rightarrow> (instant \<Rightarrow> 's \<Rightarrow> 's) \<Rightarrow> ('k, 'v, 'e) store_op list \<Rightarrow> 's \<Rightarrow> 's" where
  "apply_ops put sweep [] s = s"
| "apply_ops put sweep (Put k v e # ops) s = apply_ops put sweep ops (put k v e s)"
| "apply_ops put sweep (Sweep t # ops) s = apply_ops put sweep ops (sweep t s)"

fun is_put :: "('k, 'v, 'e) store_op \<Rightarrow> bool" where
  "is_put (Put k v e) = True"
| "is_put (Sweep t) = False"

fun sweep_before :: "instant \<Rightarrow> ('k, 'v, 'e) store_op \<Rightarrow> bool" where
  "sweep_before now (Put k v e) = True"
| "sweep_before now (Sweep t) = (t \<le> now)"

fun last_put :: "'k \<Rightarrow> ('k, 'v, 'e) store_op list \<Rightarrow> ('v \<times> 'e) option" where
  "last_put k [] = None"
| "last_put k (Put k' v e # ops) =
     (case last_put k ops of Some r \<Rightarrow> Some r | None \<Rightarrow> if k' = k then Some (v, e) else None)"
| "last_put k (Sweep t # ops) = last_put k ops"

locale expiring_store =
  fixes live :: "'s \<Rightarrow> 'k \<Rightarrow> instant \<Rightarrow> 'v option"
    and put :: "'k \<Rightarrow> 'v \<Rightarrow> 'e \<Rightarrow> 's \<Rightarrow> 's"
    and sweep :: "instant \<Rightarrow> 's \<Rightarrow> 's"
    and expired :: "'e \<Rightarrow> instant \<Rightarrow> bool"
    and invar :: "'s \<Rightarrow> bool"
  assumes live_put: "invar s \<Longrightarrow> live (put k v e s) k' now =
      (if k' = k then if expired e now then None else Some v else live s k' now)"
    and live_sweep: "invar s \<Longrightarrow> t \<le> now \<Longrightarrow> live (sweep t s) k now = live s k now"
    and invar_put: "invar s \<Longrightarrow> invar (put k v e s)"
    and invar_sweep: "invar s \<Longrightarrow> invar (sweep t s)"
begin

lemma apply_ops_invar: "invar s \<Longrightarrow> invar (apply_ops put sweep ops s)"
proof (induction ops arbitrary: s)
  case (Cons p ops)
  then show ?case by (cases p) (auto intro: invar_put invar_sweep)
qed simp

lemma apply_ops_live_cong:
  assumes "invar s" "invar s'" "\<And>k. live s k now = live s' k now" "list_all (sweep_before now) ops"
  shows "live (apply_ops put sweep ops s) k now = live (apply_ops put sweep (filter is_put ops) s') k now"
  using assms
proof (induction ops arbitrary: s s')
  case Nil
  then show ?case by simp
next
  case (Cons p ops)
  show ?case
  proof (cases p)
    case (Put k1 v1 e1)
    have "live (put k1 v1 e1 s) k' now = live (put k1 v1 e1 s') k' now" for k'
      using Cons.prems by (simp add: live_put)
    then show ?thesis
      using Cons.IH [of "put k1 v1 e1 s" "put k1 v1 e1 s'"] Cons.prems Put by (simp add: invar_put)
  next
    case (Sweep t)
    have "live (sweep t s) k' now = live s' k' now" for k'
      using Cons.prems Sweep by (simp add: live_sweep)
    then show ?thesis
      using Cons.IH [of "sweep t s" s'] Cons.prems Sweep by (simp add: invar_sweep)
  qed
qed

lemma sweeps_unobservable:
  assumes "invar s" "list_all (sweep_before now) ops"
  shows "live (apply_ops put sweep ops s) k now = live (apply_ops put sweep (filter is_put ops) s) k now"
  using apply_ops_live_cong [OF assms(1) assms(1) refl assms(2)] .

lemma live_after_ops:
  assumes "invar s" "list_all (sweep_before now) ops"
  shows "live (apply_ops put sweep ops s) k now =
    (case last_put k ops of
       Some (v, e) \<Rightarrow> if expired e now then None else Some v
     | None \<Rightarrow> live s k now)"
  using assms
proof (induction k ops arbitrary: s rule: last_put.induct)
  case (1 k)
  then show ?case by simp
next
  case (2 k k' v e ops)
  then show ?case
    by (simp add: invar_put live_put split: option.splits)
next
  case (3 k t ops)
  then show ?case by (simp add: invar_sweep live_sweep split: option.splits)
qed

end

end
