(* ===== verification/Cooldown_State.thy ===== *)
theory Cooldown_State
  imports Cooldown_Policy Expiring_Store
begin

text \<open>
  The state of the provider-cooldown plugin (\<open>CooldownState\<close> of
  \<open>plugins/providercooldown/cooldown.go\<close>): a clock per storage key and the lifetime counters, with
  every method that reads or writes them. A method runs under the mutex, so it is one function on
  the state; a method that calls \<open>time.Now()\<close> takes that instant as an argument (the code's second
  reading, when it re-checks an entry before pruning it, is taken to be the same instant). Logging
  is left out.
\<close>

type_synonym CooldownKind = string

abbreviation CooldownKindRateLimit :: CooldownKind where "CooldownKindRateLimit \<equiv> ''rate_limit''"
abbreviation CooldownKindQuota :: CooldownKind where "CooldownKindQuota \<equiv> ''quota''"

abbreviation DefaultCooldownTTL :: duration where "DefaultCooldownTTL \<equiv> 5 * 60 * go_second"

definition kindIndex :: "CooldownKind \<Rightarrow> nat" where
  "kindIndex k = (if k = CooldownKindRateLimit then 0 else if k = CooldownKindQuota then 1 else 2)"

record CooldownRecord =
  cr_expiresAt :: instant
  cr_kind :: CooldownKind

record KindCounters =
  kc_MarkCount :: uint64
  kc_SuppressedCount :: uint64

record ProviderKindCounters =
  pk_RateLimit :: KindCounters
  pk_Quota :: KindCounters

definition zeroKindCounters :: KindCounters where
  "zeroKindCounters = \<lparr>kc_MarkCount = 0, kc_SuppressedCount = 0\<rparr>"

definition zeroCounters :: ProviderKindCounters where
  "zeroCounters = \<lparr>pk_RateLimit = zeroKindCounters, pk_Quota = zeroKindCounters\<rparr>"

record CooldownState =
  cs_cooldowns :: "(string, CooldownRecord) gomap"
  cs_ttl :: duration
  cs_ttlOverrides :: "(ModelProvider, duration) gomap"
  cs_markCount :: uint64
  cs_suppressedCount :: uint64
  cs_markByKind :: "uint64 list"
  cs_suppressedByKind :: "uint64 list"
  cs_perProvider :: "(ModelProvider, ProviderKindCounters) gomap"
  cs_perProviderModel :: "(string, ProviderKindCounters) gomap"
  cs_perProviderScopeKey :: "(ModelProvider, ProviderKindCounters) gomap"
  cs_perProviderScopeModel :: "(ModelProvider, ProviderKindCounters) gomap"

definition NewCooldownState :: "duration \<Rightarrow> CooldownState" where
  "NewCooldownState ttl =
     \<lparr>cs_cooldowns = [], cs_ttl = (if ttl \<le> 0 then DefaultCooldownTTL else ttl),
      cs_ttlOverrides = [], cs_markCount = 0, cs_suppressedCount = 0,
      cs_markByKind = [0, 0, 0], cs_suppressedByKind = [0, 0, 0],
      cs_perProvider = [], cs_perProviderModel = [],
      cs_perProviderScopeKey = [], cs_perProviderScopeModel = []\<rparr>"

definition SetTTLOverride :: "CooldownState \<Rightarrow> ModelProvider \<Rightarrow> duration \<Rightarrow> CooldownState" where
  "SetTTLOverride c provider ttl =
     (if ttl \<le> 0 then c else c\<lparr>cs_ttlOverrides := mapput provider ttl (cs_ttlOverrides c)\<rparr>)"

subsection \<open>Storage keys\<close>

definition key :: "ModelProvider \<Rightarrow> string \<Rightarrow> string" where
  "key provider keyID = provider @ ''::'' @ keyID @ ''::''"

definition keyModel :: "ModelProvider \<Rightarrow> string \<Rightarrow> string \<Rightarrow> string" where
  "keyModel provider keyID model =
     (if IsKeylessProvider provider then provider @ ''::'' @ model
      else provider @ ''::'' @ keyID @ ''::'' @ model)"

definition markKey :: "ModelProvider \<Rightarrow> string \<Rightarrow> string \<Rightarrow> CooldownPolicyScope \<Rightarrow> string" where
  "markKey provider keyID model scope =
     (if Scope_OrDefault scope = CooldownScopeModel then keyModel provider keyID model
      else key provider keyID)"

definition parseCooldownKey :: "string \<Rightarrow> string \<times> string \<times> string" where
  "parseCooldownKey k =
     (case strings_LastIndex k ''::'' of
        None \<Rightarrow> ('''', '''', '''')
      | Some j \<Rightarrow>
          (let front = take j k; model = drop (j + 2) k in
           case strings_Index front ''::'' of
             None \<Rightarrow> (front, '''', model)
           | Some i \<Rightarrow> (take i front, drop (i + 2) front, model)))"

subsection \<open>Lookups\<close>

definition effectiveTTLLocked :: "CooldownState \<Rightarrow> ModelProvider \<Rightarrow> duration" where
  "effectiveTTLLocked c provider =
     (case mapget (cs_ttlOverrides c) provider of Some t \<Rightarrow> t | None \<Rightarrow> cs_ttl c)"

definition EffectiveTTL :: "CooldownState \<Rightarrow> ModelProvider \<Rightarrow> duration" where
  "EffectiveTTL c provider = effectiveTTLLocked c provider"

definition lookupCooldown ::
    "CooldownState \<Rightarrow> ModelProvider \<Rightarrow> string \<Rightarrow> string \<Rightarrow> CooldownPolicyScope \<Rightarrow> instant
     \<Rightarrow> CooldownState \<times> (instant \<times> CooldownKind) option" where
  "lookupCooldown c provider keyID model scope now =
     (if keyID = '''' \<and> \<not> IsKeylessProvider provider then (c, None)
      else if Scope_OrDefault scope = CooldownScopeModel \<and> model = '''' then (c, None)
      else
        let k = markKey provider keyID model scope in
        case mapget (cs_cooldowns c) k of
          None \<Rightarrow> (c, None)
        | Some r \<Rightarrow>
            if \<not> now < cr_expiresAt r then (c\<lparr>cs_cooldowns := mapdel k (cs_cooldowns c)\<rparr>, None)
            else (c, Some (cr_expiresAt r, cr_kind r)))"

definition IsCoolingDown :: "CooldownState \<Rightarrow> ModelProvider \<Rightarrow> string \<Rightarrow> instant \<Rightarrow> CooldownState \<times> bool" where
  "IsCoolingDown c provider keyID now =
     (let (c', r) = lookupCooldown c provider keyID '''' CooldownScopeKey now in (c', r \<noteq> None))"

definition IsCoolingDownForModel ::
    "CooldownState \<Rightarrow> ModelProvider \<Rightarrow> string \<Rightarrow> string \<Rightarrow> instant \<Rightarrow> CooldownState \<times> bool" where
  "IsCoolingDownForModel c provider keyID model now =
     (let (c', r) = lookupCooldown c provider keyID model CooldownScopeModel now in (c', r \<noteq> None))"

definition lookupSuppressed ::
    "CooldownState \<Rightarrow> ModelProvider \<Rightarrow> string \<Rightarrow> string \<Rightarrow> instant
     \<Rightarrow> CooldownState \<times> (instant \<times> CooldownKind \<times> CooldownPolicyScope) option" where
  "lookupSuppressed c provider keyID model now =
     (let (c1, r1) = lookupCooldown c provider keyID '''' CooldownScopeKey now in
      case r1 of
        Some (t, k) \<Rightarrow> (c1, Some (t, k, CooldownScopeKey))
      | None \<Rightarrow>
          if model = '''' then (c1, None)
          else
            let (c2, r2) = lookupCooldown c1 provider keyID model CooldownScopeModel now in
            case r2 of
              Some (t, k) \<Rightarrow> (c2, Some (t, k, CooldownScopeModel))
            | None \<Rightarrow> (c2, None))"

fun shortest_loop ::
    "CooldownState \<Rightarrow> ModelProvider \<Rightarrow> string \<Rightarrow> Key list \<Rightarrow> instant \<Rightarrow> duration option
     \<Rightarrow> CooldownState \<times> duration option" where
  "shortest_loop c provider model [] now shortest = (c, shortest)"
| "shortest_loop c provider model (k # ks) now shortest =
     (let (c', r) = lookupSuppressed c provider (k_ID k) model now in
      case r of
        None \<Rightarrow> shortest_loop c' provider model ks now shortest
      | Some (expiresAt, _, _) \<Rightarrow>
          let remaining = (if expiresAt - now < 0 then 0 else expiresAt - now) in
          shortest_loop c' provider model ks now
            (case shortest of
               None \<Rightarrow> Some remaining
             | Some s \<Rightarrow> if remaining < s then Some remaining else Some s))"

definition ShortestRemainingCooldown ::
    "CooldownState \<Rightarrow> ModelProvider \<Rightarrow> string \<Rightarrow> Key list \<Rightarrow> instant \<Rightarrow> CooldownState \<times> duration" where
  "ShortestRemainingCooldown c provider model keys now =
     (let (c', s) = shortest_loop c provider model keys now None in
      (c', case s of None \<Rightarrow> 0 | Some d \<Rightarrow> d))"

text \<open>Go divides towards zero; the guard makes \<open>remaining\<close> positive, where that is \<open>div\<close>.\<close>

definition retryAfterSecondsHint :: "duration \<Rightarrow> int" where
  "retryAfterSecondsHint remaining =
     (if remaining \<le> 0 then 0
      else
        let secs = remaining div go_second;
            secs1 = (if remaining mod go_second \<noteq> 0 then secs + 1 else secs)
        in if secs1 < 1 then 1 else secs1)"

subsection \<open>Counters\<close>

text \<open>The \<open>per...MarkLocked\<close> helpers return a pointer to the bucket_of of a key, creating it on demand,
  and the caller increments one field through it: one update of the map.\<close>

definition on_counters ::
    "(ProviderKindCounters \<Rightarrow> ProviderKindCounters) \<Rightarrow> 'k \<Rightarrow> ('k, ProviderKindCounters) gomap
     \<Rightarrow> ('k, ProviderKindCounters) gomap" where
  "on_counters f k m =
     (case mapget m k of
        Some pc \<Rightarrow> mapput k (f pc) m
      | None \<Rightarrow> mapput k (f zeroCounters) m)"

definition perProviderMarkLocked ::
    "(ProviderKindCounters \<Rightarrow> ProviderKindCounters) \<Rightarrow> ModelProvider \<Rightarrow> CooldownState \<Rightarrow> CooldownState" where
  "perProviderMarkLocked f provider c =
     c\<lparr>cs_perProvider := on_counters f provider (cs_perProvider c)\<rparr>"

definition perProviderModelMarkLocked ::
    "(ProviderKindCounters \<Rightarrow> ProviderKindCounters) \<Rightarrow> ModelProvider \<Rightarrow> string \<Rightarrow> CooldownState \<Rightarrow> CooldownState" where
  "perProviderModelMarkLocked f provider model c =
     c\<lparr>cs_perProviderModel := on_counters f (provider @ ''::'' @ model) (cs_perProviderModel c)\<rparr>"

definition perProviderScopeMarkLocked ::
    "(ProviderKindCounters \<Rightarrow> ProviderKindCounters) \<Rightarrow> ModelProvider \<Rightarrow> CooldownPolicyScope
     \<Rightarrow> CooldownState \<Rightarrow> CooldownState" where
  "perProviderScopeMarkLocked f provider scope c =
     (if Scope_OrDefault scope = CooldownScopeModel
      then c\<lparr>cs_perProviderScopeModel := on_counters f provider (cs_perProviderScopeModel c)\<rparr>
      else c\<lparr>cs_perProviderScopeKey := on_counters f provider (cs_perProviderScopeKey c)\<rparr>)"

definition rl_mark :: "ProviderKindCounters \<Rightarrow> ProviderKindCounters" where
  "rl_mark pc = pc\<lparr>pk_RateLimit := (pk_RateLimit pc)\<lparr>kc_MarkCount := kc_MarkCount (pk_RateLimit pc) + 1\<rparr>\<rparr>"

definition quota_mark :: "ProviderKindCounters \<Rightarrow> ProviderKindCounters" where
  "quota_mark pc = pc\<lparr>pk_Quota := (pk_Quota pc)\<lparr>kc_MarkCount := kc_MarkCount (pk_Quota pc) + 1\<rparr>\<rparr>"

definition rl_suppressed :: "ProviderKindCounters \<Rightarrow> ProviderKindCounters" where
  "rl_suppressed pc =
     pc\<lparr>pk_RateLimit := (pk_RateLimit pc)\<lparr>kc_SuppressedCount := kc_SuppressedCount (pk_RateLimit pc) + 1\<rparr>\<rparr>"

definition quota_suppressed :: "ProviderKindCounters \<Rightarrow> ProviderKindCounters" where
  "quota_suppressed pc =
     pc\<lparr>pk_Quota := (pk_Quota pc)\<lparr>kc_SuppressedCount := kc_SuppressedCount (pk_Quota pc) + 1\<rparr>\<rparr>"

subsection \<open>Marking\<close>

definition store_mark :: "string \<Rightarrow> CooldownKind \<Rightarrow> instant \<Rightarrow> CooldownState \<Rightarrow> CooldownState" where
  "store_mark k kind expiresAt c =
     c\<lparr>cs_cooldowns := mapput k \<lparr>cr_expiresAt = expiresAt, cr_kind = kind\<rparr> (cs_cooldowns c)\<rparr>"

definition attribute_mark ::
    "ModelProvider \<Rightarrow> string \<Rightarrow> CooldownKind \<Rightarrow> CooldownPolicyScope \<Rightarrow> CooldownState \<Rightarrow> CooldownState" where
  "attribute_mark provider model kind scope c =
     (let idx = kindIndex kind;
          c1 = c\<lparr>cs_markByKind := (cs_markByKind c)[idx := cs_markByKind c ! idx + 1]\<rparr>;
          c2 = (if kind = CooldownKindRateLimit then perProviderMarkLocked rl_mark provider c1
                else if kind = CooldownKindQuota then perProviderMarkLocked quota_mark provider c1
                else c1)
      in if Scope_OrDefault scope = CooldownScopeModel \<and> model \<noteq> '''' \<and> kind \<noteq> '''' then
           let c3 = (if kind = CooldownKindRateLimit then perProviderModelMarkLocked rl_mark provider model c2
                     else if kind = CooldownKindQuota then perProviderModelMarkLocked quota_mark provider model c2
                     else c2)
           in (if kind = CooldownKindRateLimit then perProviderScopeMarkLocked rl_mark provider CooldownScopeModel c3
               else if kind = CooldownKindQuota then perProviderScopeMarkLocked quota_mark provider CooldownScopeModel c3
               else c3)
         else if kind \<noteq> '''' then
           (if kind = CooldownKindRateLimit then perProviderScopeMarkLocked rl_mark provider CooldownScopeKey c2
            else if kind = CooldownKindQuota then perProviderScopeMarkLocked quota_mark provider CooldownScopeKey c2
            else c2)
         else c2)"

definition MarkWithTTL ::
    "CooldownState \<Rightarrow> ModelProvider \<Rightarrow> string \<Rightarrow> string \<Rightarrow> duration \<Rightarrow> CooldownKind \<Rightarrow> CooldownPolicyScope
     \<Rightarrow> instant \<Rightarrow> CooldownState" where
  "MarkWithTTL c provider keyID model ttl kind scope now =
     (if keyID = '''' \<and> \<not> IsKeylessProvider provider then c
      else if Scope_OrDefault scope = CooldownScopeModel \<and> model = '''' then c
      else
        let effective = (if ttl \<le> 0 then effectiveTTLLocked c provider else ttl);
            c1 = store_mark (markKey provider keyID model scope) kind (now + effective) c;
            c2 = attribute_mark provider model kind scope c1
        in c2\<lparr>cs_markCount := cs_markCount c2 + 1\<rparr>)"

definition Mark :: "CooldownState \<Rightarrow> ModelProvider \<Rightarrow> string \<Rightarrow> instant \<Rightarrow> CooldownState" where
  "Mark c provider keyID now = MarkWithTTL c provider keyID '''' 0 '''' CooldownScopeKey now"

subsection \<open>Monitoring and maintenance\<close>

definition Size :: "CooldownState \<Rightarrow> nat" where
  "Size c = length (cs_cooldowns c)"

record CooldownEntry =
  ce_Provider :: ModelProvider
  ce_KeyID :: string
  ce_Model :: string
  ce_ExpiresAt :: instant
  ce_Remaining :: duration
  ce_Kind :: CooldownKind

fun snapshot_loop :: "instant \<Rightarrow> (string, CooldownRecord) gomap \<Rightarrow> CooldownEntry list" where
  "snapshot_loop now [] = []"
| "snapshot_loop now ((k, r) # rest) =
     (if \<not> now < cr_expiresAt r then snapshot_loop now rest
      else
        let (prov, keyID, model) = parseCooldownKey k in
        if prov = '''' then snapshot_loop now rest
        else \<lparr>ce_Provider = prov, ce_KeyID = keyID, ce_Model = model, ce_ExpiresAt = cr_expiresAt r,
              ce_Remaining = cr_expiresAt r - now, ce_Kind = cr_kind r\<rparr> # snapshot_loop now rest)"

definition Snapshot :: "CooldownState \<Rightarrow> instant \<Rightarrow> CooldownEntry list" where
  "Snapshot c now = snapshot_loop now (cs_cooldowns c)"

definition ClearKey :: "CooldownState \<Rightarrow> ModelProvider \<Rightarrow> string \<Rightarrow> string \<Rightarrow> CooldownState \<times> bool" where
  "ClearKey c provider keyID model =
     (if keyID = '''' then (c, False)
      else
        let k = (if model \<noteq> '''' then keyModel provider keyID model else key provider keyID) in
        case mapget (cs_cooldowns c) k of
          None \<Rightarrow> (c, False)
        | Some _ \<Rightarrow> (c\<lparr>cs_cooldowns := mapdel k (cs_cooldowns c)\<rparr>, True))"

record CooldownStats =
  st_MarkCount :: uint64
  st_SuppressedCount :: uint64
  st_CurrentActiveCount :: nat
  st_ByKind :: ProviderKindCounters
  st_PerProvider :: "(ModelProvider, ProviderKindCounters) gomap"
  st_PerProviderModel :: "(string, ProviderKindCounters) gomap"
  st_PerProviderScopeKey :: "(ModelProvider, ProviderKindCounters) gomap"
  st_PerProviderScopeModel :: "(ModelProvider, ProviderKindCounters) gomap"

definition Stats :: "CooldownState \<Rightarrow> CooldownStats" where
  "Stats c =
     \<lparr>st_MarkCount = cs_markCount c, st_SuppressedCount = cs_suppressedCount c,
      st_CurrentActiveCount = length (cs_cooldowns c),
      st_ByKind =
        \<lparr>pk_RateLimit = \<lparr>kc_MarkCount = cs_markByKind c ! kindIndex CooldownKindRateLimit,
                        kc_SuppressedCount = cs_suppressedByKind c ! kindIndex CooldownKindRateLimit\<rparr>,
         pk_Quota = \<lparr>kc_MarkCount = cs_markByKind c ! kindIndex CooldownKindQuota,
                    kc_SuppressedCount = cs_suppressedByKind c ! kindIndex CooldownKindQuota\<rparr>\<rparr>,
      st_PerProvider = cs_perProvider c, st_PerProviderModel = cs_perProviderModel c,
      st_PerProviderScopeKey = cs_perProviderScopeKey c,
      st_PerProviderScopeModel = cs_perProviderScopeModel c\<rparr>"

text \<open>One tick of \<open>runGCLocked\<close>.\<close>

definition gc_tick :: "instant \<Rightarrow> CooldownState \<Rightarrow> CooldownState" where
  "gc_tick now c =
     c\<lparr>cs_cooldowns := filter (\<lambda>(k, r). now < cr_expiresAt r) (cs_cooldowns c)\<rparr>"

subsection \<open>The key pool filter\<close>

definition attribute_suppression ::
    "ModelProvider \<Rightarrow> string \<Rightarrow> CooldownKind \<Rightarrow> CooldownPolicyScope \<Rightarrow> CooldownState \<Rightarrow> CooldownState" where
  "attribute_suppression provider model kind matchedScope c =
     (let c0 = c\<lparr>cs_suppressedCount := cs_suppressedCount c + 1\<rparr>;
          idx = kindIndex kind
      in if kind = '''' then c0
         else
           let c1 = c0\<lparr>cs_suppressedByKind := (cs_suppressedByKind c0)[idx := cs_suppressedByKind c0 ! idx + 1]\<rparr>;
               c2 = (if kind = CooldownKindRateLimit then perProviderMarkLocked rl_suppressed provider c1
                     else if kind = CooldownKindQuota then perProviderMarkLocked quota_suppressed provider c1
                     else c1)
           in if matchedScope = CooldownScopeModel \<and> model \<noteq> '''' then
                let c3 = (if kind = CooldownKindRateLimit then perProviderModelMarkLocked rl_suppressed provider model c2
                          else if kind = CooldownKindQuota then perProviderModelMarkLocked quota_suppressed provider model c2
                          else c2)
                in (if kind = CooldownKindRateLimit then perProviderScopeMarkLocked rl_suppressed provider CooldownScopeModel c3
                    else if kind = CooldownKindQuota then perProviderScopeMarkLocked quota_suppressed provider CooldownScopeModel c3
                    else c3)
              else
                (if kind = CooldownKindRateLimit then perProviderScopeMarkLocked rl_suppressed provider CooldownScopeKey c2
                 else if kind = CooldownKindQuota then perProviderScopeMarkLocked quota_suppressed provider CooldownScopeKey c2
                 else c2))"

fun filter_loop ::
    "CooldownState \<Rightarrow> ModelProvider \<Rightarrow> string \<Rightarrow> Key list \<Rightarrow> instant \<Rightarrow> CooldownState \<times> Key list" where
  "filter_loop c provider model [] now = (c, [])"
| "filter_loop c provider model (k # ks) now =
     (let (c1, r) = lookupSuppressed c provider (k_ID k) model now in
      case r of
        None \<Rightarrow> (let (c2, out) = filter_loop c1 provider model ks now in (c2, k # out))
      | Some (_, kind, matchedScope) \<Rightarrow>
          filter_loop (attribute_suppression provider model kind matchedScope c1) provider model ks now)"

text \<open>The filter closure of \<open>AsFilter\<close>. The last component is the Retry-After value it stamps on the
  request context, if it stamps one; \<open>ctx\<close> says whether the caller passed a context.\<close>

definition AsFilter ::
    "CooldownState \<Rightarrow> bool \<Rightarrow> ModelProvider \<Rightarrow> string \<Rightarrow> Key list \<Rightarrow> instant
     \<Rightarrow> CooldownState \<times> Key list \<times> int option" where
  "AsFilter c ctx provider model keys now =
     (if length keys = 0 then (c, keys, None)
      else
        let (c1, out) = filter_loop c provider model keys now in
        if length out = 0 \<and> ctx then
          let (c2, rem) = ShortestRemainingCooldown c1 provider model keys now in
          (c2, out, if rem > 0 then Some (retryAfterSecondsHint rem) else None)
        else (c1, out, None))"

subsection \<open>What a lookup sees\<close>

definition active_clock :: "CooldownState \<Rightarrow> string \<Rightarrow> instant \<Rightarrow> CooldownRecord option" where
  "active_clock c k now =
     (case mapget (cs_cooldowns c) k of
        Some r \<Rightarrow> if now < cr_expiresAt r then Some r else None
      | None \<Rightarrow> None)"

definition same_clocks :: "instant \<Rightarrow> CooldownState \<Rightarrow> CooldownState \<Rightarrow> bool" where
  "same_clocks now c c' \<longleftrightarrow>
     (\<forall>k t. now \<le> t \<longrightarrow> active_clock c' k t = active_clock c k t) \<and>
     (wf_map (cs_cooldowns c) \<longrightarrow> wf_map (cs_cooldowns c'))"

definition same_rest :: "CooldownState \<Rightarrow> CooldownState \<Rightarrow> bool" where
  "same_rest c c' \<longleftrightarrow> (\<exists>m. c' = c\<lparr>cs_cooldowns := m\<rparr>)"

lemma same_clocks_refl [simp]: "same_clocks now c c"
  by (simp add: same_clocks_def)

lemma same_clocks_trans [trans]:
  "same_clocks now c c1 \<Longrightarrow> same_clocks now c1 c2 \<Longrightarrow> same_clocks now c c2"
  by (simp add: same_clocks_def)

lemma same_clocks_active: "same_clocks now c c' \<Longrightarrow> active_clock c' k now = active_clock c k now"
  by (simp add: same_clocks_def)

lemma same_clocks_eq: "cs_cooldowns c' = cs_cooldowns c \<Longrightarrow> same_clocks now c c'"
  by (simp add: same_clocks_def active_clock_def)

lemma same_rest_refl [simp]: "same_rest c c"
  unfolding same_rest_def by (rule exI [of _ "cs_cooldowns c"]) simp

lemma same_rest_trans [trans]: "same_rest c c1 \<Longrightarrow> same_rest c1 c2 \<Longrightarrow> same_rest c c2"
  by (auto simp: same_rest_def)

lemma same_rest_upd [simp]: "same_rest c (c\<lparr>cs_cooldowns := m\<rparr>)"
  by (auto simp: same_rest_def)

lemma same_clocks_prune:
  assumes "mapget (cs_cooldowns c) k = Some r" "\<not> now < cr_expiresAt r"
  shows "same_clocks now c (c\<lparr>cs_cooldowns := mapdel k (cs_cooldowns c)\<rparr>)"
  using assms by (auto simp: same_clocks_def active_clock_def)

lemma same_clocks_gc:
  assumes "wf_map (cs_cooldowns c)"
  shows "same_clocks now c (gc_tick now c)"
  using assms by (auto simp: same_clocks_def active_clock_def gc_tick_def mapget_filter split: option.splits)

definition addressable :: "ModelProvider \<Rightarrow> string \<Rightarrow> string \<Rightarrow> CooldownPolicyScope \<Rightarrow> bool" where
  "addressable provider keyID model scope \<longleftrightarrow>
     (keyID \<noteq> '''' \<or> IsKeylessProvider provider) \<and>
     (Scope_OrDefault scope = CooldownScopeModel \<longrightarrow> model \<noteq> '''')"

lemma lookupCooldown_result:
  "snd (lookupCooldown c provider keyID model scope now) =
     (if addressable provider keyID model scope
      then map_option (\<lambda>r. (cr_expiresAt r, cr_kind r)) (active_clock c (markKey provider keyID model scope) now)
      else None)"
  by (auto simp: lookupCooldown_def addressable_def active_clock_def Let_def split: option.splits)

lemma lookupCooldown_frame:
  "same_clocks now c (fst (lookupCooldown c provider keyID model scope now))"
  "same_rest c (fst (lookupCooldown c provider keyID model scope now))"
  by (auto simp: lookupCooldown_def Let_def same_clocks_prune split: option.splits)

definition suppressed_by ::
    "CooldownState \<Rightarrow> ModelProvider \<Rightarrow> string \<Rightarrow> string \<Rightarrow> instant
     \<Rightarrow> (instant \<times> CooldownKind \<times> CooldownPolicyScope) option" where
  "suppressed_by c provider keyID model now =
     (if keyID = '''' \<and> \<not> IsKeylessProvider provider then None
      else
        case active_clock c (key provider keyID) now of
          Some r \<Rightarrow> Some (cr_expiresAt r, cr_kind r, CooldownScopeKey)
        | None \<Rightarrow>
            if model = '''' then None
            else map_option (\<lambda>r. (cr_expiresAt r, cr_kind r, CooldownScopeModel))
                   (active_clock c (keyModel provider keyID model) now))"

lemma suppressed_by_cong:
  "same_clocks now c c' \<Longrightarrow> suppressed_by c' provider keyID model now = suppressed_by c provider keyID model now"
  unfolding suppressed_by_def by (simp only: same_clocks_active)

lemma markKey_key [simp]: "markKey provider keyID model CooldownScopeKey = key provider keyID"
  by (simp add: markKey_def Scope_OrDefault_def)

lemma markKey_model [simp]: "markKey provider keyID model CooldownScopeModel = keyModel provider keyID model"
  by (simp add: markKey_def Scope_OrDefault_def)

lemma addressable_key [simp]:
  "addressable provider keyID model CooldownScopeKey \<longleftrightarrow> keyID \<noteq> '''' \<or> IsKeylessProvider provider"
  by (simp add: addressable_def Scope_OrDefault_def)

lemma addressable_model [simp]:
  "addressable provider keyID model CooldownScopeModel \<longleftrightarrow>
     (keyID \<noteq> '''' \<or> IsKeylessProvider provider) \<and> model \<noteq> ''''"
  by (simp add: addressable_def Scope_OrDefault_def)

lemma lookupSuppressed_spec:
  "snd (lookupSuppressed c provider keyID model now) = suppressed_by c provider keyID model now
   \<and> same_clocks now c (fst (lookupSuppressed c provider keyID model now))
   \<and> same_rest c (fst (lookupSuppressed c provider keyID model now))"
proof -
  obtain c1 r1 where l1: "lookupCooldown c provider keyID '''' CooldownScopeKey now = (c1, r1)"
    by (cases "lookupCooldown c provider keyID '''' CooldownScopeKey now")
  obtain c2 r2 where l2: "lookupCooldown c1 provider keyID model CooldownScopeModel now = (c2, r2)"
    by (cases "lookupCooldown c1 provider keyID model CooldownScopeModel now")
  have f1: "same_clocks now c c1" "same_rest c c1"
    using l1 by (metis fst_conv lookupCooldown_frame(1), metis fst_conv lookupCooldown_frame(2))
  have f2: "same_clocks now c1 c2" "same_rest c1 c2"
    using l2 by (metis fst_conv lookupCooldown_frame(1), metis fst_conv lookupCooldown_frame(2))
  note f12 = same_clocks_trans [OF f1(1) f2(1)] same_rest_trans [OF f1(2) f2(2)]
  have r1: "r1 = (if keyID \<noteq> '''' \<or> IsKeylessProvider provider
      then map_option (\<lambda>r. (cr_expiresAt r, cr_kind r)) (active_clock c (key provider keyID) now) else None)"
    using lookupCooldown_result [of c provider keyID "''''" CooldownScopeKey now] l1 by simp
  have r2: "r2 = (if (keyID \<noteq> '''' \<or> IsKeylessProvider provider) \<and> model \<noteq> ''''
      then map_option (\<lambda>r. (cr_expiresAt r, cr_kind r)) (active_clock c (keyModel provider keyID model) now) else None)"
    using lookupCooldown_result [of c1 provider keyID model CooldownScopeModel now] l2
    by (simp add: same_clocks_active [OF f1(1)] del: IsKeylessProvider_iff)
  have eq: "lookupSuppressed c provider keyID model now =
      (case r1 of
         Some (t, k) \<Rightarrow> (c1, Some (t, k, CooldownScopeKey))
       | None \<Rightarrow> if model = '''' then (c1, None)
                 else (c2, map_option (\<lambda>(t, k). (t, k, CooldownScopeModel)) r2))"
    by (simp add: lookupSuppressed_def l1 l2 split: option.splits)
  show ?thesis
    unfolding eq suppressed_by_def r1 r2 using f1(1) f1(2) f12
    by (simp add: option.map_comp comp_def split: option.splits)
qed

lemma attribute_suppression_clocks [simp]:
  "cs_cooldowns (attribute_suppression provider model kind scope c) = cs_cooldowns c"
  "cs_suppressedCount (attribute_suppression provider model kind scope c) = cs_suppressedCount c + 1"
  "cs_ttl (attribute_suppression provider model kind scope c) = cs_ttl c"
  by (simp_all add: attribute_suppression_def Let_def perProviderMarkLocked_def
      perProviderModelMarkLocked_def perProviderScopeMarkLocked_def)

lemma same_rest_count: "same_rest c c' \<Longrightarrow> cs_suppressedCount c' = cs_suppressedCount c"
  by (auto simp: same_rest_def)

lemma filter_loop_spec:
  "snd (filter_loop c provider model ks now) =
     filter (\<lambda>k. suppressed_by c provider (k_ID k) model now = None) ks
   \<and> same_clocks now c (fst (filter_loop c provider model ks now))
   \<and> cs_suppressedCount (fst (filter_loop c provider model ks now)) =
       cs_suppressedCount c
       + of_nat (length (filter (\<lambda>k. suppressed_by c provider (k_ID k) model now \<noteq> None) ks))"
proof (induction ks arbitrary: c)
  case Nil
  then show ?case by simp
next
  case (Cons k ks)
  obtain c1 r where l: "lookupSuppressed c provider (k_ID k) model now = (c1, r)"
    by (cases "lookupSuppressed c provider (k_ID k) model now")
  have r: "r = suppressed_by c provider (k_ID k) model now" and f: "same_clocks now c c1" "same_rest c c1"
    using lookupSuppressed_spec [of c provider "k_ID k" model now] l by simp_all
  note count = same_rest_count [OF f(2)]
  show ?case
  proof (cases r)
    case None
    then show ?thesis
      using Cons.IH [of c1] l r f count
      by (auto simp: suppressed_by_cong [OF f(1)] split: prod.splits intro: same_clocks_trans)
  next
    case (Some a)
    obtain t kind scope where a: "a = (t, kind, scope)" by (cases a)
    define c2 where "c2 = attribute_suppression provider model kind scope c1"
    have c2: "same_clocks now c c2"
      using f(1) same_clocks_trans same_clocks_eq by (metis attribute_suppression_clocks(1) c2_def)
    have sb: "suppressed_by c provider (k_ID k) model now = Some (t, kind, scope)"
      using r Some a by simp
    have fl: "filter_loop c provider model (k # ks) now = filter_loop c2 provider model ks now"
      by (simp add: l Some a c2_def)
    have cnt: "cs_suppressedCount c2 = cs_suppressedCount c + 1"
      by (simp add: c2_def count)
    show ?thesis
      unfolding fl using Cons.IH [of c2] sb cnt c2
      by (simp add: suppressed_by_cong [OF c2] same_clocks_trans [OF c2])
  qed
qed

definition min_step :: "int \<Rightarrow> int option \<Rightarrow> int option" where
  "min_step d acc = Some (case acc of None \<Rightarrow> d | Some s \<Rightarrow> min d s)"

lemma fold_min_step:
  "fold min_step ds acc =
     (case acc of
        None \<Rightarrow> if ds = [] then None else Some (Min (set ds))
      | Some s \<Rightarrow> Some (Min (insert s (set ds))))"
proof (induction ds arbitrary: acc)
  case (Cons d ds)
  then show ?case
    by (cases acc; cases "ds = []") (simp_all add: min_step_def min.assoc min.commute min.left_commute)
qed (simp split: option.splits)

definition remainings ::
    "CooldownState \<Rightarrow> ModelProvider \<Rightarrow> string \<Rightarrow> Key list \<Rightarrow> instant \<Rightarrow> duration list" where
  "remainings c provider model ks now =
     [fst s - now. k \<leftarrow> ks, Some s \<leftarrow> [suppressed_by c provider (k_ID k) model now]]"

lemma suppressed_by_future:
  "suppressed_by c provider keyID model now = Some (t, kind, scope) \<Longrightarrow> now < t"
  by (auto simp: suppressed_by_def active_clock_def split: option.splits if_splits)

lemma shortest_loop_spec:
  "same_clocks now c (fst (shortest_loop c provider model ks now acc)) \<and>
   same_rest c (fst (shortest_loop c provider model ks now acc)) \<and>
   snd (shortest_loop c provider model ks now acc) = fold min_step (remainings c provider model ks now) acc"
proof (induction ks arbitrary: c acc)
  case Nil
  then show ?case by (simp add: remainings_def)
next
  case (Cons k ks)
  obtain c1 r where l: "lookupSuppressed c provider (k_ID k) model now = (c1, r)"
    by (cases "lookupSuppressed c provider (k_ID k) model now")
  have r: "suppressed_by c provider (k_ID k) model now = r" and f: "same_clocks now c c1" "same_rest c c1"
    using lookupSuppressed_spec [of c provider "k_ID k" model now] l by simp_all
  have rest: "remainings c1 provider model ks now = remainings c provider model ks now"
    by (simp add: remainings_def suppressed_by_cong [OF f(1)])
  note IH = Cons.IH [of c1] same_clocks_trans [OF f(1)] same_rest_trans [OF f(2)]
  show ?case
  proof (cases r)
    case None
    then have "shortest_loop c provider model (k # ks) now acc = shortest_loop c1 provider model ks now acc"
      by (simp add: l)
    then show ?thesis
      using IH None r rest by (simp add: remainings_def)
  next
    case (Some a)
    obtain t kind scope where a: "a = (t, kind, scope)" by (cases a)
    have "now < t" using r Some a suppressed_by_future by blast
    then have "shortest_loop c provider model (k # ks) now acc
        = shortest_loop c1 provider model ks now (min_step (t - now) acc)"
      by (auto simp: l Some a min_step_def min_def Let_def split: option.splits)
    then show ?thesis
      using IH Some a r rest by (simp add: remainings_def)
  qed
qed

subsection \<open>Storage keys can be read back\<close>

definition colon_free :: "string \<Rightarrow> bool" where
  "colon_free s \<longleftrightarrow> CHR '':'' \<notin> set s"

definition model_name_ok :: "string \<Rightarrow> bool" where
  "model_name_ok m \<longleftrightarrow> \<not> strings_Contains m ''::'' \<and> (m = [] \<or> hd m \<noteq> CHR '':'')"

lemma LastIndex_None: "strings_LastIndex s sub = None \<longleftrightarrow> \<not> strings_Contains s sub"
  by (induction s) (auto split: option.splits)

lemma LastIndex_sep:
  assumes "model_name_ok m"
  shows "strings_LastIndex (u @ ''::'' @ m) ''::'' = Some (length u)"
proof (induction u)
  case Nil
  have "strings_LastIndex m ''::'' = None"
    using assms by (simp add: LastIndex_None model_name_ok_def)
  moreover have "\<not> strings_HasPrefix (CHR '':'' # m) ''::''"
    using assms by (cases m) (auto simp: model_name_ok_def strings_HasPrefix_def)
  ultimately show ?case by (simp add: strings_HasPrefix_def)
next
  case (Cons c u)
  then show ?case by simp
qed

lemma Index_sep:
  assumes "colon_free p"
  shows "strings_Index (p @ ''::'' @ t) ''::'' = Some (length p)"
  using assms by (induction p) (auto simp: colon_free_def strings_HasPrefix_def)

lemma Index_free:
  assumes "colon_free p"
  shows "strings_Index p ''::'' = None"
  using assms by (induction p) (auto simp: colon_free_def strings_HasPrefix_def)

lemma parse_three:
  assumes "colon_free p" "model_name_ok m"
  shows "parseCooldownKey (p @ ''::'' @ k @ ''::'' @ m) = (p, k, m)"
proof -
  have "strings_LastIndex ((p @ ''::'' @ k) @ ''::'' @ m) ''::'' = Some (length (p @ ''::'' @ k))"
    by (rule LastIndex_sep [OF assms(2)])
  moreover have "strings_Index (p @ ''::'' @ k) ''::'' = Some (length p)"
    by (rule Index_sep [OF assms(1)])
  ultimately show ?thesis by (simp add: parseCooldownKey_def eval_nat_numeral)
qed

lemma parse_two:
  assumes "colon_free p" "model_name_ok m"
  shows "parseCooldownKey (p @ ''::'' @ m) = (p, '''', m)"
  using LastIndex_sep [OF assms(2), of p] Index_free [OF assms(1)] by (simp add: parseCooldownKey_def)

lemma model_name_ok_Nil [simp]: "model_name_ok []"
  by (simp add: model_name_ok_def)

lemma parse_key: "colon_free p \<Longrightarrow> parseCooldownKey (key p k) = (p, k, '''')"
  using parse_three [of p "[]" k] by (simp add: key_def)

lemma parse_keyModel:
  "colon_free p \<Longrightarrow> model_name_ok m \<Longrightarrow>
     parseCooldownKey (keyModel p k m) = (p, if IsKeylessProvider p then '''' else k, m)"
  using parse_three [of p m k] parse_two [of p m] by (simp add: keyModel_def del: IsKeylessProvider_iff)

lemma parse_markKey:
  "colon_free p \<Longrightarrow> model_name_ok m \<Longrightarrow>
     parseCooldownKey (markKey p k m s) =
       (p, if Scope_OrDefault s = CooldownScopeModel \<and> IsKeylessProvider p then '''' else k,
        if Scope_OrDefault s = CooldownScopeModel then m else '''')"
  by (simp add: markKey_def parse_key parse_keyModel del: IsKeylessProvider_iff)

text \<open>The identity of a cooldown: two marks share a clock when their targets are equal.\<close>

definition clock_target ::
    "ModelProvider \<Rightarrow> string \<Rightarrow> string \<Rightarrow> CooldownPolicyScope \<Rightarrow> string \<times> string \<times> string" where
  "clock_target p k m s =
     (p, if Scope_OrDefault s = CooldownScopeModel \<and> IsKeylessProvider p then '''' else k,
      if Scope_OrDefault s = CooldownScopeModel then m else '''')"

lemma markKey_target:
  assumes "addressable p k m s"
  shows "markKey p k m s = (case clock_target p k m s of (p, k, m) \<Rightarrow> if m = '''' then key p k else keyModel p k m)"
proof (cases "Scope_OrDefault s = CooldownScopeModel")
  case True
  then have "m \<noteq> ''''" using assms by (simp add: addressable_def)
  then show ?thesis by (simp add: True clock_target_def markKey_def keyModel_def del: IsKeylessProvider_iff)
next
  case False
  then show ?thesis by (simp add: clock_target_def markKey_def)
qed

lemma markKey_inj:
  assumes "colon_free p" "model_name_ok m" "colon_free p'" "model_name_ok m'"
    and "addressable p k m s" "addressable p' k' m' s'"
  shows "markKey p k m s = markKey p' k' m' s' \<longleftrightarrow> clock_target p k m s = clock_target p' k' m' s'"
proof
  assume "markKey p k m s = markKey p' k' m' s'"
  then have "parseCooldownKey (markKey p k m s) = parseCooldownKey (markKey p' k' m' s')" by simp
  then show "clock_target p k m s = clock_target p' k' m' s'"
    unfolding clock_target_def parse_markKey [OF assms(1, 2)] parse_markKey [OF assms(3, 4)] .
next
  assume "clock_target p k m s = clock_target p' k' m' s'"
  then show "markKey p k m s = markKey p' k' m' s'"
    by (simp only: markKey_target [OF assms(5)] markKey_target [OF assms(6)])
qed

subsection \<open>What a mark does to the clocks\<close>

lemma attribute_mark_clocks [simp]:
  "cs_cooldowns (attribute_mark provider model kind scope c) = cs_cooldowns c"
  "cs_ttl (attribute_mark provider model kind scope c) = cs_ttl c"
  "cs_ttlOverrides (attribute_mark provider model kind scope c) = cs_ttlOverrides c"
  "cs_markCount (attribute_mark provider model kind scope c) = cs_markCount c"
  by (simp_all add: attribute_mark_def Let_def perProviderMarkLocked_def
      perProviderModelMarkLocked_def perProviderScopeMarkLocked_def)

definition mark_deadline :: "CooldownState \<Rightarrow> ModelProvider \<Rightarrow> duration \<Rightarrow> instant \<Rightarrow> instant" where
  "mark_deadline c provider ttl now = now + (if ttl \<le> 0 then effectiveTTLLocked c provider else ttl)"

lemma MarkWithTTL_active:
  "active_clock (MarkWithTTL c p k m ttl kind s now) sk t =
     (if addressable p k m s \<and> sk = markKey p k m s
      then if t < mark_deadline c p ttl now
           then Some \<lparr>cr_expiresAt = mark_deadline c p ttl now, cr_kind = kind\<rparr> else None
      else active_clock c sk t)"
  by (simp add: MarkWithTTL_def addressable_def mark_deadline_def Let_def store_mark_def active_clock_def)

definition mark_covers ::
    "ModelProvider \<Rightarrow> string \<Rightarrow> string \<Rightarrow> CooldownPolicyScope \<Rightarrow> ModelProvider \<Rightarrow> string \<Rightarrow> string \<Rightarrow> bool" where
  "mark_covers p k m s p' k' m' \<longleftrightarrow> p' = p \<and> k' = k \<and> (Scope_OrDefault s = CooldownScopeModel \<longrightarrow> m' = m)"

definition named_ok :: "ModelProvider \<Rightarrow> string \<Rightarrow> string \<Rightarrow> bool" where
  "named_ok p k m \<longleftrightarrow> colon_free p \<and> model_name_ok m \<and> (k = '''' \<longleftrightarrow> IsKeylessProvider p)"

lemma markKey_is_key:
  assumes "named_ok p k m" "addressable p k m s" "named_ok p' k' m'"
  shows "markKey p k m s = key p' k' \<longleftrightarrow>
    Scope_OrDefault s = CooldownScopeKey \<and> p = p' \<and> k = k'"
proof -
  have a: "addressable p' k' '''' CooldownScopeKey"
    using assms(3) by (auto simp: named_ok_def)
  have "markKey p k m s = markKey p' k' '''' CooldownScopeKey \<longleftrightarrow>
      clock_target p k m s = clock_target p' k' '''' CooldownScopeKey"
    using assms a by (intro markKey_inj) (auto simp: named_ok_def)
  then show ?thesis
    using assms by (auto simp: clock_target_def addressable_def Scope_OrDefault_def named_ok_def split: if_splits)
qed

lemma markKey_is_keyModel:
  assumes "named_ok p k m" "addressable p k m s" "named_ok p' k' m'" "m' \<noteq> ''''"
  shows "markKey p k m s = keyModel p' k' m' \<longleftrightarrow>
    Scope_OrDefault s = CooldownScopeModel \<and> p = p' \<and> k = k' \<and> m = m'"
proof -
  have a: "addressable p' k' m' CooldownScopeModel"
    using assms(3, 4) by (auto simp: named_ok_def)
  have "markKey p k m s = markKey p' k' m' CooldownScopeModel \<longleftrightarrow>
      clock_target p k m s = clock_target p' k' m' CooldownScopeModel"
    using assms a by (intro markKey_inj) (auto simp: named_ok_def)
  then show ?thesis
    using assms by (auto simp: clock_target_def addressable_def Scope_OrDefault_def named_ok_def split: if_splits)
qed

lemma suppressed_after_mark:
  assumes n: "named_ok p k m" "addressable p k m s" and n': "named_ok p' k' m'"
  shows "(mark_covers p k m s p' k' m' \<longrightarrow> t < mark_deadline c p ttl now \<longrightarrow>
            suppressed_by (MarkWithTTL c p k m ttl kind s now) p' k' m' t \<noteq> None)
       \<and> (\<not> mark_covers p k m s p' k' m' \<longrightarrow>
            suppressed_by (MarkWithTTL c p k m ttl kind s now) p' k' m' t = suppressed_by c p' k' m' t)
       \<and> (mark_covers p k m s p' k' m' \<longrightarrow> mark_deadline c p ttl now \<le> t \<longrightarrow>
            suppressed_by c p' k' m' t = None \<longrightarrow>
            suppressed_by (MarkWithTTL c p k m ttl kind s now) p' k' m' t = None)"
proof -
  let ?c = "MarkWithTTL c p k m ttl kind s now"
  let ?new = "if t < mark_deadline c p ttl now
    then Some \<lparr>cr_expiresAt = mark_deadline c p ttl now, cr_kind = kind\<rparr> else None"
  have g: "\<not> (k' = '''' \<and> \<not> IsKeylessProvider p')"
    using n' by (simp add: named_ok_def)
  have a1: "active_clock ?c (key p' k') t =
      (if Scope_OrDefault s = CooldownScopeKey \<and> p = p' \<and> k = k' then ?new else active_clock c (key p' k') t)"
    using markKey_is_key [OF n n'] n(2) by (auto simp: MarkWithTTL_active)
  have a2: "m' \<noteq> '''' \<Longrightarrow> active_clock ?c (keyModel p' k' m') t =
      (if Scope_OrDefault s = CooldownScopeModel \<and> p = p' \<and> k = k' \<and> m = m' then ?new
       else active_clock c (keyModel p' k' m') t)"
    using markKey_is_keyModel [OF n n'] n(2) by (auto simp: MarkWithTTL_active)
  have m: "Scope_OrDefault s = CooldownScopeModel \<Longrightarrow> m \<noteq> ''''"
    using n(2) by (simp add: addressable_def)
  have S: "suppressed_by x p' k' m' t =
      (case active_clock x (key p' k') t of
         Some r \<Rightarrow> Some (cr_expiresAt r, cr_kind r, CooldownScopeKey)
       | None \<Rightarrow> if m' = '''' then None
                 else map_option (\<lambda>r. (cr_expiresAt r, cr_kind r, CooldownScopeModel)) (active_clock x (keyModel p' k' m') t))" for x
    unfolding suppressed_by_def using g by presburger
  consider (other) "\<not> mark_covers p k m s p' k' m'"
    | (key) "mark_covers p k m s p' k' m'" "Scope_OrDefault s = CooldownScopeKey"
    | (model) "mark_covers p k m s p' k' m'" "Scope_OrDefault s = CooldownScopeModel" "m' \<noteq> ''''"
    using Scope_OrDefault_cases [of s] m unfolding mark_covers_def
    by (cases "m' = m") (fastforce, blast)
  then show ?thesis
  proof cases
    case other
    then have "active_clock ?c (key p' k') t = active_clock c (key p' k') t"
      and "m' \<noteq> '''' \<Longrightarrow> active_clock ?c (keyModel p' k' m') t = active_clock c (keyModel p' k' m') t"
      unfolding mark_covers_def by (subst a1, force, subst a2, simp, force)
    with other show ?thesis unfolding S by (simp split: option.splits)
  next
    case key
    then have "active_clock ?c (key p' k') t = ?new" unfolding mark_covers_def by (subst a1) simp
    moreover have "active_clock ?c (keyModel p' k' m') t = active_clock c (keyModel p' k' m') t" if "m' \<noteq> ''''"
      using key that by (subst a2) auto
    ultimately show ?thesis using key(1) unfolding S by (simp split: option.splits)
  next
    case model
    then have "active_clock ?c (key p' k') t = active_clock c (key p' k') t" unfolding mark_covers_def by (subst a1) simp
    moreover have "active_clock ?c (keyModel p' k' m') t = ?new"
      using model unfolding mark_covers_def by (subst a2) auto
    ultimately show ?thesis using model(1, 3) unfolding S by (simp split: option.splits)
  qed
qed

subsection \<open>The counters add up\<close>

definition bucket_of :: "('k, ProviderKindCounters) gomap \<Rightarrow> 'k \<Rightarrow> ProviderKindCounters" where
  "bucket_of m k = (case mapget m k of Some pc \<Rightarrow> pc | None \<Rightarrow> zeroCounters)"

definition total_of :: "(ProviderKindCounters \<Rightarrow> uint64) \<Rightarrow> ('k, ProviderKindCounters) gomap \<Rightarrow> uint64" where
  "total_of g m = sum_list (map (\<lambda>kv. g (snd kv)) m)"

definition add_counters :: "ProviderKindCounters \<Rightarrow> ProviderKindCounters \<Rightarrow> ProviderKindCounters" where
  "add_counters a b =
     \<lparr>pk_RateLimit = \<lparr>kc_MarkCount = kc_MarkCount (pk_RateLimit a) + kc_MarkCount (pk_RateLimit b),
        kc_SuppressedCount = kc_SuppressedCount (pk_RateLimit a) + kc_SuppressedCount (pk_RateLimit b)\<rparr>,
      pk_Quota = \<lparr>kc_MarkCount = kc_MarkCount (pk_Quota a) + kc_MarkCount (pk_Quota b),
        kc_SuppressedCount = kc_SuppressedCount (pk_Quota a) + kc_SuppressedCount (pk_Quota b)\<rparr>\<rparr>"

lemmas bump_defs = rl_mark_def quota_mark_def rl_suppressed_def quota_suppressed_def

lemma add_counters_bump:
  assumes "f \<in> {rl_mark, quota_mark, rl_suppressed, quota_suppressed}"
  shows "add_counters (f a) b = f (add_counters a b)" "add_counters a (f b) = f (add_counters a b)"
  using assms by (auto simp: add_counters_def bump_defs)

lemma bucket_Nil [simp]: "bucket_of [] k = zeroCounters"
  by (simp add: bucket_of_def)

lemma bucket_on_counters [simp]:
  "bucket_of (on_counters f k m) k' = (if k' = k then f (bucket_of m k) else bucket_of m k')"
  by (simp add: bucket_of_def on_counters_def split: option.splits)

lemma wf_on_counters [simp]: "wf_map m \<Longrightarrow> wf_map (on_counters f k m)"
  by (simp add: on_counters_def split: option.splits)

lemma total_put:
  assumes "wf_map m" "g zeroCounters = 0"
  shows "total_of g (mapput k v m) = total_of g m + g v - g (bucket_of m k)"
  using assms
proof (induction m)
  case Nil
  then show ?case by (simp add: total_of_def)
next
  case (Cons kv m)
  obtain k1 v1 where kv: "kv = (k1, v1)" by (cases kv)
  have "wf_map m" using Cons.prems by (simp add: wf_map_def)
  then have IH: "total_of g (mapput k v m) = total_of g m + g v - g (bucket_of m k)"
    using Cons by simp
  show ?case
    using IH kv by (auto simp: total_of_def bucket_of_def algebra_simps)
qed

lemma total_on_counters:
  assumes "wf_map m" "g zeroCounters = 0"
  shows "total_of g (on_counters f k m) = total_of g m + g (f (bucket_of m k)) - g (bucket_of m k)"
  using total_put [of m g] assms by (simp add: on_counters_def bucket_of_def split: option.splits)

definition rlMarks :: "ProviderKindCounters \<Rightarrow> uint64" where
  "rlMarks pc = kc_MarkCount (pk_RateLimit pc)"

definition quotaMarks :: "ProviderKindCounters \<Rightarrow> uint64" where
  "quotaMarks pc = kc_MarkCount (pk_Quota pc)"

definition rlSuppressed :: "ProviderKindCounters \<Rightarrow> uint64" where
  "rlSuppressed pc = kc_SuppressedCount (pk_RateLimit pc)"

definition quotaSuppressed :: "ProviderKindCounters \<Rightarrow> uint64" where
  "quotaSuppressed pc = kc_SuppressedCount (pk_Quota pc)"

lemmas reading_defs = rlMarks_def quotaMarks_def rlSuppressed_def quotaSuppressed_def

lemma readings_zero [simp]:
  "rlMarks zeroCounters = 0" "quotaMarks zeroCounters = 0"
  "rlSuppressed zeroCounters = 0" "quotaSuppressed zeroCounters = 0"
  by (simp_all add: reading_defs zeroCounters_def zeroKindCounters_def)

lemma readings_bump [simp]:
  "rlMarks (rl_mark pc) = rlMarks pc + 1" "rlMarks (quota_mark pc) = rlMarks pc"
  "rlMarks (rl_suppressed pc) = rlMarks pc" "rlMarks (quota_suppressed pc) = rlMarks pc"
  "quotaMarks (rl_mark pc) = quotaMarks pc" "quotaMarks (quota_mark pc) = quotaMarks pc + 1"
  "quotaMarks (rl_suppressed pc) = quotaMarks pc" "quotaMarks (quota_suppressed pc) = quotaMarks pc"
  "rlSuppressed (rl_mark pc) = rlSuppressed pc" "rlSuppressed (quota_mark pc) = rlSuppressed pc"
  "rlSuppressed (rl_suppressed pc) = rlSuppressed pc + 1" "rlSuppressed (quota_suppressed pc) = rlSuppressed pc"
  "quotaSuppressed (rl_mark pc) = quotaSuppressed pc" "quotaSuppressed (quota_mark pc) = quotaSuppressed pc"
  "quotaSuppressed (rl_suppressed pc) = quotaSuppressed pc"
  "quotaSuppressed (quota_suppressed pc) = quotaSuppressed pc + 1"
  by (simp_all add: reading_defs bump_defs)

definition wf_state :: "CooldownState \<Rightarrow> bool" where
  "wf_state c \<longleftrightarrow>
     wf_map (cs_cooldowns c) \<and> wf_map (cs_ttlOverrides c) \<and> wf_map (cs_perProvider c) \<and>
     wf_map (cs_perProviderModel c) \<and> wf_map (cs_perProviderScopeKey c) \<and>
     wf_map (cs_perProviderScopeModel c) \<and>
     length (cs_markByKind c) = 3 \<and> length (cs_suppressedByKind c) = 3 \<and>
     0 < cs_ttl c \<and> (\<forall>p t. mapget (cs_ttlOverrides c) p = Some t \<longrightarrow> 0 < t)"

definition totals_agree :: "CooldownState \<Rightarrow> bool" where
  "totals_agree c \<longleftrightarrow>
     cs_markCount c = sum_list (cs_markByKind c) \<and>
     cs_markByKind c ! 0 = total_of rlMarks (cs_perProvider c) \<and>
     cs_markByKind c ! 1 = total_of quotaMarks (cs_perProvider c) \<and>
     cs_suppressedByKind c ! 0 = total_of rlSuppressed (cs_perProvider c) \<and>
     cs_suppressedByKind c ! 1 = total_of quotaSuppressed (cs_perProvider c)"

definition scopes_agree :: "CooldownState \<Rightarrow> bool" where
  "scopes_agree c \<longleftrightarrow>
     (\<forall>p. bucket_of (cs_perProvider c) p =
            add_counters (bucket_of (cs_perProviderScopeKey c) p) (bucket_of (cs_perProviderScopeModel c) p))"

inductive cd_step :: "CooldownState \<Rightarrow> CooldownState \<Rightarrow> bool" where
  override: "cd_step c (SetTTLOverride c p ttl)"
| mark: "cd_step c (MarkWithTTL c p k m ttl kind s now)"
| look: "cd_step c (fst (lookupCooldown c p k m s now))"
| remaining: "cd_step c (fst (ShortestRemainingCooldown c p m ks now))"
| pool: "cd_step c (fst (AsFilter c ctx p m ks now))"
| clear: "cd_step c (fst (ClearKey c p k m))"
| collect: "cd_step c (gc_tick now c)"

inductive cd_reachable :: "CooldownState \<Rightarrow> bool" where
  new: "cd_reachable (NewCooldownState ttl)"
| step: "cd_reachable c \<Longrightarrow> cd_step c c' \<Longrightarrow> cd_reachable c'"

lemma sum_list_bump:
  fixes xs :: "uint64 list"
  assumes "length xs = 3" "i < 3"
  shows "sum_list (xs[i := xs ! i + 1]) = sum_list xs + 1"
  using assms by (auto simp: length_Suc_conv eval_nat_numeral less_Suc_eq)

definition counters_agree :: "CooldownState \<Rightarrow> bool" where
  "counters_agree c \<longleftrightarrow> wf_state c \<and> totals_agree c \<and> scopes_agree c"

lemma same_rest_agree:
  assumes "same_rest c c'" "wf_map (cs_cooldowns c')" "counters_agree c"
  shows "counters_agree c'"
  using assms by (auto simp: counters_agree_def same_rest_def wf_state_def totals_agree_def scopes_agree_def)

lemma frame_agree:
  assumes "same_clocks now c c'" "same_rest c c'" "counters_agree c"
  shows "counters_agree c'"
proof (rule same_rest_agree [OF assms(2) _ assms(3)])
  have "wf_map (cs_cooldowns c)" using assms(3) by (simp add: counters_agree_def wf_state_def)
  then show "wf_map (cs_cooldowns c')" using assms(1) by (simp add: same_clocks_def)
qed

lemmas locked_defs = perProviderMarkLocked_def perProviderModelMarkLocked_def perProviderScopeMarkLocked_def
lemmas total_rules = total_on_counters [where g = rlMarks] total_on_counters [where g = quotaMarks]
  total_on_counters [where g = rlSuppressed] total_on_counters [where g = quotaSuppressed]
lemmas bump_rules = add_counters_bump [of rl_mark] add_counters_bump [of quota_mark]
  add_counters_bump [of rl_suppressed] add_counters_bump [of quota_suppressed]

lemma attribute_mark_wf [simp]: "wf_state c \<Longrightarrow> wf_state (attribute_mark p m kind s c)"
  by (simp add: attribute_mark_def Let_def locked_defs wf_state_def)

lemma attribute_mark_scopes: "scopes_agree c \<Longrightarrow> scopes_agree (attribute_mark p m kind s c)"
  by (simp add: attribute_mark_def Let_def locked_defs scopes_agree_def bump_rules)

lemma kindIndex_less [simp]: "kindIndex k < 3"
  by (simp add: kindIndex_def)

lemma attribute_mark_totals:
  assumes "wf_state c" "totals_agree c"
  shows "totals_agree ((attribute_mark p m kind s c)\<lparr>cs_markCount := cs_markCount c + 1\<rparr>)"
proof -
  have "sum_list ((cs_markByKind c)[kindIndex kind := cs_markByKind c ! kindIndex kind + 1])
      = sum_list (cs_markByKind c) + 1"
    using assms(1) by (intro sum_list_bump) (simp_all add: wf_state_def)
  then show ?thesis
    using assms unfolding totals_agree_def wf_state_def attribute_mark_def Let_def locked_defs
    by (cases "kind = CooldownKindRateLimit"; cases "kind = CooldownKindQuota")
      (simp_all add: total_rules kindIndex_def)
qed

lemma attribute_suppression_wf: "wf_state c \<Longrightarrow> wf_state (attribute_suppression p m kind s c)"
  by (simp add: attribute_suppression_def Let_def locked_defs wf_state_def)

lemma attribute_suppression_scopes: "scopes_agree c \<Longrightarrow> scopes_agree (attribute_suppression p m kind s c)"
  by (simp add: attribute_suppression_def Let_def locked_defs scopes_agree_def bump_rules)

lemma attribute_suppression_totals:
  assumes "wf_state c" "totals_agree c"
  shows "totals_agree (attribute_suppression p m kind s c)"
  using assms unfolding totals_agree_def wf_state_def attribute_suppression_def Let_def locked_defs
  by (cases "kind = CooldownKindRateLimit"; cases "kind = CooldownKindQuota")
    (simp_all add: total_rules kindIndex_def)

lemma attribute_suppression_agree: "counters_agree c \<Longrightarrow> counters_agree (attribute_suppression p m kind s c)"
  by (simp add: counters_agree_def attribute_suppression_wf attribute_suppression_scopes attribute_suppression_totals)

lemma MarkWithTTL_agree:
  assumes "counters_agree c"
  shows "counters_agree (MarkWithTTL c p k m ttl kind s now)"
proof -
  let ?c1 = "store_mark (markKey p k m s) kind
    (now + (if ttl \<le> 0 then effectiveTTLLocked c p else ttl)) c"
  have c1: "wf_state ?c1" "totals_agree ?c1" "scopes_agree ?c1" "cs_markCount ?c1 = cs_markCount c"
    using assms by (simp_all add: counters_agree_def wf_state_def totals_agree_def scopes_agree_def store_mark_def)
  have "wf_state ((attribute_mark p m kind s ?c1)\<lparr>cs_markCount := n\<rparr>)" for n
    using attribute_mark_wf [OF c1(1)] by (simp add: wf_state_def)
  moreover have "scopes_agree ((attribute_mark p m kind s ?c1)\<lparr>cs_markCount := n\<rparr>)" for n
    using attribute_mark_scopes [OF c1(3)] by (simp add: scopes_agree_def)
  ultimately show ?thesis
    using assms attribute_mark_totals [OF c1(1, 2)] c1(4)
    by (simp add: MarkWithTTL_def Let_def counters_agree_def)
qed

lemma filter_loop_agree: "counters_agree c \<Longrightarrow> counters_agree (fst (filter_loop c p m ks now))"
proof (induction ks arbitrary: c)
  case (Cons k ks)
  obtain c1 r where l: "lookupSuppressed c p (k_ID k) m now = (c1, r)"
    by (cases "lookupSuppressed c p (k_ID k) m now")
  have "counters_agree c1"
    using lookupSuppressed_spec [of c p "k_ID k" m now] l Cons.prems
    by (auto intro: frame_agree)
  then show ?case
    using Cons.IH [of c1] Cons.IH [OF attribute_suppression_agree] l
    by (simp add: split_beta split: option.splits)
qed simp

lemma ShortestRemainingCooldown_frame:
  "same_clocks now c (fst (ShortestRemainingCooldown c p m ks now))"
  "same_rest c (fst (ShortestRemainingCooldown c p m ks now))"
  using shortest_loop_spec [of now c p m ks None]
  by (simp_all add: ShortestRemainingCooldown_def split_beta)

lemma AsFilter_agree: "counters_agree c \<Longrightarrow> counters_agree (fst (AsFilter c ctx p m ks now))"
proof -
  assume c: "counters_agree c"
  obtain c1 out where f: "filter_loop c p m ks now = (c1, out)" by (cases "filter_loop c p m ks now")
  have c1: "counters_agree c1" using filter_loop_agree [OF c, of p m ks now] f by simp
  have "counters_agree (fst (ShortestRemainingCooldown c1 p m ks now))"
    by (rule frame_agree [OF ShortestRemainingCooldown_frame c1])
  then show ?thesis
    using c c1 by (simp add: AsFilter_def f split_beta)
qed

lemma ClearKey_frame:
  "same_rest c (fst (ClearKey c p k m))"
  "wf_map (cs_cooldowns c) \<Longrightarrow> wf_map (cs_cooldowns (fst (ClearKey c p k m)))"
  by (auto simp: ClearKey_def Let_def split: option.splits)

lemma gc_tick_frame: "same_rest c (gc_tick now c)"
  by (simp add: gc_tick_def)

lemma SetTTLOverride_agree: "counters_agree c \<Longrightarrow> counters_agree (SetTTLOverride c p ttl)"
  by (auto simp: counters_agree_def SetTTLOverride_def wf_state_def totals_agree_def scopes_agree_def split: if_splits)

lemma cd_step_agree: "cd_step c c' \<Longrightarrow> counters_agree c \<Longrightarrow> counters_agree c'"
proof (induction rule: cd_step.induct)
  case (clear c p k m)
  then show ?case
    by (intro same_rest_agree [OF ClearKey_frame]) (simp_all add: counters_agree_def wf_state_def)
next
  case (collect c now)
  then show ?case
    by (intro frame_agree [OF same_clocks_gc gc_tick_frame]) (simp_all add: counters_agree_def wf_state_def)
qed (auto intro: SetTTLOverride_agree MarkWithTTL_agree AsFilter_agree
    frame_agree [OF lookupCooldown_frame] frame_agree [OF ShortestRemainingCooldown_frame])

lemma NewCooldownState_agree: "counters_agree (NewCooldownState ttl)"
  by (simp add: counters_agree_def wf_state_def totals_agree_def scopes_agree_def NewCooldownState_def
      total_of_def add_counters_def zeroCounters_def zeroKindCounters_def)

lemma reachable_agree: "cd_reachable c \<Longrightarrow> counters_agree c"
  by (induction rule: cd_reachable.induct) (auto intro: NewCooldownState_agree cd_step_agree)

subsection \<open>The clocks as an expiring store\<close>

interpretation clocks: expiring_store
  "\<lambda>c k now. map_option cr_kind (active_clock c k now)" store_mark gc_tick
  "\<lambda>expiresAt now. \<not> now < expiresAt" "\<lambda>c. wf_map (cs_cooldowns c)"
proof unfold_locales
  fix c :: CooldownState and k k' :: string and v :: CooldownKind and e t now :: instant
  show "map_option cr_kind (active_clock (store_mark k v e c) k' now) =
      (if k' = k then if \<not> now < e then None else Some v else map_option cr_kind (active_clock c k' now))"
    by (simp add: active_clock_def store_mark_def)
  assume c: "wf_map (cs_cooldowns c)"
  show "map_option cr_kind (active_clock (gc_tick t c) k now) = map_option cr_kind (active_clock c k now)" if "t \<le> now"
    using same_clocks_gc [OF c, of t] that by (simp add: same_clocks_def)
  show "wf_map (cs_cooldowns (store_mark k v e c))" using c by (simp add: store_mark_def)
  show "wf_map (cs_cooldowns (gc_tick t c))" using c by (simp add: gc_tick_def)
qed

text \<open>Garbage collection is invisible: after any schedule of marks and collector ticks, in any
  interleaving, what a lookup at an instant not before the ticks sees on a storage key is decided by
  the last mark of that key alone - suppressed with that mark's kind until its deadline, free from
  then on - and, where the schedule holds no mark of the key, by the state it started from.\<close>

theorem gc_invisible:
  assumes "wf_map (cs_cooldowns c)" "list_all (sweep_before now) ops"
  shows "map_option cr_kind (active_clock (apply_ops store_mark gc_tick ops c) k now) =
    (case last_put k ops of
       Some (kind, expiresAt) \<Rightarrow> if now < expiresAt then Some kind else None
     | None \<Rightarrow> map_option cr_kind (active_clock c k now))"
  using clocks.live_after_ops [OF assms, of k] by (simp split: option.splits if_splits)

theorem gc_invisible_witness:
  "map_option cr_kind (active_clock (apply_ops store_mark gc_tick
      [Put ''k'' ''quota'' 10, Sweep 5, Put ''j'' ''rate_limit'' 6, Sweep 7] (NewCooldownState 0)) ''k'' 8)
   = Some ''quota''"
  using gc_invisible [of "NewCooldownState 0" 8
      "[Put ''k'' ''quota'' 10, Sweep 5, Put ''j'' ''rate_limit'' 6, Sweep 7]" "''k''"]
  by (simp add: NewCooldownState_def)

text \<open>The counters that the stats endpoint reports agree with each other in every state the
  plugin can reach: the lifetime mark count is the sum over the kinds, the by-kind counts are the
  sums over the providers, and each provider's counts are those of its key-scoped marks plus those
  of its model-scoped marks. (Counters are 64-bit words: the equations hold modulo 2^64.)\<close>

theorem stats_agree:
  assumes "cd_reachable c"
  shows "st_MarkCount (Stats c) = sum_list (cs_markByKind c)
    \<and> st_ByKind (Stats c) =
        \<lparr>pk_RateLimit = \<lparr>kc_MarkCount = total_of rlMarks (st_PerProvider (Stats c)),
                        kc_SuppressedCount = total_of rlSuppressed (st_PerProvider (Stats c))\<rparr>,
         pk_Quota = \<lparr>kc_MarkCount = total_of quotaMarks (st_PerProvider (Stats c)),
                    kc_SuppressedCount = total_of quotaSuppressed (st_PerProvider (Stats c))\<rparr>\<rparr>
    \<and> bucket_of (st_PerProvider (Stats c)) p =
        add_counters (bucket_of (st_PerProviderScopeKey (Stats c)) p) (bucket_of (st_PerProviderScopeModel (Stats c)) p)"
  using reachable_agree [OF assms]
  by (simp add: counters_agree_def totals_agree_def scopes_agree_def Stats_def kindIndex_def)

lemma sample_reachable: "cd_reachable (MarkWithTTL (NewCooldownState 0) ''openai'' ''k1'' '''' 0 ''quota'' ''key'' 7)"
  by (rule cd_reachable.step [OF cd_reachable.new cd_step.mark])

theorem stats_agree_witness:
  "bucket_of (st_PerProvider (Stats (MarkWithTTL (NewCooldownState 0) ''openai'' ''k1'' '''' 0 ''quota'' ''key'' 7))) ''openai''
     = \<lparr>pk_RateLimit = \<lparr>kc_MarkCount = 0, kc_SuppressedCount = 0\<rparr>,
        pk_Quota = \<lparr>kc_MarkCount = 1, kc_SuppressedCount = 0\<rparr>\<rparr>"
  using stats_agree [OF sample_reachable, of "''openai''"]
  by (simp add: Stats_def MarkWithTTL_def NewCooldownState_def store_mark_def attribute_mark_def locked_defs
      Scope_OrDefault_def on_counters_def bucket_of_def zeroCounters_def zeroKindCounters_def quota_mark_def Let_def)

text \<open>C10. A mark suppresses exactly what it names. Provider names hold no colon and model names
  neither hold a double colon nor start with a colon. Until its deadline, a key-scoped mark
  suppresses every request on that key whatever the model, a model-scoped mark only those for that
  model; requests on other keys, other providers and (for a model-scoped mark) other models see
  what they saw before; and from the deadline on the mark has no effect.\<close>

theorem mark_suppresses_exactly:
  assumes "named_ok p k m" "addressable p k m s" "named_ok p' k' m'"
  shows "(mark_covers p k m s p' k' m' \<longrightarrow> t < mark_deadline c p ttl now \<longrightarrow>
            snd (lookupSuppressed (MarkWithTTL c p k m ttl kind s now) p' k' m' t) \<noteq> None)
       \<and> (\<not> mark_covers p k m s p' k' m' \<longrightarrow>
            snd (lookupSuppressed (MarkWithTTL c p k m ttl kind s now) p' k' m' t) =
            snd (lookupSuppressed c p' k' m' t))
       \<and> (mark_covers p k m s p' k' m' \<longrightarrow> mark_deadline c p ttl now \<le> t \<longrightarrow>
            snd (lookupSuppressed c p' k' m' t) = None \<longrightarrow>
            snd (lookupSuppressed (MarkWithTTL c p k m ttl kind s now) p' k' m' t) = None)"
  using suppressed_after_mark [OF assms, of t c ttl now kind] by (simp add: lookupSuppressed_spec)

theorem mark_suppresses_exactly_witness:
  "snd (lookupSuppressed (MarkWithTTL (NewCooldownState 0) ''openai'' ''k1'' ''gpt-4'' 60 ''quota'' ''model'' 0)
      ''openai'' ''k1'' ''gpt-4'' 59) \<noteq> None"
  using mark_suppresses_exactly [of "''openai''" "''k1''" "''gpt-4''" "''model''" "''openai''" "''k1''" "''gpt-4''"
      59 "NewCooldownState 0" 60 0 "''quota''"]
  by (simp add: named_ok_def colon_free_def model_name_ok_def strings_HasPrefix_def addressable_def
      mark_covers_def mark_deadline_def)

text \<open>C39. Storage keys can be read back: for every provider name without a colon and every model
  name without a double colon or a leading colon, parsing the key of a mark returns the provider,
  the key ID and the model that the mark addressed (a keyless provider's model-scoped key carries no
  key ID, a key-scoped key no model).\<close>

theorem cooldown_key_roundtrip:
  assumes "colon_free p" "model_name_ok m"
  shows "parseCooldownKey (markKey p k m s) =
    (p, if Scope_OrDefault s = CooldownScopeModel \<and> IsKeylessProvider p then '''' else k,
     if Scope_OrDefault s = CooldownScopeModel then m else '''')"
  by (rule parse_markKey [OF assms])

theorem cooldown_key_roundtrip_witness:
  "parseCooldownKey (markKey ''openai'' ''a::b'' ''ft:gpt-4'' ''model'') = (''openai'', ''a::b'', ''ft:gpt-4'')"
  using cooldown_key_roundtrip [of "''openai''" "''ft:gpt-4''" "''a::b''" "''model''"]
  by (simp add: colon_free_def model_name_ok_def strings_HasPrefix_def Scope_OrDefault_def)

lemma remainings_all:
  assumes "\<forall>k \<in> set ks. suppressed_by c p (k_ID k) m now \<noteq> None"
  shows "remainings c p m ks now = map (\<lambda>k. fst (the (suppressed_by c p (k_ID k) m now)) - now) ks"
  using assms by (induction ks) (auto simp: remainings_def)

lemma retryAfter_ceiling: "0 < d \<Longrightarrow> retryAfterSecondsHint d = - ((- d) div go_second)"
proof -
  assume d: "0 < d"
  have q: "0 \<le> d div go_second" using d by (simp add: pos_imp_zdiv_nonneg_iff)
  have "d div go_second \<noteq> 0" if "d mod go_second = 0"
    using d div_mult_mod_eq [of d go_second] that by auto
  then show ?thesis
    using d q by (auto simp: retryAfterSecondsHint_def Let_def zdiv_zminus1_eq_if)
qed

lemma ShortestRemaining_min:
  assumes "ks \<noteq> []" "\<forall>k \<in> set ks. suppressed_by c p (k_ID k) m now \<noteq> None"
  shows "snd (ShortestRemainingCooldown c p m ks now) =
      Min ((\<lambda>k. fst (the (suppressed_by c p (k_ID k) m now)) - now) ` set ks)
    \<and> 0 < snd (ShortestRemainingCooldown c p m ks now)"
proof -
  have eq: "snd (ShortestRemainingCooldown c p m ks now) =
      Min ((\<lambda>k. fst (the (suppressed_by c p (k_ID k) m now)) - now) ` set ks)"
    using shortest_loop_spec [of now c p m ks None] assms(1)
    by (simp add: ShortestRemainingCooldown_def split_beta remainings_all [OF assms(2)] fold_min_step)
  have "0 < fst (the (suppressed_by c p (k_ID k) m now)) - now" if "k \<in> set ks" for k
    using assms(2) that suppressed_by_future by fastforce
  then show ?thesis using assms(1) by (simp add: eq)
qed

lemma filter_out: "fst (snd (AsFilter c ctx p m keys now)) =
    filter (\<lambda>k. suppressed_by c p (k_ID k) m now = None) keys"
  using filter_loop_spec [of c p m keys now]
  by (cases "keys = []") (simp_all add: AsFilter_def split_beta)

lemma filter_clocks: "same_clocks now c (fst (AsFilter c ctx p m keys now))"
proof -
  obtain c1 out where f: "filter_loop c p m keys now = (c1, out)" by (cases "filter_loop c p m keys now")
  have c1: "same_clocks now c c1" using filter_loop_spec [of c p m keys now] f by simp
  have "same_clocks now c (fst (ShortestRemainingCooldown c1 p m keys now))"
    by (rule same_clocks_trans [OF c1 ShortestRemainingCooldown_frame(1)])
  then show ?thesis using c1 by (simp add: AsFilter_def f split_beta)
qed

text \<open>The key pool filter removes exactly the keys that are cooling down: it returns the other
  keys, in their order; it counts one suppression per removed key; and when it removes them all it
  stamps the request with a Retry-After hint, the seconds - rounded up - until the first of the keys
  is free again.\<close>

theorem filter_removes_cooling_keys:
  "snd (AsFilter c ctx p m keys now) =
     (let out = filter (\<lambda>k. snd (lookupSuppressed c p (k_ID k) m now) = None) keys;
          left = (\<lambda>k. fst (the (snd (lookupSuppressed c p (k_ID k) m now))) - now)
      in (out, if ctx \<and> keys \<noteq> [] \<and> out = [] then Some (- ((- Min (left ` set keys)) div go_second)) else None))
   \<and> cs_suppressedCount (fst (AsFilter c ctx p m keys now)) =
       cs_suppressedCount c + of_nat (length keys - length (fst (snd (AsFilter c ctx p m keys now))))"
proof (cases "keys = []")
  case False
  obtain c1 out where f: "filter_loop c p m keys now = (c1, out)" by (cases "filter_loop c p m keys now")
  let ?S = "\<lambda>k. suppressed_by c p (k_ID k) m now"
  have out: "out = filter (\<lambda>k. ?S k = None) keys" and c1: "same_clocks now c c1"
    and n: "cs_suppressedCount c1 = cs_suppressedCount c + of_nat (length (filter (\<lambda>k. ?S k \<noteq> None) keys))"
    using filter_loop_spec [of c p m keys now] f by simp_all
  have len: "length (filter (\<lambda>k. ?S k \<noteq> None) keys) = length keys - length out"
    using sum_length_filter_compl [of "\<lambda>k. ?S k = None" keys] out by simp
  have rest: "cs_suppressedCount (fst (ShortestRemainingCooldown c1 p m keys now)) = cs_suppressedCount c1"
    by (rule same_rest_count [OF ShortestRemainingCooldown_frame(2)])
  have sup: "suppressed_by c1 p (k_ID k) m now = ?S k" for k
    by (rule suppressed_by_cong [OF c1])
  have min: "snd (ShortestRemainingCooldown c1 p m keys now) = Min ((\<lambda>k. fst (the (?S k)) - now) ` set keys)"
    "0 < snd (ShortestRemainingCooldown c1 p m keys now)" if "out = []"
    using ShortestRemaining_min [of keys c1 p m now] False that out by (auto simp: sup filter_empty_conv)
  show ?thesis
    using False out n len rest min
    by (simp add: AsFilter_def f split_beta lookupSuppressed_spec Let_def retryAfter_ceiling)
qed (simp add: AsFilter_def)

end
