(* ===== verification/Cooldown_Plugin.thy ===== *)
theory Cooldown_Plugin
  imports Cooldown_State
begin

text \<open>
  The provider-cooldown plugin around the state (\<open>CooldownPlugin\<close> and \<open>config.go\<close> of
  \<open>plugins/providercooldown\<close>): configuration, the classification of a terminal error, the marker the
  retry loop calls per failed key, and the hooks before and after the provider call.

  The values the plugin reads from and writes to the request context are the fields of one record.
  A JSON value that the plugin loader hands over is an \<^emph>\<open>any\<close> value; a finite float is its mantissa and
  binary exponent. A request is what the hooks read of it, its provider and model.
\<close>

subsection \<open>Configuration\<close>

datatype any_value =
    AFloat64 int int
  | AInt int
  | AInt64 int
  | AInt32 int
  | AString string
  | AList "any_value list"
  | AObject "(string \<times> any_value) list"
  | AOther string

datatype config_error =
    ExpectedInteger string
  | ExpectedObject string
  | ExpectedArray string
  | ExpectedString nat
  | ExpectedMap

record Config =
  cfg_DefaultTTLSeconds :: int
  cfg_TTLOverrides :: "(string, int) gomap"
  cfg_QuotaPatterns :: "string list"

text \<open>Conversion of a float truncates towards zero; for a value outside the 64-bit range Go leaves
  the result to the implementation, which \<open>oor\<close> stands for.\<close>

definition float_to_int :: "(int \<Rightarrow> int) \<Rightarrow> int \<Rightarrow> int \<Rightarrow> int" where
  "float_to_int oor m e =
     (let v = (if 0 \<le> e then m * 2 ^ nat e else sgn m * (\<bar>m\<bar> div 2 ^ nat (- e)))
      in if - (2 ^ 63) \<le> v \<and> v < 2 ^ 63 then v else oor v)"

definition toInt :: "(int \<Rightarrow> int) \<Rightarrow> any_value \<Rightarrow> int option" where
  "toInt oor v =
     (case v of
        AFloat64 m e \<Rightarrow> Some (float_to_int oor m e)
      | AInt x \<Rightarrow> Some x
      | AInt64 x \<Rightarrow> Some x
      | AInt32 x \<Rightarrow> Some x
      | _ \<Rightarrow> None)"

fun parse_overrides ::
    "(int \<Rightarrow> int) \<Rightarrow> (string \<times> any_value) list \<Rightarrow> (string, int) gomap \<Rightarrow> config_error + (string, int) gomap" where
  "parse_overrides oor [] acc = Inr acc"
| "parse_overrides oor ((k, vv) # m) acc =
     (case toInt oor vv of
        None \<Rightarrow> Inl (ExpectedInteger k)
      | Some n \<Rightarrow> parse_overrides oor m (mapput k n acc))"

fun parse_patterns :: "nat \<Rightarrow> any_value list \<Rightarrow> string list \<Rightarrow> config_error + string list" where
  "parse_patterns i [] acc = Inr acc"
| "parse_patterns i (item # rest) acc =
     (case item of
        AString s \<Rightarrow>
          (let s' = strings_TrimSpace (strings_ToLower s)
           in parse_patterns (Suc i) rest (if s' \<noteq> '''' then acc @ [s'] else acc))
      | _ \<Rightarrow> Inl (ExpectedString i))"

definition ParseConfig :: "(int \<Rightarrow> int) \<Rightarrow> (string, any_value) gomap option \<Rightarrow> config_error + Config" where
  "ParseConfig oor raw =
     (let c0 = \<lparr>cfg_DefaultTTLSeconds = 0, cfg_TTLOverrides = [], cfg_QuotaPatterns = []\<rparr> in
      case raw of
        None \<Rightarrow> Inr c0
      | Some m \<Rightarrow>
        (case (case mapget m ''default_ttl_seconds'' of
                 None \<Rightarrow> Inr c0
               | Some v \<Rightarrow>
                   (case toInt oor v of
                      None \<Rightarrow> Inl (ExpectedInteger ''default_ttl_seconds'')
                    | Some n \<Rightarrow> Inr (c0\<lparr>cfg_DefaultTTLSeconds := n\<rparr>))) of
           Inl e \<Rightarrow> Inl e
         | Inr c1 \<Rightarrow>
           (case (case mapget m ''ttl_overrides'' of
                    None \<Rightarrow> Inr c1
                  | Some (AObject o1) \<Rightarrow>
                      (case parse_overrides oor o1 [] of
                         Inl e \<Rightarrow> Inl e
                       | Inr ov \<Rightarrow> Inr (c1\<lparr>cfg_TTLOverrides := ov\<rparr>))
                  | Some _ \<Rightarrow> Inl (ExpectedObject ''ttl_overrides'')) of
              Inl e \<Rightarrow> Inl e
            | Inr c2 \<Rightarrow>
              (case mapget m ''quota_patterns'' of
                 None \<Rightarrow> Inr c2
               | Some (AList l) \<Rightarrow>
                   (case parse_patterns 0 l [] of
                      Inl e \<Rightarrow> Inl e
                    | Inr ps \<Rightarrow> Inr (c2\<lparr>cfg_QuotaPatterns := ps\<rparr>))
               | Some _ \<Rightarrow> Inl (ExpectedArray ''quota_patterns'')))))"

text \<open>A number of seconds becomes a \<open>time.Duration\<close> by a 64-bit multiplication.\<close>

definition seconds :: "int \<Rightarrow> duration" where
  "seconds n = wrap64 (n * go_second)"

fun apply_overrides :: "(string, int) gomap \<Rightarrow> CooldownState \<Rightarrow> CooldownState" where
  "apply_overrides [] s = s"
| "apply_overrides ((prov, secs) # rest) s =
     (if secs \<le> 0 then apply_overrides rest s
      else apply_overrides rest (SetTTLOverride s prov (seconds secs)))"

definition AsState :: "Config \<Rightarrow> CooldownState" where
  "AsState c =
     (let ttl = (if cfg_DefaultTTLSeconds c > 0 then seconds (cfg_DefaultTTLSeconds c) else DefaultCooldownTTL)
      in apply_overrides (cfg_TTLOverrides c) (NewCooldownState ttl))"

subsection \<open>The plugin\<close>

record CooldownPlugin =
  p_State :: "CooldownState option"
  p_quotaPatterns :: "string list"
  p_gcRunning :: bool

record PluginContext =
  px_CooldownPolicy :: "CooldownPolicy option"
  px_AttemptTrail :: "KeyAttemptRecord list option"
  px_ProviderKeys :: "(ModelProvider, Key list) gomap"
  px_RetryAfterSeconds :: "int option"

definition NewPluginWithTTL :: "duration \<Rightarrow> CooldownPlugin" where
  "NewPluginWithTTL ttl =
     \<lparr>p_State = Some (NewCooldownState ttl), p_quotaPatterns = [], p_gcRunning = True\<rparr>"

definition NewPlugin :: CooldownPlugin where
  "NewPlugin = NewPluginWithTTL DefaultCooldownTTL"

definition startGC :: "CooldownPlugin \<Rightarrow> CooldownPlugin" where
  "startGC p = p\<lparr>p_gcRunning := True\<rparr>"

definition stopGC :: "CooldownPlugin \<Rightarrow> CooldownPlugin" where
  "stopGC p = (if \<not> p_gcRunning p then p else p\<lparr>p_gcRunning := False\<rparr>)"

definition Cleanup :: "CooldownPlugin \<Rightarrow> CooldownPlugin" where
  "Cleanup p = stopGC p"

definition Init :: "(int \<Rightarrow> int) \<Rightarrow> CooldownPlugin \<Rightarrow> any_value option \<Rightarrow> config_error option \<times> CooldownPlugin" where
  "Init oor p rawConfig =
     (case (case rawConfig of
              None \<Rightarrow> Inr None
            | Some (AObject m) \<Rightarrow> Inr (Some m)
            | Some _ \<Rightarrow> Inl ExpectedMap) of
        Inl e \<Rightarrow> (Some e, p)
      | Inr raw \<Rightarrow>
          (case ParseConfig oor raw of
             Inl e \<Rightarrow> (Some e, p)
           | Inr cfg \<Rightarrow>
               (None, startGC ((stopGC p)\<lparr>p_State := Some (AsState cfg), p_quotaPatterns := cfg_QuotaPatterns cfg\<rparr>))))"

subsection \<open>Quota texts\<close>

definition quotaExhaustedSubstrings :: "string list" where
  "quotaExhaustedSubstrings =
     [''insufficient_quota'', ''quota exceeded'', ''quota_exceeded'', ''billing'', ''usage limit'']"

definition statusCodeAllowsQuota :: "BifrostError \<Rightarrow> bool" where
  "statusCodeAllowsQuota err =
     (case be_StatusCode err of
        None \<Rightarrow> True
      | Some c \<Rightarrow> if c = 402 then False else if c = 429 then True else 400 \<le> c \<and> c < 500)"

fun contains_any :: "string \<Rightarrow> string list \<Rightarrow> bool" where
  "contains_any s [] = False"
| "contains_any s (sub # subs) = (if strings_Contains s sub then True else contains_any s subs)"

definition matchesAnyErrorField :: "BifrostError \<Rightarrow> string list \<Rightarrow> bool" where
  "matchesAnyErrorField err patterns =
     (if contains_any (strings_ToLower (GetErrorString err)) patterns then True
      else
        case be_Error err of
          None \<Rightarrow> False
        | Some f \<Rightarrow>
            if (case ef_Code f of Some code \<Rightarrow> contains_any (strings_ToLower code) patterns | None \<Rightarrow> False)
            then True
            else (case ef_Type f of Some typ \<Rightarrow> contains_any (strings_ToLower typ) patterns | None \<Rightarrow> False))"

definition IsQuotaExhausted :: "BifrostError option \<Rightarrow> bool" where
  "IsQuotaExhausted err =
     (case err of
        None \<Rightarrow> False
      | Some e \<Rightarrow> if \<not> statusCodeAllowsQuota e then False
                  else matchesAnyErrorField e quotaExhaustedSubstrings)"

definition isQuotaExhausted :: "CooldownPlugin \<Rightarrow> BifrostError option \<Rightarrow> bool" where
  "isQuotaExhausted p err =
     (case err of
        None \<Rightarrow> False
      | Some e \<Rightarrow>
          if IsQuotaExhausted err then True
          else if length (p_quotaPatterns p) = 0 then False
          else if \<not> statusCodeAllowsQuota e then False
          else matchesAnyErrorField e (p_quotaPatterns p))"

subsection \<open>Classification\<close>

record Classification =
  cl_TTL :: duration
  cl_KeyID :: string
  cl_KeyName :: string
  cl_Kind :: CooldownKind
  cl_Scope :: CooldownPolicyScope

fun last_trail_key :: "ModelProvider \<Rightarrow> KeyAttemptRecord list \<Rightarrow> string \<times> string" where
  "last_trail_key provider [] = ('''', '''')"
| "last_trail_key provider (rec # older) =
     (if ar_KeyID rec = '''' \<and> \<not> IsKeylessProvider provider then last_trail_key provider older
      else (ar_KeyID rec, ar_KeyName rec))"

definition lastAttemptProviderAndKey ::
    "PluginContext option \<Rightarrow> BifrostError option \<Rightarrow> ModelProvider \<times> string \<times> string \<times> string" where
  "lastAttemptProviderAndKey ctx err =
     (let (provider, model) =
            (case err of
               None \<Rightarrow> ('''', '''')
             | Some e \<Rightarrow>
                 let x = be_ExtraFields e; ri = xf_RoutingInfo x in
                 (if ri_Provider ri \<noteq> '''' then ri_Provider ri
                  else if xf_Provider x \<noteq> '''' then xf_Provider x else '''',
                  if ri_Model ri \<noteq> '''' then ri_Model ri else xf_OriginalModelRequested x))
      in case ctx of
           None \<Rightarrow> (provider, '''', '''', model)
         | Some c \<Rightarrow>
             (case px_AttemptTrail c of
                None \<Rightarrow> (provider, '''', '''', model)
              | Some trail \<Rightarrow>
                  let (keyID, keyName) = last_trail_key provider (rev trail)
                  in (provider, keyID, keyName, model)))"

definition classifyForMarker ::
    "PluginContext option \<Rightarrow> ModelProvider \<Rightarrow> string \<Rightarrow> string \<Rightarrow> BifrostError option \<Rightarrow> Classification option" where
  "classifyForMarker ctx provider keyID keyName err =
     (if err = None then None
      else if keyID = '''' \<and> \<not> IsKeylessProvider provider then None
      else
        let policy =
              (case (case ctx of None \<Rightarrow> None | Some c \<Rightarrow> px_CooldownPolicy c) of
                 Some v \<Rightarrow> v
               | None \<Rightarrow> DefaultCooldownPolicy provider)
        in case (if MatchesRule (cp_Quota policy) err then cp_Quota policy else None) of
             Some q \<Rightarrow>
               Some \<lparr>cl_TTL = seconds (pr_TTLSeconds q), cl_KeyID = keyID, cl_KeyName = keyName,
                     cl_Kind = CooldownKindQuota, cl_Scope = ScopeOrDefault (Some q)\<rparr>
           | None \<Rightarrow>
               (case (if MatchesRule (cp_RateLimit policy) err then cp_RateLimit policy else None) of
                  Some r \<Rightarrow>
                    Some \<lparr>cl_TTL = seconds (pr_TTLSeconds r), cl_KeyID = keyID, cl_KeyName = keyName,
                          cl_Kind = CooldownKindRateLimit, cl_Scope = ScopeOrDefault (Some r)\<rparr>
                | None \<Rightarrow> None))"

definition classify ::
    "CooldownPlugin \<Rightarrow> PluginContext option \<Rightarrow> BifrostError option \<Rightarrow> (Classification \<times> string) option" where
  "classify p ctx err =
     (if p_State p = None \<or> err = None then None
      else
        let (provider, keyID, keyName, model) = lastAttemptProviderAndKey ctx err in
        if keyID = '''' \<and> \<not> IsKeylessProvider provider then None
        else map_option (\<lambda>cl. (cl, model)) (classifyForMarker ctx provider keyID keyName err))"

subsection \<open>Marker and hooks\<close>

definition AsMarker ::
    "CooldownState \<Rightarrow> PluginContext option \<Rightarrow> ModelProvider \<Rightarrow> string \<Rightarrow> string \<Rightarrow> string
     \<Rightarrow> BifrostError option \<Rightarrow> instant \<Rightarrow> CooldownState" where
  "AsMarker c ctx provider keyID keyName model err now =
     (if err = None then c
      else if keyID = '''' \<and> \<not> IsKeylessProvider provider then c
      else
        case classifyForMarker ctx provider keyID keyName err of
          None \<Rightarrow> c
        | Some cl \<Rightarrow> MarkWithTTL c provider keyID model (cl_TTL cl) (cl_Kind cl) (cl_Scope cl) now)"

definition PostLLMHook ::
    "CooldownPlugin \<Rightarrow> PluginContext option \<Rightarrow> 'resp option \<Rightarrow> BifrostError option \<Rightarrow> instant
     \<Rightarrow> CooldownPlugin \<times> 'resp option \<times> BifrostError option" where
  "PostLLMHook p ctx resp err now =
     (case (p_State p, err) of
        (Some c, Some e) \<Rightarrow>
          (case classify p ctx err of
             None \<Rightarrow>
               if isQuotaExhausted p err then
                 let (provider, keyID, _, _) = lastAttemptProviderAndKey ctx err in
                 if keyID = '''' \<and> \<not> IsKeylessProvider provider then (p, resp, err)
                 else (p\<lparr>p_State := Some (Mark c provider keyID now)\<rparr>, resp, err)
               else (p, resp, err)
           | Some (cl, model) \<Rightarrow>
               let (provider, _, _, _) = lastAttemptProviderAndKey ctx err in
               (p\<lparr>p_State := Some (MarkWithTTL c provider (cl_KeyID cl) model (cl_TTL cl) (cl_Kind cl)
                                    (cl_Scope cl) now)\<rparr>, resp, err))
      | _ \<Rightarrow> (p, resp, err))"

record LLMPluginShortCircuit =
  sc_Error :: BifrostError
  sc_Silent :: bool

definition no_eligible_keys_error :: "ModelProvider \<Rightarrow> int \<Rightarrow> BifrostError" where
  "no_eligible_keys_error provider retryAfter =
     zeroError\<lparr>be_IsBifrostError := False, be_StatusCode := Some 429, be_Type := Some ''no_eligible_keys'',
       be_Error := Some \<lparr>ef_Type = Some ''no_eligible_keys'', ef_Code = None,
         ef_Message = ''no eligible keys for provider '' @ provider @ '' (all in cooldown)'', ef_Error = None\<rparr>,
       be_ExtraFields := zeroExtraFields\<lparr>xf_RetryAfterSeconds := retryAfter\<rparr>\<rparr>"

definition PreProviderHook ::
    "CooldownPlugin \<Rightarrow> PluginContext \<Rightarrow> (ModelProvider \<times> string) option \<Rightarrow> instant
     \<Rightarrow> CooldownPlugin \<times> PluginContext \<times> LLMPluginShortCircuit option" where
  "PreProviderHook p ctx req now =
     (case (p_State p, req) of
        (Some c, Some (provider, model)) \<Rightarrow>
          if provider = '''' \<or> model = '''' then (p, ctx, None)
          else
            (case (case mapget (px_ProviderKeys ctx) provider of
                     Some keys \<Rightarrow> if length keys = 0
                                  then if IsKeylessProvider provider then Some [zeroKey] else None
                                  else Some keys
                   | None \<Rightarrow> if IsKeylessProvider provider then Some [zeroKey] else None) of
               None \<Rightarrow> (p, ctx, None)
             | Some keys \<Rightarrow>
                 let (c1, available, stamp) = AsFilter c True provider model keys now;
                     ctx1 = (case stamp of Some s \<Rightarrow> ctx\<lparr>px_RetryAfterSeconds := Some s\<rparr> | None \<Rightarrow> ctx);
                     p1 = p\<lparr>p_State := Some c1\<rparr>
                 in if length available > 0 then (p1, ctx1, None)
                    else
                      let (c2, left) = ShortestRemainingCooldown c1 provider model keys now;
                          retryAfter = (if left > 0 then retryAfterSecondsHint left else 0);
                          ctx2 = (if left > 0 then ctx1\<lparr>px_RetryAfterSeconds := Some retryAfter\<rparr> else ctx1)
                      in (p\<lparr>p_State := Some c2\<rparr>, ctx2,
                          Some \<lparr>sc_Error = no_eligible_keys_error provider retryAfter, sc_Silent = True\<rparr>))
      | _ \<Rightarrow> (p, ctx, None))"

definition PreLLMHook :: "CooldownPlugin \<Rightarrow> 'req \<Rightarrow> 'req \<times> LLMPluginShortCircuit option" where
  "PreLLMHook p req = (req, None)"

definition Plugin_Snapshot :: "CooldownPlugin \<Rightarrow> instant \<Rightarrow> CooldownEntry list option" where
  "Plugin_Snapshot p now = map_option (\<lambda>c. Snapshot c now) (p_State p)"

definition Plugin_ClearKey :: "CooldownPlugin \<Rightarrow> ModelProvider \<Rightarrow> string \<Rightarrow> string \<Rightarrow> CooldownPlugin \<times> bool" where
  "Plugin_ClearKey p provider keyID model =
     (case p_State p of
        None \<Rightarrow> (p, False)
      | Some c \<Rightarrow> let (c', b) = ClearKey c provider keyID model in (p\<lparr>p_State := Some c'\<rparr>, b))"

definition Plugin_Stats :: "CooldownPlugin \<Rightarrow> CooldownStats option" where
  "Plugin_Stats p = map_option Stats (p_State p)"

subsection \<open>Properties\<close>

lemmas classify_simps = classifyForMarker_def Let_def

text \<open>From one failure to the next request: once the retry loop has reported a failing key to the
  marker and the policy in force classifies the error, no request that the resulting cooldown covers
  - any model for a key-wide rule, the same model otherwise - is offered that key by the pool filter
  before the deadline.\<close>

theorem marked_key_is_filtered:
  assumes "classifyForMarker ctx p k kn (Some e) = Some cl"
    and "named_ok p k m" "addressable p k m (cl_Scope cl)" "named_ok p k m'"
    and "mark_covers p k m (cl_Scope cl) p k m'" "t < mark_deadline c p (cl_TTL cl) now"
  shows "list_all (\<lambda>key. k_ID key \<noteq> k) (fst (snd (AsFilter (AsMarker c ctx p k kn m (Some e) now) hasctx p m' keys t)))"
proof -
  have "AsMarker c ctx p k kn m (Some e) now =
      MarkWithTTL c p k m (cl_TTL cl) (cl_Kind cl) (cl_Scope cl) now"
    using assms(1) by (auto simp: AsMarker_def classifyForMarker_def)
  then show ?thesis
    using suppressed_after_mark [OF assms(2-4), of t c "cl_TTL cl" now "cl_Kind cl"] assms(5, 6)
    by (auto simp: filter_out list_all_iff)
qed

definition sample_quota_error :: BifrostError where
  "sample_quota_error = zeroError\<lparr>be_StatusCode := Some 429,
     be_Error := Some \<lparr>ef_Type = Some ''insufficient_quota'', ef_Code = None, ef_Message = ''quota'', ef_Error = None\<rparr>\<rparr>"

definition sample_class :: Classification where
  "sample_class = \<lparr>cl_TTL = 600000000000, cl_KeyID = ''k1'', cl_KeyName = ''n'', cl_Kind = ''quota'', cl_Scope = ''key''\<rparr>"

lemma sample_classified: "classifyForMarker None OpenAI ''k1'' ''n'' (Some sample_quota_error) = Some sample_class"
  by code_simp

theorem marked_key_is_filtered_witness:
  "list_all (\<lambda>key. k_ID key \<noteq> ''k1'')
     (fst (snd (AsFilter (AsMarker (NewCooldownState 0) None OpenAI ''k1'' ''n'' ''gpt-4'' (Some sample_quota_error) 0)
        True OpenAI ''gpt-5'' [zeroKey\<lparr>k_ID := ''k1''\<rparr>, zeroKey\<lparr>k_ID := ''k2''\<rparr>] 5)))"
  using marked_key_is_filtered [OF sample_classified, of "''gpt-4''" "''gpt-5''" 5 "NewCooldownState 0" 0 True
      "[zeroKey\<lparr>k_ID := ''k1''\<rparr>, zeroKey\<lparr>k_ID := ''k2''\<rparr>]"]
  by (simp add: named_ok_def colon_free_def model_name_ok_def strings_HasPrefix_def addressable_def
      mark_covers_def mark_deadline_def sample_class_def Scope_OrDefault_def)

text \<open>The marker and the terminal hook agree: for an error that carries its provider and model,
  when the last trail record holds the failing key, the hook after the response leaves the cooldown
  state that the marker would - whenever the policy classifies the error - and it never changes the
  response or the error.\<close>

theorem post_hook_agrees_with_marker:
  assumes "p_State pl = Some c"
    and "ri_Provider (xf_RoutingInfo (be_ExtraFields e)) = p" "p \<noteq> ''''"
    and "ri_Model (xf_RoutingInfo (be_ExtraFields e)) = m" "m \<noteq> ''''"
    and "px_AttemptTrail ctx = Some (earlier @ [r])" "ar_KeyID r \<noteq> ''''"
    and "classifyForMarker (Some ctx) p (ar_KeyID r) (ar_KeyName r) (Some e) \<noteq> None"
  shows "PostLLMHook pl (Some ctx) resp (Some e) now =
    (pl\<lparr>p_State := Some (AsMarker c (Some ctx) p (ar_KeyID r) (ar_KeyName r) m (Some e) now)\<rparr>, resp, Some e)"
proof -
  have last: "lastAttemptProviderAndKey (Some ctx) (Some e) = (p, ar_KeyID r, ar_KeyName r, m)"
    using assms by (simp add: lastAttemptProviderAndKey_def Let_def)
  obtain cl where cl: "classifyForMarker (Some ctx) p (ar_KeyID r) (ar_KeyName r) (Some e) = Some cl"
    using assms(8) by blast
  moreover have "cl_KeyID cl = ar_KeyID r"
    using cl by (auto simp: classifyForMarker_def Let_def split: option.splits if_splits)
  ultimately show ?thesis
    using assms(1, 7) by (simp add: PostLLMHook_def classify_def last AsMarker_def)
qed

definition sample_post_error :: BifrostError where
  "sample_post_error = PopulateRoutingInfo sample_quota_error (zeroRoutingInfo\<lparr>ri_Provider := OpenAI, ri_Model := ''gpt-4''\<rparr>)"

definition sample_trail_ctx :: PluginContext where
  "sample_trail_ctx = \<lparr>px_CooldownPolicy = None,
     px_AttemptTrail = Some ([] @ [\<lparr>ar_Attempt = 0, ar_KeyID = ''k1'', ar_KeyName = ''n'', ar_FailReason = None,
       ar_TriggeredRotation = False\<rparr>]), px_ProviderKeys = [], px_RetryAfterSeconds = None\<rparr>"

lemma sample_post_classified:
  "classifyForMarker (Some sample_trail_ctx) OpenAI ''k1'' ''n'' (Some sample_post_error) = Some sample_class"
  by code_simp

theorem post_hook_agrees_with_marker_witness:
  "PostLLMHook NewPlugin (Some sample_trail_ctx) (None :: unit option) (Some sample_post_error) 3 =
     (NewPlugin\<lparr>p_State := Some (AsMarker (NewCooldownState DefaultCooldownTTL) (Some sample_trail_ctx) OpenAI
        ''k1'' ''n'' ''gpt-4'' (Some sample_post_error) 3)\<rparr>, None, Some sample_post_error)"
  using post_hook_agrees_with_marker [of NewPlugin "NewCooldownState DefaultCooldownTTL" sample_post_error OpenAI
      "''gpt-4''" sample_trail_ctx "[]"
      "\<lparr>ar_Attempt = 0, ar_KeyID = ''k1'', ar_KeyName = ''n'', ar_FailReason = None, ar_TriggeredRotation = False\<rparr>"
      "None :: unit option" 3]
  by (simp add: sample_post_classified)
    (simp add: NewPlugin_def NewPluginWithTTL_def sample_post_error_def PopulateRoutingInfo_def
      syncDeprecatedFromRoutingInfo_def zeroRoutingInfo_def sample_trail_ctx_def)

definition offered_pool :: "PluginContext \<Rightarrow> ModelProvider \<Rightarrow> Key list" where
  "offered_pool ctx provider =
     (case mapget (px_ProviderKeys ctx) provider of
        Some (k # ks) \<Rightarrow> k # ks
      | _ \<Rightarrow> if IsKeylessProvider provider then [zeroKey] else [])"

text \<open>The hook before the provider call ends the attempt early exactly when the provider has a
  pool of keys (for a keyless provider the empty sentinel key) and every key of it is cooling down
  for the requested model; it then answers with a silent HTTP 429 of type \<open>no_eligible_keys\<close> that
  leaves fallbacks allowed and whose Retry-After is the time, in seconds rounded up, until the first
  key is free.\<close>

theorem pre_provider_hook_short_circuit:
  "snd (snd (PreProviderHook pl ctx (Some (p, m)) now)) =
     (case p_State pl of
        None \<Rightarrow> None
      | Some c \<Rightarrow>
          let cooling = (\<lambda>k. snd (lookupSuppressed c p (k_ID k) m now)) in
          if p = '''' \<or> m = '''' \<or> offered_pool ctx p = [] \<or> list_ex (\<lambda>k. cooling k = None) (offered_pool ctx p) then None
          else Some \<lparr>sc_Error = no_eligible_keys_error p
                      (- ((- Min ((\<lambda>k. fst (the (cooling k)) - now) ` set (offered_pool ctx p))) div go_second)),
                     sc_Silent = True\<rparr>)"
proof (cases "p_State pl")
  case None
  then show ?thesis by (simp add: PreProviderHook_def)
next
  case (Some c)
  let ?S = "\<lambda>k. suppressed_by c p (k_ID k) m now"
  let ?keys = "offered_pool ctx p"
  have offered_pool: "(case mapget (px_ProviderKeys ctx) p of
                 Some keys \<Rightarrow> if length keys = 0 then if IsKeylessProvider p then Some [zeroKey] else None
                              else Some keys
               | None \<Rightarrow> if IsKeylessProvider p then Some [zeroKey] else None)
      = (if ?keys = [] then None else Some ?keys)"
    by (simp add: offered_pool_def split: option.splits list.splits)
  obtain c1 out stamp where f: "AsFilter c True p m ?keys now = (c1, out, stamp)"
    by (cases "AsFilter c True p m ?keys now")
  have out: "out = filter (\<lambda>k. ?S k = None) ?keys" and c1: "same_clocks now c c1"
    using filter_out [of c True p m ?keys now] filter_clocks [of now c True p m ?keys] f by simp_all
  have left: "snd (ShortestRemainingCooldown c1 p m ?keys now) = Min ((\<lambda>k. fst (the (?S k)) - now) ` set ?keys)"
    "0 < snd (ShortestRemainingCooldown c1 p m ?keys now)" if "out = []" "?keys \<noteq> []"
    using ShortestRemaining_min [of ?keys c1 p m now] that out
    by (auto simp: suppressed_by_cong [OF c1] filter_empty_conv)
  have ex: "list_ex (\<lambda>k. ?S k = None) ?keys \<longleftrightarrow> out \<noteq> []"
    unfolding out list_ex_iff filter_empty_conv by (metis (mono_tags, lifting))
  show ?thesis
    using left unfolding PreProviderHook_def
    by (simp only: Some prod.case option.case offered_pool)
      (simp add: f split_beta Let_def lookupSuppressed_spec ex retryAfter_ceiling del: IsKeylessProvider_iff)
qed

lemma GetErrorString_extra [simp]: "GetErrorString (e\<lparr>be_ExtraFields := x\<rparr>) = GetErrorString e"
  by (simp add: GetErrorString_def split: option.splits)

lemma MatchesRule_extra: "MatchesRule r (Some (e\<lparr>be_ExtraFields := x\<rparr>)) = MatchesRule r (Some e)"
proof -
  have "Matches m (e\<lparr>be_ExtraFields := x\<rparr>) = Matches m e" for m
    by (simp add: Matches_def)
  then show ?thesis by (cases r) (simp_all add: MatchesRule_Some)
qed

lemma IsQuotaExhausted_extra: "IsQuotaExhausted (Some (e\<lparr>be_ExtraFields := x\<rparr>)) = IsQuotaExhausted (Some e)"
  by (simp add: IsQuotaExhausted_def statusCodeAllowsQuota_def matchesAnyErrorField_def)

definition ignored_by_defaults :: "ModelProvider \<Rightarrow> BifrostError \<Rightarrow> bool" where
  "ignored_by_defaults p e \<longleftrightarrow>
     \<not> MatchesRule (cp_Quota (DefaultCooldownPolicy p)) (Some e) \<and>
     \<not> MatchesRule (cp_RateLimit (DefaultCooldownPolicy p)) (Some e) \<and> \<not> IsQuotaExhausted (Some e)"

lemma synthetic_ignored: "list_all (\<lambda>p. ignored_by_defaults p (no_eligible_keys_error p 0)) StandardProviders"
  by code_simp

lemma synthetic_form:
  "\<exists>x. PopulateRoutingInfo (no_eligible_keys_error p secs) info = (no_eligible_keys_error p 0)\<lparr>be_ExtraFields := x\<rparr>"
  unfolding PopulateRoutingInfo_def no_eligible_keys_error_def by (simp, rule exI, rule refl)

text \<open>The gateway's own answers do not feed the cooldown: for every built-in provider under its
  built-in policies, without configured quota patterns, the terminal hook leaves the plugin untouched
  when it sees the \<open>no_eligible_keys\<close> error of the pre-provider hook, whatever the attempt trail.\<close>

theorem synthetic_error_not_marked:
  assumes "p \<in> set StandardProviders" "px_CooldownPolicy ctx = None" "p_quotaPatterns pl = []"
    and "ri_Provider info = p"
  shows "PostLLMHook pl (Some ctx) resp (Some (PopulateRoutingInfo (no_eligible_keys_error p secs) info)) now =
    (pl, resp, Some (PopulateRoutingInfo (no_eligible_keys_error p secs) info))"
proof -
  define e where "e = PopulateRoutingInfo (no_eligible_keys_error p secs) info"
  have "p \<noteq> ''''" using assms(1) by (auto simp: StandardProviders_def)
  moreover have "ri_Provider (xf_RoutingInfo (be_ExtraFields e)) = p"
    using assms(4) by (simp add: e_def PopulateRoutingInfo_def syncDeprecatedFromRoutingInfo_def)
  ultimately have prov: "fst (lastAttemptProviderAndKey (Some ctx) (Some e)) = p"
    by (simp add: lastAttemptProviderAndKey_def Let_def split_beta split: option.splits)
  have "ignored_by_defaults p (no_eligible_keys_error p 0)"
    using synthetic_ignored assms(1) by (simp only: list_all_iff)
  then have "ignored_by_defaults p e"
    using synthetic_form [of p secs info]
    by (auto simp: e_def ignored_by_defaults_def MatchesRule_extra IsQuotaExhausted_extra)
  then have "classify pl (Some ctx) (Some e) = None" "\<not> isQuotaExhausted pl (Some e)"
    using assms(2, 3) prov
    by (auto simp: classify_def classifyForMarker_def ignored_by_defaults_def isQuotaExhausted_def split_beta Let_def)
  then show ?thesis
    unfolding e_def [symmetric] by (simp add: PostLLMHook_def split: option.splits)
qed

theorem synthetic_error_not_marked_witness:
  "PostLLMHook NewPlugin (Some \<lparr>px_CooldownPolicy = None, px_AttemptTrail = None, px_ProviderKeys = [],
       px_RetryAfterSeconds = Some 7\<rparr>) (None :: unit option)
     (Some (PopulateRoutingInfo (no_eligible_keys_error OpenAI 7) (zeroRoutingInfo\<lparr>ri_Provider := OpenAI\<rparr>))) 0
   = (NewPlugin, None, Some (PopulateRoutingInfo (no_eligible_keys_error OpenAI 7) (zeroRoutingInfo\<lparr>ri_Provider := OpenAI\<rparr>)))"
  by (rule synthetic_error_not_marked)
    (simp_all add: StandardProviders_def NewPlugin_def NewPluginWithTTL_def)

end
