(* ===== verification/KV_Store.thy ===== *)
theory KV_Store
  imports Expiring_Store "HOL-Library.Multiset"
begin

text \<open>
  The in-memory key-value store (\<open>framework/kvstore/kvstore.go\<close>): entries with an optional deadline,
  a background sweep, atomic set-if-absent, and the two entry points through which gossip from other
  nodes is applied.

  A method runs under the store's mutex: one function on the record. Its reading of the clock is the
  argument \<open>now\<close>, in Unix nanoseconds (the second reading, when \<open>Get\<close> re-checks an entry before
  deleting it, is taken to be the same instant). Deadlines are computed in 64 bits. The calls to the
  replication delegate are recorded, in order, in \<open>s_notified\<close>; \<open>marshal\<close> stands for the JSON encoder
  and \<open>raw\<close> for the injection of undecoded bytes into the values. The ticker that repeats the sweep is
  not modelled.
\<close>

datatype kv_error = ErrClosed | ErrEmptyKey | ErrNotFound | ErrInvalidTTL | ErrMarshal

record 'v kv_entry =
  e_value :: 'v
  e_writtenAt :: instant
  e_expiresAt :: instant

datatype notification = OnSet string string instant instant | OnDelete string instant

record 'v Store =
  s_data :: "(string, 'v kv_entry) gomap"
  s_defaultTTL :: duration
  s_cleanupInterval :: duration
  s_closed :: bool
  s_delegate :: bool
  s_decoders :: "(string, string \<Rightarrow> 'v option) gomap"
  s_notified :: "notification list"

definition isExpired :: "'v kv_entry \<Rightarrow> instant \<Rightarrow> bool" where
  "isExpired e nowUnixNano \<longleftrightarrow> e_expiresAt e \<noteq> 0 \<and> nowUnixNano \<ge> e_expiresAt e"

definition Store_SetDelegate :: "'v Store \<Rightarrow> bool \<Rightarrow> 'v Store" where
  "Store_SetDelegate s d = s\<lparr>s_delegate := d\<rparr>"

definition RegisterDecoder :: "'v Store \<Rightarrow> string \<Rightarrow> (string \<Rightarrow> 'v option) \<Rightarrow> 'v Store" where
  "RegisterDecoder s keyPrefix decoder = s\<lparr>s_decoders := mapput keyPrefix decoder (s_decoders s)\<rparr>"

definition Store_New :: "duration \<Rightarrow> duration \<Rightarrow> kv_error + 'v Store" where
  "Store_New cleanupInterval defaultTTL =
     (if defaultTTL < 0 then Inl ErrInvalidTTL
      else Inr \<lparr>s_data = [], s_defaultTTL = defaultTTL,
        s_cleanupInterval = (if cleanupInterval \<le> 0 then 30 * go_second else cleanupInterval),
        s_closed = False, s_delegate = False, s_decoders = [], s_notified = []\<rparr>)"

definition validateMutable :: "'v Store \<Rightarrow> string \<Rightarrow> duration \<Rightarrow> kv_error option" where
  "validateMutable s k ttl =
     (if k = '''' then Some ErrEmptyKey
      else if ttl < 0 then Some ErrInvalidTTL
      else if s_closed s then Some ErrClosed
      else None)"

definition store_entry :: "string \<Rightarrow> 'v \<Rightarrow> instant \<times> instant \<Rightarrow> 'v Store \<Rightarrow> 'v Store" where
  "store_entry k v stamps s =
     s\<lparr>s_data := mapput k \<lparr>e_value = v, e_writtenAt = fst stamps, e_expiresAt = snd stamps\<rparr> (s_data s)\<rparr>"

definition notify :: "notification \<Rightarrow> 'v Store \<Rightarrow> 'v Store" where
  "notify n s = (if s_delegate s then s\<lparr>s_notified := s_notified s @ [n]\<rparr> else s)"

definition expiry :: "instant \<Rightarrow> duration \<Rightarrow> instant" where
  "expiry now ttl = (if ttl > 0 then wrap64 (now + ttl) else 0)"

definition SetWithTTL ::
    "('v \<Rightarrow> string option) \<Rightarrow> 'v Store \<Rightarrow> string \<Rightarrow> 'v \<Rightarrow> duration \<Rightarrow> instant \<Rightarrow> 'v Store \<times> kv_error option" where
  "SetWithTTL marshal s k v ttl now =
     (case validateMutable s k ttl of
        Some err \<Rightarrow> (s, Some err)
      | None \<Rightarrow>
          (case (if s_delegate s then marshal v else Some '''') of
             None \<Rightarrow> (s, Some ErrMarshal)
           | Some valueJSON \<Rightarrow>
               (notify (OnSet k valueJSON now (expiry now ttl)) (store_entry k v (now, expiry now ttl) s), None)))"

definition Store_Set ::
    "('v \<Rightarrow> string option) \<Rightarrow> 'v Store \<Rightarrow> string \<Rightarrow> 'v \<Rightarrow> instant \<Rightarrow> 'v Store \<times> kv_error option" where
  "Store_Set marshal s k v now = SetWithTTL marshal s k v (s_defaultTTL s) now"

definition SetNXWithTTL ::
    "('v \<Rightarrow> string option) \<Rightarrow> 'v Store \<Rightarrow> string \<Rightarrow> 'v \<Rightarrow> duration \<Rightarrow> instant
     \<Rightarrow> 'v Store \<times> (kv_error + bool)" where
  "SetNXWithTTL marshal s k v ttl now =
     (case validateMutable s k ttl of
        Some err \<Rightarrow> (s, Inl err)
      | None \<Rightarrow>
          (case (if s_delegate s then marshal v else Some '''') of
             None \<Rightarrow> (s, Inl ErrMarshal)
           | Some valueJSON \<Rightarrow>
               if (case mapget (s_data s) k of Some existing \<Rightarrow> \<not> isExpired existing now | None \<Rightarrow> False)
               then (s, Inr False)
               else (notify (OnSet k valueJSON now (expiry now ttl)) (store_entry k v (now, expiry now ttl) s),
                     Inr True)))"

fun best_decoder ::
    "string \<Rightarrow> (string, string \<Rightarrow> 'v option) gomap \<Rightarrow> string \<times> (string \<Rightarrow> 'v option) option
     \<Rightarrow> string \<times> (string \<Rightarrow> 'v option) option" where
  "best_decoder k [] best = best"
| "best_decoder k ((prefix, decode) # ds) best =
     best_decoder k ds
       (if strings_HasPrefix k prefix \<and> length prefix > length (fst best) then (prefix, Some decode) else best)"

definition decodeValue :: "(string \<Rightarrow> 'v) \<Rightarrow> 'v Store \<Rightarrow> string \<Rightarrow> string \<Rightarrow> 'v" where
  "decodeValue raw s k valueJSON =
     (case snd (best_decoder k (s_decoders s) ('''', None)) of
        Some decode \<Rightarrow> (case decode valueJSON of Some v \<Rightarrow> v | None \<Rightarrow> raw valueJSON)
      | None \<Rightarrow> raw valueJSON)"

definition SetRemote ::
    "(string \<Rightarrow> 'v) \<Rightarrow> 'v Store \<Rightarrow> string \<Rightarrow> string \<Rightarrow> instant \<Rightarrow> instant \<Rightarrow> 'v Store \<times> kv_error option" where
  "SetRemote raw s k valueJSON writtenAt expiresAt =
     (if k = '''' then (s, Some ErrEmptyKey)
      else if s_closed s then (s, Some ErrClosed)
      else
        let v = decodeValue raw s k valueJSON in
        if (case mapget (s_data s) k of Some existing \<Rightarrow> e_writtenAt existing > writtenAt | None \<Rightarrow> False)
        then (s, None)
        else (store_entry k v (writtenAt, expiresAt) s, None))"

definition Store_Get :: "'v Store \<Rightarrow> string \<Rightarrow> instant \<Rightarrow> 'v Store \<times> (kv_error + 'v)" where
  "Store_Get s k now =
     (if k = '''' then (s, Inl ErrEmptyKey)
      else if s_closed s then (s, Inl ErrClosed)
      else
        case mapget (s_data s) k of
          None \<Rightarrow> (s, Inl ErrNotFound)
        | Some e \<Rightarrow>
            if isExpired e now then (s\<lparr>s_data := mapdel k (s_data s)\<rparr>, Inl ErrNotFound)
            else (s, Inr (e_value e)))"

definition GetAndDelete :: "'v Store \<Rightarrow> string \<Rightarrow> instant \<Rightarrow> 'v Store \<times> (kv_error + 'v)" where
  "GetAndDelete s k now =
     (if k = '''' then (s, Inl ErrEmptyKey)
      else if s_closed s then (s, Inl ErrClosed)
      else
        case mapget (s_data s) k of
          None \<Rightarrow> (s, Inl ErrNotFound)
        | Some e \<Rightarrow>
            let s1 = s\<lparr>s_data := mapdel k (s_data s)\<rparr> in
            if isExpired e now then (s1, Inl ErrNotFound)
            else (notify (OnDelete k now) s1, Inr (e_value e)))"

definition Store_Delete :: "'v Store \<Rightarrow> string \<Rightarrow> instant \<Rightarrow> 'v Store \<times> (kv_error + bool)" where
  "Store_Delete s k deletedAt =
     (if k = '''' then (s, Inl ErrEmptyKey)
      else if s_closed s then (s, Inl ErrClosed)
      else
        case mapget (s_data s) k of
          None \<Rightarrow> (s, Inr False)
        | Some _ \<Rightarrow> (notify (OnDelete k deletedAt) (s\<lparr>s_data := mapdel k (s_data s)\<rparr>), Inr True))"

definition DeleteRemote :: "'v Store \<Rightarrow> string \<Rightarrow> instant \<Rightarrow> 'v Store \<times> kv_error option" where
  "DeleteRemote s k deletedAt =
     (if k = '''' then (s, Some ErrEmptyKey)
      else if s_closed s then (s, Some ErrClosed)
      else if (case mapget (s_data s) k of Some existing \<Rightarrow> e_writtenAt existing > deletedAt | None \<Rightarrow> False)
      then (s, None)
      else (s\<lparr>s_data := mapdel k (s_data s)\<rparr>, None))"

fun count_live :: "(string, 'v kv_entry) gomap \<Rightarrow> instant \<Rightarrow> nat" where
  "count_live [] now = 0"
| "count_live ((k, e) # rest) now = (if isExpired e now then count_live rest now else Suc (count_live rest now))"

definition Store_Len :: "'v Store \<Rightarrow> instant \<Rightarrow> nat" where
  "Store_Len s now = (if s_closed s then 0 else count_live (s_data s) now)"

definition Store_Close :: "'v Store \<Rightarrow> 'v Store" where
  "Store_Close s = s\<lparr>s_closed := True\<rparr>"

definition cleanupExpired :: "instant \<Rightarrow> 'v Store \<Rightarrow> 'v Store" where
  "cleanupExpired now s = s\<lparr>s_data := filter (\<lambda>(k, e). \<not> isExpired e now) (s_data s)\<rparr>"

subsection \<open>What a lookup sees\<close>

definition kv_live :: "'v Store \<Rightarrow> string \<Rightarrow> instant \<Rightarrow> 'v option" where
  "kv_live s k now =
     (case mapget (s_data s) k of
        Some e \<Rightarrow> if isExpired e now then None else Some (e_value e)
      | None \<Rightarrow> None)"

lemma Get_result:
  "k \<noteq> '''' \<Longrightarrow> \<not> s_closed s \<Longrightarrow>
     snd (Store_Get s k now) = (case kv_live s k now of Some v \<Rightarrow> Inr v | None \<Rightarrow> Inl ErrNotFound)"
  by (simp add: Store_Get_def kv_live_def split: option.splits)

lemma Get_frame:
  "wf_map (s_data s) \<Longrightarrow> now \<le> t \<Longrightarrow> kv_live (fst (Store_Get s k now)) k' t = kv_live s k' t"
  by (auto simp: Store_Get_def kv_live_def isExpired_def split: option.splits)

lemma kv_live_notify [simp]: "kv_live (notify n s) k now = kv_live s k now"
  by (simp add: notify_def kv_live_def)

lemma kv_live_store_entry:
  "kv_live (store_entry k v (w, e) s) k' now =
     (if k' = k then if e \<noteq> 0 \<and> now \<ge> e then None else Some v else kv_live s k' now)"
  by (simp add: kv_live_def store_entry_def isExpired_def)

interpretation kv_entries: expiring_store
  kv_live store_entry cleanupExpired "\<lambda>stamps now. snd stamps \<noteq> 0 \<and> now \<ge> snd stamps"
  "\<lambda>s. wf_map (s_data s)"
proof unfold_locales
  fix s :: "'v Store" and k k' :: string and v :: 'v and e :: "instant \<times> instant" and t now :: instant
  show "kv_live (store_entry k v e s) k' now =
      (if k' = k then if snd e \<noteq> 0 \<and> now \<ge> snd e then None else Some v else kv_live s k' now)"
    using kv_live_store_entry [of k v "fst e" "snd e"] by simp
  assume s: "wf_map (s_data s)"
  show "kv_live (cleanupExpired t s) k now = kv_live s k now" if "t \<le> now"
    using s that by (auto simp: kv_live_def cleanupExpired_def mapget_filter isExpired_def split: option.splits)
  show "wf_map (s_data (store_entry k v e s))" using s by (simp add: store_entry_def)
  show "wf_map (s_data (cleanupExpired t s))" using s by (simp add: cleanupExpired_def)
qed

subsection \<open>Properties\<close>

lemma apply_ops_closed [simp]: "s_closed (apply_ops store_entry cleanupExpired ops s) = s_closed s"
proof (induction ops arbitrary: s)
  case (Cons p ops)
  then show ?case by (cases p) (simp_all add: store_entry_def cleanupExpired_def)
qed simp

text \<open>Writes and the background sweep: after any schedule of writes and sweeps, in any
  interleaving, a lookup of a key at an instant not before the sweeps returns the value of the last
  write of that key when that write has no deadline or the deadline is still ahead, and reports the
  key as missing otherwise; where the schedule holds no write of the key it returns what it returned
  before. Sweeps are never observable.\<close>

theorem kv_get_after_schedule:
  assumes "wf_map (s_data s)" "\<not> s_closed s" "k \<noteq> ''''" "list_all (sweep_before now) ops"
  shows "snd (Store_Get (apply_ops store_entry cleanupExpired ops s) k now) =
    (case last_put k ops of
       Some (v, stamps) \<Rightarrow>
         if snd stamps = 0 \<or> now < snd stamps then Inr v else Inl ErrNotFound
     | None \<Rightarrow> snd (Store_Get s k now))"
proof -
  have "kv_live (apply_ops store_entry cleanupExpired ops s) k now =
      (case last_put k ops of
         Some (v, e) \<Rightarrow> if snd e \<noteq> 0 \<and> now \<ge> snd e then None else Some v
       | None \<Rightarrow> kv_live s k now)"
    by (rule kv_entries.live_after_ops [OF assms(1, 4)])
  then show ?thesis
    using assms(2, 3) by (auto simp: Get_result split: option.splits)
qed

theorem kv_get_after_schedule_witness:
  "snd (Store_Get (apply_ops store_entry cleanupExpired
      [Put ''a'' (1 :: int) (5, 10), Sweep 7, Put ''a'' 2 (8, 20), Sweep 11]
      \<lparr>s_data = [], s_defaultTTL = 0, s_cleanupInterval = 1, s_closed = False, s_delegate = False,
       s_decoders = [], s_notified = []\<rparr>) ''a'' 12) = Inr 2"
  using kv_get_after_schedule [of "\<lparr>s_data = [], s_defaultTTL = 0, s_cleanupInterval = 1, s_closed = False,
      s_delegate = False, s_decoders = [], s_notified = []\<rparr> :: int Store" "''a''" 12
      "[Put ''a'' 1 (5, 10), Sweep 7, Put ''a'' 2 (8, 20), Sweep 11]"]
  by simp

lemma mapput_mapput: "mapput k v (mapput k v' m) = mapput k v m"
  by (induction m) auto

definition remote_set :: "(string \<Rightarrow> 'v) \<Rightarrow> string \<Rightarrow> string \<times> instant \<times> instant \<Rightarrow> 'v Store \<Rightarrow> 'v Store" where
  "remote_set raw k w s = fst (SetRemote raw s k (fst w) (fst (snd w)) (snd (snd w)))"

lemma remote_set_commute:
  assumes "fst (snd w) \<noteq> fst (snd w')"
  shows "remote_set raw k w (remote_set raw k w' s) = remote_set raw k w' (remote_set raw k w s)"
  using assms
  by (auto simp: remote_set_def SetRemote_def Let_def store_entry_def decodeValue_def mapput_mapput
      split: option.splits)

lemma remote_set_entry:
  assumes "k \<noteq> ''''" "\<not> s_closed s"
  shows "\<exists>e. mapget (s_data (remote_set raw k w s)) k = Some e \<and> fst (snd w) \<le> e_writtenAt e"
    and "mapget (s_data s) k = Some e0 \<Longrightarrow>
      \<exists>e. mapget (s_data (remote_set raw k w s)) k = Some e \<and> e_writtenAt e0 \<le> e_writtenAt e"
    and "\<not> s_closed (remote_set raw k w s)"
  using assms by (auto simp: remote_set_def SetRemote_def Let_def store_entry_def split: option.splits)

lemma remote_set_keeps:
  assumes "k \<noteq> ''''" "\<not> s_closed s" "mapget (s_data s) k = Some e0"
  shows "\<exists>e. mapget (s_data (fold (remote_set raw k) ws s)) k = Some e \<and> e_writtenAt e0 \<le> e_writtenAt e"
  using assms(2, 3)
proof (induction ws arbitrary: s e0)
  case (Cons w ws)
  obtain e where e: "mapget (s_data (remote_set raw k w s)) k = Some e" "e_writtenAt e0 \<le> e_writtenAt e"
    using remote_set_entry(2) [OF assms(1) Cons.prems] by blast
  show ?case
    using Cons.IH [OF remote_set_entry(3) [OF assms(1) Cons.prems(1)] e(1)] e(2) by auto
qed simp

lemma remote_set_newest:
  assumes "k \<noteq> ''''" "\<not> s_closed s" "w \<in> set ws"
  shows "\<exists>e. mapget (s_data (fold (remote_set raw k) ws s)) k = Some e \<and> fst (snd w) \<le> e_writtenAt e"
  using assms(2, 3)
proof (induction ws arbitrary: s)
  case (Cons x ws)
  note open1 = remote_set_entry(3) [OF assms(1) Cons.prems(1)]
  show ?case
  proof (cases "w = x")
    case True
    obtain e where e: "mapget (s_data (remote_set raw k x s)) k = Some e" "fst (snd x) \<le> e_writtenAt e"
      using remote_set_entry(1) [OF assms(1) Cons.prems(1)] by blast
    show ?thesis using remote_set_keeps [OF assms(1) open1 e(1), of raw ws] e(2) True by auto
  next
    case False
    then show ?thesis using Cons.IH [OF open1] Cons.prems by simp
  qed
qed simp

text \<open>Gossip converges: for writes of one key with pairwise different write times, the order in
  which a node receives them does not matter - the stores are equal - and the entry that remains is
  at least as new as each of the writes.\<close>

theorem remote_sets_converge:
  assumes "mset ws = mset ws'" "distinct (map (\<lambda>w. fst (snd w)) ws)" "k \<noteq> ''''" "\<not> s_closed s"
  shows "fold (remote_set raw k) ws s = fold (remote_set raw k) ws' s
    \<and> list_all (\<lambda>w. \<exists>e. mapget (s_data (fold (remote_set raw k) ws s)) k = Some e \<and> fst (snd w) \<le> e_writtenAt e) ws"
proof -
  have "remote_set raw k x \<circ> remote_set raw k y = remote_set raw k y \<circ> remote_set raw k x"
    if "x \<in> set ws" "y \<in> set ws" for x y
  proof (cases "x = y")
    case False
    then have "fst (snd x) \<noteq> fst (snd y)"
      using that assms(2) by (auto simp: distinct_map dest: inj_onD)
    then show ?thesis by (auto simp: remote_set_commute)
  qed simp
  then have "fold (remote_set raw k) ws = fold (remote_set raw k) ws'"
    by (rule fold_multiset_equiv [OF _ assms(1)])
  moreover have "\<exists>e. mapget (s_data (fold (remote_set raw k) ws s)) k = Some e \<and> fst (snd w) \<le> e_writtenAt e"
    if "w \<in> set ws" for w
    by (rule remote_set_newest [OF assms(3, 4) that])
  ultimately show ?thesis by (simp only: list_all_iff) blast
qed

theorem remote_sets_converge_witness:
  "fold (remote_set (\<lambda>b. b) ''k'') [(''x'', 3, 0), (''y'', 5, 0)]
     \<lparr>s_data = [], s_defaultTTL = 0, s_cleanupInterval = 1, s_closed = False, s_delegate = False,
      s_decoders = [], s_notified = []\<rparr>
   = fold (remote_set (\<lambda>b. b) ''k'') [(''y'', 5, 0), (''x'', 3, 0)]
     \<lparr>s_data = [], s_defaultTTL = 0, s_cleanupInterval = 1, s_closed = False, s_delegate = False,
      s_decoders = [], s_notified = []\<rparr>"
  by (rule conjunct1 [OF remote_sets_converge]) simp_all

lemma SetNX_cases:
  assumes "validateMutable s k ttl = None" "s_delegate s \<longrightarrow> marshal v \<noteq> None"
  shows "SetNXWithTTL marshal s k v ttl now =
    (if kv_live s k now = None
     then (notify (OnSet k (if s_delegate s then the (marshal v) else '''') now (expiry now ttl))
             (store_entry k v (now, expiry now ttl) s), Inr True)
     else (s, Inr False))"
  using assms by (auto simp: SetNXWithTTL_def kv_live_def split: option.splits)

lemma notify_frame [simp]:
  "s_closed (notify n s) = s_closed s" "s_delegate (notify n s) = s_delegate s" "s_data (notify n s) = s_data s"
  "s_closed (store_entry k v st s) = s_closed s" "s_delegate (store_entry k v st s) = s_delegate s"
  by (simp_all add: notify_def store_entry_def)

lemma validateMutable_frame: "s_closed s' = s_closed s \<Longrightarrow> validateMutable s' k ttl = validateMutable s k ttl"
  by (simp add: validateMutable_def)

lemma expiry_in_range: "0 < ttl \<Longrightarrow> 0 \<le> now \<Longrightarrow> now + ttl < 2 ^ 63 \<Longrightarrow> expiry now ttl = now + ttl"
  by (simp add: expiry_def wrap64_id)

lemma validate_open: "validateMutable s k ttl = None \<Longrightarrow> k \<noteq> '''' \<and> \<not> s_closed s"
  by (simp add: validateMutable_def split: if_splits)

text \<open>Set-if-absent is exclusive: it reports success exactly when a lookup finds nothing at that
  instant. On success a lookup finds the new value until the deadline, and until then every further
  valid set-if-absent on the key fails and leaves the store as it is; on failure the store is unchanged.\<close>

theorem setnx_exclusive:
  assumes "validateMutable s k ttl = None" "0 < ttl" "0 \<le> now" "now + ttl < 2 ^ 63"
    and "s_delegate s \<longrightarrow> marshal v \<noteq> None \<and> marshal v' \<noteq> None" "now \<le> t" "t < now + ttl"
    and "validateMutable s k ttl' = None"
    and "SetNXWithTTL marshal s k v ttl now = (s', r)"
  shows "r = Inr (snd (Store_Get s k now) = Inl ErrNotFound)
    \<and> (if r = Inr True
       then snd (Store_Get s' k t) = Inr v \<and> SetNXWithTTL marshal s' k v' ttl' t = (s', Inr False)
       else s' = s)"
proof (cases "kv_live s k now = None")
  case True
  note open1 = validate_open [OF assms(1)]
  have s': "s' = notify (OnSet k (if s_delegate s then the (marshal v) else '''') now (expiry now ttl))
      (store_entry k v (now, expiry now ttl) s)" and r: "r = Inr True"
    using assms(9) SetNX_cases [OF assms(1), of marshal v now] assms(5) True by simp_all
  have live: "kv_live s' k t = Some v"
    using assms(2-4, 7) by (simp add: s' kv_live_store_entry expiry_in_range)
  have "SetNXWithTTL marshal s' k v' ttl' t = (s', Inr False)"
    using live assms(5) SetNX_cases [of s' k ttl' marshal v' t] assms(8)
      validateMutable_frame [of s' s k ttl'] by (simp add: s')
  then show ?thesis
    using r live open1 True by (simp add: Get_result s')
next
  case False
  then show ?thesis
    using assms(9) SetNX_cases [OF assms(1), of marshal v now] assms(5) validate_open [OF assms(1)]
    by (auto simp: Get_result)
qed

definition empty_store :: "string Store" where
  "empty_store = \<lparr>s_data = [], s_defaultTTL = 0, s_cleanupInterval = 1, s_closed = False, s_delegate = False,
     s_decoders = [], s_notified = []\<rparr>"

theorem setnx_exclusive_witness:
  "snd (Store_Get (fst (SetNXWithTTL Some empty_store ''lock'' ''a'' 10 100)) ''lock'' 105) = Inr ''a''
   \<and> SetNXWithTTL Some (fst (SetNXWithTTL Some empty_store ''lock'' ''a'' 10 100)) ''lock'' ''b'' 10 105
     = (fst (SetNXWithTTL Some empty_store ''lock'' ''a'' 10 100), Inr False)"
proof -
  have r: "SetNXWithTTL Some empty_store ''lock'' ''a'' 10 100 =
      (fst (SetNXWithTTL Some empty_store ''lock'' ''a'' 10 100), Inr True)"
    by (simp add: SetNXWithTTL_def empty_store_def validateMutable_def)
  show ?thesis
    using setnx_exclusive [of empty_store "''lock''" 10 100 Some "''a''" "''b''" 105 10, OF _ _ _ _ _ _ _ _ r]
    by (simp add: empty_store_def validateMutable_def)
qed

subsection \<open>Decoders\<close>

lemma best_decoder_longest:
  "best_decoder k ds (p0, d0) = (p, d) \<Longrightarrow>
     length p0 \<le> length p
     \<and> (\<forall>q f. (q, f) \<in> set ds \<longrightarrow> strings_HasPrefix k q \<longrightarrow> length q \<le> length p)
     \<and> ((p, d) = (p0, d0) \<or> (\<exists>f. d = Some f \<and> (p, f) \<in> set ds \<and> strings_HasPrefix k p))"
proof (induction ds arbitrary: p0 d0)
  case (Cons qf ds)
  obtain q f where qf: "qf = (q, f)" by (cases qf)
  show ?case
  proof (cases "strings_HasPrefix k q \<and> length q > length p0")
    case True
    then have "best_decoder k ds (q, Some f) = (p, d)" using Cons.prems qf by simp
    from Cons.IH [OF this] show ?thesis using True qf by auto
  next
    case False
    then have "best_decoder k ds (p0, d0) = (p, d)" using Cons.prems qf by auto
    from Cons.IH [OF this] show ?thesis using False qf by auto
  qed
qed simp

end
