(* ===== verification/LRU_Cache.thy ===== *)
theory LRU_Cache
  imports Prelude
begin

text \<open>
  The bounded cache with generation-guarded fills (\<open>framework/lrucache/lrucache.go\<close>), which mirrors
  database rows in memory.

  A list element of Go's \<open>container/list\<close> is an entry with an identity: the pointer that \<open>items\<close> holds
  and that \<open>Get\<close> compares. The recency list is a list of entries, the most recent first; an element
  removed from it is never reused, so identities are allocated from a counter. Every section of code
  that holds the mutex is one function: \<open>Get\<close> and \<open>EvictWhere\<close>, which run caller code between two such
  sections, and \<open>Fill\<close>, which runs the loader, are split there, so that the operations of other
  goroutines can be placed in between. The zero receiver (\<open>nil\<close>: caching disabled) is \<^const>\<open>None\<close>.
\<close>

record 'v lru_entry =
  le_elem :: nat
  le_key :: string
  le_indexKey :: string
  le_value :: 'v
  le_version :: uint64

record 'v Cache =
  c_capacity :: int
  c_items :: "(string, nat) gomap"
  c_order :: "'v lru_entry list"
  c_byIndex :: "(string, string) gomap"
  c_generation :: uint64
  c_validator :: "('v \<Rightarrow> bool) option"
  c_nextElem :: nat

subsection \<open>List elements\<close>

definition elem_entry :: "'v Cache \<Rightarrow> nat \<Rightarrow> 'v lru_entry option" where
  "elem_entry c el = find (\<lambda>e. le_elem e = el) (c_order c)"

definition list_Remove :: "nat \<Rightarrow> 'v lru_entry list \<Rightarrow> 'v lru_entry list" where
  "list_Remove el es = filter (\<lambda>e. le_elem e \<noteq> el) es"

definition list_MoveToFront :: "nat \<Rightarrow> 'v lru_entry list \<Rightarrow> 'v lru_entry list" where
  "list_MoveToFront el es = filter (\<lambda>e. le_elem e = el) es @ filter (\<lambda>e. le_elem e \<noteq> el) es"

definition list_update_elem ::
    "nat \<Rightarrow> ('v lru_entry \<Rightarrow> 'v lru_entry) \<Rightarrow> 'v lru_entry list \<Rightarrow> 'v lru_entry list" where
  "list_update_elem el f es = map (\<lambda>e. if le_elem e = el then f e else e) es"

subsection \<open>Operations\<close>

text \<open>The constructor panics on a capacity that is not positive.\<close>

definition Cache_New :: "int \<Rightarrow> ('v \<Rightarrow> bool) option \<Rightarrow> 'v Cache option" where
  "Cache_New capacity validator =
     (if capacity \<le> 0 then None
      else Some \<lparr>c_capacity = capacity, c_items = [], c_order = [], c_byIndex = [], c_generation = 0,
             c_validator = validator, c_nextElem = 0\<rparr>)"

definition removeLocked :: "'v lru_entry \<Rightarrow> 'v Cache \<Rightarrow> 'v Cache" where
  "removeLocked ent c =
     (let c1 = c\<lparr>c_order := list_Remove (le_elem ent) (c_order c), c_items := mapdel (le_key ent) (c_items c)\<rparr>
      in if le_indexKey ent \<noteq> '''' \<and> mapget (c_byIndex c1) (le_indexKey ent) = Some (le_key ent)
         then c1\<lparr>c_byIndex := mapdel (le_indexKey ent) (c_byIndex c1)\<rparr> else c1)"

text \<open>Removal of the element a map entry points to; \<open>items\<close> only holds elements of the list.\<close>

definition remove_key :: "string \<Rightarrow> 'v Cache \<Rightarrow> 'v Cache" where
  "remove_key k c =
     (case mapget (c_items c) k of
        None \<Rightarrow> c
      | Some el \<Rightarrow> (case elem_entry c el of Some ent \<Rightarrow> removeLocked ent c | None \<Rightarrow> c))"

text \<open>\<open>Get\<close>: the read under the lock, then - depending on the validator's verdict, given outside the
  lock - the removal of the rejected entry or the move to the front.\<close>

definition Get_read :: "'v Cache \<Rightarrow> string \<Rightarrow> (nat \<times> 'v \<times> uint64) option" where
  "Get_read c k =
     (case mapget (c_items c) k of
        None \<Rightarrow> None
      | Some el \<Rightarrow> map_option (\<lambda>ent. (el, le_value ent, le_version ent)) (elem_entry c el))"

definition Get_reject :: "string \<Rightarrow> nat \<Rightarrow> uint64 \<Rightarrow> 'v Cache \<Rightarrow> 'v Cache" where
  "Get_reject k el version c =
     (case mapget (c_items c) k of
        Some cur \<Rightarrow>
          if cur = el then
            (case elem_entry c cur of
               Some ent \<Rightarrow> if le_version ent = version then removeLocked ent c else c
             | None \<Rightarrow> c)
          else c
      | None \<Rightarrow> c)"

definition Get_touch :: "string \<Rightarrow> nat \<Rightarrow> 'v Cache \<Rightarrow> 'v Cache" where
  "Get_touch k el c =
     (case mapget (c_items c) k of
        Some cur \<Rightarrow> if cur = el then c\<lparr>c_order := list_MoveToFront cur (c_order c)\<rparr> else c
      | None \<Rightarrow> c)"

definition rejects :: "'v Cache \<Rightarrow> 'v \<Rightarrow> bool" where
  "rejects c v = (case c_validator c of Some valid \<Rightarrow> \<not> valid v | None \<Rightarrow> False)"

text \<open>\<open>Get\<close> without interference.\<close>

definition Cache_Get :: "'v Cache option \<Rightarrow> string \<Rightarrow> 'v Cache option \<times> 'v option" where
  "Cache_Get oc k =
     (case oc of
        None \<Rightarrow> (None, None)
      | Some c \<Rightarrow>
          (case Get_read c k of
             None \<Rightarrow> (Some c, None)
           | Some (el, v, version) \<Rightarrow>
               if rejects c v then (Some (Get_reject k el version c), None)
               else (Some (Get_touch k el c), Some v)))"

definition currentGeneration :: "'v Cache \<Rightarrow> uint64" where
  "currentGeneration c = c_generation c"

definition evictIndexOwnerLocked :: "string \<Rightarrow> string \<Rightarrow> 'v Cache \<Rightarrow> 'v Cache" where
  "evictIndexOwnerLocked indexKey newKey c =
     (case mapget (c_byIndex c) indexKey of
        None \<Rightarrow> c
      | Some owner \<Rightarrow>
          if owner = newKey then c
          else
            (case mapget (c_items c) owner of
               None \<Rightarrow> c
             | Some el \<Rightarrow>
                 (case elem_entry c el of
                    Some ent \<Rightarrow> removeLocked ent (c\<lparr>c_generation := c_generation c + 1\<rparr>)
                  | None \<Rightarrow> c\<lparr>c_generation := c_generation c + 1\<rparr>)))"

definition drop_binding :: "'v lru_entry \<Rightarrow> string \<Rightarrow> string \<Rightarrow> 'v Cache \<Rightarrow> 'v Cache" where
  "drop_binding ent indexKey k c =
     (if le_indexKey ent \<noteq> indexKey \<and> le_indexKey ent \<noteq> '''' \<and>
         mapget (c_byIndex c) (le_indexKey ent) = Some k
      then c\<lparr>c_byIndex := mapdel (le_indexKey ent) (c_byIndex c)\<rparr> else c)"

definition write_entry :: "nat \<Rightarrow> string \<Rightarrow> 'v \<Rightarrow> 'v Cache \<Rightarrow> 'v Cache" where
  "write_entry el indexKey v c =
     c\<lparr>c_order := list_update_elem el
         (\<lambda>e. e\<lparr>le_value := v, le_indexKey := indexKey, le_version := le_version e + 1\<rparr>) (c_order c)\<rparr>"

definition rebind_index :: "string \<Rightarrow> string \<Rightarrow> 'v Cache \<Rightarrow> 'v Cache" where
  "rebind_index indexKey k c =
     (if indexKey \<noteq> '''' then
        (let d = evictIndexOwnerLocked indexKey k c in d\<lparr>c_byIndex := mapput indexKey k (c_byIndex d)\<rparr>)
      else c)"

definition update_existing :: "nat \<Rightarrow> 'v lru_entry \<Rightarrow> string \<Rightarrow> string \<Rightarrow> 'v \<Rightarrow> 'v Cache \<Rightarrow> 'v Cache" where
  "update_existing el ent k indexKey v c =
     (let c3 = rebind_index indexKey k (write_entry el indexKey v (drop_binding ent indexKey k c))
      in c3\<lparr>c_order := list_MoveToFront el (c_order c3)\<rparr>)"

definition insert_new :: "string \<Rightarrow> string \<Rightarrow> 'v \<Rightarrow> 'v Cache \<Rightarrow> 'v Cache" where
  "insert_new k indexKey v c =
     (let c1 = (if indexKey \<noteq> '''' then evictIndexOwnerLocked indexKey k c else c);
          c2 = (if int (length (c_order c1)) \<ge> c_capacity c1 then
                  (if c_order c1 = [] then c1 else removeLocked (last (c_order c1)) c1)
                else c1);
          el = c_nextElem c2;
          c3 = c2\<lparr>c_order := \<lparr>le_elem = el, le_key = k, le_indexKey = indexKey, le_value = v, le_version = 0\<rparr> # c_order c2,
                  c_items := mapput k el (c_items c2), c_nextElem := el + 1\<rparr>
      in if indexKey \<noteq> '''' then c3\<lparr>c_byIndex := mapput indexKey k (c_byIndex c3)\<rparr> else c3)"

definition setIfGeneration :: "string \<Rightarrow> string \<Rightarrow> 'v \<Rightarrow> uint64 \<Rightarrow> 'v Cache \<Rightarrow> 'v Cache" where
  "setIfGeneration k indexKey v gen c =
     (if c_generation c \<noteq> gen then c
      else
        case mapget (c_items c) k of
          Some el \<Rightarrow> (case elem_entry c el of
                        Some ent \<Rightarrow> update_existing el ent k indexKey v c
                      | None \<Rightarrow> c)
        | None \<Rightarrow> insert_new k indexKey v c)"

text \<open>\<open>Fill\<close>, seen by the goroutine that leads the fill of a key: it reads the generation, runs the
  loader - \<open>load\<close> is its outcome, an error or a value with its index key - and installs the value.
  \<open>others\<close> is what the remaining goroutines do to the cache while the loader runs. The in-flight map
  through which later callers of the same key wait for this outcome is not modelled.\<close>

definition Fill ::
    "'v Cache option \<Rightarrow> string \<Rightarrow> 'e + 'v \<times> string \<Rightarrow> ('v Cache \<Rightarrow> 'v Cache) \<Rightarrow> 'v Cache option \<times> ('e + 'v)" where
  "Fill oc k load others =
     (case oc of
        None \<Rightarrow> (None, map_sum id fst load)
      | Some c \<Rightarrow>
          let gen = currentGeneration c; c1 = others c in
          (case load of
             Inl err \<Rightarrow> (Some c1, Inl err)
           | Inr (v, indexKey) \<Rightarrow> (Some (setIfGeneration k indexKey v gen c1), Inr v)))"

definition Evict :: "string \<Rightarrow> 'v Cache \<Rightarrow> 'v Cache" where
  "Evict k c = remove_key k (c\<lparr>c_generation := c_generation c + 1\<rparr>)"

definition EvictByIndex :: "string \<Rightarrow> 'v Cache \<Rightarrow> 'v Cache" where
  "EvictByIndex indexKey c =
     (if indexKey = '''' then c
      else
        let c1 = c\<lparr>c_generation := c_generation c + 1\<rparr> in
        case mapget (c_byIndex c1) indexKey of
          Some k \<Rightarrow> remove_key k c1
        | None \<Rightarrow> c1)"

definition EvictWhere_mark :: "'v Cache \<Rightarrow> 'v Cache \<times> string list" where
  "EvictWhere_mark c = (c\<lparr>c_generation := c_generation c + 1\<rparr>, map le_key (c_order c))"

definition EvictWhere_remove :: "string list \<Rightarrow> 'v Cache \<Rightarrow> 'v Cache" where
  "EvictWhere_remove toRemove c = fold remove_key toRemove c"

definition EvictWhere :: "(string \<Rightarrow> bool) \<Rightarrow> 'v Cache \<Rightarrow> 'v Cache" where
  "EvictWhere p c = (let (c1, keys) = EvictWhere_mark c in EvictWhere_remove (filter p keys) c1)"

definition Flush :: "'v Cache \<Rightarrow> 'v Cache" where
  "Flush c = c\<lparr>c_generation := c_generation c + 1, c_items := [], c_byIndex := [], c_order := []\<rparr>"

definition Cache_Len :: "'v Cache option \<Rightarrow> nat" where
  "Cache_Len oc = (case oc of None \<Rightarrow> 0 | Some c \<Rightarrow> length (c_order c))"

subsection \<open>Composite keys\<close>

fun EncodeKey :: "string list \<Rightarrow> string" where
  "EncodeKey [] = ''''"
| "EncodeKey (p # parts) = strconv_Itoa (int (length p)) @ '':'' @ p @ EncodeKey parts"

text \<open>\<open>strconv.Atoi\<close> on the texts that pass the later check \<open>strconv.Itoa(length) == text\<close> with a
  non-negative length are exactly the decimal representations: digits without a leading zero.\<close>

definition digit_val :: "char \<Rightarrow> nat option" where
  "digit_val ch = (let n = (of_char ch :: nat) in if 48 \<le> n \<and> n \<le> 57 then Some (n - 48) else None)"

fun parse_digits :: "string \<Rightarrow> nat \<Rightarrow> nat option" where
  "parse_digits [] acc = Some acc"
| "parse_digits (ch # s) acc =
     (case digit_val ch of None \<Rightarrow> None | Some d \<Rightarrow> parse_digits s (acc * 10 + d))"

definition canonical_length :: "string \<Rightarrow> nat option" where
  "canonical_length t =
     (if t = '''' then None
      else case parse_digits t 0 of
             None \<Rightarrow> None
           | Some n \<Rightarrow> if n < 2 ^ 63 \<and> strconv_Itoa (int n) = t then Some n else None)"

fun DecodeKey_loop :: "nat \<Rightarrow> string \<Rightarrow> string list \<Rightarrow> string list option" where
  "DecodeKey_loop 0 rest parts = (if rest \<noteq> '''' then None else Some parts)"
| "DecodeKey_loop (Suc n) rest parts =
     (case strings_Index rest '':'' of
        None \<Rightarrow> None
      | Some i \<Rightarrow>
          (case canonical_length (take i rest) of
             None \<Rightarrow> None
           | Some len \<Rightarrow>
               let rest1 = drop (i + 1) rest in
               if len > length rest1 then None
               else DecodeKey_loop n (drop len rest1) (parts @ [take len rest1])))"

definition DecodeKey :: "string \<Rightarrow> int \<Rightarrow> string list option" where
  "DecodeKey k n = (if n < 0 then None else DecodeKey_loop (nat n) k [])"

subsection \<open>Invariant\<close>

text \<open>\<open>cache_inv P\<close>: the key map points at the list, and the index holds exactly the entries with an
  index key among the keys that satisfy \<open>P\<close>. Between the steps of an insertion the new key is not
  indexed yet; outside, every key is.\<close>

definition list_ok :: "'v Cache \<Rightarrow> bool" where
  "list_ok c \<longleftrightarrow> distinct (map le_key (c_order c)) \<and> distinct (map le_elem (c_order c)) \<and>
     (\<forall>e \<in> set (c_order c). le_elem e < c_nextElem c)"

definition items_ok :: "'v Cache \<Rightarrow> bool" where
  "items_ok c \<longleftrightarrow> wf_map (c_items c) \<and>
     (\<forall>k el. mapget (c_items c) k = Some el \<longleftrightarrow> (\<exists>e \<in> set (c_order c). le_key e = k \<and> le_elem e = el))"

definition index_ok :: "(string \<Rightarrow> bool) \<Rightarrow> 'v Cache \<Rightarrow> bool" where
  "index_ok P c \<longleftrightarrow> wf_map (c_byIndex c) \<and>
     (\<forall>i k. mapget (c_byIndex c) i = Some k \<longleftrightarrow>
        i \<noteq> '''' \<and> P k \<and> (\<exists>e \<in> set (c_order c). le_key e = k \<and> le_indexKey e = i))"

definition cache_inv :: "(string \<Rightarrow> bool) \<Rightarrow> 'v Cache \<Rightarrow> bool" where
  "cache_inv P c \<longleftrightarrow> list_ok c \<and> items_ok c \<and> index_ok P c"

definition bounded :: "'v Cache \<Rightarrow> bool" where
  "bounded c \<longleftrightarrow> 0 < c_capacity c \<and> int (length (c_order c)) \<le> c_capacity c"

lemmas inv_defs = cache_inv_def list_ok_def items_ok_def index_ok_def

lemma inv_generation [simp]: "cache_inv P (c\<lparr>c_generation := g\<rparr>) = cache_inv P c"
  by (simp add: inv_defs)

lemma key_unique:
  "cache_inv P c \<Longrightarrow> e \<in> set (c_order c) \<Longrightarrow> e' \<in> set (c_order c) \<Longrightarrow> le_key e = le_key e' \<Longrightarrow> e = e'"
  by (auto simp: cache_inv_def list_ok_def distinct_map dest: inj_onD)

lemma elem_unique:
  "cache_inv P c \<Longrightarrow> e \<in> set (c_order c) \<Longrightarrow> e' \<in> set (c_order c) \<Longrightarrow> le_elem e = le_elem e' \<Longrightarrow> e = e'"
  by (auto simp: cache_inv_def list_ok_def distinct_map dest: inj_onD)

lemma index_iff:
  "cache_inv P c \<Longrightarrow> mapget (c_byIndex c) i = Some k \<longleftrightarrow>
     i \<noteq> '''' \<and> P k \<and> (\<exists>e \<in> set (c_order c). le_key e = k \<and> le_indexKey e = i)"
  by (simp add: cache_inv_def index_ok_def)

lemma elem_entry_iff:
  assumes "cache_inv P c"
  shows "elem_entry c el = Some e \<longleftrightarrow> e \<in> set (c_order c) \<and> le_elem e = el"
proof
  assume "elem_entry c el = Some e"
  then show "e \<in> set (c_order c) \<and> le_elem e = el"
    by (auto simp: elem_entry_def find_Some_iff)
next
  assume e: "e \<in> set (c_order c) \<and> le_elem e = el"
  then obtain e' where "elem_entry c el = Some e'"
    using find_None_iff [of "\<lambda>e. le_elem e = el" "c_order c"] by (auto simp: elem_entry_def)
  moreover have "e' \<in> set (c_order c) \<and> le_elem e' = el"
    using calculation by (auto simp: elem_entry_def find_Some_iff)
  ultimately show "elem_entry c el = Some e" using e elem_unique [OF assms] by metis
qed

lemma items_entry:
  assumes "cache_inv P c"
  shows "(\<exists>el ent. mapget (c_items c) k = Some el \<and> elem_entry c el = Some ent \<and>
            ent \<in> set (c_order c) \<and> le_key ent = k \<and> le_elem ent = el)
      \<or> mapget (c_items c) k = None \<and> k \<notin> le_key ` set (c_order c)"
proof (cases "mapget (c_items c) k")
  case None
  then have "\<not> (\<exists>e \<in> set (c_order c). le_key e = k)"
    using assms by (metis cache_inv_def items_ok_def option.distinct(1))
  then show ?thesis using None by auto
next
  case (Some el)
  then obtain ent where "ent \<in> set (c_order c)" "le_key ent = k" "le_elem ent = el"
    using assms by (auto simp: cache_inv_def items_ok_def)
  then show ?thesis using Some elem_entry_iff [OF assms] by auto
qed

lemma list_Remove_entry:
  assumes "cache_inv P c" "e \<in> set (c_order c)"
  shows "list_Remove (le_elem e) (c_order c) = filter (\<lambda>x. le_key x \<noteq> le_key e) (c_order c)"
  unfolding list_Remove_def using assms key_unique [OF assms(1)] elem_unique [OF assms(1)]
  by (intro filter_cong) blast+

lemma removeLocked_order:
  assumes "cache_inv P c" "e \<in> set (c_order c)"
  shows "c_order (removeLocked e c) = filter (\<lambda>x. le_key x \<noteq> le_key e) (c_order c)"
  using list_Remove_entry [OF assms] by (simp add: removeLocked_def Let_def)

lemma removeLocked_frame [simp]:
  "c_capacity (removeLocked e c) = c_capacity c" "c_generation (removeLocked e c) = c_generation c"
  "c_nextElem (removeLocked e c) = c_nextElem c" "c_validator (removeLocked e c) = c_validator c"
  by (simp_all add: removeLocked_def Let_def)

lemma removeLocked_items: "c_items (removeLocked e c) = mapdel (le_key e) (c_items c)"
  by (simp add: removeLocked_def Let_def)

lemma removeLocked_index:
  assumes "cache_inv P c" "e \<in> set (c_order c)"
  shows "mapget (c_byIndex (removeLocked e c)) i =
    (if mapget (c_byIndex c) i = Some (le_key e) then None else mapget (c_byIndex c) i)"
proof -
  have "j = le_indexKey e \<and> j \<noteq> ''''" if "mapget (c_byIndex c) j = Some (le_key e)" for j
  proof -
    obtain e' where "j \<noteq> ''''" "e' \<in> set (c_order c)" "le_key e' = le_key e" "le_indexKey e' = j"
      using \<open>mapget (c_byIndex c) j = Some (le_key e)\<close> unfolding index_iff [OF assms(1)] by blast
    then show ?thesis using key_unique [OF assms(1) _ assms(2)] by blast
  qed
  then show ?thesis
    by (cases "mapget (c_byIndex c) i = Some (le_key e)") (auto simp: removeLocked_def Let_def)
qed

lemma removeLocked_inv:
  assumes "cache_inv P c" "e \<in> set (c_order c)"
  shows "cache_inv P (removeLocked e c)"
proof -
  note order = removeLocked_order [OF assms]
  have "list_ok (removeLocked e c)"
    using assms(1) by (auto simp: order cache_inv_def list_ok_def distinct_map_filter)
  moreover have "items_ok (removeLocked e c)"
    using assms(1) by (auto simp: order removeLocked_items cache_inv_def items_ok_def)
  moreover have "wf_map (c_byIndex (removeLocked e c))"
    using assms(1) by (auto simp: removeLocked_def Let_def cache_inv_def index_ok_def)
  moreover have "mapget (c_byIndex (removeLocked e c)) i = Some k \<longleftrightarrow>
      i \<noteq> '''' \<and> P k \<and> (\<exists>x \<in> set (c_order (removeLocked e c)). le_key x = k \<and> le_indexKey x = i)" for i k
  proof -
    have "mapget (c_byIndex (removeLocked e c)) i = Some k \<longleftrightarrow>
        mapget (c_byIndex c) i = Some k \<and> k \<noteq> le_key e"
      unfolding removeLocked_index [OF assms] by auto
    then show ?thesis unfolding index_iff [OF assms(1)] order by auto
  qed
  ultimately show ?thesis by (simp add: cache_inv_def index_ok_def)
qed

lemma remove_key_inv: "cache_inv P c \<Longrightarrow> cache_inv P (remove_key k c)"
  using items_entry [of P c k] removeLocked_inv [of P c] by (auto simp: remove_key_def)

lemma remove_key_order:
  assumes "cache_inv P c"
  shows "c_order (remove_key k c) = filter (\<lambda>e. le_key e \<noteq> k) (c_order c)"
proof -
  have "k \<notin> le_key ` set (c_order c) \<Longrightarrow> filter (\<lambda>e. le_key e \<noteq> k) (c_order c) = c_order c"
    by (auto intro: filter_True)
  then show ?thesis
    using items_entry [OF assms, of k] removeLocked_order [OF assms] by (auto simp: remove_key_def)
qed

lemma remove_key_frame [simp]:
  "c_capacity (remove_key k c) = c_capacity c" "c_generation (remove_key k c) = c_generation c"
  by (simp_all add: remove_key_def split: option.splits)

subsection \<open>Operations keep the invariant\<close>

lemma evictIndexOwner_frame [simp]:
  "c_capacity (evictIndexOwnerLocked i k c) = c_capacity c"
  "c_nextElem (evictIndexOwnerLocked i k c) = c_nextElem c"
  "c_validator (evictIndexOwnerLocked i k c) = c_validator c"
  by (simp_all add: evictIndexOwnerLocked_def split: option.splits)

text \<open>An entry of another key that is bound to the index key is removed, every other entry stays.\<close>

lemma evictIndexOwner_cases:
  assumes "cache_inv P c"
  obtains (none) "evictIndexOwnerLocked i k c = c" "mapget (c_byIndex c) i \<in> {None, Some k}"
  | (evicted) ent where "ent \<in> set (c_order c)" "le_key ent \<noteq> k" "le_indexKey ent = i" "i \<noteq> ''''"
      "mapget (c_byIndex c) i = Some (le_key ent)"
      "evictIndexOwnerLocked i k c = removeLocked ent (c\<lparr>c_generation := c_generation c + 1\<rparr>)"
proof (cases "mapget (c_byIndex c) i")
  case None
  then show ?thesis using none by (simp add: evictIndexOwnerLocked_def)
next
  case (Some owner)
  then obtain ent where ent: "i \<noteq> ''''" "ent \<in> set (c_order c)" "le_key ent = owner" "le_indexKey ent = i"
    using index_iff [OF assms] by blast
  have el: "mapget (c_items c) owner = Some (le_elem ent)"
    using assms ent by (auto simp: cache_inv_def items_ok_def)
  have en: "elem_entry c (le_elem ent) = Some ent"
    using elem_entry_iff [OF assms] ent by blast
  show ?thesis
  proof (cases "owner = k")
    case True
    then show ?thesis using none Some by (simp add: evictIndexOwnerLocked_def)
  next
    case False
    then show ?thesis using evicted [of ent] ent Some el en by (simp add: evictIndexOwnerLocked_def)
  qed
qed

lemma evictIndexOwner_inv:
  assumes "cache_inv P c"
  shows "cache_inv P (evictIndexOwnerLocked i k c)"
    and "mapget (c_byIndex (evictIndexOwnerLocked i k c)) i \<in> {None, Some k}"
    and "set (c_order (evictIndexOwnerLocked i k c)) \<subseteq> set (c_order c)"
    and "e \<in> set (c_order c) \<Longrightarrow> le_key e = k \<Longrightarrow> e \<in> set (c_order (evictIndexOwnerLocked i k c))"
    and "length (c_order (evictIndexOwnerLocked i k c)) \<le> length (c_order c)"
proof -
  have g: "cache_inv P (c\<lparr>c_generation := c_generation c + 1\<rparr>)" using assms by simp
  show "cache_inv P (evictIndexOwnerLocked i k c)"
    by (rule evictIndexOwner_cases [OF assms, of i k]) (auto simp: assms intro!: removeLocked_inv [OF g])
  show "mapget (c_byIndex (evictIndexOwnerLocked i k c)) i \<in> {None, Some k}"
    by (rule evictIndexOwner_cases [OF assms, of i k]) (auto simp: removeLocked_index [OF g])
  show "set (c_order (evictIndexOwnerLocked i k c)) \<subseteq> set (c_order c)"
    by (rule evictIndexOwner_cases [OF assms, of i k]) (auto simp: removeLocked_order [OF g])
  show "e \<in> set (c_order c) \<Longrightarrow> le_key e = k \<Longrightarrow> e \<in> set (c_order (evictIndexOwnerLocked i k c))"
    by (rule evictIndexOwner_cases [OF assms, of i k]) (auto simp: removeLocked_order [OF g])
  show "length (c_order (evictIndexOwnerLocked i k c)) \<le> length (c_order c)"
    by (rule evictIndexOwner_cases [OF assms, of i k]) (auto simp: removeLocked_order [OF g])
qed

lemma MoveToFront_set [simp]: "set (list_MoveToFront el es) = set es"
  by (auto simp: list_MoveToFront_def)

lemma MoveToFront_perm:
  "distinct (map f (list_MoveToFront el es)) = distinct (map f es)" "length (list_MoveToFront el es) = length es"
proof -
  have len: "length (list_MoveToFront el es) = length es"
    by (simp add: list_MoveToFront_def sum_length_filter_compl)
  then show "length (list_MoveToFront el es) = length es" .
  have "set (map f (list_MoveToFront el es)) = set (map f es)" by simp
  then show "distinct (map f (list_MoveToFront el es)) = distinct (map f es)"
    using len by (metis card_distinct distinct_card length_map)
qed

lemma MoveToFront_inv [simp]:
  "cache_inv P (c\<lparr>c_order := list_MoveToFront el (c_order c)\<rparr>) = cache_inv P c"
  by (simp add: inv_defs MoveToFront_perm)

text \<open>Adding the binding of the new key completes the index.\<close>

lemma bind_index:
  assumes "cache_inv (\<lambda>x. x \<noteq> k) c" "mapget (c_byIndex c) i = None" "i \<noteq> ''''"
    and "e \<in> set (c_order c)" "le_key e = k" "le_indexKey e = i"
  shows "cache_inv (\<lambda>_. True) (c\<lparr>c_byIndex := mapput i k (c_byIndex c)\<rparr>)"
proof -
  let ?d = "c\<lparr>c_byIndex := mapput i k (c_byIndex c)\<rparr>"
  have "mapget (c_byIndex ?d) j = Some k' \<longleftrightarrow>
      j \<noteq> '''' \<and> (\<exists>x \<in> set (c_order c). le_key x = k' \<and> le_indexKey x = j)" for j k'
  proof (cases "j = i")
    case True
    have "x = e" if "x \<in> set (c_order c)" "le_indexKey x = i" for x
    proof (rule ccontr)
      assume "x \<noteq> e"
      then have "le_key x \<noteq> k" using key_unique [OF assms(1) that(1) assms(4)] assms(5) by auto
      then show False using index_iff [OF assms(1), of i "le_key x"] that assms(2, 3) by auto
    qed
    then have "(\<exists>x \<in> set (c_order c). le_key x = k' \<and> le_indexKey x = i) \<longleftrightarrow> k = k'"
      using assms(4-6) by blast
    then show ?thesis using True assms(3) by simp
  next
    case False
    have "x = e" if "x \<in> set (c_order c)" "le_key x = k" for x
      using key_unique [OF assms(1) that(1) assms(4)] that assms(5) by simp
    then have "(\<exists>x \<in> set (c_order c). le_key x = k' \<and> le_indexKey x = j) \<longleftrightarrow>
        k' \<noteq> k \<and> (\<exists>x \<in> set (c_order c). le_key x = k' \<and> le_indexKey x = j)"
      using False assms(6) by blast
    then show ?thesis using False index_iff [OF assms(1), of j k'] by simp
  qed
  moreover have "list_ok ?d" "items_ok ?d" "wf_map (c_byIndex ?d)"
    using assms(1) by (simp_all add: inv_defs)
  ultimately show ?thesis by (simp add: cache_inv_def index_ok_def)
qed

lemma no_index_needed:
  assumes "cache_inv (\<lambda>x. x \<noteq> k) c" "\<And>e. e \<in> set (c_order c) \<Longrightarrow> le_key e = k \<Longrightarrow> le_indexKey e = ''''"
  shows "cache_inv (\<lambda>_. True) c"
  using assms by (auto simp: cache_inv_def index_ok_def)

lemma fresh_key_inv:
  assumes "cache_inv (\<lambda>_. True) c" "k \<notin> le_key ` set (c_order c)"
  shows "cache_inv (\<lambda>x. x \<noteq> k) c"
  using assms by (auto simp: cache_inv_def index_ok_def)

lemma push_front_inv:
  assumes "cache_inv (\<lambda>x. x \<noteq> k) c" "k \<notin> le_key ` set (c_order c)"
  shows "cache_inv (\<lambda>x. x \<noteq> k)
    (c\<lparr>c_order := \<lparr>le_elem = c_nextElem c, le_key = k, le_indexKey = i, le_value = v, le_version = 0\<rparr> # c_order c,
       c_items := mapput k (c_nextElem c) (c_items c), c_nextElem := c_nextElem c + 1\<rparr>)"
proof -
  let ?e = "\<lparr>le_elem = c_nextElem c, le_key = k, le_indexKey = i, le_value = v, le_version = 0\<rparr>"
  let ?d = "c\<lparr>c_order := ?e # c_order c, c_items := mapput k (c_nextElem c) (c_items c), c_nextElem := c_nextElem c + 1\<rparr>"
  have "list_ok ?d"
    using assms by (fastforce simp: cache_inv_def list_ok_def)
  moreover have "items_ok ?d"
    using assms by (auto simp: cache_inv_def items_ok_def)
  moreover have "index_ok (\<lambda>x. x \<noteq> k) ?d"
    using assms by (auto simp: cache_inv_def index_ok_def)
  ultimately show ?thesis by (simp add: cache_inv_def)
qed

lemma no_index_of_self:
  "cache_inv (\<lambda>x. x \<noteq> k) c \<Longrightarrow> mapget (c_byIndex c) i \<in> {None, Some k} \<Longrightarrow> mapget (c_byIndex c) i = None"
  using index_iff [of "\<lambda>x. x \<noteq> k" c i k] by auto

definition make_room :: "'v Cache \<Rightarrow> 'v Cache" where
  "make_room c =
     (if int (length (c_order c)) \<ge> c_capacity c then
        (if c_order c = [] then c else removeLocked (last (c_order c)) c)
      else c)"

lemma make_room_inv:
  assumes "cache_inv P c"
  shows "cache_inv P (make_room c)"
    and "set (c_order (make_room c)) \<subseteq> set (c_order c)"
    and "mapget (c_byIndex c) i = None \<Longrightarrow> mapget (c_byIndex (make_room c)) i = None"
    and "c_capacity (make_room c) = c_capacity c" "c_nextElem (make_room c) = c_nextElem c"
    and "bounded c \<Longrightarrow> int (length (c_order (make_room c))) < c_capacity c"
proof -
  have mem: "c_order c \<noteq> [] \<Longrightarrow> last (c_order c) \<in> set (c_order c)" by simp
  show "cache_inv P (make_room c)"
    using assms removeLocked_inv [OF assms mem] by (simp add: make_room_def)
  show "set (c_order (make_room c)) \<subseteq> set (c_order c)"
    using removeLocked_order [OF assms mem] by (auto simp: make_room_def)
  show "mapget (c_byIndex c) i = None \<Longrightarrow> mapget (c_byIndex (make_room c)) i = None"
    using removeLocked_index [OF assms mem] by (simp add: make_room_def)
  show "c_capacity (make_room c) = c_capacity c" "c_nextElem (make_room c) = c_nextElem c"
    by (simp_all add: make_room_def)
  have "length (filter (\<lambda>x. le_key x \<noteq> le_key (last (c_order c))) (c_order c)) < length (c_order c)"
    if "c_order c \<noteq> []"
    by (rule length_filter_less [OF mem [OF that]]) simp
  then show "bounded c \<Longrightarrow> int (length (c_order (make_room c))) < c_capacity c"
    using removeLocked_order [OF assms mem] by (fastforce simp: make_room_def bounded_def)
qed

lemma insert_new_room:
  "insert_new k i v c =
     (let c2 = make_room (if i \<noteq> '''' then evictIndexOwnerLocked i k c else c);
          c3 = c2\<lparr>c_order := \<lparr>le_elem = c_nextElem c2, le_key = k, le_indexKey = i, le_value = v, le_version = 0\<rparr> # c_order c2,
                  c_items := mapput k (c_nextElem c2) (c_items c2), c_nextElem := c_nextElem c2 + 1\<rparr>
      in if i \<noteq> '''' then c3\<lparr>c_byIndex := mapput i k (c_byIndex c3)\<rparr> else c3)"
  by (simp add: insert_new_def make_room_def Let_def)

lemma insert_new_inv:
  assumes "cache_inv (\<lambda>_. True) c" "bounded c" "k \<notin> le_key ` set (c_order c)"
  shows "cache_inv (\<lambda>_. True) (insert_new k i v c) \<and> bounded (insert_new k i v c)"
proof -
  let ?P = "\<lambda>x. x \<noteq> k"
  note c = fresh_key_inv [OF assms(1, 3)]
  define c1 where "c1 = (if i \<noteq> '''' then evictIndexOwnerLocked i k c else c)"
  have c1: "cache_inv ?P c1" "set (c_order c1) \<subseteq> set (c_order c)" "length (c_order c1) \<le> length (c_order c)"
    "c_capacity c1 = c_capacity c"
    using c evictIndexOwner_inv(1,3,5) [OF c] by (simp_all add: c1_def)
  have i1: "i \<noteq> '''' \<Longrightarrow> mapget (c_byIndex c1) i = None"
    using evictIndexOwner_inv(2) [OF c] no_index_of_self [OF c1(1)] by (simp add: c1_def)
  have b1: "bounded c1" using assms(2) c1(3, 4) by (simp add: bounded_def)
  define c2 where "c2 = make_room c1"
  note room = make_room_inv [OF c1(1)]
  have c2: "cache_inv ?P c2" "k \<notin> le_key ` set (c_order c2)"
    using room(1, 2) c1(2) assms(3) by (auto simp: c2_def)
  note push = push_front_inv [OF c2, of i v]
  have len: "int (length (c_order c2)) < c_capacity c2" "0 < c_capacity c2"
    using room(4, 6) b1 by (simp_all add: c2_def bounded_def)
  let ?c3 = "c2\<lparr>c_order := \<lparr>le_elem = c_nextElem c2, le_key = k, le_indexKey = i, le_value = v, le_version = 0\<rparr> # c_order c2,
      c_items := mapput k (c_nextElem c2) (c_items c2), c_nextElem := c_nextElem c2 + 1\<rparr>"
  have eq: "insert_new k i v c = (if i \<noteq> '''' then ?c3\<lparr>c_byIndex := mapput i k (c_byIndex ?c3)\<rparr> else ?c3)"
    unfolding insert_new_room c2_def c1_def Let_def by (rule refl)
  show ?thesis
  proof (cases "i = ''''")
    case True
    have "cache_inv (\<lambda>_. True) ?c3"
    proof (rule no_index_needed [OF push])
      fix e
      assume "e \<in> set (c_order ?c3)" "le_key e = k"
      then have "e = \<lparr>le_elem = c_nextElem c2, le_key = k, le_indexKey = i, le_value = v, le_version = 0\<rparr>"
        using c2(2) by (simp add: image_iff) blast
      then show "le_indexKey e = ''''" using True by simp
    qed
    then show ?thesis unfolding eq using True len by (simp add: bounded_def)
  next
    case False
    have "mapget (c_byIndex ?c3) i = None" using room(3) [of i] i1 False by (simp add: c2_def)
    then have "cache_inv (\<lambda>_. True) (?c3\<lparr>c_byIndex := mapput i k (c_byIndex ?c3)\<rparr>)"
      using bind_index [OF push _ False, of "\<lparr>le_elem = c_nextElem c2, le_key = k, le_indexKey = i, le_value = v, le_version = 0\<rparr>"]
      by simp
    then show ?thesis unfolding eq using False len by (simp add: bounded_def)
  qed
qed

subsection \<open>Updating an entry in place\<close>

lemma update_elem_maps:
  assumes "\<And>e. le_elem (f e) = le_elem e" "\<And>e. le_key (f e) = le_key e"
  shows "map le_elem (list_update_elem el f es) = map le_elem es"
    "map le_key (list_update_elem el f es) = map le_key es" "length (list_update_elem el f es) = length es"
  using assms by (auto simp: list_update_elem_def)

lemma list_ok_alt:
  "list_ok c \<longleftrightarrow> distinct (map le_key (c_order c)) \<and> distinct (map le_elem (c_order c)) \<and>
     (\<forall>n \<in> set (map le_elem (c_order c)). n < c_nextElem c)"
  by (simp add: list_ok_def)

lemma same_shape_inv:
  assumes "map (\<lambda>e. (le_key e, le_elem e, le_indexKey e)) es = map (\<lambda>e. (le_key e, le_elem e, le_indexKey e)) (c_order c)"
    and "cache_inv P c"
  shows "cache_inv P (c\<lparr>c_order := es\<rparr>)"
proof -
  let ?s = "\<lambda>e. (le_key e, le_elem e, le_indexKey e)"
  have ex: "(\<exists>e \<in> set es. Q (?s e)) \<longleftrightarrow> (\<exists>e \<in> set (c_order c). Q (?s e))" for Q
    using arg_cong [OF assms(1), of set] by (metis (no_types, lifting) imageE image_eqI list.set_map)
  have "map le_key es = map le_key (c_order c)" "map le_elem es = map le_elem (c_order c)"
    using arg_cong [OF assms(1), of "map fst"] arg_cong [OF assms(1), of "map (\<lambda>t. fst (snd t))"]
    by (simp_all add: comp_def)
  then have "list_ok (c\<lparr>c_order := es\<rparr>)"
    using assms(2) by (simp add: cache_inv_def list_ok_alt del: set_map)
  moreover have "(\<exists>e \<in> set es. le_key e = a \<and> le_elem e = b) \<longleftrightarrow> (\<exists>e \<in> set (c_order c). le_key e = a \<and> le_elem e = b)" for a b
    using ex [of "\<lambda>t. fst t = a \<and> fst (snd t) = b"] by simp
  moreover have "(\<exists>e \<in> set es. le_key e = a \<and> le_indexKey e = b) \<longleftrightarrow> (\<exists>e \<in> set (c_order c). le_key e = a \<and> le_indexKey e = b)" for a b
    using ex [of "\<lambda>t. fst t = a \<and> snd (snd t) = b"] by simp
  ultimately show ?thesis
    using assms(2) by (simp add: cache_inv_def items_ok_def index_ok_def)
qed

lemma update_elem_inv:
  assumes "cache_inv (\<lambda>_. True) c" "ent \<in> set (c_order c)" "le_elem ent = el" "le_key ent = k"
    and f: "\<And>e. le_elem (f e) = le_elem e" "\<And>e. le_key (f e) = le_key e"
    and "wf_map m" "\<And>i k'. mapget m i = Some k' \<longleftrightarrow> mapget (c_byIndex c) i = Some k' \<and> k' \<noteq> k"
  shows "cache_inv (\<lambda>x. x \<noteq> k) (c\<lparr>c_byIndex := m, c_order := list_update_elem el f (c_order c)\<rparr>)"
proof -
  let ?es = "list_update_elem el f (c_order c)"
  have other: "x \<in> set ?es \<and> le_key x \<noteq> k \<longleftrightarrow> x \<in> set (c_order c) \<and> le_key x \<noteq> k" for x
    using elem_unique [OF assms(1) _ assms(2)] assms(3, 4) f(2)
    by (auto simp: list_update_elem_def image_iff)
  have keys: "(\<exists>e \<in> set ?es. le_key e = a \<and> le_elem e = b) \<longleftrightarrow> (\<exists>e \<in> set (c_order c). le_key e = a \<and> le_elem e = b)" for a b
    unfolding list_update_elem_def set_map bex_simps by (simp add: f if_distrib [of le_key] if_distrib [of le_elem]) blast
  have "list_ok (c\<lparr>c_byIndex := m, c_order := ?es\<rparr>)"
    using assms(1) by (simp add: cache_inv_def list_ok_alt update_elem_maps [OF f] del: set_map)
  moreover have "items_ok (c\<lparr>c_byIndex := m, c_order := ?es\<rparr>)"
    using assms(1) by (simp add: cache_inv_def items_ok_def keys)
  moreover have "index_ok (\<lambda>x. x \<noteq> k) (c\<lparr>c_byIndex := m, c_order := ?es\<rparr>)"
  proof -
    have "(mapget m i = Some k') = (i \<noteq> '''' \<and> k' \<noteq> k \<and> (\<exists>e \<in> set ?es. le_key e = k' \<and> le_indexKey e = i))" for i k'
      using assms(8) index_iff [OF assms(1), of i k'] other by blast
    then show ?thesis using assms(7) by (simp add: index_ok_def)
  qed
  ultimately show ?thesis by (simp add: cache_inv_def)
qed


lemma bound_to_entry:
  assumes c: "cache_inv (\<lambda>_. True) c" and ent: "ent \<in> set (c_order c)" "le_key ent = k"
  shows "mapget (c_byIndex c) j = Some k \<longleftrightarrow> j \<noteq> '''' \<and> j = le_indexKey ent"
proof -
  have "e = ent" if "e \<in> set (c_order c)" "le_key e = k" for e
    using key_unique [OF c that(1) ent(1)] that(2) ent(2) by simp
  then show ?thesis unfolding index_iff [OF c] using ent by blast
qed

lemma drop_binding_index:
  assumes c: "cache_inv (\<lambda>_. True) c" and ent: "ent \<in> set (c_order c)" "le_key ent = k" and "le_indexKey ent \<noteq> i"
  shows "mapget (c_byIndex (drop_binding ent i k c)) j = Some k' \<longleftrightarrow> mapget (c_byIndex c) j = Some k' \<and> k' \<noteq> k"
proof (cases "j \<noteq> '''' \<and> j = le_indexKey ent")
  case True
  then have "mapget (c_byIndex c) j = Some k" using bound_to_entry [OF c ent] by blast
  then show ?thesis using True assms(4) by (auto simp: drop_binding_def)
next
  case False
  then have "mapget (c_byIndex c) j \<noteq> Some k" using bound_to_entry [OF c ent] by blast
  then show ?thesis using False by (auto simp: drop_binding_def)
qed

lemma write_entry_same:
  assumes c: "cache_inv (\<lambda>_. True) c" and ent: "ent \<in> set (c_order c)" "le_elem ent = el" "le_indexKey ent = i"
  shows "cache_inv (\<lambda>_. True) (write_entry el i v c)"
proof -
  have "le_indexKey e = i" if "e \<in> set (c_order c)" "le_elem e = el" for e
    using elem_unique [OF c that(1) ent(1)] that(2) ent(2, 3) by simp
  then show ?thesis
    unfolding write_entry_def by (intro same_shape_inv [OF _ c]) (simp add: list_update_elem_def)
qed

lemma write_entry_other:
  assumes c: "cache_inv (\<lambda>_. True) c" and ent: "ent \<in> set (c_order c)" "le_elem ent = el" "le_key ent = k"
    and "le_indexKey ent \<noteq> i"
  shows "cache_inv (\<lambda>x. x \<noteq> k) (write_entry el i v (drop_binding ent i k c))"
proof -
  have wf: "wf_map (c_byIndex (drop_binding ent i k c))"
    using c by (simp add: drop_binding_def inv_defs)
  have "write_entry el i v (drop_binding ent i k c) =
      c\<lparr>c_byIndex := c_byIndex (drop_binding ent i k c),
        c_order := list_update_elem el (\<lambda>e. e\<lparr>le_value := v, le_indexKey := i, le_version := le_version e + 1\<rparr>) (c_order c)\<rparr>"
    by (simp add: write_entry_def drop_binding_def)
  then show ?thesis
    using update_elem_inv [OF c ent _ _ wf drop_binding_index [OF c ent(1, 3) assms(5)],
        where f = "\<lambda>e. e\<lparr>le_value := v, le_indexKey := i, le_version := le_version e + 1\<rparr>"] by simp
qed

lemma rebind_bound:
  assumes c: "cache_inv (\<lambda>_. True) c" and own: "i \<noteq> '''' \<Longrightarrow> mapget (c_byIndex c) i = Some k"
  shows "cache_inv (\<lambda>_. True) (rebind_index i k c)" "c_order (rebind_index i k c) = c_order c"
proof -
  have "mapget (mapput i k (c_byIndex c)) j = mapget (c_byIndex c) j" if "i \<noteq> ''''" for j
    using own [OF that] by simp
  then have "cache_inv (\<lambda>_. True) (c\<lparr>c_byIndex := mapput i k (c_byIndex c)\<rparr>)" if "i \<noteq> ''''"
    using c that by (simp add: inv_defs del: mapget_put)
  moreover have "evictIndexOwnerLocked i k c = c" if "i \<noteq> ''''"
    using own [OF that] by (simp add: evictIndexOwnerLocked_def)
  ultimately show "cache_inv (\<lambda>_. True) (rebind_index i k c)" "c_order (rebind_index i k c) = c_order c"
    using c by (simp_all add: rebind_index_def Let_def)
qed

lemma rebind_new:
  assumes c: "cache_inv (\<lambda>x. x \<noteq> k) c" and e: "e \<in> set (c_order c)" "le_key e = k" "le_indexKey e = i"
  shows "cache_inv (\<lambda>_. True) (rebind_index i k c)" "length (c_order (rebind_index i k c)) \<le> length (c_order c)"
proof -
  note d = evictIndexOwner_inv [OF c]
  have "cache_inv (\<lambda>_. True) c" if "i = ''''"
    by (rule no_index_needed [OF c]) (use key_unique [OF c _ e(1)] e that in simp)
  moreover have "cache_inv (\<lambda>_. True) ((evictIndexOwnerLocked i k c)
      \<lparr>c_byIndex := mapput i k (c_byIndex (evictIndexOwnerLocked i k c))\<rparr>)" if "i \<noteq> ''''"
    by (rule bind_index [OF d(1) no_index_of_self [OF d(1) d(2)] that d(4) [OF e(1, 2)] e(2, 3)])
  ultimately show "cache_inv (\<lambda>_. True) (rebind_index i k c)" "length (c_order (rebind_index i k c)) \<le> length (c_order c)"
    using d(5) [of i k] by (simp_all add: rebind_index_def Let_def)
qed

lemma write_entry_member:
  "ent \<in> set (c_order c) \<Longrightarrow> le_elem ent = el \<Longrightarrow>
     ent\<lparr>le_value := v, le_indexKey := i, le_version := le_version ent + 1\<rparr> \<in> set (c_order (write_entry el i v c))"
  by (force simp: write_entry_def list_update_elem_def)

lemma write_entry_length [simp]:
  "length (c_order (write_entry el i v c)) = length (c_order c)" "c_byIndex (write_entry el i v c) = c_byIndex c"
  "c_order (drop_binding ent i k c) = c_order c"
  by (simp_all add: write_entry_def list_update_elem_def drop_binding_def)

lemma update_existing_inv:
  assumes c: "cache_inv (\<lambda>_. True) c" and ent: "ent \<in> set (c_order c)" "le_elem ent = el" "le_key ent = k"
  shows "cache_inv (\<lambda>_. True) (update_existing el ent k i v c)"
    and "length (c_order (update_existing el ent k i v c)) \<le> length (c_order c)"
proof -
  let ?c3 = "rebind_index i k (write_entry el i v (drop_binding ent i k c))"
  have "cache_inv (\<lambda>_. True) ?c3 \<and> length (c_order ?c3) \<le> length (c_order c)"
  proof (cases "le_indexKey ent = i")
    case True
    then have drop: "drop_binding ent i k c = c" by (simp add: drop_binding_def)
    have "i \<noteq> '''' \<Longrightarrow> mapget (c_byIndex (write_entry el i v c)) i = Some k"
      using bound_to_entry [OF c ent(1, 3)] True by simp
    then show ?thesis
      using rebind_bound [OF write_entry_same [OF c ent(1, 2) True]] by (simp add: drop)
  next
    case False
    have "ent\<lparr>le_value := v, le_indexKey := i, le_version := le_version ent + 1\<rparr>
        \<in> set (c_order (write_entry el i v (drop_binding ent i k c)))"
      using ent by (intro write_entry_member) simp_all
    then show ?thesis
      using rebind_new [OF write_entry_other [OF c ent False, of v]] ent(3) by simp
  qed
  then show "cache_inv (\<lambda>_. True) (update_existing el ent k i v c)"
    and "length (c_order (update_existing el ent k i v c)) \<le> length (c_order c)"
    by (simp_all add: update_existing_def Let_def MoveToFront_perm)
qed

subsection \<open>All operations\<close>

definition cache_ok :: "'v Cache \<Rightarrow> bool" where
  "cache_ok c \<longleftrightarrow> cache_inv (\<lambda>_. True) c \<and> bounded c"

datatype 'v lru_op =
    OpSet string string 'v uint64
  | OpEvict string
  | OpEvictIndex string
  | OpEvictMark
  | OpEvictRemove "string list"
  | OpFlush
  | OpReject string nat uint64
  | OpTouch string nat

fun run_op :: "'v lru_op \<Rightarrow> 'v Cache \<Rightarrow> 'v Cache" where
  "run_op (OpSet k i v gen) c = setIfGeneration k i v gen c"
| "run_op (OpEvict k) c = Evict k c"
| "run_op (OpEvictIndex i) c = EvictByIndex i c"
| "run_op OpEvictMark c = fst (EvictWhere_mark c)"
| "run_op (OpEvictRemove ks) c = EvictWhere_remove ks c"
| "run_op OpFlush c = Flush c"
| "run_op (OpReject k el version) c = Get_reject k el version c"
| "run_op (OpTouch k el) c = Get_touch k el c"

lemma bounded_le:
  "bounded c \<Longrightarrow> c_capacity c' = c_capacity c \<Longrightarrow> length (c_order c') \<le> length (c_order c) \<Longrightarrow> bounded c'"
  by (simp add: bounded_def)

lemma rebind_frame [simp]:
  "c_capacity (rebind_index i k c) = c_capacity c" "c_capacity (write_entry el i v c) = c_capacity c"
  "c_capacity (drop_binding ent i k c) = c_capacity c" "c_capacity (update_existing el ent k i v c) = c_capacity c"
  by (simp_all add: rebind_index_def write_entry_def drop_binding_def update_existing_def Let_def)

lemma setIfGeneration_ok: "cache_ok c \<Longrightarrow> cache_ok (setIfGeneration k i v gen c)"
proof -
  assume c: "cache_ok c"
  then have inv: "cache_inv (\<lambda>_. True) c" and b: "bounded c" by (simp_all add: cache_ok_def)
  show ?thesis
    using items_entry [OF inv, of k]
  proof
    assume "\<exists>el ent. mapget (c_items c) k = Some el \<and> elem_entry c el = Some ent \<and>
        ent \<in> set (c_order c) \<and> le_key ent = k \<and> le_elem ent = el"
    then obtain el ent where e: "mapget (c_items c) k = Some el" "elem_entry c el = Some ent"
        "ent \<in> set (c_order c)" "le_elem ent = el" "le_key ent = k" by blast
    then show ?thesis
      using c update_existing_inv [OF inv e(3-5), of i v] bounded_le [OF b, of "update_existing el ent k i v c"]
      by (simp add: setIfGeneration_def cache_ok_def)
  next
    assume "mapget (c_items c) k = None \<and> k \<notin> le_key ` set (c_order c)"
    then show ?thesis
      using c insert_new_inv [OF inv b, of k i v] by (simp add: setIfGeneration_def cache_ok_def)
  qed
qed

lemma remove_key_ok: "cache_ok c \<Longrightarrow> cache_ok (remove_key k c)"
  using remove_key_inv [of "\<lambda>_. True" c k] remove_key_order [of "\<lambda>_. True" c k] bounded_le [of c "remove_key k c"]
  by (simp add: cache_ok_def)

lemma generation_ok [simp]: "cache_ok (c\<lparr>c_generation := g\<rparr>) = cache_ok c"
  by (simp add: cache_ok_def bounded_def)

lemma EvictWhere_remove_ok: "cache_ok c \<Longrightarrow> cache_ok (EvictWhere_remove ks c)"
  unfolding EvictWhere_remove_def by (induction ks arbitrary: c) (simp_all add: remove_key_ok)

lemma Get_reject_ok: "cache_ok c \<Longrightarrow> cache_ok (Get_reject k el version c)"
proof -
  assume c: "cache_ok c"
  have "cache_ok (removeLocked ent c)" if "elem_entry c cur = Some ent" for cur ent
  proof -
    have inv: "cache_inv (\<lambda>_. True) c" using c by (simp add: cache_ok_def)
    then have "ent \<in> set (c_order c)" using elem_entry_iff that by blast
    then show ?thesis
      using removeLocked_inv [OF inv] removeLocked_order [OF inv] c bounded_le [of c "removeLocked ent c"]
      by (simp add: cache_ok_def)
  qed
  then show ?thesis using c by (simp add: Get_reject_def split: option.splits)
qed

lemma run_op_ok: "cache_ok c \<Longrightarrow> cache_ok (run_op p c)"
proof (cases p)
  case (OpEvictIndex i)
  assume "cache_ok c"
  then show ?thesis by (simp add: OpEvictIndex EvictByIndex_def Let_def remove_key_ok split: option.splits)
next
  case OpFlush
  assume "cache_ok c"
  then show ?thesis by (simp add: OpFlush Flush_def cache_ok_def inv_defs bounded_def)
next
  case (OpTouch k el)
  assume "cache_ok c"
  then show ?thesis
    by (simp add: OpTouch Get_touch_def cache_ok_def bounded_def MoveToFront_perm split: option.splits)
qed (simp_all add: setIfGeneration_ok Evict_def remove_key_ok EvictWhere_mark_def EvictWhere_remove_ok Get_reject_ok)

lemma Cache_New_ok: "Cache_New cap val = Some c \<Longrightarrow> cache_ok c"
  by (auto simp: Cache_New_def cache_ok_def inv_defs bounded_def split: if_splits)

lemma fold_ok: "cache_ok c \<Longrightarrow> cache_ok (fold run_op ops c)"
  by (induction ops arbitrary: c) (simp_all add: run_op_ok)

subsection \<open>Generations\<close>

fun invalidates :: "'v lru_op \<Rightarrow> bool" where
  "invalidates (OpEvict k) = True"
| "invalidates (OpEvictIndex i) = (i \<noteq> '''')"
| "invalidates OpEvictMark = True"
| "invalidates OpFlush = True"
| "invalidates _ = False"

definition bumps :: "'v Cache \<Rightarrow> 'v Cache \<Rightarrow> bool" where
  "bumps c c' \<longleftrightarrow> c_generation c' = c_generation c \<or> c_generation c' = c_generation c + 1"

lemma bumps_refl [simp]: "bumps c c"
  by (simp add: bumps_def)

lemma evictIndexOwner_bumps: "bumps c (evictIndexOwnerLocked i k c)"
  by (simp add: bumps_def evictIndexOwnerLocked_def split: option.splits)

lemma update_existing_bumps: "bumps c (update_existing el ent k i v c)"
proof -
  have "c_generation (write_entry el j v (drop_binding ent j k c)) = c_generation c" for j
    by (simp add: write_entry_def drop_binding_def)
  then show ?thesis
    using evictIndexOwner_bumps [of "write_entry el i v (drop_binding ent i k c)" i k]
    by (simp add: bumps_def update_existing_def rebind_index_def Let_def)
qed

lemma insert_new_bumps: "bumps c (insert_new k i v c)"
  using evictIndexOwner_bumps [of c i k] by (simp add: bumps_def insert_new_def Let_def)

lemma setIfGeneration_bumps: "bumps c (setIfGeneration k i v gen c)"
  by (simp add: setIfGeneration_def update_existing_bumps insert_new_bumps split: option.splits)

lemma EvictWhere_remove_generation [simp]: "c_generation (EvictWhere_remove ks c) = c_generation c"
  unfolding EvictWhere_remove_def by (induction ks arbitrary: c) simp_all

lemma run_op_bumps:
  "bumps c (run_op p c)" "invalidates p \<Longrightarrow> c_generation (run_op p c) = c_generation c + 1"
  using setIfGeneration_bumps [of c]
  by (cases p; simp add: bumps_def Evict_def EvictByIndex_def EvictWhere_mark_def Flush_def Get_reject_def Get_touch_def
      Let_def split: option.splits)+

lemma fold_generation:
  "\<exists>n. c_generation (fold run_op ops c) = c_generation c + of_nat n \<and>
       n \<le> length ops \<and> (list_ex invalidates ops \<longrightarrow> 0 < n)"
proof (induction ops arbitrary: c)
  case (Cons p ops)
  obtain n where n: "c_generation (fold run_op ops (run_op p c)) = c_generation (run_op p c) + of_nat n"
      "n \<le> length ops" "list_ex invalidates ops \<longrightarrow> 0 < n"
    using Cons.IH [of "run_op p c"] by blast
  consider (same) "c_generation (run_op p c) = c_generation c" "\<not> invalidates p"
    | (up) "c_generation (run_op p c) = c_generation c + 1"
    using run_op_bumps(1) [of c p] run_op_bumps(2) [of p c] by (auto simp: bumps_def)
  then show ?case
  proof cases
    case same
    then show ?thesis using n by (intro exI [of _ n]) auto
  next
    case up
    then show ?thesis using n by (intro exI [of _ "Suc n"]) auto
  qed
qed simp

text \<open>C11. A fill never re-installs what an eviction removed: when, after a fill has read the
  generation and while its loader runs, the other goroutines perform any operations (fewer than 2^64
  of them) of which at least one is an explicit eviction, a predicate eviction or a flush, the fill
  leaves the cache exactly as these operations left it, and still hands its caller the loaded value.\<close>

theorem stale_fill_discarded:
  assumes "list_ex invalidates ops" "length ops < 2 ^ 64"
  shows "Fill (Some c) k (Inr (v, i)) (fold run_op ops) = (Some (fold run_op ops c), Inr v)"
proof -
  obtain n where n: "c_generation (fold run_op ops c) = c_generation c + of_nat n" "n \<le> length ops" "0 < n"
    using fold_generation [of ops c] assms(1) by blast
  have "(of_nat n :: uint64) \<noteq> 0"
    using n(2, 3) assms(2) by (simp add: of_nat_eq_0_iff unat_of_nat word_unat_eq_iff flip: unat_0_iff)
  then show ?thesis using n(1) by (simp add: Fill_def setIfGeneration_def currentGeneration_def)
qed

definition small_cache :: "int Cache" where
  "small_cache = \<lparr>c_capacity = 2, c_items = [], c_order = [], c_byIndex = [], c_generation = 0, c_validator = None,
     c_nextElem = 0\<rparr>"

theorem stale_fill_discarded_witness:
  "(Fill (Some small_cache) ''k'' (Inr (7, '''')) (fold run_op [OpEvict ''k'', OpTouch ''j'' 0]) :: int Cache option \<times> (unit + int)) =
     (Some (fold run_op [OpEvict ''k'', OpTouch ''j'' 0] small_cache), Inr 7)"
  by (rule stale_fill_discarded) simp_all

subsection \<open>Properties\<close>

text \<open>In every state that operations of concurrent goroutines can produce from a new cache, the
  cache holds at most its capacity, no key twice, the key map holds exactly the listed entries, and
  the secondary index holds exactly the entries that carry an index key - so eviction by index
  reaches every such entry.\<close>

theorem cache_invariant:
  assumes "Cache_New cap val = Some c0" "c = fold run_op ops c0"
  shows "int (length (c_order c)) \<le> c_capacity c \<and> distinct (map le_key (c_order c))
    \<and> (mapget (c_items c) k = Some el \<longleftrightarrow> list_ex (\<lambda>e. le_key e = k \<and> le_elem e = el) (c_order c))
    \<and> (mapget (c_byIndex c) i = Some k \<longleftrightarrow>
         i \<noteq> '''' \<and> list_ex (\<lambda>e. le_key e = k \<and> le_indexKey e = i) (c_order c))"
proof -
  have "cache_ok c" using fold_ok [OF Cache_New_ok [OF assms(1)]] assms(2) by simp
  then show ?thesis by (simp add: cache_ok_def bounded_def inv_defs list_ex_iff)
qed

definition sample_ops :: "int lru_op list" where
  "sample_ops = [OpSet ''a'' ''i'' 1 0, OpSet ''b'' '''' 2 0, OpSet ''d'' '''' 3 0]"

theorem cache_invariant_witness:
  "int (length (c_order (fold run_op sample_ops small_cache))) \<le> 2 \<and> fold run_op sample_ops small_cache \<noteq> small_cache"
proof -
  have new: "Cache_New 2 None = Some small_cache" by (simp add: Cache_New_def small_cache_def)
  have le: "int (length (c_order (fold run_op sample_ops small_cache))) \<le> c_capacity (fold run_op sample_ops small_cache)"
    by (rule conjunct1 [OF cache_invariant [OF new refl]])
  have "c_capacity (fold run_op sample_ops small_cache) = 2" by code_simp
  moreover have "c_nextElem (fold run_op sample_ops small_cache) = 3" by code_simp
  ultimately show ?thesis using le by (auto simp: small_cache_def)
qed

lemma reachable_ok: "Cache_New cap val = Some c0 \<Longrightarrow> cache_ok (fold run_op ops c0)"
  by (simp add: fold_ok Cache_New_ok)

lemma fold_remove_key_order:
  "cache_inv P c \<Longrightarrow> c_order (fold remove_key ks c) = filter (\<lambda>e. le_key e \<notin> set ks) (c_order c)"
proof (induction ks arbitrary: c)
  case (Cons k ks)
  then show ?case
    using Cons.IH [OF remove_key_inv [OF Cons.prems, of k]]
    by (simp add: remove_key_order [OF Cons.prems] conj_commute)
qed simp

lemma EvictByIndex_order:
  assumes "cache_inv (\<lambda>_. True) c" "i \<noteq> ''''"
  shows "c_order (EvictByIndex i c) = filter (\<lambda>e. le_indexKey e \<noteq> i) (c_order c)"
proof (cases "mapget (c_byIndex c) i")
  case None
  have "le_indexKey e \<noteq> i" if "e \<in> set (c_order c)" for e
  proof
    assume "le_indexKey e = i"
    then have "mapget (c_byIndex c) i = Some (le_key e)" using index_iff [OF assms(1)] that assms(2) by blast
    then show False using None by simp
  qed
  then have "filter (\<lambda>e. le_indexKey e \<noteq> i) (c_order c) = c_order c" by (simp add: filter_id_conv)
  then show ?thesis using None assms(2) by (simp add: EvictByIndex_def Let_def)
next
  case (Some k)
  have "le_key e = k \<longleftrightarrow> le_indexKey e = i" if "e \<in> set (c_order c)" for e
  proof
    assume "le_key e = k"
    then show "le_indexKey e = i" using Some bound_to_entry [OF assms(1) that \<open>le_key e = k\<close>, of i] by simp
  next
    assume "le_indexKey e = i"
    then have "mapget (c_byIndex c) i = Some (le_key e)" using index_iff [OF assms(1)] that assms(2) by blast
    then show "le_key e = k" using Some by simp
  qed
  then have "filter (\<lambda>e. le_key e \<noteq> k) (c_order c) = filter (\<lambda>e. le_indexKey e \<noteq> i) (c_order c)"
    by (intro filter_cong) simp_all
  moreover have "c_order (remove_key k (c\<lparr>c_generation := c_generation c + 1\<rparr>)) = filter (\<lambda>e. le_key e \<noteq> k) (c_order c)"
    using remove_key_order [of "\<lambda>_. True" "c\<lparr>c_generation := c_generation c + 1\<rparr>" k] assms(1) by simp
  ultimately show ?thesis using Some assms(2) by (simp add: EvictByIndex_def Let_def)
qed

text \<open>Eviction removes exactly what it names, in every reachable state: eviction by key the entry of
  that key, eviction by index every entry that carries the index key, eviction by predicate every
  entry whose key satisfies it, a flush everything; all other entries stay in their order.\<close>

theorem evictions_exact:
  assumes "Cache_New cap val = Some c0" "c = fold run_op ops c0" "i \<noteq> ''''"
  shows "c_order (Evict k c) = filter (\<lambda>e. le_key e \<noteq> k) (c_order c)
    \<and> c_order (EvictByIndex i c) = filter (\<lambda>e. le_indexKey e \<noteq> i) (c_order c)
    \<and> c_order (EvictWhere p c) = filter (\<lambda>e. \<not> p (le_key e)) (c_order c)
    \<and> c_order (Flush c) = []"
proof -
  have inv: "cache_inv (\<lambda>_. True) c"
    using reachable_ok [OF assms(1)] assms(2) by (simp add: cache_ok_def)
  let ?c1 = "c\<lparr>c_generation := c_generation c + 1\<rparr>"
  have inv1: "cache_inv (\<lambda>_. True) ?c1" using inv by simp
  have "filter (\<lambda>e. le_key e \<notin> set (filter p (map le_key (c_order c)))) (c_order c) =
      filter (\<lambda>e. \<not> p (le_key e)) (c_order c)"
    by (intro filter_cong) auto
  then have "c_order (EvictWhere p c) = filter (\<lambda>e. \<not> p (le_key e)) (c_order c)"
    using fold_remove_key_order [OF inv1, of "filter p (map le_key (c_order c))"]
    by (simp add: EvictWhere_def EvictWhere_mark_def EvictWhere_remove_def)
  then show ?thesis
    using remove_key_order [OF inv1, of k] EvictByIndex_order [OF inv assms(3)] by (simp add: Evict_def Flush_def)
qed

theorem evictions_exact_witness:
  "c_order (EvictByIndex ''i'' (fold run_op [OpSet ''a'' ''i'' 1 0, OpSet ''b'' '''' 2 0] small_cache)) =
     filter (\<lambda>e. le_indexKey e \<noteq> ''i'') (c_order (fold run_op [OpSet ''a'' ''i'' 1 0, OpSet ''b'' '''' 2 0] small_cache))"
  using evictions_exact [of 2 None small_cache "fold run_op [OpSet ''a'' ''i'' 1 0, OpSet ''b'' '''' 2 0] small_cache"
      "[OpSet ''a'' ''i'' 1 0, OpSet ''b'' '''' 2 0]" "''i''"]
  by (simp add: Cache_New_def small_cache_def)

subsection \<open>What an install does\<close>

lemma evictIndexOwner_order:
  assumes c: "cache_inv P c" and i: "i \<noteq> ''''" and P: "\<And>x. x \<noteq> k \<Longrightarrow> P x"
  shows "c_order (evictIndexOwnerLocked i k c) = filter (\<lambda>e. le_key e = k \<or> le_indexKey e \<noteq> i) (c_order c)"
proof -
  have owner: "mapget (c_byIndex c) i = Some (le_key e)" if "e \<in> set (c_order c)" "le_key e \<noteq> k" "le_indexKey e = i" for e
    using index_iff [OF c] that i P by blast
  show ?thesis
  proof (rule evictIndexOwner_cases [OF c, of i k])
    assume eq: "evictIndexOwnerLocked i k c = c" and b: "mapget (c_byIndex c) i \<in> {None, Some k}"
    have "le_key e = k \<or> le_indexKey e \<noteq> i" if "e \<in> set (c_order c)" for e
      using owner [OF that] b by auto
    then show ?thesis using eq by (simp add: filter_id_conv)
  next
    fix ent
    assume ent: "ent \<in> set (c_order c)" "le_key ent \<noteq> k" "mapget (c_byIndex c) i = Some (le_key ent)" "le_indexKey ent = i"
      and eq: "evictIndexOwnerLocked i k c = removeLocked ent (c\<lparr>c_generation := c_generation c + 1\<rparr>)"
    have "le_key e \<noteq> le_key ent \<longleftrightarrow> le_key e = k \<or> le_indexKey e \<noteq> i" if "e \<in> set (c_order c)" for e
      using owner [OF that] ent key_unique [OF c that ent(1)] by auto
    then have "filter (\<lambda>e. le_key e \<noteq> le_key ent) (c_order c) = filter (\<lambda>e. le_key e = k \<or> le_indexKey e \<noteq> i) (c_order c)"
      by (intro filter_cong) simp_all
    moreover have "cache_inv P (c\<lparr>c_generation := c_generation c + 1\<rparr>)" using c by simp
    ultimately show ?thesis using removeLocked_order ent(1) by (simp add: eq removeLocked_order)
  qed
qed

lemma filter_last: "distinct (map f xs) \<Longrightarrow> xs \<noteq> [] \<Longrightarrow> filter (\<lambda>x. f x \<noteq> f (last xs)) xs = butlast xs"
  by (induction xs rule: rev_induct) (fastforce simp: filter_id_conv image_iff)+

lemma make_room_order:
  assumes "cache_inv P c" "bounded c"
  shows "c_order (make_room c) = take (nat (c_capacity c) - 1) (c_order c)"
proof (cases "int (length (c_order c)) \<ge> c_capacity c")
  case True
  then have len: "length (c_order c) = nat (c_capacity c)" "c_order c \<noteq> []"
    using assms(2) by (auto simp: bounded_def)
  have "c_order (removeLocked (last (c_order c)) c) = butlast (c_order c)"
    using removeLocked_order [OF assms(1)] filter_last [of le_key "c_order c"] len(2) assms(1)
    by (simp add: cache_inv_def list_ok_def)
  then show ?thesis using True len by (simp add: make_room_def butlast_conv_take)
next
  case False
  then show ?thesis by (simp add: make_room_def)
qed

definition rivals :: "string \<Rightarrow> string \<Rightarrow> 'v lru_entry \<Rightarrow> bool" where
  "rivals k i e \<longleftrightarrow> le_key e = k \<or> i \<noteq> '''' \<and> le_indexKey e = i"

lemma insert_new_order:
  assumes c: "cache_inv (\<lambda>_. True) c" "bounded c" "k \<notin> le_key ` set (c_order c)"
  shows "\<exists>ent. c_order (insert_new k i v c) =
      ent # take (nat (c_capacity c) - 1) (filter (\<lambda>e. \<not> rivals k i e) (c_order c))
    \<and> le_key ent = k \<and> le_indexKey ent = i \<and> le_value ent = v"
proof -
  define c1 where "c1 = (if i \<noteq> '''' then evictIndexOwnerLocked i k c else c)"
  have inv1: "cache_inv (\<lambda>_. True) c1" and cap: "c_capacity c1 = c_capacity c"
    using c(1) evictIndexOwner_inv(1) [OF c(1)] by (simp_all add: c1_def)
  have o1: "c_order c1 = filter (\<lambda>e. \<not> rivals k i e) (c_order c)"
  proof -
    have "le_key e \<noteq> k" if "e \<in> set (c_order c)" for e using that c(3) by auto
    then have "filter (\<lambda>e. le_key e = k \<or> le_indexKey e \<noteq> i) (c_order c) = filter (\<lambda>e. \<not> rivals k i e) (c_order c)"
      if "i \<noteq> ''''" using that by (intro filter_cong) (auto simp: rivals_def)
    moreover have "filter (\<lambda>e. \<not> rivals k i e) (c_order c) = c_order c" if "i = ''''"
      using that c(3) by (auto simp: rivals_def filter_id_conv)
    ultimately show ?thesis using evictIndexOwner_order [OF c(1)] by (simp add: c1_def)
  qed
  have b1: "bounded c1"
    using c(2) by (rule bounded_le) (simp_all add: cap o1)
  have "c_order (insert_new k i v c) =
      \<lparr>le_elem = c_nextElem (make_room c1), le_key = k, le_indexKey = i, le_value = v, le_version = 0\<rparr> # c_order (make_room c1)"
    unfolding insert_new_room c1_def Let_def by simp
  then show ?thesis using make_room_order [OF inv1 b1] by (simp add: o1 cap)
qed

lemma filter_unique: "distinct (map f xs) \<Longrightarrow> x \<in> set xs \<Longrightarrow> filter (\<lambda>y. f y = f x) xs = [x]"
proof (induction xs)
  case (Cons a xs)
  show ?case
  proof (cases "x = a")
    case True
    then have "filter (\<lambda>y. f y = f x) xs = []" using Cons.prems(1) by (auto simp: filter_empty_conv image_iff)
    then show ?thesis using True by simp
  next
    case False
    then have "f a \<noteq> f x" using Cons.prems by (auto simp: image_iff)
    then show ?thesis using Cons False by simp
  qed
qed simp

lemma update_elem_filters:
  assumes "\<And>e. le_elem (f e) = le_elem e"
  shows "filter (\<lambda>e. le_elem e = el \<and> Q e) (list_update_elem el f es) = filter Q (map f (filter (\<lambda>e. le_elem e = el) es))"
    and "filter (\<lambda>e. le_elem e \<noteq> el \<and> Q e) (list_update_elem el f es) = filter (\<lambda>e. le_elem e \<noteq> el \<and> Q e) es"
  using assms by (induction es) (auto simp: list_update_elem_def)

lemma rebind_order:
  assumes "cache_inv P c" "\<And>x. x \<noteq> k \<Longrightarrow> P x"
  shows "c_order (rebind_index i k c) = filter (\<lambda>e. le_key e = k \<or> i = '''' \<or> le_indexKey e \<noteq> i) (c_order c)"
  using evictIndexOwner_order [OF assms(1) _ assms(2)]
  by (cases "i = ''''") (simp_all add: rebind_index_def Let_def)

lemma update_existing_order:
  assumes c: "cache_inv (\<lambda>_. True) c" and ent: "ent \<in> set (c_order c)" "le_elem ent = el" "le_key ent = k"
  shows "\<exists>ent'. c_order (update_existing el ent k i v c) = ent' # filter (\<lambda>e. \<not> rivals k i e) (c_order c)
    \<and> le_key ent' = k \<and> le_indexKey ent' = i \<and> le_value ent' = v"
proof -
  define f :: "'a lru_entry \<Rightarrow> 'a lru_entry"
    where "f = (\<lambda>e. e\<lparr>le_value := v, le_indexKey := i, le_version := le_version e + 1\<rparr>)"
  let ?w = "write_entry el i v (drop_binding ent i k c)"
  let ?Q = "\<lambda>e. le_key e = k \<or> i = '''' \<or> le_indexKey e \<noteq> i"
  have "cache_inv (\<lambda>_. True) ?w \<or> cache_inv (\<lambda>x. x \<noteq> k) ?w"
    using write_entry_same [OF c ent(1, 2)] write_entry_other [OF c ent]
    by (cases "le_indexKey ent = i") (simp_all add: drop_binding_def)
  then have o3: "c_order (rebind_index i k ?w) = filter ?Q (c_order ?w)"
    using rebind_order by blast
  have ow: "c_order ?w = list_update_elem el f (c_order c)" by (simp add: write_entry_def f_def)
  have f: "le_elem (f e) = le_elem e" for e by (simp add: f_def)
  have one: "filter (\<lambda>e. le_elem e = el) (c_order c) = [ent]"
    using filter_unique [of le_elem "c_order c" ent] c ent by (simp add: cache_inv_def list_ok_def)
  have "le_elem e \<noteq> el \<and> ?Q e \<longleftrightarrow> \<not> rivals k i e" if "e \<in> set (c_order c)" for e
    using elem_unique [OF c that ent(1)] key_unique [OF c that ent(1)] ent by (auto simp: rivals_def)
  then have rest: "filter (\<lambda>e. le_elem e \<noteq> el \<and> ?Q e) (c_order c) = filter (\<lambda>e. \<not> rivals k i e) (c_order c)"
    by (intro filter_cong) simp_all
  have "c_order (update_existing el ent k i v c) = list_MoveToFront el (filter ?Q (list_update_elem el f (c_order c)))"
    by (simp add: update_existing_def Let_def o3 ow)
  also have "\<dots> = filter (\<lambda>e. le_elem e = el \<and> ?Q e) (list_update_elem el f (c_order c))
      @ filter (\<lambda>e. le_elem e \<noteq> el \<and> ?Q e) (list_update_elem el f (c_order c))"
    by (simp add: list_MoveToFront_def conj_commute)
  also have "\<dots> = f ent # filter (\<lambda>e. \<not> rivals k i e) (c_order c)"
    unfolding update_elem_filters [OF f] one rest using ent(3) by (simp add: f_def)
  finally show ?thesis using ent(3) by (simp add: f_def)
qed

text \<open>C38. An install is the update of an abstract LRU list: when the generation has not moved, the
  new entry becomes the most recent one; behind it the other entries keep their order, without the
  previous entry of the key and without the entry that held the same index key, and cut at the
  capacity, so that exactly the least recently used entries go.\<close>

theorem install_is_lru_update:
  assumes "Cache_New cap val = Some c0" "c = fold run_op ops c0" "gen = currentGeneration c"
  shows "\<exists>ent. c_order (setIfGeneration k i v gen c) =
      ent # take (nat (c_capacity c) - 1) (filter (\<lambda>e. \<not> rivals k i e) (c_order c))
    \<and> le_key ent = k \<and> le_indexKey ent = i \<and> le_value ent = v"
proof -
  have inv: "cache_inv (\<lambda>_. True) c" and b: "bounded c"
    using reachable_ok [OF assms(1)] assms(2) by (simp_all add: cache_ok_def)
  have gen: "c_generation c = gen" using assms(3) by (simp add: currentGeneration_def)
  show ?thesis
    using items_entry [OF inv, of k]
  proof
    assume "\<exists>el ent. mapget (c_items c) k = Some el \<and> elem_entry c el = Some ent \<and>
        ent \<in> set (c_order c) \<and> le_key ent = k \<and> le_elem ent = el"
    then obtain el ent where e: "mapget (c_items c) k = Some el" "elem_entry c el = Some ent"
        "ent \<in> set (c_order c)" "le_elem ent = el" "le_key ent = k" by blast
    have "length (filter (\<lambda>e. \<not> rivals k i e) (c_order c)) < length (c_order c)"
      using e(3, 5) by (intro length_filter_less [of ent]) (simp_all add: rivals_def)
    then have "take (nat (c_capacity c) - 1) (filter (\<lambda>e. \<not> rivals k i e) (c_order c)) = filter (\<lambda>e. \<not> rivals k i e) (c_order c)"
      using b by (simp add: bounded_def) linarith
    then show ?thesis
      using update_existing_order [OF inv e(3-5), of i v] e(1, 2) gen by (simp add: setIfGeneration_def)
  next
    assume "mapget (c_items c) k = None \<and> k \<notin> le_key ` set (c_order c)"
    then show ?thesis
      using insert_new_order [OF inv b] gen by (simp add: setIfGeneration_def)
  qed
qed

theorem install_is_lru_update_witness:
  "\<exists>ent. c_order (setIfGeneration ''z'' '''' 9 0 (fold run_op sample_ops small_cache)) =
      ent # take (nat (c_capacity (fold run_op sample_ops small_cache)) - 1)
        (filter (\<lambda>e. \<not> rivals ''z'' '''' e) (c_order (fold run_op sample_ops small_cache)))
    \<and> le_key ent = ''z'' \<and> le_indexKey ent = '''' \<and> le_value ent = 9"
proof (rule install_is_lru_update [OF _ refl])
  show "Cache_New 2 None = Some small_cache" by (simp add: Cache_New_def small_cache_def)
  show "0 = currentGeneration (fold run_op sample_ops small_cache)" by code_simp
qed

subsection \<open>Composite keys can be read back\<close>

lemma digit_val_char [simp]: "d < 10 \<Longrightarrow> digit_val (digit_char d) = Some d"
  by (simp add: digit_val_def of_digit_char)

lemma parse_digits_append:
  "parse_digits (s @ t) acc = (case parse_digits s acc of None \<Rightarrow> None | Some a \<Rightarrow> parse_digits t a)"
  by (induction s arbitrary: acc) (auto split: option.splits)

lemma parse_nat_digits: "parse_digits (nat_digits n) 0 = Some n"
proof (induction n rule: nat_digits.induct)
  case (1 n)
  show ?case
    using 1 by (subst nat_digits.simps) (auto simp: parse_digits_append)
qed

lemma Itoa_nat: "strconv_Itoa (int n) = nat_digits n"
  by (simp add: strconv_Itoa_def)

lemma canonical_length_digits: "canonical_length (nat_digits n) = (if n < 2 ^ 63 then Some n else None)"
  unfolding canonical_length_def parse_nat_digits Itoa_nat option.case using nat_digits_nonempty [of n] by presburger

lemma canonical_length_sound:
  assumes "canonical_length t = Some n"
  shows "t = nat_digits n \<and> n < 2 ^ 63"
proof (cases "parse_digits t 0")
  case None
  then show ?thesis using assms unfolding canonical_length_def by (simp split: if_splits)
next
  case (Some m)
  then show ?thesis using assms unfolding canonical_length_def Some option.case Itoa_nat
    by (metis option.distinct(1) option.inject)
qed

lemma Index_char:
  "strings_Index s [ch] = Some i \<Longrightarrow> s = take i s @ ch # drop (Suc i) s"
proof (induction s arbitrary: i)
  case (Cons a s)
  then show ?case by (auto simp: strings_HasPrefix_def split: if_splits)
qed simp

lemma Index_char_free: "ch \<notin> set u \<Longrightarrow> strings_Index (u @ ch # t) [ch] = Some (length u)"
  by (induction u) (auto simp: strings_HasPrefix_def)

lemma decode_one:
  "DecodeKey_loop (Suc n) (EncodeKey (p # qs)) parts =
     (if length p < 2 ^ 63 then DecodeKey_loop n (EncodeKey qs) (parts @ [p]) else None)"
proof -
  let ?t = "nat_digits (length p)"
  have enc: "EncodeKey (p # qs) = ?t @ CHR '':'' # p @ EncodeKey qs" by (simp add: Itoa_nat)
  have "strings_Index (EncodeKey (p # qs)) '':'' = Some (length ?t)"
    unfolding enc by (rule Index_char_free [OF nat_digits_no_colon])
  moreover have "take (length ?t) (EncodeKey (p # qs)) = ?t"
    "drop (length ?t + 1) (EncodeKey (p # qs)) = p @ EncodeKey qs" by (simp_all only: enc) simp_all
  ultimately show ?thesis
    by (simp only: DecodeKey_loop.simps option.case canonical_length_digits Let_def) simp
qed

lemma decode_encode:
  "list_all (\<lambda>p. length p < 2 ^ 63) ps \<Longrightarrow> DecodeKey_loop (length ps) (EncodeKey ps) parts = Some (parts @ ps)"
proof (induction ps arbitrary: parts)
  case (Cons p ps)
  have "length p < 2 ^ 63" using Cons.prems by simp
  then have "DecodeKey_loop (Suc (length ps)) (EncodeKey (p # ps)) parts = DecodeKey_loop (length ps) (EncodeKey ps) (parts @ [p])"
    unfolding decode_one by (rule if_P)
  then show ?case using Cons.IH [of "parts @ [p]"] Cons.prems by (simp del: EncodeKey.simps DecodeKey_loop.simps)
qed simp

lemma decode_sound:
  "DecodeKey_loop n rest parts = Some ps \<Longrightarrow>
     \<exists>qs. ps = parts @ qs \<and> length qs = n \<and> rest = EncodeKey qs \<and> list_all (\<lambda>p. length p < 2 ^ 63) qs"
proof (induction n arbitrary: rest parts)
  case (Suc n)
  obtain i where i: "strings_Index rest '':'' = Some i"
    using Suc.prems by (cases "strings_Index rest '':''") simp_all
  obtain len where len: "canonical_length (take i rest) = Some len"
    using Suc.prems i by (cases "canonical_length (take i rest)") simp_all
  define rest1 where "rest1 = drop (i + 1) rest"
  have le: "len \<le> length rest1"
    and loop: "DecodeKey_loop n (drop len rest1) (parts @ [take len rest1]) = Some ps"
    using Suc.prems i len by (simp_all add: rest1_def Let_def split: if_splits)
  obtain qs where qs: "ps = (parts @ [take len rest1]) @ qs" "length qs = n" "drop len rest1 = EncodeKey qs"
      "list_all (\<lambda>p. length p < 2 ^ 63) qs"
    using Suc.IH [OF loop] by blast
  have "rest = nat_digits len @ CHR '':'' # rest1" and "len < 2 ^ 63"
    using Index_char [OF i] canonical_length_sound [OF len] by (simp_all add: rest1_def)
  moreover have "rest1 = take len rest1 @ EncodeKey qs" using qs(3) by (metis append_take_drop_id)
  ultimately show ?case
    using qs le by (intro exI [of _ "take len rest1 # qs"]) (simp add: Itoa_nat min_def)
qed (auto split: if_splits)

text \<open>Composite cache keys are unambiguous: a key decodes into \<open>n\<close> parts exactly when it is the
  encoding of those parts (and there are \<open>n\<close> of them), whatever bytes the parts contain - so decoding
  inverts encoding and no two tuples share a key. (A part is shorter than 2^63 bytes.)\<close>

theorem composite_key_roundtrip:
  "DecodeKey k n = Some ps \<longleftrightarrow>
     k = EncodeKey ps \<and> n = int (length ps) \<and> list_all (\<lambda>p. length p < 2 ^ 63) ps"
proof
  assume d: "DecodeKey k n = Some ps"
  then have "0 \<le> n" "DecodeKey_loop (nat n) k [] = Some ps" by (simp_all add: DecodeKey_def split: if_splits)
  with decode_sound [OF this(2)] show "k = EncodeKey ps \<and> n = int (length ps) \<and> list_all (\<lambda>p. length p < 2 ^ 63) ps"
    by auto
next
  assume "k = EncodeKey ps \<and> n = int (length ps) \<and> list_all (\<lambda>p. length p < 2 ^ 63) ps"
  then show "DecodeKey k n = Some ps" using decode_encode [of ps "[]"] by (simp add: DecodeKey_def)
qed

end
