(* ===== verification/Key_Pool.thy ===== *)
theory Key_Pool
  imports Cooldown_State KV_Store
begin

text \<open>
  Choosing the API keys a request may use (\<open>core/bifrost.go\<close>, \<open>core/utils.go\<close> and
  \<open>core/keyselectors/weightedrandom.go\<close>): the eligible keys of a provider for a model, pinning and
  session stickiness, the weighted random selector, and the two key providers that the retry loop
  asks for a key on every attempt.

  What lies outside - the configured account, the installed key selector and key pool filter, the
  key-value store behind session stickiness - reaches the functions as arguments over a world state
  \<open>'w\<close>; locales below state what the callers rely on, and the interpretations discharge it for the
  weighted random selector, the cooldown filter and the in-memory store. SHA-256 is the argument
  \<open>hash\<close>. A set of key IDs (\<open>map[string]bool\<close>) is a set. Only the fields of the request context that
  are read appear in \<open>KeyContext\<close>.
\<close>

type_synonym 'w pool_filter = "'w \<Rightarrow> ModelProvider \<Rightarrow> string \<Rightarrow> Key list \<Rightarrow> 'w \<times> (string + Key list)"
type_synonym 'w key_selector = "'w \<Rightarrow> Key list \<Rightarrow> ModelProvider \<Rightarrow> string \<Rightarrow> 'w \<times> (string + Key)"

datatype pool_error =
    AccountError string
  | NoKeysFound
  | NoBatchKeys
  | NoSupportedKeys
  | NoKeyWithID string
  | NoKeyWithName string
  | SelectorError string
  | AllKeysDead
  | AllKeysFiltered

subsection \<open>Request types\<close>

definition isBatchRequestType :: "RequestType \<Rightarrow> bool" where
  "isBatchRequestType t \<longleftrightarrow> t \<in> {''batch_create'', ''batch_list'', ''batch_retrieve'', ''batch_cancel'',
     ''batch_delete'', ''batch_results''}"

definition isFileRequestType :: "RequestType \<Rightarrow> bool" where
  "isFileRequestType t \<longleftrightarrow> t \<in> {''file_upload'', ''file_list'', ''file_retrieve'', ''file_delete'', ''file_content''}"

definition isCachedContentRequestType :: "RequestType \<Rightarrow> bool" where
  "isCachedContentRequestType t \<longleftrightarrow> t \<in> {''cached_content_create'', ''cached_content_list'',
     ''cached_content_retrieve'', ''cached_content_update'', ''cached_content_delete''}"

definition isContainerRequestType :: "RequestType \<Rightarrow> bool" where
  "isContainerRequestType t \<longleftrightarrow> t \<in> {''container_create'', ''container_list'', ''container_retrieve'',
     ''container_delete'', ''container_file_create'', ''container_file_list'', ''container_file_retrieve'',
     ''container_file_content'', ''container_file_delete''}"

definition isModellessVideoRequestType :: "RequestType \<Rightarrow> bool" where
  "isModellessVideoRequestType t \<longleftrightarrow> t \<in> {''video_retrieve'', ''video_download'', ''video_list'',
     ''video_delete'', ''video_remix''}"

definition isPassthroughRequestType :: "RequestType \<Rightarrow> bool" where
  "isPassthroughRequestType t \<longleftrightarrow> t \<in> {''passthrough'', ''passthrough_stream''}"

definition isResponsesLifecycleRequestType :: "RequestType \<Rightarrow> bool" where
  "isResponsesLifecycleRequestType t \<longleftrightarrow> t \<in> {''responses_retrieve'', ''responses_retrieve_stream'',
     ''responses_delete'', ''responses_cancel'', ''responses_input_items''}"

subsection \<open>Eligible keys\<close>

definition CanProviderKeyValueBeEmpty :: "ModelProvider \<Rightarrow> bool" where
  "CanProviderKeyValueBeEmpty p \<longleftrightarrow> p \<in> {Vertex, Bedrock, BedrockMantle, VLLM, Azure, Ollama, SGL}"

definition isKeySkippingAllowed :: "ModelProvider \<Rightarrow> bool" where
  "isKeySkippingAllowed p \<longleftrightarrow> p \<notin> {Azure, Bedrock, BedrockMantle, Vertex}"

text \<open>The result says whether the key is valid. For Bedrock an absent configuration is replaced by an
  empty one, which no modelled function reads.\<close>

definition validateKey :: "ModelProvider \<Rightarrow> Key \<Rightarrow> bool" where
  "validateKey p k =
     (if p = Azure then (case k_AzureEndpoint k of None \<Rightarrow> False | Some e \<Rightarrow> e \<noteq> '''')
      else if p = Vertex then k_VertexKeyConfig k \<noteq> None
      else if p = VLLM then (case k_VLLMKeyConfig k of None \<Rightarrow> False | Some c \<Rightarrow> vllm_URL c \<noteq> '''')
      else if p = Ollama then (case k_OllamaURL k of None \<Rightarrow> False | Some u \<Rightarrow> u \<noteq> '''')
      else if p = SGL then (case k_SGLURL k of None \<Rightarrow> False | Some u \<Rightarrow> u \<noteq> '''')
      else True)"

definition has_value :: "ModelProvider \<Rightarrow> Key \<Rightarrow> bool" where
  "has_value p k \<longleftrightarrow> strings_TrimSpace (k_Value k) \<noteq> '''' \<or> CanProviderKeyValueBeEmpty p"

definition filterKeysByID :: "Key list \<Rightarrow> string \<Rightarrow> Key list" where
  "filterKeysByID keys target = filter (\<lambda>k. k_ID k = target) keys"

fun supported_any :: "ModelProvider \<Rightarrow> Key list \<Rightarrow> Key list" where
  "supported_any base [] = []"
| "supported_any base (k # ks) =
     (if k_Enabled k = Some False then supported_any base ks
      else if \<not> validateKey base k then supported_any base ks
      else if has_value base k then k # supported_any base ks
      else supported_any base ks)"

definition model_supported :: "ModelProvider \<Rightarrow> string \<Rightarrow> Key \<Rightarrow> bool" where
  "model_supported base model k \<longleftrightarrow>
     (let m = has_value base k \<and> WhiteList_IsAllowed (k_Models k) model \<and>
              \<not> BlackList_IsBlocked (k_BlacklistedModels k) model
      in if base = VLLM then
           (case k_VLLMKeyConfig k of
              Some c \<Rightarrow> if vllm_ModelName c \<noteq> '''' then m \<and> vllm_ModelName c = model else m
            | None \<Rightarrow> m)
         else m)"

fun supported_for_model :: "ModelProvider \<Rightarrow> string \<Rightarrow> Key list \<Rightarrow> Key list" where
  "supported_for_model base model [] = []"
| "supported_for_model base model (k # ks) =
     (if k_Enabled k = Some False then supported_for_model base model ks
      else if \<not> validateKey base k then supported_for_model base model ks
      else if model_supported base model k then k # supported_for_model base model ks
      else supported_for_model base model ks)"

definition getAllSupportedKeys ::
    "string + Key list \<Rightarrow> Key option \<Rightarrow> ModelProvider \<Rightarrow> ModelProvider \<Rightarrow> pool_error + Key list" where
  "getAllSupportedKeys account direct providerKey base =
     (case direct of
        Some k \<Rightarrow> Inr [k]
      | None \<Rightarrow>
          (case account of
             Inl e \<Rightarrow> Inl (AccountError e)
           | Inr keys \<Rightarrow>
               if keys = [] then (if IsKeylessProvider providerKey then Inr [zeroKey] else Inl NoKeysFound)
               else
                 let s = supported_any base keys in
                 if s = [] then Inl NoSupportedKeys else Inr s))"

fun batch_filter :: "ModelProvider \<Rightarrow> string option \<Rightarrow> bool \<Rightarrow> Key list \<Rightarrow> Key list" where
  "batch_filter base model isBatchOp [] = []"
| "batch_filter base model isBatchOp (k # ks) =
     (if k_Enabled k = Some False then batch_filter base model isBatchOp ks
      else if isBatchOp \<and> k_UseForBatchAPI k \<noteq> Some True then batch_filter base model isBatchOp ks
      else if \<not> validateKey base k then batch_filter base model isBatchOp ks
      else if (case model of
                 Some m \<Rightarrow> m \<noteq> '''' \<and> (BlackList_IsBlocked (k_BlacklistedModels k) m \<or>
                            \<not> WhiteList_IsAllowed (k_Models k) m)
               | None \<Rightarrow> False) then batch_filter base model isBatchOp ks
      else if has_value base k then k # batch_filter base model isBatchOp ks
      else batch_filter base model isBatchOp ks)"

text \<open>Go compares strings by bytes; \<open>sort.Slice\<close> is not stable, so among keys of equal ID (which the
  configuration excludes) any order may result. The stable sort stands for it.\<close>

fun bytes_less :: "string \<Rightarrow> string \<Rightarrow> bool" where
  "bytes_less s [] = False"
| "bytes_less [] (d # t) = True"
| "bytes_less (c # s) (d # t) =
     (if (of_char c :: nat) < of_char d then True
      else if (of_char c :: nat) = of_char d then bytes_less s t else False)"

fun insert_by_ID :: "Key \<Rightarrow> Key list \<Rightarrow> Key list" where
  "insert_by_ID k [] = [k]"
| "insert_by_ID k (x # xs) = (if bytes_less (k_ID x) (k_ID k) then x # insert_by_ID k xs else k # x # xs)"

definition sort_by_ID :: "Key list \<Rightarrow> Key list" where
  "sort_by_ID ks = foldr insert_by_ID ks []"

definition getKeysForBatchAndFileOps ::
    "string + Key list \<Rightarrow> Key option \<Rightarrow> ModelProvider \<Rightarrow> string option \<Rightarrow> bool \<Rightarrow> pool_error + Key list" where
  "getKeysForBatchAndFileOps account direct base model isBatchOp =
     (case direct of
        Some k \<Rightarrow> Inr [k]
      | None \<Rightarrow>
          (case account of
             Inl e \<Rightarrow> Inl (AccountError e)
           | Inr keys \<Rightarrow>
               if keys = [] then Inl NoKeysFound
               else
                 let f = batch_filter base model isBatchOp keys in
                 if f = [] then (if isBatchOp then Inl NoBatchKeys else Inl NoKeysFound)
                 else Inr (sort_by_ID f)))"

subsection \<open>Session stickiness and pinning\<close>

text \<open>The \<open>KVStore\<close> interface of \<open>core/schemas/kvstore.go\<close>. A value read back is a string or, when it
  came from another node, undecoded bytes.\<close>

datatype kv_value = KVString string | KVBytes string | KVOther

record 'w kv_ops =
  op_Get :: "'w \<Rightarrow> string \<Rightarrow> instant \<Rightarrow> 'w \<times> (kv_error + kv_value)"
  op_SetWithTTL :: "'w \<Rightarrow> string \<Rightarrow> kv_value \<Rightarrow> duration \<Rightarrow> instant \<Rightarrow> 'w \<times> kv_error option"
  op_SetNXWithTTL :: "'w \<Rightarrow> string \<Rightarrow> kv_value \<Rightarrow> duration \<Rightarrow> instant \<Rightarrow> 'w \<times> (kv_error + bool)"
  op_Delete :: "'w \<Rightarrow> string \<Rightarrow> instant \<Rightarrow> 'w \<times> (kv_error + bool)"

record KeyContext =
  kx_DirectKey :: "Key option"
  kx_SkipKeySelection :: bool
  kx_APIKeyID :: "string option"
  kx_APIKeyName :: "string option"
  kx_SessionID :: "string option"
  kx_FallbackIndex :: int
  kx_SessionTTL :: "duration option"

abbreviation DefaultSessionStickyTTL :: duration where
  "DefaultSessionStickyTTL \<equiv> 3600 * go_second"

definition buildSessionKey :: "(string \<Rightarrow> string) \<Rightarrow> ModelProvider \<Rightarrow> string \<Rightarrow> string \<Rightarrow> string" where
  "buildSessionKey hash providerKey sessionID model =
     (let discriminator = (if model = '''' then ''__modelless__'' else model)
      in ''session:'' @ providerKey @ '':'' @ hash sessionID @ '':'' @ hash discriminator)"

text \<open>\<open>unmarshal\<close> decodes a JSON string; undecodable bytes are taken as they are.\<close>

definition cached_key_id :: "(string \<Rightarrow> string option) \<Rightarrow> kv_value \<Rightarrow> string" where
  "cached_key_id unmarshal v =
     (case v of
        KVString s \<Rightarrow> s
      | KVBytes b \<Rightarrow> (case unmarshal b of Some s \<Rightarrow> s | None \<Rightarrow> b)
      | KVOther \<Rightarrow> '''')"

datatype cached = Found Key | Stale | Missing

definition getCachedKeyFromStore ::
    "(string \<Rightarrow> string option) \<Rightarrow> 'w kv_ops \<Rightarrow> 'w \<Rightarrow> string \<Rightarrow> Key list \<Rightarrow> instant \<Rightarrow> 'w \<times> cached" where
  "getCachedKeyFromStore unmarshal kv w kvKey supportedKeys now =
     (let (w1, r) = op_Get kv w kvKey now in
      case r of
        Inl _ \<Rightarrow> (w1, Missing)
      | Inr v \<Rightarrow>
          let cachedKeyID = cached_key_id unmarshal v in
          if cachedKeyID \<noteq> '''' then
            (case find (\<lambda>k. k_ID k = cachedKeyID) supportedKeys of
               Some k \<Rightarrow> (w1, Found k)
             | None \<Rightarrow> (w1, Stale))
          else (w1, Missing))"

text \<open>The second half of a session's selection, after the selector has chosen a key: claim the session for
  it unless another request did so in the meantime, whose key is then used.\<close>

definition sticky_claim ::
    "(string \<Rightarrow> string option) \<Rightarrow> 'w kv_ops \<Rightarrow> 'w \<Rightarrow> string \<Rightarrow> duration \<Rightarrow> Key list \<Rightarrow> Key \<Rightarrow> instant \<Rightarrow> 'w \<times> Key" where
  "sticky_claim unmarshal kv w kvKey ttl supportedKeys selectedKey now =
     (let (w4, set) = op_SetNXWithTTL kv w kvKey (KVString (k_ID selectedKey)) ttl now in
      case set of
        Inl _ \<Rightarrow> (w4, selectedKey)
      | Inr True \<Rightarrow> (w4, selectedKey)
      | Inr False \<Rightarrow>
          let (w5, c') = getCachedKeyFromStore unmarshal kv w4 kvKey supportedKeys now in
          case c' of
            Found currentKey \<Rightarrow> (w5, currentKey)
          | Stale \<Rightarrow> (fst (op_Delete kv w5 kvKey now), selectedKey)
          | Missing \<Rightarrow> (w5, selectedKey))"

definition sticky_select ::
    "(string \<Rightarrow> string option) \<Rightarrow> 'w key_selector \<Rightarrow> 'w kv_ops \<Rightarrow> 'w \<Rightarrow> string \<Rightarrow> duration \<Rightarrow> Key list
     \<Rightarrow> ModelProvider \<Rightarrow> string \<Rightarrow> instant \<Rightarrow> 'w \<times> (pool_error + Key list \<times> bool)" where
  "sticky_select unmarshal sel kv w kvKey ttl supportedKeys providerKey model now =
     (let (w1, c) = getCachedKeyFromStore unmarshal kv w kvKey supportedKeys now in
      case c of
        Found cachedKey \<Rightarrow>
          let (w2, _) = op_SetWithTTL kv w1 kvKey (KVString (k_ID cachedKey)) ttl now in (w2, Inr ([cachedKey], False))
      | _ \<Rightarrow>
          let w2 = (if c = Stale then fst (op_Delete kv w1 kvKey now) else w1);
              (w3, s) = sel w2 supportedKeys providerKey model
          in case s of
               Inl e \<Rightarrow> (w3, Inl (SelectorError e))
             | Inr selectedKey \<Rightarrow>
                 let (w4, key) = sticky_claim unmarshal kv w3 kvKey ttl supportedKeys selectedKey now
                 in (w4, Inr ([key], False)))"

definition skip_model_check :: "RequestType \<Rightarrow> string \<Rightarrow> bool" where
  "skip_model_check requestType model \<longleftrightarrow>
     (model = '''' \<and> (isFileRequestType requestType \<or> isBatchRequestType requestType \<or>
        isContainerRequestType requestType \<or> isCachedContentRequestType requestType \<or>
        isModellessVideoRequestType requestType \<or> isPassthroughRequestType requestType))
     \<or> requestType = ''list_models'' \<or> isResponsesLifecycleRequestType requestType"

definition supported_keys ::
    "RequestType \<Rightarrow> ModelProvider \<Rightarrow> string \<Rightarrow> Key list \<Rightarrow> Key list" where
  "supported_keys requestType base model keys =
     (if skip_model_check requestType model then supported_any base keys else supported_for_model base model keys)"

definition pinned :: "string option \<Rightarrow> string" where
  "pinned v = (case v of Some s \<Rightarrow> strings_TrimSpace s | None \<Rightarrow> '''')"

text \<open>The choice among the supported keys: a pinned key, the only key, the key of the session, or the whole
  pool with rotation.\<close>

definition choose_from_supported ::
    "(string \<Rightarrow> string) \<Rightarrow> (string \<Rightarrow> string option) \<Rightarrow> 'w key_selector \<Rightarrow> 'w kv_ops option
     \<Rightarrow> KeyContext \<Rightarrow> ModelProvider \<Rightarrow> string \<Rightarrow> Key list \<Rightarrow> instant \<Rightarrow> 'w
     \<Rightarrow> 'w \<times> (pool_error + Key list \<times> bool)" where
  "choose_from_supported hash unmarshal sel kvStore ctx providerKey model supportedKeys now w =
     (if pinned (kx_APIKeyID ctx) \<noteq> '''' then
        (case find (\<lambda>k. k_ID k = pinned (kx_APIKeyID ctx)) supportedKeys of
           Some k \<Rightarrow> (w, Inr ([k], False))
         | None \<Rightarrow> (w, Inl (NoKeyWithID (pinned (kx_APIKeyID ctx)))))
      else if pinned (kx_APIKeyName ctx) \<noteq> '''' then
        (case find (\<lambda>k. k_Name k = pinned (kx_APIKeyName ctx)) supportedKeys of
           Some k \<Rightarrow> (w, Inr ([k], False))
         | None \<Rightarrow> (w, Inl (NoKeyWithName (pinned (kx_APIKeyName ctx)))))
      else if length supportedKeys = 1 then (w, Inr ([hd supportedKeys], False))
      else
        (case (kx_SessionID ctx, kvStore) of
           (Some sessionID, Some kv) \<Rightarrow>
             if sessionID \<noteq> '''' \<and> kx_FallbackIndex ctx = 0 then
               let ttl = (case kx_SessionTTL ctx of
                            Some t \<Rightarrow> if t \<le> 0 then DefaultSessionStickyTTL else t
                          | None \<Rightarrow> DefaultSessionStickyTTL)
               in sticky_select unmarshal sel kv w (buildSessionKey hash providerKey sessionID model) ttl
                    supportedKeys providerKey model now
             else (w, Inr (supportedKeys, True))
         | _ \<Rightarrow> (w, Inr (supportedKeys, True))))"

definition selectKeyFromProviderForModelWithPool ::
    "(string \<Rightarrow> string) \<Rightarrow> (string \<Rightarrow> string option) \<Rightarrow> 'w key_selector \<Rightarrow> 'w kv_ops option \<Rightarrow> string + Key list
     \<Rightarrow> KeyContext \<Rightarrow> RequestType \<Rightarrow> ModelProvider \<Rightarrow> string \<Rightarrow> ModelProvider \<Rightarrow> instant \<Rightarrow> 'w
     \<Rightarrow> 'w \<times> (pool_error + Key list \<times> bool)" where
  "selectKeyFromProviderForModelWithPool hash unmarshal sel kvStore account ctx requestType providerKey model base now w =
     (case kx_DirectKey ctx of
        Some k \<Rightarrow> (w, Inr ([k], False))
      | None \<Rightarrow>
        if kx_SkipKeySelection ctx \<and> isKeySkippingAllowed providerKey then (w, Inr ([], False))
        else
          (case account of
             Inl e \<Rightarrow> (w, Inl (AccountError e))
           | Inr keys0 \<Rightarrow>
             if keys0 = [] then (if IsKeylessProvider providerKey then (w, Inr ([], False)) else (w, Inl NoKeysFound))
             else
               let batch = isBatchRequestType requestType \<or> isFileRequestType requestType;
                   keys = (if batch then filter (\<lambda>k. k_UseForBatchAPI k = Some True) keys0 else keys0)
               in if batch \<and> keys = [] then (w, Inl NoBatchKeys)
                  else
                    let supportedKeys = supported_keys requestType base model keys in
                    if supportedKeys = [] then (w, Inl NoSupportedKeys)
                    else choose_from_supported hash unmarshal sel kvStore ctx providerKey model supportedKeys now w))"

subsection \<open>Weighted random selection\<close>

text \<open>\<open>rand.Intn(n)\<close> returns a value from 0 to \<open>n - 1\<close>: an arbitrary integer \<open>r\<close> of the random source
  reduced modulo \<open>n\<close>. It panics when \<open>n\<close> is not positive, which is \<^const>\<open>None\<close>. A weight is the integer
  that \<open>int(key.Weight * 100)\<close> yields.\<close>

definition rand_Intn :: "int \<Rightarrow> int \<Rightarrow> int option" where
  "rand_Intn r n = (if n \<le> 0 then None else Some (r mod n))"

fun weighted_loop :: "Key list \<Rightarrow> int \<Rightarrow> int \<Rightarrow> Key option" where
  "weighted_loop [] randomValue currentWeight = None"
| "weighted_loop (k # ks) randomValue currentWeight =
     (if randomValue < currentWeight + k_CentiWeight k then Some k
      else weighted_loop ks randomValue (currentWeight + k_CentiWeight k))"

definition WeightedRandom :: "int \<Rightarrow> Key list \<Rightarrow> Key option" where
  "WeightedRandom r keys =
     (let totalWeight = sum_list (map k_CentiWeight keys) in
      if totalWeight = 0 then map_option (\<lambda>i. keys ! nat i) (rand_Intn r (int (length keys)))
      else
        case rand_Intn r totalWeight of
          None \<Rightarrow> None
        | Some randomValue \<Rightarrow>
            (case weighted_loop keys randomValue 0 of
               Some k \<Rightarrow> Some k
             | None \<Rightarrow> Some (hd keys)))"

subsection \<open>Key providers\<close>

definition run_filter ::
    "'w pool_filter option \<Rightarrow> 'w \<Rightarrow> ModelProvider \<Rightarrow> string \<Rightarrow> Key list \<Rightarrow> 'w \<times> Key list" where
  "run_filter f w providerKey model available =
     (case f of
        None \<Rightarrow> (w, available)
      | Some flt \<Rightarrow>
          (let (w1, r) = flt w providerKey model available in
           case r of Inl _ \<Rightarrow> (w1, available) | Inr filtered \<Rightarrow> (w1, filtered)))"

definition newFixedKeyProvider ::
    "'w pool_filter option \<Rightarrow> ModelProvider \<Rightarrow> string \<Rightarrow> Key \<Rightarrow> string set \<Rightarrow> string set \<Rightarrow> 'w
     \<Rightarrow> 'w \<times> string set \<times> (pool_error + Key)" where
  "newFixedKeyProvider f providerKey model fixedKey used dead w =
     (if k_ID fixedKey \<in> dead then (w, used, Inl AllKeysDead)
      else
        let (w1, filtered) = run_filter f w providerKey model [fixedKey] in
        if filtered = [] then (w1, used, Inl AllKeysFiltered) else (w1, used, Inr fixedKey))"

definition rotatingKeyProvider ::
    "'w pool_filter option \<Rightarrow> 'w key_selector \<Rightarrow> ModelProvider \<Rightarrow> string \<Rightarrow> Key list \<Rightarrow> string set \<Rightarrow> string set
     \<Rightarrow> 'w \<Rightarrow> 'w \<times> string set \<times> (pool_error + Key)" where
  "rotatingKeyProvider f sel provKey mdl pool used dead w =
     (let available0 = filter (\<lambda>k. \<not> (k_ID k \<in> dead \<or> k_ID k \<in> used)) pool;
          (w1, available1) = run_filter f w provKey mdl available0
      in if available1 = [] then
           (let live = filter (\<lambda>k. k_ID k \<notin> dead) pool;
                (w2, available2) = run_filter f w1 provKey mdl live
            in if available2 = [] then (w2, used, Inl (if live \<noteq> [] then AllKeysFiltered else AllKeysDead))
               else
                 let (w3, r) = sel w2 available2 provKey mdl
                 in (w3, {}, case r of Inl e \<Rightarrow> Inl (SelectorError e) | Inr k \<Rightarrow> Inr k))
         else
           let (w2, r) = sel w1 available1 provKey mdl
           in (w2, used, case r of Inl e \<Rightarrow> Inl (SelectorError e) | Inr k \<Rightarrow> Inr k))"

subsection \<open>What the key providers rely on\<close>

text \<open>A key pool filter removes the keys it vetoes, nothing else, and asking does not change the veto.\<close>

locale key_pool_filter =
  fixes flt :: "'w pool_filter"
    and vetoed :: "'w \<Rightarrow> ModelProvider \<Rightarrow> string \<Rightarrow> Key \<Rightarrow> bool"
  assumes flt_result: "snd (flt w p m ks) = Inr (filter (\<lambda>k. \<not> vetoed w p m k) ks)"
    and flt_stable: "vetoed (fst (flt w p m ks)) p m k = vetoed w p m k"
begin

lemma run_filter_result: "snd (run_filter (Some flt) w p m ks) = filter (\<lambda>k. \<not> vetoed w p m k) ks"
  using flt_result [of w p m ks] by (simp add: run_filter_def split_beta)

lemma run_filter_world: "fst (run_filter (Some flt) w p m ks) = fst (flt w p m ks)"
  using flt_result [of w p m ks] by (simp add: run_filter_def split_beta)

lemma fixed_key_offered_iff:
  "snd (snd (newFixedKeyProvider (Some flt) p m k used dead w)) =
     (if k_ID k \<in> dead then Inl AllKeysDead
      else if vetoed w p m k then Inl AllKeysFiltered else Inr k)"
  by (simp add: newFixedKeyProvider_def split_beta run_filter_result)

end

text \<open>A key selector returns none but the keys it is offered, and picks one whenever their weights are
  usable.\<close>

locale key_selector =
  fixes sel :: "'w key_selector"
    and usable :: "Key \<Rightarrow> bool"
  assumes sel_picks: "ks \<noteq> [] \<Longrightarrow> list_all usable ks \<Longrightarrow> \<exists>k \<in> set ks. snd (sel w ks p m) = Inr k"
    and sel_offered: "snd (sel w ks p m) = Inr k \<Longrightarrow> k \<in> set ks"

locale key_source = key_pool_filter flt vetoed + key_selector sel usable
  for flt :: "'w pool_filter" and vetoed and sel :: "'w key_selector" and usable
begin

lemma rotating_spec:
  fixes p m dead used w and ks :: "Key list"
  defines "live \<equiv> filter (\<lambda>k. k_ID k \<notin> dead \<and> \<not> vetoed w p m k) ks"
  assumes "list_all usable ks" "rotatingKeyProvider (Some flt) sel p m ks used dead w = (w', used', r)"
  shows "if filter (\<lambda>k. k_ID k \<notin> used) live \<noteq> []
      then used' = used \<and> (\<exists>k \<in> set live. k_ID k \<notin> used \<and> r = Inr k)
      else if live \<noteq> [] then used' = {} \<and> (\<exists>k \<in> set live. r = Inr k)
      else used' = used \<and> r = Inl (if list_all (\<lambda>k. k_ID k \<in> dead) ks then AllKeysDead else AllKeysFiltered)"
proof -
  let ?a0 = "filter (\<lambda>k. \<not> (k_ID k \<in> dead \<or> k_ID k \<in> used)) ks"
  obtain w1 a1 where f1: "run_filter (Some flt) w p m ?a0 = (w1, a1)" by (cases "run_filter (Some flt) w p m ?a0")
  let ?l = "filter (\<lambda>k. k_ID k \<notin> dead) ks"
  obtain w2 a2 where f2: "run_filter (Some flt) w1 p m ?l = (w2, a2)" by (cases "run_filter (Some flt) w1 p m ?l")
  have a1: "a1 = filter (\<lambda>k. k_ID k \<notin> used) live"
    using run_filter_result [of w p m ?a0] f1 unfolding live_def by (simp add: conj_ac cong: conj_cong)
  have "vetoed w1 p m k = vetoed w p m k" for k
    using flt_stable [of w p m ?a0 k] run_filter_world [of w p m ?a0] f1 by simp
  then have a2: "a2 = live"
    using run_filter_result [of w1 p m ?l] f2 unfolding live_def by (simp add: conj_ac)
  have us: "list_all usable live" using assms(2) by (auto simp: live_def list_all_iff)
  have pick: "\<exists>k \<in> set xs. snd (sel v xs p m) = Inr k" if "xs \<noteq> []" "set xs \<subseteq> set live" for xs v
    using sel_picks [of xs v p m] that us by (auto simp: list_all_iff)
  show ?thesis
  proof (cases "a1 = []")
    case False
    obtain k where "k \<in> set a1" "snd (sel w1 a1 p m) = Inr k" using pick [OF False] a1 by auto
    then show ?thesis
      using assms(3) False a1 f1 by (auto simp: rotatingKeyProvider_def split_beta)
  next
    case empty: True
    show ?thesis
    proof (cases "live = []")
      case False
      obtain k where "k \<in> set live" "snd (sel w2 live p m) = Inr k" using pick [OF False] by auto
      then show ?thesis
        using assms(3) empty False a1 a2 f1 f2 by (auto simp: rotatingKeyProvider_def split_beta)
    next
      case True
      have "?l \<noteq> [] \<longleftrightarrow> \<not> list_all (\<lambda>k. k_ID k \<in> dead) ks"
        by (auto simp: filter_empty_conv list_all_iff)
      then show ?thesis
        using assms(3) empty True a1 a2 f1 f2 by (auto simp: rotatingKeyProvider_def split_beta)
    qed
  qed
qed

end

subsection \<open>The cooldown filter and the weighted random selector\<close>

text \<open>The world of the gateway's own instances: the cooldown state and the draws of the random source
  that are still to come.\<close>

type_synonym key_world = "CooldownState \<times> int list"

definition cooldown_filter :: "instant \<Rightarrow> key_world pool_filter" where
  "cooldown_filter now w p m ks =
     (let (c, out, _) = AsFilter (fst w) True p m ks now in ((c, snd w), Inr out))"

definition cooling :: "instant \<Rightarrow> key_world \<Rightarrow> ModelProvider \<Rightarrow> string \<Rightarrow> Key \<Rightarrow> bool" where
  "cooling now w p m k \<longleftrightarrow> snd (lookupSuppressed (fst w) p (k_ID k) m now) \<noteq> None"

definition weighted_selector :: "key_world key_selector" where
  "weighted_selector w ks p m =
     ((fst w, tl (snd w)),
      case WeightedRandom (case snd w of [] \<Rightarrow> 0 | r # _ \<Rightarrow> r) ks of Some k \<Rightarrow> Inr k | None \<Rightarrow> Inl ''panic'')"

definition usable_weight :: "Key \<Rightarrow> bool" where
  "usable_weight k \<longleftrightarrow> 0 \<le> k_CentiWeight k"

lemma weighted_loop_range:
  "list_all usable_weight ks \<Longrightarrow> acc \<le> r \<Longrightarrow> r < acc + sum_list (map k_CentiWeight ks) \<Longrightarrow>
     \<exists>k \<in> set ks. weighted_loop ks r acc = Some k"
proof (induction ks arbitrary: acc)
  case (Cons k ks)
  then show ?case
    using Cons.IH [of "acc + k_CentiWeight k"] by (cases "r < acc + k_CentiWeight k") auto
qed simp

lemma weights_nonneg: "list_all usable_weight ks \<Longrightarrow> 0 \<le> sum_list (map k_CentiWeight ks)"
  by (induction ks) (auto simp: usable_weight_def)

lemma WeightedRandom_picks:
  assumes "ks \<noteq> []" "list_all usable_weight ks"
  shows "\<exists>k \<in> set ks. WeightedRandom r ks = Some k"
proof (cases "sum_list (map k_CentiWeight ks) = 0")
  case True
  have "nat (r mod int (length ks)) < length ks"
    using assms(1) by (simp add: nat_less_iff)
  then show ?thesis using True assms(1) by (simp add: WeightedRandom_def rand_Intn_def)
next
  case False
  let ?t = "sum_list (map k_CentiWeight ks)"
  have t: "0 < ?t" using False weights_nonneg [OF assms(2)] by simp
  then obtain k where "k \<in> set ks" "weighted_loop ks (r mod ?t) 0 = Some k"
    using weighted_loop_range [OF assms(2), of 0 "r mod ?t"] by auto
  then show ?thesis using False t by (simp add: WeightedRandom_def rand_Intn_def)
qed

lemma weighted_loop_offered: "weighted_loop ks r acc = Some k \<Longrightarrow> k \<in> set ks"
  by (induction ks arbitrary: acc) (auto split: if_splits)

lemma WeightedRandom_offered:
  assumes "WeightedRandom r ks = Some k" shows "k \<in> set ks"
proof (cases "ks = []")
  case False
  then have "nat (r mod int (length ks)) < length ks" "hd ks \<in> set ks" by (simp_all add: nat_less_iff)
  then show ?thesis
    using assms weighted_loop_offered
    by (auto simp: WeightedRandom_def rand_Intn_def Let_def split: if_splits option.splits)
qed (use assms in \<open>simp add: WeightedRandom_def rand_Intn_def\<close>)

interpretation gateway_keys: key_source "cooldown_filter now" "cooling now" weighted_selector usable_weight for now
proof unfold_locales
  fix w :: key_world and p m :: string and ks :: "Key list" and k :: Key
  show "snd (cooldown_filter now w p m ks) = Inr (filter (\<lambda>k. \<not> cooling now w p m k) ks)"
    by (simp only: cooldown_filter_def cooling_def split_beta Let_def lookupSuppressed_spec filter_out
        not_not snd_conv fst_conv if_True)
  have "same_clocks now (fst w) (fst (AsFilter (fst w) True p m ks now))"
    by (rule filter_clocks)
  then show "cooling now (fst (cooldown_filter now w p m ks)) p m k = cooling now w p m k"
    by (simp add: cooldown_filter_def cooling_def split_beta lookupSuppressed_spec suppressed_by_cong)
  show "snd (weighted_selector w ks p m) = Inr k \<Longrightarrow> k \<in> set ks"
    by (auto simp: weighted_selector_def dest: WeightedRandom_offered split: option.splits)
  assume "ks \<noteq> []" "list_all usable_weight ks"
  then obtain k' where "k' \<in> set ks" "WeightedRandom (case snd w of [] \<Rightarrow> 0 | r # _ \<Rightarrow> r) ks = Some k'"
    using WeightedRandom_picks [of ks] by blast
  then show "\<exists>k \<in> set ks. snd (weighted_selector w ks p m) = Inr k"
    by (simp add: weighted_selector_def)
qed

text \<open>Which key an attempt gets from a rotating pool, with the cooldown filter and the weighted
  random selector installed and weights that are not negative: a key of the pool that is not dead, is
  not cooling down and has not been used in this round, if there is one; otherwise - and the round
  starts over - a key that is neither dead nor cooling down, if there is one; otherwise none, and the
  error tells a pool whose keys are all dead from one whose live keys are all cooling down.\<close>

theorem rotation_offers_live_key:
  assumes "list_all usable_weight ks"
    and "rotatingKeyProvider (Some (cooldown_filter now)) weighted_selector p m ks used dead w = (w', used', r)"
    and "live = filter (\<lambda>k. k_ID k \<notin> dead \<and> \<not> cooling now w p m k) ks"
  shows "if filter (\<lambda>k. k_ID k \<notin> used) live \<noteq> []
      then used' = used \<and> (\<exists>k. k \<in> set live \<and> k_ID k \<notin> used \<and> r = Inr k)
      else if live \<noteq> [] then used' = {} \<and> (\<exists>k. k \<in> set live \<and> r = Inr k)
      else used' = used \<and> r = Inl (if list_all (\<lambda>k. k_ID k \<in> dead) ks then AllKeysDead else AllKeysFiltered)"
  using gateway_keys.rotating_spec [OF assms(1, 2)] unfolding assms(3) by (simp only: Bex_def)

lemma weighted_loop_index:
  assumes "list_all usable_weight ks" "i < length ks"
    and "acc + sum_list (map k_CentiWeight (take i ks)) \<le> r"
    and "r < acc + sum_list (map k_CentiWeight (take i ks)) + k_CentiWeight (ks ! i)"
  shows "weighted_loop ks r acc = Some (ks ! i)"
  using assms
proof (induction ks arbitrary: i acc)
  case (Cons k ks)
  show ?case
  proof (cases i)
    case 0
    then show ?thesis using Cons.prems by simp
  next
    case (Suc j)
    have "0 \<le> sum_list (map k_CentiWeight (take j ks))"
      using Cons.prems(1) by (intro weights_nonneg) (auto simp: list_all_iff dest: in_set_takeD)
    then show ?thesis
      using Cons.IH [of j "acc + k_CentiWeight k"] Cons.prems Suc by (simp add: algebra_simps)
  qed
qed simp

text \<open>Weighted random selection is proportional: with weights that are not negative and a positive
  total, of the equally likely draws 0 to total - 1 exactly those in an interval as long as the
  weight of a key - starting at the sum of the weights before it - select that key.\<close>

theorem weighted_random_proportional:
  assumes "list_all usable_weight ks" "i < length ks"
    and "sum_list (map k_CentiWeight (take i ks)) \<le> r"
    and "r < sum_list (map k_CentiWeight (take i ks)) + k_CentiWeight (ks ! i)"
  shows "WeightedRandom r ks = Some (ks ! i)"
proof -
  let ?t = "sum_list (map k_CentiWeight ks)"
  have "ks = take i ks @ ks ! i # drop (Suc i) ks" using assms(2) by (rule id_take_nth_drop)
  then have "?t = sum_list (map k_CentiWeight (take i ks)) + k_CentiWeight (ks ! i)
      + sum_list (map k_CentiWeight (drop (Suc i) ks))"
    by (metis (no_types, lifting) add.assoc list.simps(9) map_append sum_list.Cons sum_list_append)
  moreover have "list_all usable_weight (take i ks)" "list_all usable_weight (drop (Suc i) ks)"
    using assms(1) by (meson in_set_takeD in_set_dropD list_all_iff)+
  then have "0 \<le> sum_list (map k_CentiWeight (drop (Suc i) ks))" "0 \<le> sum_list (map k_CentiWeight (take i ks))"
    by (simp_all only: weights_nonneg)
  ultimately have "0 \<le> r" "r < ?t" using assms(3, 4) by linarith+
  then have "r mod ?t = r" "?t \<noteq> 0" "\<not> ?t \<le> 0" by (simp_all add: mod_pos_pos_trivial)
  moreover have "weighted_loop ks r 0 = Some (ks ! i)"
    using assms by (intro weighted_loop_index) simp_all
  ultimately show ?thesis by (simp add: WeightedRandom_def rand_Intn_def Let_def)
qed

definition sample_key :: "string \<Rightarrow> int \<Rightarrow> Key" where
  "sample_key i wt = zeroKey\<lparr>k_ID := i, k_CentiWeight := wt, k_Value := ''v'', k_Models := [''*'']\<rparr>"

theorem weighted_random_proportional_witness:
  "WeightedRandom 130 [sample_key ''a'' 100, sample_key ''b'' 50] = Some (sample_key ''b'' 50)"
  using weighted_random_proportional [of "[sample_key ''a'' 100, sample_key ''b'' 50]" 1 130]
  by (simp add: sample_key_def usable_weight_def)

theorem rotation_offers_live_key_witness:
  "fst (snd (rotatingKeyProvider (Some (cooldown_filter 5)) weighted_selector OpenAI ''gpt-4''
      [sample_key ''a'' 100, sample_key ''b'' 50] {} {''a''}
      (MarkWithTTL (NewCooldownState 0) OpenAI ''b'' '''' 3 ''quota'' ''key'' 0, [7]))) = {}"
proof -
  let ?w = "(MarkWithTTL (NewCooldownState 0) OpenAI ''b'' '''' 3 ''quota'' ''key'' 0, [7 :: int])"
  let ?ks = "[sample_key ''a'' 100, sample_key ''b'' 50]"
  obtain w' used' r where eq: "rotatingKeyProvider (Some (cooldown_filter 5)) weighted_selector OpenAI ''gpt-4''
      ?ks {} {''a''} ?w = (w', used', r)" by (metis prod.exhaust)
  have "list_all usable_weight ?ks" by (simp add: sample_key_def usable_weight_def)
  from rotation_offers_live_key [OF this eq refl] show ?thesis by (simp add: eq split: if_splits)
qed

subsection \<open>Which keys are offered\<close>

text \<open>The eligibility of one key for one request, apart from pinning and stickiness.\<close>

definition eligible :: "RequestType \<Rightarrow> ModelProvider \<Rightarrow> string \<Rightarrow> Key \<Rightarrow> bool" where
  "eligible requestType base model k \<longleftrightarrow>
     k_Enabled k \<noteq> Some False \<and> validateKey base k \<and> has_value base k
     \<and> (if isBatchRequestType requestType \<or> isFileRequestType requestType then k_UseForBatchAPI k = Some True else True)
     \<and> (if skip_model_check requestType model then True
        else WhiteList_IsAllowed (k_Models k) model \<and> \<not> BlackList_IsBlocked (k_BlacklistedModels k) model
          \<and> (if base = VLLM then case k_VLLMKeyConfig k of
                Some c \<Rightarrow> vllm_ModelName c \<in> {'''', model} | None \<Rightarrow> True else True))"

definition eligible_pool :: "RequestType \<Rightarrow> ModelProvider \<Rightarrow> string \<Rightarrow> Key list \<Rightarrow> Key list" where
  "eligible_pool requestType base model keys =
     supported_keys requestType base model
       (if isBatchRequestType requestType \<or> isFileRequestType requestType
        then filter (\<lambda>k. k_UseForBatchAPI k = Some True) keys else keys)"

lemma supported_any_filter:
  "supported_any base ks = filter (\<lambda>k. k_Enabled k \<noteq> Some False \<and> validateKey base k \<and> has_value base k) ks"
  by (induction ks) auto

lemma supported_for_model_filter:
  "supported_for_model base model ks =
     filter (\<lambda>k. k_Enabled k \<noteq> Some False \<and> validateKey base k \<and> model_supported base model k) ks"
  by (induction ks) auto

lemma model_supported_iff:
  "model_supported base model k \<longleftrightarrow>
     has_value base k \<and> WhiteList_IsAllowed (k_Models k) model \<and> \<not> BlackList_IsBlocked (k_BlacklistedModels k) model
     \<and> (if base = VLLM then case k_VLLMKeyConfig k of
           Some c \<Rightarrow> vllm_ModelName c \<in> {'''', model} | None \<Rightarrow> True else True)"
  by (auto simp: model_supported_def Let_def split: option.splits)

lemma eligible_pool_filter: "eligible_pool requestType base model ks = filter (eligible requestType base model) ks"
  unfolding eligible_pool_def supported_keys_def supported_any_filter supported_for_model_filter
    eligible_def model_supported_iff
  by (auto intro!: filter_cong)

definition sticky_request :: "KeyContext \<Rightarrow> string \<Rightarrow> bool" where
  "sticky_request ctx sessionID \<longleftrightarrow>
     kx_DirectKey ctx = None \<and> \<not> kx_SkipKeySelection ctx \<and> pinned (kx_APIKeyID ctx) = ''''
     \<and> pinned (kx_APIKeyName ctx) = '''' \<and> kx_SessionID ctx = Some sessionID \<and> sessionID \<noteq> ''''
     \<and> kx_FallbackIndex ctx = 0"

definition session_ttl :: "KeyContext \<Rightarrow> duration" where
  "session_ttl ctx = (case kx_SessionTTL ctx of
     Some t \<Rightarrow> if t \<le> 0 then DefaultSessionStickyTTL else t | None \<Rightarrow> DefaultSessionStickyTTL)"

lemma session_ttl_pos: "0 < session_ttl ctx"
  by (simp add: session_ttl_def split: option.splits)

lemma select_is_sticky:
  assumes "sticky_request ctx sid" "2 \<le> length (eligible_pool requestType base model keys)"
  shows "selectKeyFromProviderForModelWithPool hash unmarshal sel (Some kv) (Inr keys) ctx requestType providerKey
      model base now w =
    sticky_select unmarshal sel kv w (buildSessionKey hash providerKey sid model) (session_ttl ctx)
      (eligible_pool requestType base model keys) providerKey model now"
proof -
  have "keys \<noteq> []" using assms(2) by (auto simp: eligible_pool_filter)
  moreover have "filter (\<lambda>k. k_UseForBatchAPI k = Some True) keys \<noteq> []"
    if "isBatchRequestType requestType \<or> isFileRequestType requestType"
  proof
    assume "filter (\<lambda>k. k_UseForBatchAPI k = Some True) keys = []"
    then have "eligible_pool requestType base model keys = []"
      using that by (simp add: eligible_pool_def supported_keys_def)
    then show False using assms(2) by simp
  qed
  ultimately show ?thesis
    using assms by (auto simp: selectKeyFromProviderForModelWithPool_def choose_from_supported_def sticky_request_def session_ttl_def Let_def
        eligible_pool_def)
qed


subsection \<open>Session stickiness\<close>

text \<open>What stickiness relies on: a store whose entries are visible from the write until the end of
  their lease, whose conditional write succeeds exactly where no entry is visible, and whose other
  keys are not affected. \<open>ok\<close> is the provider's invariant.\<close>

definition lease :: "instant \<Rightarrow> duration \<Rightarrow> bool" where
  "lease now ttl \<longleftrightarrow> 0 < now \<and> 0 < ttl \<and> now + ttl < 2 ^ 63"

definition assigned_key :: "(string \<Rightarrow> string option) \<Rightarrow> kv_value option \<Rightarrow> Key list \<Rightarrow> cached" where
  "assigned_key unmarshal entry keys =
     (case entry of
        None \<Rightarrow> Missing
      | Some v \<Rightarrow>
          if cached_key_id unmarshal v = '''' then Missing
          else case find (\<lambda>x. k_ID x = cached_key_id unmarshal v) keys of Some x \<Rightarrow> Found x | None \<Rightarrow> Stale)"

locale session_store =
  fixes kv :: "'w kv_ops"
    and visible :: "'w \<Rightarrow> string \<Rightarrow> instant \<Rightarrow> kv_value option"
    and ok :: "'w \<Rightarrow> bool"
  assumes get_result: "ok w \<Longrightarrow> k \<noteq> '''' \<Longrightarrow>
      snd (op_Get kv w k now) = (case visible w k now of Some v \<Rightarrow> Inr v | None \<Rightarrow> Inl ErrNotFound)"
    and get_visible: "ok w \<Longrightarrow> now \<le> t \<Longrightarrow> visible (fst (op_Get kv w k now)) k' t = visible w k' t"
    and get_ok: "ok w \<Longrightarrow> ok (fst (op_Get kv w k now))"
    and set_visible: "ok w \<Longrightarrow> k \<noteq> '''' \<Longrightarrow> lease now ttl \<Longrightarrow>
      visible (fst (op_SetWithTTL kv w k v ttl now)) k' t =
        (if k' = k then if t < now + ttl then Some v else None else visible w k' t)"
    and setnx_result: "ok w \<Longrightarrow> k \<noteq> '''' \<Longrightarrow> lease now ttl \<Longrightarrow>
      snd (op_SetNXWithTTL kv w k v ttl now) = Inr (visible w k now = None)"
    and setnx_visible: "ok w \<Longrightarrow> k \<noteq> '''' \<Longrightarrow> lease now ttl \<Longrightarrow>
      visible (fst (op_SetNXWithTTL kv w k v ttl now)) k' t =
        (if k' = k \<and> visible w k now = None then if t < now + ttl then Some v else None else visible w k' t)"
    and setnx_ok: "ok w \<Longrightarrow> ok (fst (op_SetNXWithTTL kv w k v ttl now))"
    and delete_visible: "ok w \<Longrightarrow> k \<noteq> '''' \<Longrightarrow>
      visible (fst (op_Delete kv w k now)) k' t = (if k' = k then None else visible w k' t)"
    and delete_ok: "ok w \<Longrightarrow> ok (fst (op_Delete kv w k now))"
begin

lemma cached_result:
  "ok w \<Longrightarrow> k \<noteq> '''' \<Longrightarrow>
     getCachedKeyFromStore unmarshal kv w k keys now = (fst (op_Get kv w k now), assigned_key unmarshal (visible w k now) keys)"
  using get_result [of w k now]
  by (cases "op_Get kv w k now")
    (auto simp: getCachedKeyFromStore_def assigned_key_def Let_def split: option.splits)

lemma assigned_after_set:
  assumes "visible w k t = Some (KVString (k_ID a))" "a \<in> set keys" "distinct (map k_ID keys)" "k_ID a \<noteq> ''''"
  shows "assigned_key unmarshal (visible w k t) keys = Found a"
proof -
  have "find (\<lambda>x. k_ID x = k_ID a) keys = Some a"
    using assms(2, 3) by (induction keys) auto
  then show ?thesis using assms(1, 4) by (simp add: assigned_key_def cached_key_id_def)
qed

text \<open>A session that has a key keeps it, and its lease starts over.\<close>

lemma sticky_keeps:
  assumes "ok w" "k \<noteq> ''''" "lease now ttl" "assigned_key unmarshal (visible w k now) keys = Found a"
    and "sticky_select unmarshal sel kv w k ttl keys p m now = (w', r)"
  shows "r = Inr ([a], False)"
    and "t < now + ttl \<Longrightarrow> visible w' k t = Some (KVString (k_ID a))"
proof -
  have w': "w' = fst (op_SetWithTTL kv (fst (op_Get kv w k now)) k (KVString (k_ID a)) ttl now)"
    and "r = Inr ([a], False)"
    using assms(5) by (simp_all add: sticky_select_def cached_result assms split_beta)
  then show "r = Inr ([a], False)" by simp
  show "visible w' k t = Some (KVString (k_ID a))" if "t < now + ttl"
    unfolding w' using set_visible [OF get_ok [OF assms(1)] assms(2, 3)] that by simp
qed

text \<open>Claiming a session: the first claim wins, and everybody else gets its key.\<close>

lemma claim_fresh:
  assumes "ok w" "k \<noteq> ''''" "lease now ttl" "visible w k now = None"
    and "sticky_claim unmarshal kv w k ttl keys a now = (w', b)"
  shows "b = a" and "ok w'" and "t < now + ttl \<Longrightarrow> visible w' k t = Some (KVString (k_ID a))"
proof -
  have "snd (op_SetNXWithTTL kv w k (KVString (k_ID a)) ttl now) = Inr True"
    using setnx_result assms by simp
  then have w': "w' = fst (op_SetNXWithTTL kv w k (KVString (k_ID a)) ttl now)" and b: "b = a"
    using assms(5) by (auto simp: sticky_claim_def split_beta)
  show "b = a" by (rule b)
  show "ok w'" unfolding w' by (rule setnx_ok [OF assms(1)])
  show "visible w' k t = Some (KVString (k_ID a))" if "t < now + ttl"
    unfolding w' using setnx_visible [OF assms(1-3)] assms(4) that by simp
qed

lemma claim_taken:
  assumes "ok w" "k \<noteq> ''''" "lease now ttl" "assigned_key unmarshal (visible w k now) keys = Found b"
  shows "snd (sticky_claim unmarshal kv w k ttl keys a now) = b"
proof -
  let ?w = "fst (op_SetNXWithTTL kv w k (KVString (k_ID a)) ttl now)"
  have taken: "visible w k now \<noteq> None" using assms(4) by (auto simp: assigned_key_def split: option.splits)
  have "snd (op_SetNXWithTTL kv w k (KVString (k_ID a)) ttl now) = Inr False"
    using setnx_result [OF assms(1-3)] taken by (simp only: simp_thms)
  moreover have "assigned_key unmarshal (visible ?w k now) keys = Found b"
    using setnx_visible [OF assms(1-3), of _ k now] taken assms(4) by simp
  ultimately show ?thesis
    using cached_result [OF setnx_ok [OF assms(1)] assms(2)] by (simp add: sticky_claim_def split_beta)
qed

end


locale sticky_sessions = session_store kv visible ok + key_selector sel usable
  for kv :: "'w kv_ops" and visible ok and sel :: "'w key_selector" and usable +
  assumes sel_visible: "visible (fst (sel w ks p m)) k t = visible w k t"
    and sel_ok: "ok w \<Longrightarrow> ok (fst (sel w ks p m))"
begin

lemma sticky_assigns:
  assumes w: "ok w" "k \<noteq> ''''" "lease now ttl"
    and keys: "keys \<noteq> []" "list_all usable keys" "distinct (map k_ID keys)" "'''' \<notin> k_ID ` set keys"
    and entry: "\<And>v. visible w k now = Some v \<Longrightarrow> cached_key_id unmarshal v \<noteq> ''''"
    and run: "sticky_select unmarshal sel kv w k ttl keys p m now = (w', r)"
  shows "\<exists>a \<in> set keys. r = Inr ([a], False) \<and> (\<forall>t < now + ttl. visible w' k t = Some (KVString (k_ID a)))"
proof (cases "assigned_key unmarshal (visible w k now) keys")
  case (Found a)
  have "a \<in> set keys"
    using Found by (auto simp: assigned_key_def find_Some_iff split: option.splits if_splits)
  then show ?thesis using sticky_keeps [OF w Found run] by blast
next
  case Stale
  let ?w1 = "fst (op_Get kv w k now)"
  let ?w2 = "fst (op_Delete kv ?w1 k now)"
  obtain a where a: "a \<in> set keys" "snd (sel ?w2 keys p m) = Inr a" using sel_picks [OF keys(1, 2)] by blast
  obtain w4 b where c: "sticky_claim unmarshal kv (fst (sel ?w2 keys p m)) k ttl keys a now = (w4, b)"
    by (metis prod.exhaust)
  have ok2: "ok ?w2" by (intro delete_ok get_ok w(1))
  have "visible (fst (sel ?w2 keys p m)) k now = None"
    using delete_visible [OF get_ok [OF w(1)] w(2)] by (simp add: sel_visible)
  note fresh = claim_fresh [OF sel_ok [OF ok2] w(2, 3) this c]
  have "(w', r) = (w4, Inr ([a], False))"
    using run Stale a(2) c fresh(1) by (simp add: sticky_select_def cached_result [OF w(1, 2)] split_beta)
  then show ?thesis using a(1) fresh(3) by auto
next
  case Missing
  let ?w1 = "fst (op_Get kv w k now)"
  obtain a where a: "a \<in> set keys" "snd (sel ?w1 keys p m) = Inr a" using sel_picks [OF keys(1, 2)] by blast
  obtain w4 b where c: "sticky_claim unmarshal kv (fst (sel ?w1 keys p m)) k ttl keys a now = (w4, b)"
    by (metis prod.exhaust)
  have "visible w k now = None"
    using Missing entry by (auto simp: assigned_key_def split: option.splits if_splits)
  then have "visible (fst (sel ?w1 keys p m)) k now = None"
    using get_visible [OF w(1) order_refl] by (simp add: sel_visible)
  note fresh = claim_fresh [OF sel_ok [OF get_ok [OF w(1)]] w(2, 3) this c]
  have "(w', r) = (w4, Inr ([a], False))"
    using run Missing a(2) c fresh(1) by (simp add: sticky_select_def cached_result [OF w(1, 2)] split_beta)
  then show ?thesis using a(1) fresh(3) by auto
qed

lemma session_sticks_generic:
  assumes w: "ok w" "k \<noteq> ''''" "lease now ttl"
    and keys: "keys \<noteq> []" "list_all usable keys" "distinct (map k_ID keys)" "'''' \<notin> k_ID ` set keys"
    and entry: "\<And>v. visible w k now = Some v \<Longrightarrow> cached_key_id unmarshal v \<noteq> ''''"
    and run: "sticky_select unmarshal sel kv w k ttl keys p m now = (w', r)"
    and later: "ok w2" "visible w2 k t = visible w' k t" "t < now + ttl" "lease t ttl"
  shows "snd (sticky_select unmarshal sel kv w2 k ttl keys p m t) = r"
proof -
  obtain a where a: "a \<in> set keys" "r = Inr ([a], False)" "visible w' k t = Some (KVString (k_ID a))"
    using sticky_assigns [OF w keys entry run] later(3) by blast
  have "assigned_key unmarshal (visible w2 k t) keys = Found a"
    using a later(2) keys(3, 4) by (intro assigned_after_set) (simp_all, metis imageI)
  then show ?thesis
    using sticky_keeps(1) [OF later(1) w(2) later(4)] a(2) by (metis prod.collapse)
qed

end



lemma getCached_offered: "snd (getCachedKeyFromStore unmarshal kv w k keys now) = Found a \<Longrightarrow> a \<in> set keys"
  by (auto simp: getCachedKeyFromStore_def split_beta Let_def find_Some_iff
      split: sum.splits option.splits if_splits)

lemma sticky_claim_offered:
  "a \<in> set keys \<Longrightarrow> snd (sticky_claim unmarshal kv w k ttl keys a now) \<in> set keys"
  using getCached_offered
  by (fastforce simp: sticky_claim_def split_beta split: sum.splits bool.splits cached.splits)

context key_selector
begin

lemma sticky_select_offered:
  assumes "snd (sticky_select unmarshal sel kv w k ttl keys p m now) = Inr (pool, canRotate)"
  shows "(\<exists>a. a \<in> set keys \<and> pool = [a]) \<and> \<not> canRotate"
proof -
  let ?c = "getCachedKeyFromStore unmarshal kv w k keys now"
  show ?thesis
  proof (cases "snd ?c")
    case (Found a)
    then show ?thesis using assms getCached_offered [OF Found] by (auto simp: sticky_select_def split_beta)
  next
    case Stale
    let ?s = "sel (fst (op_Delete kv (fst ?c) k now)) keys p m"
    obtain a where a: "snd ?s = Inr a"
      using assms Stale by (auto simp: sticky_select_def split_beta Let_def split: sum.splits)
    show ?thesis using assms Stale a sticky_claim_offered [OF sel_offered [OF a]]
      by (auto simp: sticky_select_def split_beta Let_def)
  next
    case Missing
    let ?s = "sel (fst ?c) keys p m"
    obtain a where a: "snd ?s = Inr a"
      using assms Missing by (auto simp: sticky_select_def split_beta Let_def split: sum.splits)
    show ?thesis using assms Missing a sticky_claim_offered [OF sel_offered [OF a]]
      by (auto simp: sticky_select_def split_beta Let_def)
  qed
qed

lemma choose_offered:
  assumes "snd (choose_from_supported hash unmarshal sel kvStore ctx providerKey model keys now w) =
      Inr (pool, canRotate)" "keys \<noteq> []"
  shows "if canRotate then pool = keys \<and> 2 \<le> length keys else \<exists>a. a \<in> set keys \<and> pool = [a]"
proof -
  have "2 \<le> length keys" if "length keys \<noteq> 1" using that assms(2) by (cases keys) (auto simp: Suc_le_eq)
  then show ?thesis
    using assms
    by (auto simp: choose_from_supported_def find_Some_iff Let_def dest: sticky_select_offered
        split: option.splits if_splits)
qed

lemma pool_eligible:
  assumes "snd (selectKeyFromProviderForModelWithPool hash unmarshal sel kvStore account ctx requestType providerKey
      model base now w) = Inr (pool, canRotate)" "kx_DirectKey ctx = None" "pool \<noteq> []"
  shows "\<exists>keys. account = Inr keys \<and>
    (if canRotate then pool = filter (eligible requestType base model) keys \<and> 2 \<le> length pool
     else \<exists>a. pool = [a] \<and> a \<in> set keys \<and> eligible requestType base model a)"
proof -
  obtain keys where k: "account = Inr keys"
    "snd (choose_from_supported hash unmarshal sel kvStore ctx providerKey model
       (eligible_pool requestType base model keys) now w) = Inr (pool, canRotate)"
    "eligible_pool requestType base model keys \<noteq> []"
    using assms unfolding eligible_pool_def
    by (auto simp: selectKeyFromProviderForModelWithPool_def Let_def split: sum.splits if_splits)
  then show ?thesis using choose_offered [OF k(2, 3)] by (auto simp: eligible_pool_filter)
qed

end


subsection \<open>The in-memory store behind the sessions\<close>

type_synonym session_world = "kv_value Store \<times> key_world"

text \<open>The store's JSON encoder never fails on the values stickiness writes, which are strings.\<close>

definition on_store :: "(kv_value Store \<Rightarrow> kv_value Store \<times> 'r) \<Rightarrow> session_world \<Rightarrow> session_world \<times> 'r" where
  "on_store f w = (let (s, r) = f (fst w) in ((s, snd w), r))"

definition store_ops :: "(kv_value \<Rightarrow> string) \<Rightarrow> session_world kv_ops" where
  "store_ops json =
     \<lparr>op_Get = \<lambda>w k now. on_store (\<lambda>s. Store_Get s k now) w,
      op_SetWithTTL = \<lambda>w k v ttl now. on_store (\<lambda>s. SetWithTTL (\<lambda>x. Some (json x)) s k v ttl now) w,
      op_SetNXWithTTL = \<lambda>w k v ttl now. on_store (\<lambda>s. SetNXWithTTL (\<lambda>x. Some (json x)) s k v ttl now) w,
      op_Delete = \<lambda>w k now. on_store (\<lambda>s. Store_Delete s k now) w\<rparr>"

definition session_selector :: "session_world key_selector" where
  "session_selector w ks p m = (let (x, r) = weighted_selector (snd w) ks p m in ((fst w, x), r))"

definition store_open :: "session_world \<Rightarrow> bool" where
  "store_open w \<longleftrightarrow> \<not> s_closed (fst w) \<and> wf_map (s_data (fst w))"

definition entry_seen :: "session_world \<Rightarrow> string \<Rightarrow> instant \<Rightarrow> kv_value option" where
  "entry_seen w k now = kv_live (fst w) k now"

lemmas store_simps = store_ops_def on_store_def store_open_def entry_seen_def split_beta Let_def

lemma store_entry_wf [simp]: "wf_map (s_data s) \<Longrightarrow> wf_map (s_data (store_entry k v e s))"
  by (simp add: store_entry_def)

lemma lease_expiry: "lease now ttl \<Longrightarrow> expiry now ttl = now + ttl \<and> expiry now ttl \<noteq> 0 \<and> \<not> ttl < 0"
  by (simp add: lease_def expiry_def wrap64_id)

interpretation sessions: sticky_sessions "store_ops json" entry_seen store_open session_selector usable_weight for json
proof unfold_locales
  fix w :: session_world and k k' p m :: string and now t ttl :: int and v :: kv_value and ks :: "Key list" and a :: Key
  show "snd (session_selector w ks p m) = Inr a \<Longrightarrow> a \<in> set ks"
    by (auto simp: session_selector_def split_beta Let_def dest: gateway_keys.sel_offered)
  show "\<exists>k \<in> set ks. snd (session_selector w ks p m) = Inr k" if "ks \<noteq> []" "list_all usable_weight ks"
    using gateway_keys.sel_picks [OF that] by (auto simp: session_selector_def split_beta Let_def)
  show "entry_seen (fst (session_selector w ks p m)) k t = entry_seen w k t"
    by (simp add: session_selector_def entry_seen_def split_beta Let_def)
  show "store_open w \<Longrightarrow> store_open (fst (session_selector w ks p m))"
    by (simp add: session_selector_def store_open_def split_beta Let_def)
  assume ok: "store_open w"
  show "store_open (fst (op_Get (store_ops json) w k now))"
    "store_open (fst (op_SetNXWithTTL (store_ops json) w k v ttl now))"
    "store_open (fst (op_Delete (store_ops json) w k now))"
    using ok by (auto simp: store_simps Store_Get_def SetNXWithTTL_def Store_Delete_def
        split: option.splits)
  show "entry_seen (fst (op_Get (store_ops json) w k now)) k' t = entry_seen w k' t" if "now \<le> t"
    using ok that by (simp add: store_simps Get_frame)
  assume k: "k \<noteq> ''''"
  show "snd (op_Get (store_ops json) w k now) =
      (case entry_seen w k now of Some v \<Rightarrow> Inr v | None \<Rightarrow> Inl ErrNotFound)"
    using ok k by (simp add: store_simps Get_result)
  show "entry_seen (fst (op_Delete (store_ops json) w k now)) k' t = (if k' = k then None else entry_seen w k' t)"
    using ok k by (auto simp: store_simps Store_Delete_def kv_live_def split: option.splits)
  assume l: "lease now ttl"
  have valid: "validateMutable (fst w) k ttl = None"
    using ok k l by (simp add: validateMutable_def store_open_def lease_expiry)
  show "entry_seen (fst (op_SetWithTTL (store_ops json) w k v ttl now)) k' t =
      (if k' = k then if t < now + ttl then Some v else None else entry_seen w k' t)"
    using valid lease_expiry [OF l] by (auto simp: store_simps SetWithTTL_def kv_live_store_entry)
  have free: "(case mapget (s_data (fst w)) k of Some existing \<Rightarrow> \<not> isExpired existing now | None \<Rightarrow> False)
      \<longleftrightarrow> entry_seen w k now \<noteq> None"
    by (simp add: entry_seen_def kv_live_def split: option.splits)
  show "snd (op_SetNXWithTTL (store_ops json) w k v ttl now) = Inr (entry_seen w k now = None)"
    using valid by (auto simp: store_simps SetNXWithTTL_def free [unfolded entry_seen_def])
  show "entry_seen (fst (op_SetNXWithTTL (store_ops json) w k v ttl now)) k' t =
      (if k' = k \<and> entry_seen w k now = None then if t < now + ttl then Some v else None else entry_seen w k' t)"
    using valid lease_expiry [OF l]
    by (auto simp: store_simps SetNXWithTTL_def free [unfolded entry_seen_def] kv_live_store_entry)
qed

text \<open>Every key a request may use is eligible: unless the caller supplied a key itself, a pool that is
  not empty holds only keys of the account that are enabled, valid for the provider, carry a
  credential where one is needed, are marked for batch use on batch and file requests, and allow the
  model without blacklisting it. The pool that rotates is all of the eligible keys, at least two;
  otherwise it is a single key.\<close>

theorem pool_is_eligible:
  assumes "snd (selectKeyFromProviderForModelWithPool hash unmarshal session_selector kvStore account ctx requestType
      providerKey model base now w) = Inr (pool, canRotate)"
    and "kx_DirectKey ctx = None" "pool \<noteq> []"
  shows "\<exists>keys. account = Inr keys \<and>
    (if canRotate then pool = filter (eligible requestType base model) keys \<and> 2 \<le> length pool
     else \<exists>a. pool = [a] \<and> a \<in> set keys \<and> eligible requestType base model a)"
  using assms by (rule sessions.pool_eligible)

definition blank_entry :: "(string \<Rightarrow> string option) \<Rightarrow> kv_value option \<Rightarrow> bool" where
  "blank_entry unmarshal entry \<longleftrightarrow>
     (case entry of Some v \<Rightarrow> cached_key_id unmarshal v = '''' | None \<Rightarrow> False)"

text \<open>A session keeps its key: when a request of a session has been given a key, a later request of
  the session within its lifetime is given the same key - whatever the random source says, and
  whatever happened to the rest of the store in between - as long as the account still offers the
  same keys. (The keys have distinct, non-empty IDs, the clock and the lifetime fit 64 bits, and the
  store held no entry with an empty ID for the session.)\<close>

theorem session_sticks:
  fixes hash providerKey sid model
  defines "k \<equiv> buildSessionKey hash providerKey sid model"
  assumes request: "sticky_request ctx sid"
    and keys: "2 \<le> length (filter (eligible requestType base model) keys)" "list_all usable_weight keys"
      "distinct (map k_ID keys)" "'''' \<notin> k_ID ` set keys"
    and store: "store_open w" "\<not> blank_entry unmarshal (entry_seen w k now)"
    and first: "selectKeyFromProviderForModelWithPool hash unmarshal session_selector (Some (store_ops json)) (Inr keys)
      ctx requestType providerKey model base now w = (w', r)"
    and later: "store_open w2" "entry_seen w2 k t = entry_seen w' k t" "t < now + session_ttl ctx"
    and clock: "lease now (session_ttl ctx)" "lease t (session_ttl ctx)"
  shows "snd (selectKeyFromProviderForModelWithPool hash unmarshal session_selector (Some (store_ops json)) (Inr keys)
      ctx requestType providerKey model base t w2) = r"
proof -
  let ?pool = "eligible_pool requestType base model keys"
  have pool: "2 \<le> length ?pool" using keys(1) by (simp add: eligible_pool_filter)
  have "?pool \<noteq> []" "list_all usable_weight ?pool" "distinct (map k_ID ?pool)" "'''' \<notin> k_ID ` set ?pool"
    using pool keys(2-4) by (auto simp: eligible_pool_filter list_all_iff distinct_map_filter)
  moreover have "cached_key_id unmarshal v \<noteq> ''''" if "entry_seen w k now = Some v" for v
    using store(2) that by (simp add: blank_entry_def)
  moreover have "k \<noteq> ''''" by (simp add: k_def buildSessionKey_def Let_def)
  ultimately show ?thesis
    using sessions.session_sticks_generic [OF store(1) _ clock(1) _ _ _ _ _ _ later clock(2)] first
    unfolding select_is_sticky [OF request pool] k_def by blast
qed

text \<open>C26. Two requests of a session that race for its first key agree: when both found the session without a
  key and their selectors chose \<open>a\<close> and \<open>b\<close>, the one that claims the session first gets the key
  chosen for it, and the other, whenever it claims within the session's lifetime, gets that key too.\<close>

theorem session_race:
  assumes "store_open w" "k \<noteq> ''''" "entry_seen w k now = None" "lease now ttl" "lease t ttl" "t < now + ttl"
    and "a \<in> set keys" "distinct (map k_ID keys)" "k_ID a \<noteq> ''''"
    and "sticky_claim unmarshal (store_ops json) w k ttl keys a now = (w', a')"
  shows "a' = a \<and> snd (sticky_claim unmarshal (store_ops json) w' k ttl keys b t) = a"
proof -
  note fresh = sessions.claim_fresh [OF assms(1, 2, 4, 3, 10)]
  have "assigned_key unmarshal (entry_seen w' k t) keys = Found a"
    using sessions.assigned_after_set [OF fresh(3) [OF assms(6)] assms(7-9)] .
  then show ?thesis using sessions.claim_taken [OF fresh(2) assms(2, 5)] fresh(1) by simp
qed

definition sample_store :: "kv_value Store" where
  "sample_store = \<lparr>s_data = [], s_defaultTTL = 0, s_cleanupInterval = 1, s_closed = False, s_delegate = False,
     s_decoders = [], s_notified = []\<rparr>"

definition sample_context :: KeyContext where
  "sample_context = \<lparr>kx_DirectKey = None, kx_SkipKeySelection = False, kx_APIKeyID = None, kx_APIKeyName = None,
     kx_SessionID = Some ''s'', kx_FallbackIndex = 0, kx_SessionTTL = Some 100\<rparr>"

abbreviation sample_run :: "instant \<Rightarrow> session_world \<Rightarrow> session_world \<times> (pool_error + Key list \<times> bool)" where
  "sample_run now w \<equiv> selectKeyFromProviderForModelWithPool (\<lambda>s. s) (\<lambda>_. None) session_selector
     (Some (store_ops (\<lambda>_. ''x''))) (Inr [sample_key ''a'' 100, sample_key ''b'' 50]) sample_context
     ''chat_completion'' OpenAI ''gpt-4'' OpenAI now w"

abbreviation sample_world :: session_world where
  "sample_world \<equiv> (sample_store, NewCooldownState 0, [120, 7])"

lemma sample_eligible:
  "list_all (eligible ''chat_completion'' OpenAI ''gpt-4'') [sample_key ''a'' 100, sample_key ''b'' 50]"
  by code_simp

lemma sample_sticky: "sticky_request sample_context ''s'' \<and> session_ttl sample_context = 100"
  by (simp add: sticky_request_def sample_context_def pinned_def session_ttl_def)

lemma sample_first: "snd (sample_run 1 sample_world) = Inr ([sample_key ''b'' 50], False)"
  by code_simp

lemma sample_open: "store_open (fst (sample_run 1 sample_world))"
  by code_simp

theorem pool_is_eligible_witness: "eligible ''chat_completion'' OpenAI ''gpt-4'' (sample_key ''b'' 50)"
  using pool_is_eligible [OF sample_first] by (simp add: sample_context_def)

theorem session_sticks_witness: "snd (sample_run 60 (fst (sample_run 1 sample_world))) = Inr ([sample_key ''b'' 50], False)"
proof -
  have f: "sample_run 1 sample_world = (fst (sample_run 1 sample_world), Inr ([sample_key ''b'' 50], False))"
    using sample_first by (metis prod.collapse)
  have o1: "store_open sample_world" by (simp add: store_open_def sample_store_def)
  have e: "\<not> blank_entry (\<lambda>_. None) (entry_seen sample_world k 1)" for k
    by (simp add: entry_seen_def sample_store_def kv_live_def blank_entry_def)
  have l: "2 \<le> length (filter (eligible ''chat_completion'' OpenAI ''gpt-4'') [sample_key ''a'' 100, sample_key ''b'' 50])"
    using sample_eligible by simp
  have k: "list_all usable_weight [sample_key ''a'' 100, sample_key ''b'' 50]"
    "distinct (map k_ID [sample_key ''a'' 100, sample_key ''b'' 50])"
    "'''' \<notin> k_ID ` set [sample_key ''a'' 100, sample_key ''b'' 50]"
    by (simp_all add: sample_key_def usable_weight_def)
  show ?thesis
    by (rule session_sticks [OF sample_sticky [THEN conjunct1] l k o1 e f sample_open refl])
      (simp_all add: sample_sticky lease_def)
qed

theorem session_race_witness:
  "snd (sticky_claim (\<lambda>_. None) (store_ops (\<lambda>_. ''x''))
     (fst (sticky_claim (\<lambda>_. None) (store_ops (\<lambda>_. ''x'')) sample_world ''session'' 100
        [sample_key ''a'' 100, sample_key ''b'' 50] (sample_key ''a'' 100) 1))
     ''session'' 100 [sample_key ''a'' 100, sample_key ''b'' 50] (sample_key ''b'' 50) 2) = sample_key ''a'' 100"
  by (rule session_race [where w = sample_world and a = "sample_key ''a'' 100" and now = 1,
        OF _ _ _ _ _ _ _ _ _ prod.collapse [symmetric], THEN conjunct2])
    (simp_all add: store_open_def sample_store_def entry_seen_def kv_live_def lease_def sample_key_def)


subsection \<open>Keys for batch and file operations\<close>

definition batch_eligible :: "ModelProvider \<Rightarrow> string option \<Rightarrow> bool \<Rightarrow> Key \<Rightarrow> bool" where
  "batch_eligible base model isBatchOp k \<longleftrightarrow> k_Enabled k \<noteq> Some False
     \<and> (if isBatchOp then k_UseForBatchAPI k = Some True else True) \<and> validateKey base k \<and> has_value base k
     \<and> (case model of Some m \<Rightarrow> if m = '''' then True else WhiteList_IsAllowed (k_Models k) m
            \<and> \<not> BlackList_IsBlocked (k_BlacklistedModels k) m | None \<Rightarrow> True)"

lemma batch_filter_filter: "batch_filter base model isBatchOp ks = filter (batch_eligible base model isBatchOp) ks"
proof (induction ks)
  case (Cons k ks)
  have "batch_filter base model isBatchOp (k # ks) =
      (if batch_eligible base model isBatchOp k then k # batch_filter base model isBatchOp ks
       else batch_filter base model isBatchOp ks)"
    by (auto simp: batch_eligible_def split: option.splits)
  then show ?case by (simp only: Cons.IH filter.simps)
qed simp

lemma bytes_less_asym: "bytes_less s t \<Longrightarrow> \<not> bytes_less t s"
  by (induction s t rule: bytes_less.induct) (auto split: if_splits)

lemma bytes_less_trans_not: "\<not> bytes_less t s \<Longrightarrow> \<not> bytes_less u t \<Longrightarrow> \<not> bytes_less u s"
proof (induction s t arbitrary: u rule: bytes_less.induct)
  case (1 s)
  then show ?case by (cases u; cases s) auto
next
  case (2 d t)
  then show ?case by (cases u) auto
next
  case (3 c s d t)
  then show ?case by (cases u) (auto split: if_splits)
qed

definition id_le :: "Key \<Rightarrow> Key \<Rightarrow> bool" where
  "id_le a b \<longleftrightarrow> \<not> bytes_less (k_ID b) (k_ID a)"

lemma insert_by_ID_mset: "mset (insert_by_ID k ks) = mset (k # ks)"
  by (induction ks) auto

lemma insert_by_ID_sorted: "sorted_wrt id_le ks \<Longrightarrow> sorted_wrt id_le (insert_by_ID k ks)"
proof (induction ks)
  case (Cons x xs)
  have "set (insert_by_ID k xs) = insert k (set xs)"
    using insert_by_ID_mset [of k xs] by (metis list.simps(15) set_mset_mset)
  moreover have "id_le x k" if "bytes_less (k_ID x) (k_ID k)" using that bytes_less_asym by (simp add: id_le_def)
  moreover have "id_le k y" if "id_le k x" "id_le x y" for y
    using bytes_less_trans_not [of "k_ID x" "k_ID k" "k_ID y"] that by (simp add: id_le_def)
  ultimately show ?case using Cons by (auto simp: id_le_def [of k x])
qed simp

lemma sort_by_ID_mset: "mset (sort_by_ID ks) = mset ks"
  by (induction ks) (simp_all add: sort_by_ID_def insert_by_ID_mset)

lemma sort_by_ID_sorted: "sorted_wrt id_le (sort_by_ID ks)"
  by (induction ks) (simp_all add: sort_by_ID_def insert_by_ID_sorted)

text \<open>Keys for batch and file operations come in a fixed order: the result is sorted by ID and is a
  rearrangement of the account's keys that are enabled, marked for batch use (on batch operations),
  valid, allowed for the model where one is named, and not without a credential.\<close>

theorem batch_keys_sorted:
  assumes "getKeysForBatchAndFileOps (Inr keys) None base model isBatchOp = Inr ks"
  shows "sorted_wrt id_le ks \<and> ks \<noteq> [] \<and> mset ks = mset (filter (batch_eligible base model isBatchOp) keys)"
proof -
  have "ks = sort_by_ID (batch_filter base model isBatchOp keys)" "batch_filter base model isBatchOp keys \<noteq> []"
    using assms by (auto simp: getKeysForBatchAndFileOps_def Let_def split: if_splits)
  moreover have "sort_by_ID xs \<noteq> []" if "xs \<noteq> []" for xs
    using sort_by_ID_mset [of xs] that by (metis mset_zero_iff)
  ultimately show ?thesis by (simp add: sort_by_ID_mset sort_by_ID_sorted batch_filter_filter)
qed

theorem batch_keys_sorted_witness:
  "sorted_wrt id_le [sample_key ''a'' 100, sample_key ''b'' 50]"
proof -
  have "getKeysForBatchAndFileOps (Inr [sample_key ''b'' 50, sample_key ''a'' 100]) None OpenAI (Some ''gpt-4'') False =
      Inr [sample_key ''a'' 100, sample_key ''b'' 50]"
    by code_simp
  then show ?thesis using batch_keys_sorted by blast
qed

end
