(* ===== verification/Retry_Loop.thy ===== *)
theory Retry_Loop
  imports Key_Pool
begin

text \<open>
  The retry loop of the gateway (\<open>executeRequestWithRetries\<close> of \<open>core/bifrost.go\<close>) with the
  classification of failures (\<open>core/utils.go\<close>, \<open>core/encryptedreasoning.go\<close>), the exponential backoff
  and the check of the first chunk of a stream (\<open>core/providers/utils/stream.go\<close>).

  The loop receives its collaborators as arguments: the request handler, the key provider and the
  failure marker are arguments of the Go function, and \<open>retry_env\<close> adds what it reads from and does to
  the request context and the request. All of them act on a world state \<open>'w\<close>. The local variables of
  the function and the context values it owns (attempt trail, selected key, number of retries) are the
  record \<open>retry_state\<close>. Three fields are there for the statements only: \<open>rs_calls\<close> lists the calls of the
  request handler with their outcome, \<open>rs_sleeps\<close> the backoff sleeps, \<open>rs_marks\<close> the calls of the failure
  marker. Tracing spans, routing logs and debug logs are not modelled; that a missing tracer ends the
  request is.
\<close>

subsection \<open>Classification of failures\<close>

definition transientServerStatusCodes :: "int list" where
  "transientServerStatusCodes = [500, 502, 503, 504]"

definition perKeyFailureStatusCodes :: "int list" where
  "perKeyFailureStatusCodes = [401, 402, 403, 429]"

definition rateLimitPatterns :: "string list" where
  "rateLimitPatterns =
    [''rate limit'', ''rate_limit'', ''ratelimit'', ''too many requests'', ''quota exceeded'',
     ''quota_exceeded'', ''request limit'', ''throttled'', ''throttling'', ''rate exceeded'',
     ''limit exceeded'', ''requests per'', ''rpm exceeded'', ''tpm exceeded'', ''tokens per minute'',
     ''requests per minute'', ''requests per second'', ''api rate limit'', ''usage limit'',
     ''concurrent requests limit'', ''burst_rate'', ''rate increased'']"

definition IsRateLimitErrorMessage :: "string \<Rightarrow> bool" where
  "IsRateLimitErrorMessage errorMessage =
     (if errorMessage = '''' then False
      else let lowerMessage = strings_ToLower errorMessage
           in list_ex (\<lambda>pattern. strings_Contains lowerMessage pattern) rateLimitPatterns)"

abbreviation ErrProviderDoRequest :: string where
  "ErrProviderDoRequest \<equiv> ''failed to execute HTTP request to provider API''"
abbreviation ErrProviderNetworkError :: string where
  "ErrProviderNetworkError \<equiv>
     ''network error occurred while connecting to provider API (DNS lookup, connection refused, etc.)''"
abbreviation encryptedContentErrorCode :: string where
  "encryptedContentErrorCode \<equiv> ''invalid_encrypted_content''"
abbreviation noEligibleKeysErrorType :: string where
  "noEligibleKeysErrorType \<equiv> ''no_eligible_keys''"

definition isEncryptedReasoningRejection :: "BifrostError \<Rightarrow> bool" where
  "isEncryptedReasoningRejection err =
     (case be_Error err of
        None \<Rightarrow> False
      | Some f \<Rightarrow>
          if be_StatusCode err \<noteq> Some 400 then False
          else if (case ef_Code f of Some c \<Rightarrow> strings_Contains c encryptedContentErrorCode | None \<Rightarrow> False) then True
          else
            let message = strings_ToLower (ef_Message f) in
            strings_Contains message encryptedContentErrorCode
            \<or> (strings_Contains message ''encrypted content'' \<and> strings_Contains message ''could not be verified'')
            \<or> (strings_Contains message ''invalid `data`'' \<and> strings_Contains message ''`redacted_thinking` block''))"

definition terminal_error :: "BifrostError \<Rightarrow> bool" where
  "terminal_error e \<longleftrightarrow> be_IsBifrostError e \<or> is_cancelled e"

definition is_per_key_failure :: "BifrostError \<Rightarrow> bool" where
  "is_per_key_failure e \<longleftrightarrow>
     (case be_StatusCode e of Some c \<Rightarrow> c \<in> set perKeyFailureStatusCodes | None \<Rightarrow> False)
     \<or> (case be_Error e of
          None \<Rightarrow> False
        | Some f \<Rightarrow>
            IsRateLimitErrorMessage (ef_Message f)
            \<or> (case ef_Type f of Some t \<Rightarrow> IsRateLimitErrorMessage t | None \<Rightarrow> False)
            \<or> (case ef_Code f of Some c \<Rightarrow> IsRateLimitErrorMessage c | None \<Rightarrow> False))"

definition is_network_error :: "BifrostError \<Rightarrow> bool" where
  "is_network_error e \<longleftrightarrow>
     (case be_Error e of
        None \<Rightarrow> False
      | Some f \<Rightarrow> ef_Message f = ErrProviderDoRequest \<or> ef_Message f = ErrProviderNetworkError)"

definition should_retry :: "BifrostError \<Rightarrow> bool" where
  "should_retry e \<longleftrightarrow>
     is_network_error e
     \<or> (case be_StatusCode e of Some c \<Rightarrow> c \<in> set transientServerStatusCodes | None \<Rightarrow> False)
     \<or> is_per_key_failure e"

definition is_permanent_status :: "BifrostError \<Rightarrow> bool" where
  "is_permanent_status e \<longleftrightarrow>
     (case be_StatusCode e of Some c \<Rightarrow> c = 401 \<or> c = 402 \<or> c = 403 | None \<Rightarrow> False)"

definition fail_reason :: "BifrostError \<Rightarrow> string" where
  "fail_reason e =
     (if be_StatusCode e = Some 429 then ''rate_limit_error''
      else if be_StatusCode e = Some 401 \<or> be_StatusCode e = Some 403 then ''authentication_error''
      else if be_StatusCode e = Some 402 then ''billing_error''
      else
        case be_Error e of
          Some f \<Rightarrow> (case ef_Type f of Some t \<Rightarrow> if t \<noteq> '''' then t else ''unknown'' | None \<Rightarrow> ''unknown'')
        | None \<Rightarrow> ''unknown'')"

subsection \<open>Errors the loop makes itself\<close>

definition newBifrostErrorFromMsg :: "string \<Rightarrow> BifrostError" where
  "newBifrostErrorFromMsg message =
     zeroError\<lparr>be_Error := Some \<lparr>ef_Type = None, ef_Code = None, ef_Message = message, ef_Error = None\<rparr>\<rparr>"

definition synthetic_error :: "string \<Rightarrow> int \<Rightarrow> int \<Rightarrow> string \<Rightarrow> BifrostError" where
  "synthetic_error errType statusCode retryAfter message =
     zeroError\<lparr>be_StatusCode := Some statusCode, be_Type := Some errType,
       be_Error := Some \<lparr>ef_Type = Some errType, ef_Code = None, ef_Message = message, ef_Error = None\<rparr>,
       be_ExtraFields := zeroExtraFields\<lparr>xf_RetryAfterSeconds := retryAfter\<rparr>\<rparr>"

text \<open>The error for a failed key selection; \<open>message\<close> is the text of the key provider's error.\<close>

definition key_selection_error :: "int option \<Rightarrow> pool_error \<Rightarrow> string \<Rightarrow> BifrostError" where
  "key_selection_error retryAfterCtx err message =
     (if err = AllKeysFiltered then
        synthetic_error noEligibleKeysErrorType 429
          (case retryAfterCtx of Some v \<Rightarrow> if v > 0 then v else 0 | None \<Rightarrow> 0) message
      else if err = AllKeysDead then synthetic_error ''upstream_credentials_exhausted'' 502 0 message
      else newBifrostErrorFromMsg message)"

definition isSyntheticNoEligibleKeysError :: "BifrostError option \<Rightarrow> bool" where
  "isSyntheticNoEligibleKeysError err =
     (case err of
        None \<Rightarrow> False
      | Some e \<Rightarrow>
          (case be_StatusCode e of
             None \<Rightarrow> False
           | Some status \<Rightarrow>
               if status \<noteq> 429 \<and> status \<noteq> 503 then False
               else be_Type e = Some noEligibleKeysErrorType))"

subsection \<open>Backoff\<close>

record NetworkConfig =
  nc_MaxRetries :: int
  nc_RetryBackoffInitial :: duration
  nc_RetryBackoffMax :: duration

text \<open>\<open>1<<uint(attempt)\<close> has the type of the product, a 64-bit duration. \<open>jitter\<close> maps the backoff to
  \<open>time.Duration(float64(backoff) * (0.8 + 0.4*rand.Float64()))\<close>.\<close>

definition shift_one :: "nat \<Rightarrow> int" where
  "shift_one n = (if n < 64 then wrap64 (2 ^ n) else 0)"

definition calculateBackoff :: "(duration \<Rightarrow> duration) \<Rightarrow> nat \<Rightarrow> NetworkConfig \<Rightarrow> duration" where
  "calculateBackoff jitter attempt config =
     (let backoff = min (wrap64 (nc_RetryBackoffInitial config * shift_one attempt)) (nc_RetryBackoffMax config);
          result = jitter backoff
      in min result (nc_RetryBackoffMax config))"

subsection \<open>Results and the first chunk of a stream\<close>

record stream_chunk =
  sc_Payload :: string
  sc_BifrostError :: "BifrostError option"

text \<open>The result of an attempt: the zero value, a response, or a stream with the chunks its provider
  is going to send.\<close>

datatype 'r attempt_result = Zero | Response 'r | StreamChan "stream_chunk list"

definition CheckFirstStreamChunkForError ::
    "stream_chunk list \<Rightarrow> stream_chunk list option \<times> BifrostError option" where
  "CheckFirstStreamChunkForError stream =
     (case stream of
        [] \<Rightarrow> (None, None)
      | firstChunk # rest \<Rightarrow>
          (case sc_BifrostError firstChunk of
             Some e \<Rightarrow>
               (case be_Error e of
                  Some f \<Rightarrow>
                    if ef_Message f \<noteq> '''' \<or> ef_Code f \<noteq> None \<or> ef_Type f \<noteq> None then (None, Some e)
                    else (Some (firstChunk # rest), None)
                | None \<Rightarrow> (Some (firstChunk # rest), None))
           | None \<Rightarrow> (Some (firstChunk # rest), None)))"

subsection \<open>The loop\<close>

type_synonym 'w key_provider = "string set \<Rightarrow> string set \<Rightarrow> 'w \<Rightarrow> 'w \<times> string set \<times> (pool_error + Key)"
type_synonym 'w failure_marker = "'w \<Rightarrow> ModelProvider \<Rightarrow> string \<Rightarrow> string \<Rightarrow> string \<Rightarrow> BifrostError \<Rightarrow> 'w"

record ('w, 'r) retry_env =
  env_requestHandler :: "'w \<Rightarrow> Key \<Rightarrow> 'w \<times> 'r attempt_result \<times> BifrostError option"
  env_keyProvider :: "'w key_provider option"
  env_errorText :: "pool_error \<Rightarrow> string"
  env_marker :: "'w failure_marker option"
  env_strip :: "'w \<Rightarrow> 'w \<times> bool"
  env_retryAfter :: "'w \<Rightarrow> int option"
  env_clearConnectionClosed :: "'w \<Rightarrow> 'w"
  env_hasTracer :: "'w \<Rightarrow> bool"
  env_jitter :: "int \<Rightarrow> duration \<Rightarrow> duration"
  env_config :: NetworkConfig
  env_providerKey :: ModelProvider
  env_model :: string

record ('w, 'r) retry_state =
  rs_world :: 'w
  rs_trail :: "KeyAttemptRecord list"
  rs_selectedKey :: "string \<times> string"
  rs_numberOfRetries :: int
  rs_currentKey :: Key
  rs_usedKeyIDs :: "string set"
  rs_deadKeyIDs :: "string set"
  rs_lastWasPerKeyFailure :: bool
  rs_lastWasPermanentKeyFailure :: bool
  rs_previousKeyID :: string
  rs_pendingRotation :: "nat option"
  rs_extraAttempts :: int
  rs_strippedEncryptedContent :: bool
  rs_lastWasEncryptedContentStrip :: bool
  rs_result :: "'r attempt_result"
  rs_bifrostError :: "BifrostError option"
  rs_calls :: "(Key \<times> BifrostError option) list"
  rs_sleeps :: "duration list"
  rs_marks :: "(string \<times> BifrostError) list"

definition init_state :: "'w \<Rightarrow> KeyAttemptRecord list \<Rightarrow> string \<times> string \<Rightarrow> ('w, 'r) retry_state" where
  "init_state w trail selected =
     \<lparr>rs_world = w, rs_trail = trail, rs_selectedKey = selected, rs_numberOfRetries = 0,
      rs_currentKey = zeroKey, rs_usedKeyIDs = {}, rs_deadKeyIDs = {}, rs_lastWasPerKeyFailure = False,
      rs_lastWasPermanentKeyFailure = False, rs_previousKeyID = '''', rs_pendingRotation = None,
      rs_extraAttempts = 0, rs_strippedEncryptedContent = False, rs_lastWasEncryptedContentStrip = False,
      rs_result = Zero, rs_bifrostError = None, rs_calls = [], rs_sleeps = [], rs_marks = []\<rparr>"

text \<open>How the body of the loop ends: the next iteration, a \<open>break\<close>, or a \<open>return\<close>.\<close>

datatype 'r flow = Next | Break | Return "'r attempt_result" BifrostError

definition confirm_rotation :: "('w, 'r) retry_state \<Rightarrow> ('w, 'r) retry_state" where
  "confirm_rotation s =
     (case rs_pendingRotation s of
        None \<Rightarrow> s
      | Some i \<Rightarrow>
          if i < length (rs_trail s) \<and> ar_KeyID (rs_trail s ! i) \<noteq> k_ID (rs_currentKey s)
          then s\<lparr>rs_trail := (rs_trail s)[i := (rs_trail s ! i)\<lparr>ar_TriggeredRotation := True\<rparr>],
                 rs_pendingRotation := None\<rparr>
          else s\<lparr>rs_pendingRotation := None\<rparr>)"

definition select_key ::
    "('w, 'r) retry_env \<Rightarrow> int \<Rightarrow> ('w, 'r) retry_state \<Rightarrow> ('w, 'r) retry_state \<times> BifrostError option" where
  "select_key env attempts s =
     (case env_keyProvider env of
        None \<Rightarrow> (s, None)
      | Some keyProvider \<Rightarrow>
          if attempts = 0 \<or> rs_lastWasPerKeyFailure s then
            (let (w, used, r) = keyProvider (rs_usedKeyIDs s) (rs_deadKeyIDs s) (rs_world s);
                 s1 = s\<lparr>rs_world := w, rs_usedKeyIDs := used\<rparr>
             in case r of
                  Inl err \<Rightarrow>
                    (s1\<lparr>rs_selectedKey := ('''', '''')\<rparr>,
                     Some (key_selection_error (env_retryAfter env w) err (env_errorText env err)))
                | Inr k \<Rightarrow>
                    (confirm_rotation (s1\<lparr>rs_currentKey := k, rs_selectedKey := (k_ID k, k_Name k)\<rparr>), None))
          else (s, None))"

definition append_trail :: "('w, 'r) retry_env \<Rightarrow> int \<Rightarrow> ('w, 'r) retry_state \<Rightarrow> ('w, 'r) retry_state" where
  "append_trail env attempts s =
     (if env_keyProvider env = None then s
      else
        let r = \<lparr>ar_Attempt = attempts, ar_KeyID = k_ID (rs_currentKey s), ar_KeyName = k_Name (rs_currentKey s),
                 ar_FailReason = None, ar_TriggeredRotation = False\<rparr>
        in if r \<in> set (rs_trail s) then s else s\<lparr>rs_trail := rs_trail s @ [r]\<rparr>)"

definition back_off :: "('w, 'r) retry_env \<Rightarrow> int \<Rightarrow> ('w, 'r) retry_state \<Rightarrow> ('w, 'r) retry_state" where
  "back_off env attempts s =
     (if attempts > 0 then
        (let keyChanged = (env_keyProvider env \<noteq> None \<and> k_ID (rs_currentKey s) \<noteq> rs_previousKeyID s) in
         if (rs_lastWasPermanentKeyFailure s \<and> keyChanged) \<or> rs_lastWasEncryptedContentStrip s then s
         else s\<lparr>rs_sleeps := rs_sleeps s @
                  [calculateBackoff (env_jitter env attempts) (nat (attempts - 1)) (env_config env)]\<rparr>)
      else s)"

definition run_attempt :: "('w, 'r) retry_env \<Rightarrow> ('w, 'r) retry_state \<Rightarrow> ('w, 'r) retry_state" where
  "run_attempt env s =
     (let (w, result, err) = env_requestHandler env (rs_world s) (rs_currentKey s);
          (w', result', err') =
            (case (err, result) of
               (None, StreamChan stream) \<Rightarrow>
                 (case CheckFirstStreamChunkForError stream of
                    (_, Some firstChunkErr) \<Rightarrow> (env_clearConnectionClosed env w, result, Some firstChunkErr)
                  | (None, None) \<Rightarrow> (w, StreamChan [], None)
                  | (Some checkedStream, None) \<Rightarrow> (w, StreamChan checkedStream, None))
             | _ \<Rightarrow> (w, result, err))
      in s\<lparr>rs_world := w', rs_result := result', rs_bifrostError := err',
           rs_calls := rs_calls s @ [(rs_currentKey s, err')]\<rparr>)"

definition record_failure :: "BifrostError \<Rightarrow> ('w, 'r) retry_state \<Rightarrow> ('w, 'r) retry_state" where
  "record_failure e s =
     (if rs_trail s = [] then s
      else
        let i = length (rs_trail s) - 1
        in s\<lparr>rs_trail := (rs_trail s)[i := (rs_trail s ! i)\<lparr>ar_FailReason := Some (fail_reason e)\<rparr>]\<rparr>)"

definition strip_encrypted ::
    "('w, 'r) retry_env \<Rightarrow> BifrostError \<Rightarrow> ('w, 'r) retry_state \<Rightarrow> ('w, 'r) retry_state \<times> bool" where
  "strip_encrypted env e s =
     (let s0 = s\<lparr>rs_lastWasEncryptedContentStrip := False\<rparr> in
      if \<not> should_retry e \<and> \<not> rs_strippedEncryptedContent s0 \<and> isEncryptedReasoningRejection e then
        (let (w, changed) = env_strip env (rs_world s0) in
         if changed then
           (s0\<lparr>rs_world := w, rs_strippedEncryptedContent := True, rs_lastWasEncryptedContentStrip := True,
               rs_extraAttempts := rs_extraAttempts s0 + 1\<rparr>, True)
         else (s0\<lparr>rs_world := w\<rparr>, False))
      else (s0, should_retry e))"

definition track_key :: "('w, 'r) retry_env \<Rightarrow> BifrostError \<Rightarrow> ('w, 'r) retry_state \<Rightarrow> ('w, 'r) retry_state" where
  "track_key env e s =
     (if is_per_key_failure e \<and> env_keyProvider env \<noteq> None then
        (if is_permanent_status e then
           s\<lparr>rs_deadKeyIDs := insert (k_ID (rs_currentKey s)) (rs_deadKeyIDs s), rs_lastWasPermanentKeyFailure := True\<rparr>
         else
           let s1 = s\<lparr>rs_usedKeyIDs := insert (k_ID (rs_currentKey s)) (rs_usedKeyIDs s),
                      rs_lastWasPermanentKeyFailure := False\<rparr>
           in case env_marker env of
                None \<Rightarrow> s1
              | Some marker \<Rightarrow>
                  s1\<lparr>rs_world := marker (rs_world s1) (env_providerKey env) (k_ID (rs_currentKey s1))
                       (k_Name (rs_currentKey s1)) (env_model env) e,
                     rs_marks := rs_marks s1 @ [(k_ID (rs_currentKey s1), e)]\<rparr>)
      else s\<lparr>rs_lastWasPermanentKeyFailure := False\<rparr>)"

definition after_failure ::
    "('w, 'r) retry_env \<Rightarrow> int \<Rightarrow> BifrostError \<Rightarrow> ('w, 'r) retry_state \<Rightarrow> ('w, 'r) retry_state" where
  "after_failure env attempts e s =
     (let s1 = (track_key env e s)
            \<lparr>rs_lastWasPerKeyFailure := is_per_key_failure e, rs_previousKeyID := k_ID (rs_currentKey s)\<rparr>
      in if is_per_key_failure e \<and> env_keyProvider env \<noteq> None
            \<and> attempts < nc_MaxRetries (env_config env) + rs_extraAttempts s1 \<and> rs_trail s1 \<noteq> []
         then s1\<lparr>rs_pendingRotation := Some (length (rs_trail s1) - 1)\<rparr> else s1)"

definition reset_trail :: "('w, 'r) retry_env \<Rightarrow> int \<Rightarrow> ('w, 'r) retry_state \<Rightarrow> ('w, 'r) retry_state" where
  "reset_trail env attempts s = s\<lparr>rs_numberOfRetries := attempts,
     rs_trail := (if env_keyProvider env \<noteq> None \<and> attempts = 0 then [] else rs_trail s)\<rparr>"

definition retry_body ::
    "('w, 'r) retry_env \<Rightarrow> int \<Rightarrow> ('w, 'r) retry_state \<Rightarrow> ('w, 'r) retry_state \<times> 'r flow" where
  "retry_body env attempts s0 =
     (let s1 = reset_trail env attempts s0;
          (s2, keyErr) = select_key env attempts s1
      in case keyErr of
           Some e \<Rightarrow> (s2, Return Zero e)
         | None \<Rightarrow>
             let s3 = back_off env attempts (append_trail env attempts s2) in
             if \<not> env_hasTracer env (rs_world s3)
             then (s3, Return (rs_result s3) (newBifrostErrorFromMsg ''tracer not found in context''))
             else
               let s4 = run_attempt env s3 in
               case rs_bifrostError s4 of
                 None \<Rightarrow> (s4, Break)
               | Some e \<Rightarrow>
                   if terminal_error e then (s4, Break)
                   else
                     let (s5, shouldRetry) = strip_encrypted env e (record_failure e s4) in
                     if \<not> shouldRetry then (s5, Break)
                     else (after_failure env attempts e s5, Next))"

subsubsection \<open>The loop ends\<close>

lemma confirm_rotation_frame [simp]:
  "rs_extraAttempts (confirm_rotation s) = rs_extraAttempts s"
  "rs_strippedEncryptedContent (confirm_rotation s) = rs_strippedEncryptedContent s"
  "rs_calls (confirm_rotation s) = rs_calls s"
  "rs_marks (confirm_rotation s) = rs_marks s"
  "rs_sleeps (confirm_rotation s) = rs_sleeps s"
  "rs_currentKey (confirm_rotation s) = rs_currentKey s"
  "rs_usedKeyIDs (confirm_rotation s) = rs_usedKeyIDs s"
  "rs_deadKeyIDs (confirm_rotation s) = rs_deadKeyIDs s"
  "rs_world (confirm_rotation s) = rs_world s"
  "rs_selectedKey (confirm_rotation s) = rs_selectedKey s"
  "length (rs_trail (confirm_rotation s)) = length (rs_trail s)"
  by (simp_all add: confirm_rotation_def split: option.splits)

lemma select_key_frame [simp]:
  "rs_extraAttempts (fst (select_key env a s)) = rs_extraAttempts s"
  "rs_strippedEncryptedContent (fst (select_key env a s)) = rs_strippedEncryptedContent s"
  "rs_calls (fst (select_key env a s)) = rs_calls s"
  "rs_marks (fst (select_key env a s)) = rs_marks s"
  "rs_sleeps (fst (select_key env a s)) = rs_sleeps s"
  "rs_deadKeyIDs (fst (select_key env a s)) = rs_deadKeyIDs s"
  "length (rs_trail (fst (select_key env a s))) = length (rs_trail s)"
  by (simp_all add: select_key_def split_beta Let_def split: option.splits sum.splits)

lemma append_trail_frame [simp]:
  "rs_extraAttempts (append_trail env a s) = rs_extraAttempts s"
  "rs_strippedEncryptedContent (append_trail env a s) = rs_strippedEncryptedContent s"
  "rs_calls (append_trail env a s) = rs_calls s"
  "rs_marks (append_trail env a s) = rs_marks s"
  "rs_sleeps (append_trail env a s) = rs_sleeps s"
  "rs_currentKey (append_trail env a s) = rs_currentKey s"
  "rs_deadKeyIDs (append_trail env a s) = rs_deadKeyIDs s"
  "rs_world (append_trail env a s) = rs_world s"
  "rs_selectedKey (append_trail env a s) = rs_selectedKey s"
  by (simp_all add: append_trail_def Let_def)

lemma back_off_frame [simp]:
  "rs_extraAttempts (back_off env a s) = rs_extraAttempts s"
  "rs_strippedEncryptedContent (back_off env a s) = rs_strippedEncryptedContent s"
  "rs_calls (back_off env a s) = rs_calls s"
  "rs_marks (back_off env a s) = rs_marks s"
  "rs_currentKey (back_off env a s) = rs_currentKey s"
  "rs_deadKeyIDs (back_off env a s) = rs_deadKeyIDs s"
  "rs_trail (back_off env a s) = rs_trail s"
  "rs_world (back_off env a s) = rs_world s"
  "rs_selectedKey (back_off env a s) = rs_selectedKey s"
  by (simp_all add: back_off_def Let_def)

lemma run_attempt_frame [simp]:
  "rs_extraAttempts (run_attempt env s) = rs_extraAttempts s"
  "rs_strippedEncryptedContent (run_attempt env s) = rs_strippedEncryptedContent s"
  "rs_calls (run_attempt env s) = rs_calls s @ [(rs_currentKey s, rs_bifrostError (run_attempt env s))]"
  "rs_marks (run_attempt env s) = rs_marks s"
  "rs_sleeps (run_attempt env s) = rs_sleeps s"
  "rs_currentKey (run_attempt env s) = rs_currentKey s"
  "rs_deadKeyIDs (run_attempt env s) = rs_deadKeyIDs s"
  "rs_trail (run_attempt env s) = rs_trail s"
  "rs_selectedKey (run_attempt env s) = rs_selectedKey s"
  by (simp_all add: run_attempt_def split_beta Let_def)

lemma record_failure_frame [simp]:
  "rs_extraAttempts (record_failure e s) = rs_extraAttempts s"
  "rs_strippedEncryptedContent (record_failure e s) = rs_strippedEncryptedContent s"
  "rs_calls (record_failure e s) = rs_calls s"
  "rs_marks (record_failure e s) = rs_marks s"
  "rs_sleeps (record_failure e s) = rs_sleeps s"
  "rs_currentKey (record_failure e s) = rs_currentKey s"
  "rs_deadKeyIDs (record_failure e s) = rs_deadKeyIDs s"
  "length (rs_trail (record_failure e s)) = length (rs_trail s)"
  "rs_selectedKey (record_failure e s) = rs_selectedKey s"
  "rs_bifrostError (record_failure e s) = rs_bifrostError s"
  by (simp_all add: record_failure_def Let_def)

lemma strip_encrypted_frame [simp]:
  "rs_calls (fst (strip_encrypted env e s)) = rs_calls s"
  "rs_marks (fst (strip_encrypted env e s)) = rs_marks s"
  "rs_sleeps (fst (strip_encrypted env e s)) = rs_sleeps s"
  "rs_currentKey (fst (strip_encrypted env e s)) = rs_currentKey s"
  "rs_deadKeyIDs (fst (strip_encrypted env e s)) = rs_deadKeyIDs s"
  "rs_trail (fst (strip_encrypted env e s)) = rs_trail s"
  "rs_selectedKey (fst (strip_encrypted env e s)) = rs_selectedKey s"
  "rs_bifrostError (fst (strip_encrypted env e s)) = rs_bifrostError s"
  by (simp_all add: strip_encrypted_def split_beta Let_def)

lemma after_failure_frame [simp]:
  "rs_extraAttempts (after_failure env a e s) = rs_extraAttempts s"
  "rs_strippedEncryptedContent (after_failure env a e s) = rs_strippedEncryptedContent s"
  "rs_calls (after_failure env a e s) = rs_calls s"
  "rs_sleeps (after_failure env a e s) = rs_sleeps s"
  "rs_currentKey (after_failure env a e s) = rs_currentKey s"
  "rs_trail (after_failure env a e s) = rs_trail s"
  "rs_selectedKey (after_failure env a e s) = rs_selectedKey s"
  "rs_bifrostError (after_failure env a e s) = rs_bifrostError s"
  "rs_lastWasPerKeyFailure (after_failure env a e s) = is_per_key_failure e"
  by (simp_all add: after_failure_def track_key_def Let_def split: option.splits)

lemma strip_encrypted_budget:
  "(rs_extraAttempts (fst (strip_encrypted env e s)), rs_strippedEncryptedContent (fst (strip_encrypted env e s))) =
     (if snd (strip_encrypted env e s) \<and> \<not> should_retry e then (rs_extraAttempts s + 1, True)
      else (rs_extraAttempts s, rs_strippedEncryptedContent s))"
  "snd (strip_encrypted env e s) \<Longrightarrow> \<not> should_retry e \<Longrightarrow> \<not> rs_strippedEncryptedContent s"
  by (auto simp: strip_encrypted_def split_beta Let_def split: if_splits)

text \<open>The part of an iteration before the call of the request handler.\<close>

definition prepared :: "('w, 'r) retry_env \<Rightarrow> int \<Rightarrow> ('w, 'r) retry_state \<Rightarrow> ('w, 'r) retry_state" where
  "prepared env attempts s =
     back_off env attempts (append_trail env attempts (fst (select_key env attempts (reset_trail env attempts s))))"

definition called :: "('w, 'r) retry_env \<Rightarrow> int \<Rightarrow> ('w, 'r) retry_state \<Rightarrow> ('w, 'r) retry_state" where
  "called env attempts s = run_attempt env (prepared env attempts s)"

definition settled :: "('w, 'r) retry_env \<Rightarrow> int \<Rightarrow> BifrostError \<Rightarrow> ('w, 'r) retry_state \<Rightarrow> ('w, 'r) retry_state" where
  "settled env attempts e s = fst (strip_encrypted env e (record_failure e (called env attempts s)))"

text \<open>The five ways an iteration can go.\<close>

lemma retry_body_cases [consumes 1, case_names NoKey NoTracer Done GiveUp Again]:
  assumes "retry_body env a s = (s', f)"
  obtains (NoKey) e where "snd (select_key env a (reset_trail env a s)) = Some e"
      "s' = fst (select_key env a (reset_trail env a s))" "f = Return Zero e"
  | (NoTracer) "snd (select_key env a (reset_trail env a s)) = None" "\<not> env_hasTracer env (rs_world (prepared env a s))"
      "s' = prepared env a s"
      "f = Return (rs_result (prepared env a s)) (newBifrostErrorFromMsg ''tracer not found in context'')"
  | (Done) "snd (select_key env a (reset_trail env a s)) = None" "s' = called env a s" "f = Break"
      "case rs_bifrostError (called env a s) of None \<Rightarrow> True | Some e \<Rightarrow> terminal_error e"
  | (GiveUp) e where "snd (select_key env a (reset_trail env a s)) = None"
      "rs_bifrostError (called env a s) = Some e" "\<not> terminal_error e" "\<not> should_retry e"
      "\<not> snd (strip_encrypted env e (record_failure e (called env a s)))" "s' = settled env a e s" "f = Break"
  | (Again) e where "snd (select_key env a (reset_trail env a s)) = None"
      "rs_bifrostError (called env a s) = Some e" "\<not> terminal_error e"
      "snd (strip_encrypted env e (record_failure e (called env a s)))"
      "s' = after_failure env a e (settled env a e s)" "f = Next"
proof (cases "snd (select_key env a (reset_trail env a s))")
  case (Some e)
  then show ?thesis
    using assms NoKey by (simp add: retry_body_def split_beta Let_def)
next
  case none: None
  show ?thesis
  proof (cases "env_hasTracer env (rs_world (prepared env a s))")
    case False
    then have "(s', f) = (prepared env a s,
        Return (rs_result (prepared env a s)) (newBifrostErrorFromMsg ''tracer not found in context''))"
      unfolding assms [symmetric] using none by (simp add: retry_body_def prepared_def split_beta Let_def)
    then show ?thesis using NoTracer none False by blast
  next
    case tracer: True
    show ?thesis
    proof (cases "rs_bifrostError (called env a s)")
      case None
      then show ?thesis
        using assms Done none tracer
        by (simp add: retry_body_def prepared_def called_def split_beta Let_def)
    next
      case (Some e)
      let ?r = "strip_encrypted env e (record_failure e (called env a s))"
      have eq: "(s', f) = (if terminal_error e then (called env a s, Break)
          else if \<not> snd ?r then (fst ?r, Break) else (after_failure env a e (fst ?r), Next))"
        unfolding assms [symmetric] using none tracer Some
        by (simp add: retry_body_def prepared_def called_def split_beta Let_def)
      have "\<not> should_retry e" if "\<not> snd ?r"
        using that by (auto simp: strip_encrypted_def split_beta Let_def split: if_splits)
      then show ?thesis
        using eq Done GiveUp Again none Some by (auto simp: settled_def split: if_splits)
    qed
  qed
qed

lemma prepared_frame [simp]:
  "rs_extraAttempts (prepared env a s) = rs_extraAttempts s"
  "rs_strippedEncryptedContent (prepared env a s) = rs_strippedEncryptedContent s"
  "rs_calls (prepared env a s) = rs_calls s"
  "rs_marks (prepared env a s) = rs_marks s"
  "rs_deadKeyIDs (prepared env a s) = rs_deadKeyIDs s"
  by (simp_all add: prepared_def reset_trail_def)

lemma retry_body_budget:
  assumes "retry_body env a s = (s', Next)"
  shows "(if rs_strippedEncryptedContent s' then rs_extraAttempts s' else rs_extraAttempts s' + 1)
    \<le> (if rs_strippedEncryptedContent s then rs_extraAttempts s else rs_extraAttempts s + 1)"
    and "rs_extraAttempts s \<le> rs_extraAttempts s'"
proof -
  obtain e where "snd (strip_encrypted env e (record_failure e (called env a s)))"
      "s' = after_failure env a e (settled env a e s)"
    using assms by (cases rule: retry_body_cases) auto
  moreover have "rs_extraAttempts (record_failure e (called env a s)) = rs_extraAttempts s"
    "rs_strippedEncryptedContent (record_failure e (called env a s)) = rs_strippedEncryptedContent s"
    by (simp_all add: called_def)
  ultimately show "(if rs_strippedEncryptedContent s' then rs_extraAttempts s' else rs_extraAttempts s' + 1)
    \<le> (if rs_strippedEncryptedContent s then rs_extraAttempts s else rs_extraAttempts s + 1)"
    "rs_extraAttempts s \<le> rs_extraAttempts s'"
    using strip_encrypted_budget [of env e "record_failure e (called env a s)"]
    by (auto simp: settled_def split: if_splits)
qed

function retry_loop ::
    "('w, 'r) retry_env \<Rightarrow> int \<Rightarrow> ('w, 'r) retry_state \<Rightarrow> int \<times> ('w, 'r) retry_state \<times> 'r flow" where
  "retry_loop env attempts s =
     (if attempts \<le> nc_MaxRetries (env_config env) + rs_extraAttempts s then
        (case retry_body env attempts s of
           (s', Next) \<Rightarrow> retry_loop env (attempts + 1) s'
         | (s', Break) \<Rightarrow> (attempts, s', Break)
         | (s', Return r e) \<Rightarrow> (attempts, s', Return r e))
      else (attempts, s, Break))"
  by pat_completeness auto
termination
  by (relation "measure (\<lambda>(env, attempts, s). nat (nc_MaxRetries (env_config env) + 1 - attempts
      + (if rs_strippedEncryptedContent s then rs_extraAttempts s else rs_extraAttempts s + 1)))")
    (auto dest!: sym [of "(_, _)"] dest: retry_body_budget(1) split: if_splits)

declare retry_loop.simps [simp del]

definition executeRequestWithRetries ::
    "('w, 'r) retry_env \<Rightarrow> 'w \<Rightarrow> KeyAttemptRecord list \<Rightarrow> string \<times> string
     \<Rightarrow> ('w, 'r) retry_state \<times> 'r attempt_result \<times> BifrostError option" where
  "executeRequestWithRetries env w trail selected =
     (let (attempts, s, f) = retry_loop env 0 (init_state w trail selected) in
      case f of
        Return r e \<Rightarrow> (s, r, Some e)
      | _ \<Rightarrow>
          (if rs_bifrostError s \<noteq> None \<and> env_keyProvider env \<noteq> None then s\<lparr>rs_selectedKey := ('''', '''')\<rparr> else s,
           rs_result s, rs_bifrostError s))"

subsection \<open>Reasoning about the loop\<close>

abbreviation budget :: "('w, 'r) retry_env \<Rightarrow> ('w, 'r) retry_state \<Rightarrow> int" where
  "budget env s \<equiv> nc_MaxRetries (env_config env) + rs_extraAttempts s"

lemma retry_loop_invariant:
  assumes "retry_loop env a s = (a', s', f)" "I a s"
    and step: "\<And>a s s'. I a s \<Longrightarrow> a \<le> budget env s \<Longrightarrow> retry_body env a s = (s', Next) \<Longrightarrow> I (a + 1) s'"
    and last: "\<And>a s s' f. I a s \<Longrightarrow> a \<le> budget env s \<Longrightarrow> retry_body env a s = (s', f) \<Longrightarrow> f \<noteq> Next \<Longrightarrow> Q a s' f"
    and over: "\<And>a s. I a s \<Longrightarrow> budget env s < a \<Longrightarrow> Q a s Break"
  shows "Q a' s' f"
  using assms(1, 2) step last over
proof (induction env a s rule: retry_loop.induct)
  case (1 env a s)
  show ?case
  proof (cases "a \<le> budget env s")
    case True
    obtain s1 f1 where b: "retry_body env a s = (s1, f1)" by (cases "retry_body env a s")
    show ?thesis
    proof (cases "f1 = Next")
      case next_iteration: True
      have "retry_loop env (a + 1) s1 = (a', s', f)"
        using "1.prems"(1) b True next_iteration by (simp add: retry_loop.simps [of env a s])
      moreover have "I (a + 1) s1" using "1.prems"(2, 3) True b next_iteration by blast
      ultimately show ?thesis using "1.IH" [OF True b [symmetric]] next_iteration "1.prems"(3-5) by blast
    next
      case False
      then have "(a', s', f) = (a, s1, f1)"
        using "1.prems"(1) b True by (cases f1) (simp_all add: retry_loop.simps [of env a s])
      then show ?thesis using "1.prems"(2, 4) True b False by blast
    qed
  next
    case False
    then have "(a', s', f) = (a, s, Break)"
      using "1.prems"(1) by (simp add: retry_loop.simps [of env a s])
    then show ?thesis using "1.prems"(2, 5) False by simp
  qed
qed

lemma called_frame [simp]:
  "rs_extraAttempts (called env a s) = rs_extraAttempts s"
  "rs_strippedEncryptedContent (called env a s) = rs_strippedEncryptedContent s"
  "rs_calls (called env a s) = rs_calls s @ [(rs_currentKey (prepared env a s), rs_bifrostError (called env a s))]"
  "rs_marks (called env a s) = rs_marks s"
  "rs_deadKeyIDs (called env a s) = rs_deadKeyIDs s"
  "rs_currentKey (called env a s) = rs_currentKey (prepared env a s)"
  "rs_sleeps (called env a s) = rs_sleeps (prepared env a s)"
  "rs_selectedKey (called env a s) = rs_selectedKey (prepared env a s)"
  "rs_trail (called env a s) = rs_trail (prepared env a s)"
  by (simp_all add: called_def)

lemma settled_frame [simp]:
  "rs_calls (settled env a e s) = rs_calls (called env a s)"
  "rs_marks (settled env a e s) = rs_marks s"
  "rs_sleeps (settled env a e s) = rs_sleeps (called env a s)"
  "rs_currentKey (settled env a e s) = rs_currentKey (called env a s)"
  "rs_deadKeyIDs (settled env a e s) = rs_deadKeyIDs s"
  "rs_selectedKey (settled env a e s) = rs_selectedKey (called env a s)"
  "rs_bifrostError (settled env a e s) = rs_bifrostError (called env a s)"
  by (simp_all add: settled_def)

definition retryable :: "BifrostError \<Rightarrow> bool" where
  "retryable e \<longleftrightarrow> \<not> terminal_error e \<and> (should_retry e \<or> isEncryptedReasoningRejection e)"

text \<open>What holds when an iteration begins: one call per iteration so far, each with a failure worth
  another attempt.\<close>

definition running :: "int \<Rightarrow> ('w, 'r) retry_state \<Rightarrow> bool" where
  "running a s \<longleftrightarrow> a = int (length (rs_calls s))
     \<and> list_all (\<lambda>c. \<exists>e. snd c = Some e \<and> retryable e) (rs_calls s)
     \<and> (rs_calls s \<noteq> [] \<longrightarrow> rs_currentKey s = fst (last (rs_calls s))
          \<and> rs_lastWasPerKeyFailure s = is_per_key_failure (the (snd (last (rs_calls s))))
          \<and> rs_bifrostError s = snd (last (rs_calls s)))"

lemma running_init: "running 0 (init_state w trail selected)"
  by (simp add: running_def init_state_def)

lemma strip_reason:
  "snd (strip_encrypted env e s) \<Longrightarrow> should_retry e \<or> isEncryptedReasoningRejection e"
  by (auto simp: strip_encrypted_def split_beta Let_def split: if_splits)

lemma running_step:
  assumes "running a s" "retry_body env a s = (s', Next)"
  shows "running (a + 1) s'"
  using assms(2)
proof (cases rule: retry_body_cases)
  case (Again e)
  then show ?thesis
    using assms(1) strip_reason [OF Again(4)]
    by (simp add: running_def retryable_def)
qed simp_all

subsection \<open>Bounds\<close>

lemma calculateBackoff_max: "calculateBackoff j n config \<le> nc_RetryBackoffMax config"
  by (simp add: calculateBackoff_def Let_def)

lemma back_off_sleeps:
  "rs_sleeps (back_off env a s) = rs_sleeps s \<or>
   (0 < a \<and> (\<exists>d. rs_sleeps (back_off env a s) = rs_sleeps s @ [d] \<and> d \<le> nc_RetryBackoffMax (env_config env)))"
  using calculateBackoff_max by (auto simp: back_off_def Let_def)

lemma prepared_sleeps:
  "rs_sleeps (prepared env a s) = rs_sleeps s \<or>
   (0 < a \<and> (\<exists>d. rs_sleeps (prepared env a s) = rs_sleeps s @ [d] \<and> d \<le> nc_RetryBackoffMax (env_config env)))"
  using back_off_sleeps [of env a "append_trail env a (fst (select_key env a (reset_trail env a s)))"]
  by (simp add: prepared_def reset_trail_def)

definition extra_ok :: "('w, 'r) retry_state \<Rightarrow> bool" where
  "extra_ok s \<longleftrightarrow> rs_extraAttempts s = (if rs_strippedEncryptedContent s then 1 else 0)"

definition sleeps_ok :: "('w, 'r) retry_env \<Rightarrow> nat \<Rightarrow> ('w, 'r) retry_state \<Rightarrow> bool" where
  "sleeps_ok env n s \<longleftrightarrow> list_all (\<lambda>d. d \<le> nc_RetryBackoffMax (env_config env)) (rs_sleeps s)
     \<and> length (rs_sleeps s) \<le> n"

lemma called_extra_ok [simp]: "extra_ok (called env a s) = extra_ok s"
  by (simp add: extra_ok_def)

lemma prepared_extra_ok [simp]: "extra_ok (prepared env a s) = extra_ok s"
  by (simp add: extra_ok_def)

lemma settled_extra_ok: "extra_ok s \<Longrightarrow> extra_ok (settled env a e s)"
  using strip_encrypted_budget [of env e "record_failure e (called env a s)"]
  by (auto simp: extra_ok_def settled_def split: if_splits)

lemma body_extra_ok:
  assumes "extra_ok s" "retry_body env a s = (s', f)"
  shows "extra_ok s'"
  using assms(2)
proof (cases rule: retry_body_cases)
  case (NoKey e)
  then show ?thesis using assms(1) by (simp add: extra_ok_def reset_trail_def)
next
  case (Again e)
  then show ?thesis using settled_extra_ok [OF assms(1), of env a e] by (simp add: extra_ok_def)
qed (use assms(1) settled_extra_ok in auto)

lemma body_sleeps_ok:
  assumes "sleeps_ok env (length (rs_calls s) - 1) s" "running a s" "retry_body env a s = (s', f)"
  shows "sleeps_ok env (length (rs_calls s)) s'"
proof -
  have "Suc (length (rs_calls s) - 1) = length (rs_calls s)" if "0 < a"
    using assms(2) that by (auto simp: running_def)
  then have p: "sleeps_ok env (length (rs_calls s)) (prepared env a s)"
    using assms(1) prepared_sleeps [of env a s] by (auto simp: sleeps_ok_def)
  show ?thesis
    using assms(3)
  proof (cases rule: retry_body_cases)
    case (NoKey e)
    then show ?thesis using assms(1) by (auto simp: sleeps_ok_def reset_trail_def)
  qed (use p in \<open>simp_all add: sleeps_ok_def\<close>)
qed

text \<open>How many calls an iteration adds.\<close>

lemma body_calls:
  assumes "retry_body env a s = (s', f)"
  shows "(\<exists>r e. f = Return r e) \<and> rs_calls s' = rs_calls s \<or>
    (\<nexists>r e. f = Return r e) \<and>
      rs_calls s' = rs_calls s @ [(rs_currentKey (prepared env a s), rs_bifrostError (called env a s))]"
  using assms by (cases rule: retry_body_cases) (simp_all add: reset_trail_def)

definition within_budget :: "('w, 'r) retry_env \<Rightarrow> ('w, 'r) retry_state \<Rightarrow> bool" where
  "within_budget env s \<longleftrightarrow>
     int (length (rs_calls s)) \<le> nc_MaxRetries (env_config env) + (if rs_strippedEncryptedContent s then 2 else 1)
     \<and> sleeps_ok env (length (rs_calls s)) s"

definition in_budget :: "('w, 'r) retry_env \<Rightarrow> int \<Rightarrow> ('w, 'r) retry_state \<Rightarrow> bool" where
  "in_budget env a s \<longleftrightarrow> running a s \<and> extra_ok s \<and> sleeps_ok env (length (rs_calls s) - 1) s \<and> a \<le> budget env s + 1"

lemma body_extra_mono:
  assumes "retry_body env a s = (s', f)"
  shows "rs_extraAttempts s \<le> rs_extraAttempts s'"
  using assms
proof (cases rule: retry_body_cases)
  case (GiveUp e)
  then show ?thesis
    using strip_encrypted_budget(1) [of env e "record_failure e (called env a s)"] by (simp add: settled_def)
next
  case (Again e)
  then show ?thesis using retry_body_budget(2) assms by blast
qed (simp_all add: reset_trail_def)

lemma in_budget_step:
  assumes I: "in_budget env a s" and le: "a \<le> budget env s" and b: "retry_body env a s = (s', f)"
  shows "within_budget env s'" and "f = Next \<Longrightarrow> in_budget env (a + 1) s'"
proof -
  have s': "extra_ok s'" "sleeps_ok env (length (rs_calls s)) s'"
    using body_extra_ok [OF _ b] body_sleeps_ok [OF _ _ b] I unfolding in_budget_def by blast+
  have c: "length (rs_calls s') \<le> Suc (length (rs_calls s))" "length (rs_calls s) \<le> length (rs_calls s')"
    using body_calls [OF b] by auto
  show "within_budget env s'"
    using I le s' body_extra_mono [OF b] c
    by (auto simp: within_budget_def in_budget_def running_def extra_ok_def sleeps_ok_def split: if_splits)
  show "in_budget env (a + 1) s'" if "f = Next"
    using running_step [of a s env s'] I b s' body_extra_mono [OF b] le body_calls [OF b] that
    by (auto simp: in_budget_def)
qed

lemma in_budget_done: "in_budget env a s \<Longrightarrow> within_budget env s"
  by (auto simp: in_budget_def within_budget_def running_def extra_ok_def sleeps_ok_def)

lemma in_budget_init: "0 \<le> nc_MaxRetries (env_config env) \<Longrightarrow> in_budget env 0 (init_state w trail selected)"
  by (simp add: in_budget_def running_init) (simp add: init_state_def extra_ok_def sleeps_ok_def)

lemma retry_loop_budget:
  assumes "retry_loop env 0 (init_state w trail selected) = (a, s, f)" "0 \<le> nc_MaxRetries (env_config env)"
  shows "within_budget env s"
  using assms(1) in_budget_init [OF assms(2)]
  by (rule retry_loop_invariant [where Q = "\<lambda>a s f. within_budget env s"])
    (auto intro: in_budget_step in_budget_done)

text \<open>C36. The retry loop is bounded: it returns, and with a configured maximum of \<open>n\<close> retries the request
  handler is called at most \<open>n + 1\<close> times, one more when encrypted reasoning was stripped from the
  request. There is at most one backoff sleep per call, and none is longer than the configured
  maximum.\<close>

theorem retries_bounded:
  assumes "0 \<le> nc_MaxRetries (env_config env)" "executeRequestWithRetries env w trail selected = (s, r, err)"
  shows "int (length (rs_calls s)) \<le> nc_MaxRetries (env_config env) + (if rs_strippedEncryptedContent s then 2 else 1)
    \<and> length (rs_sleeps s) \<le> length (rs_calls s)
    \<and> list_all (\<lambda>d. d \<le> nc_RetryBackoffMax (env_config env)) (rs_sleeps s)"
proof -
  obtain a s0 f where l: "retry_loop env 0 (init_state w trail selected) = (a, s0, f)" by (metis prod.exhaust)
  have "rs_calls s = rs_calls s0 \<and> rs_sleeps s = rs_sleeps s0
      \<and> rs_strippedEncryptedContent s = rs_strippedEncryptedContent s0"
    using assms(2) by (auto simp: executeRequestWithRetries_def l split: flow.splits if_splits)
  then show ?thesis
    using retry_loop_budget [OF l assms(1)] by (simp add: within_budget_def sleeps_ok_def)
qed

subsection \<open>What the request gets\<close>

text \<open>How the loop ends, in terms of the calls: with the outcome of the last call, which succeeded, or
  failed for good, or used up the budget; or with an error of the key selection after failures only.\<close>

definition all_failed :: "(Key \<times> BifrostError option) list \<Rightarrow> bool" where
  "all_failed calls \<longleftrightarrow> list_all (\<lambda>c. \<exists>e. snd c = Some e \<and> retryable e) calls"

definition stops_with :: "('w, 'r) retry_env \<Rightarrow> ('w, 'r) retry_state \<Rightarrow> BifrostError option \<Rightarrow> bool" where
  "stops_with env s err \<longleftrightarrow> rs_calls s \<noteq> [] \<and> all_failed (butlast (rs_calls s)) \<and> snd (last (rs_calls s)) = err
     \<and> (case err of None \<Rightarrow> True
        | Some e \<Rightarrow> terminal_error e \<or> \<not> should_retry e \<or> int (length (rs_calls s)) = budget env s + 1)"

definition key_error :: "('w, 'r) retry_env \<Rightarrow> BifrostError \<Rightarrow> bool" where
  "key_error env e \<longleftrightarrow> (\<exists>w err. e = key_selection_error (env_retryAfter env w) err (env_errorText env err))"

definition ends_properly :: "('w, 'r) retry_env \<Rightarrow> ('w, 'r) retry_state \<Rightarrow> 'r flow \<Rightarrow> bool" where
  "ends_properly env s f \<longleftrightarrow>
     (case f of
        Next \<Rightarrow> False
      | Break \<Rightarrow> stops_with env s (rs_bifrostError s)
      | Return r e \<Rightarrow> r = Zero \<and> key_error env e \<and> all_failed (rs_calls s))"

lemma select_key_error:
  assumes "snd (select_key env a s) = Some e" shows "key_error env e"
proof -
  obtain kp where kp: "env_keyProvider env = Some kp" using assms by (cases "env_keyProvider env") (simp_all add: select_key_def)
  let ?r = "kp (rs_usedKeyIDs s) (rs_deadKeyIDs s) (rs_world s)"
  obtain err where "e = key_selection_error (env_retryAfter env (fst ?r)) err (env_errorText env err)"
    using assms kp by (auto simp: select_key_def split_beta Let_def split: if_splits sum.splits)
  then show ?thesis unfolding key_error_def by blast
qed

lemma running_ends:
  assumes "running a s" "a \<le> budget env s" "retry_body env a s = (s', f)" "f \<noteq> Next" "\<And>w. env_hasTracer env w"
  shows "ends_properly env s' f"
proof -
  have run: "a = int (length (rs_calls s))" "all_failed (rs_calls s)"
    using assms(1) by (auto simp: running_def all_failed_def)
  show ?thesis
    using assms(3)
  proof (cases rule: retry_body_cases)
    case (NoKey e)
    then show ?thesis using run select_key_error [OF NoKey(1)] by (simp add: ends_properly_def reset_trail_def)
  next
    case NoTracer
    then show ?thesis using assms(5) by simp
  next
    case Done
    then show ?thesis using run by (auto simp: ends_properly_def stops_with_def split: option.splits)
  next
    case (GiveUp e)
    then show ?thesis using run by (simp add: ends_properly_def stops_with_def)
  next
    case (Again e)
    then show ?thesis using assms(4) by simp
  qed
qed

lemma exhausted_ends:
  assumes "running a s" "budget env s < a" "a \<le> budget env s + 1" "rs_calls s \<noteq> []"
  shows "ends_properly env s Break"
proof -
  obtain e where "rs_bifrostError s = Some e" "snd (last (rs_calls s)) = Some e"
    using assms(1, 4) by (auto simp: running_def list_all_iff dest!: last_in_set)
  moreover have "all_failed (butlast (rs_calls s))"
    using assms(1) by (auto simp: running_def all_failed_def list_all_iff dest: in_set_butlastD)
  ultimately show ?thesis
    using assms by (auto simp: ends_properly_def stops_with_def running_def)
qed

text \<open>The selected key is the key of the current attempt.\<close>

lemma select_key_selected:
  assumes "env_keyProvider env \<noteq> None" "a = 0 \<or> rs_selectedKey s = (k_ID (rs_currentKey s), k_Name (rs_currentKey s))"
    and "snd (select_key env a s) = None"
  shows "rs_selectedKey (fst (select_key env a s)) =
    (k_ID (rs_currentKey (fst (select_key env a s))), k_Name (rs_currentKey (fst (select_key env a s))))"
  using assms by (auto simp: select_key_def split_beta Let_def split: sum.splits if_splits)

definition selected_current :: "int \<Rightarrow> ('w, 'r) retry_state \<Rightarrow> bool" where
  "selected_current a s \<longleftrightarrow> (a = 0 \<or> rs_selectedKey s = (k_ID (rs_currentKey s), k_Name (rs_currentKey s)))"

lemma prepared_selected:
  assumes "env_keyProvider env \<noteq> None" "selected_current a s" "snd (select_key env a (reset_trail env a s)) = None"
  shows "rs_selectedKey (prepared env a s) = (k_ID (rs_currentKey (prepared env a s)), k_Name (rs_currentKey (prepared env a s)))"
  using select_key_selected [OF assms(1) _ assms(3)] assms(2)
  by (simp add: prepared_def selected_current_def reset_trail_def)


definition selection_final :: "('w, 'r) retry_state \<Rightarrow> 'r flow \<Rightarrow> bool" where
  "selection_final s f \<longleftrightarrow>
     rs_selectedKey s = (case f of Break \<Rightarrow> (k_ID (fst (last (rs_calls s))), k_Name (fst (last (rs_calls s))))
                         | _ \<Rightarrow> ('''', ''''))"

lemma select_key_clears: "snd (select_key env a s) = Some e \<Longrightarrow> rs_selectedKey (fst (select_key env a s)) = ('''', '''')"
  by (auto simp: select_key_def split_beta Let_def split: option.splits sum.splits if_splits)

lemma selection_step:
  assumes "env_keyProvider env \<noteq> None" "selected_current a s" "retry_body env a s = (s', f)" "\<And>w. env_hasTracer env w"
  shows "if f = Next then selected_current (a + 1) s' else selection_final s' f"
  using assms(3)
proof (cases rule: retry_body_cases)
  case (NoKey e)
  then show ?thesis using select_key_clears by (simp add: selection_final_def)
next
  case NoTracer
  then show ?thesis using assms(4) by simp
qed (use prepared_selected [OF assms(1, 2)] in \<open>simp_all add: selection_final_def selected_current_def\<close>)

lemma loop_outcome:
  assumes "retry_loop env 0 (init_state w trail selected) = (a, s, f)" "0 \<le> nc_MaxRetries (env_config env)"
    and "env_keyProvider env \<noteq> None" and tracer: "\<And>w. env_hasTracer env w"
  shows "ends_properly env s f \<and> selection_final s f"
  using assms(1)
proof (rule retry_loop_invariant [where I = "\<lambda>a s. in_budget env a s \<and> selected_current a s"
      and Q = "\<lambda>a s f. ends_properly env s f \<and> selection_final s f"])
  show "in_budget env 0 (init_state w trail selected) \<and> selected_current 0 (init_state w trail selected)"
    using in_budget_init [OF assms(2)] by (simp add: selected_current_def)
next
  fix a s s'
  assume I: "in_budget env a s \<and> selected_current a s" and "a \<le> budget env s" "retry_body env a s = (s', Next)"
  then show "in_budget env (a + 1) s' \<and> selected_current (a + 1) s'"
    using in_budget_step(2) [of env a s s' Next] selection_step [OF assms(3) _ _ tracer, of a s s' Next] by auto
next
  fix a s s' f
  assume I: "in_budget env a s \<and> selected_current a s" and "a \<le> budget env s" "retry_body env a s = (s', f)" "f \<noteq> Next"
  then show "ends_properly env s' f \<and> selection_final s' f"
    using running_ends [of a s env s' f] tracer selection_step [OF assms(3) _ _ tracer, of a s s' f]
    by (auto simp: in_budget_def)
next
  fix a s
  assume I: "in_budget env a s \<and> selected_current a s" and over: "budget env s < a"
  have "0 \<le> budget env s" using I assms(2) by (auto simp: in_budget_def extra_ok_def)
  then have calls: "rs_calls s \<noteq> []" using I over by (auto simp: in_budget_def running_def)
  then show "ends_properly env s Break \<and> selection_final s Break"
    using exhausted_ends [of a s env] I over by (auto simp: in_budget_def selection_final_def selected_current_def running_def)
qed


subsection \<open>The attempt trail\<close>

text \<open>The record the trail should hold for call number \<open>i\<close>.\<close>

definition audit_record :: "(Key \<times> BifrostError option) list \<Rightarrow> nat \<Rightarrow> KeyAttemptRecord" where
  "audit_record calls i =
     \<lparr>ar_Attempt = int i, ar_KeyID = k_ID (fst (calls ! i)), ar_KeyName = k_Name (fst (calls ! i)),
      ar_FailReason = (case snd (calls ! i) of
                         Some e \<Rightarrow> if terminal_error e then None else Some (fail_reason e)
                       | None \<Rightarrow> None),
      ar_TriggeredRotation = (Suc i < length calls \<and> k_ID (fst (calls ! Suc i)) \<noteq> k_ID (fst (calls ! i)))\<rparr>"

definition audit :: "(Key \<times> BifrostError option) list \<Rightarrow> KeyAttemptRecord list" where
  "audit calls = map (audit_record calls) [0..<length calls]"

lemma length_audit [simp]: "length (audit calls) = length calls"
  by (simp add: audit_def)

lemma audit_Nil [simp]: "audit [] = []"
  by (simp add: audit_def)

lemma audit_eq_Nil [simp]: "audit calls = [] \<longleftrightarrow> calls = []"
  by (simp add: audit_def)

lemma audit_nth [simp]: "i < length calls \<Longrightarrow> audit calls ! i = audit_record calls i"
  by (simp add: audit_def)

definition note_rotation :: "string \<Rightarrow> KeyAttemptRecord list \<Rightarrow> KeyAttemptRecord list" where
  "note_rotation i t = t[length t - 1 := (t ! (length t - 1))
     \<lparr>ar_TriggeredRotation := (ar_KeyID (t ! (length t - 1)) \<noteq> i)\<rparr>]"

definition fresh_record :: "nat \<Rightarrow> Key \<Rightarrow> KeyAttemptRecord" where
  "fresh_record n k = \<lparr>ar_Attempt = int n, ar_KeyID = k_ID k, ar_KeyName = k_Name k,
     ar_FailReason = None, ar_TriggeredRotation = False\<rparr>"

lemma audit_snoc: "audit (calls @ [(k, None)]) = note_rotation (k_ID k) (audit calls) @ [fresh_record (length calls) k]"
proof (rule nth_equalityI)
  fix i assume "i < length (audit (calls @ [(k, None)]))"
  then consider "i = length calls" | "Suc i = length calls" | "Suc i < length calls" by fastforce
  then show "audit (calls @ [(k, None)]) ! i = (note_rotation (k_ID k) (audit calls) @ [fresh_record (length calls) k]) ! i"
  proof cases
    case 2
    then have "length calls - Suc 0 = i" "i < length calls" "int (length calls) - 1 = int i" by simp_all
    then show ?thesis using 2 by (auto simp: audit_record_def nth_append note_rotation_def)
  qed (auto simp: audit_record_def nth_append note_rotation_def fresh_record_def)
qed (simp add: note_rotation_def)

lemma audit_final:
  "(case err of None \<Rightarrow> True | Some e \<Rightarrow> terminal_error e) \<Longrightarrow> audit (calls @ [(k, err)]) = audit (calls @ [(k, None)])"
  by (auto simp: audit_def audit_record_def nth_append split: option.splits)

lemma audit_failed:
  assumes "\<not> terminal_error e" "rs_trail s = audit (calls @ [(k, None)])"
  shows "rs_trail (record_failure e s) = audit (calls @ [(k, Some e)])"
proof (rule nth_equalityI)
  show "length (rs_trail (record_failure e s)) = length (audit (calls @ [(k, Some e)]))"
    using assms(2) by simp
  fix i assume "i < length (rs_trail (record_failure e s))"
  then have i: "i \<le> length calls" using assms(2) by simp
  have "rs_trail (record_failure e s) =
      (audit (calls @ [(k, None)]))[length calls := (audit_record (calls @ [(k, None)]) (length calls))
        \<lparr>ar_FailReason := Some (fail_reason e)\<rparr>]"
    using assms(2) by (simp add: record_failure_def Let_def)
  then show "rs_trail (record_failure e s) ! i = audit (calls @ [(k, Some e)]) ! i"
    using i assms(1) by (cases "i = length calls") (auto simp: nth_append audit_record_def)
qed

text \<open>The part of the loop's state that the trail depends on.\<close>

definition audited :: "('w, 'r) retry_env \<Rightarrow> int \<Rightarrow> ('w, 'r) retry_state \<Rightarrow> bool" where
  "audited env a s \<longleftrightarrow> running a s \<and> (0 < a \<longrightarrow> rs_trail s = audit (rs_calls s))
     \<and> (a \<le> budget env s \<longrightarrow> rs_pendingRotation s =
          (if 0 < a \<and> rs_lastWasPerKeyFailure s then Some (length (rs_calls s) - 1) else None))"

lemma confirm_rotation_trail:
  assumes "rs_pendingRotation s = Some (length (rs_trail s) - 1)" "rs_trail s \<noteq> []"
    and "\<not> ar_TriggeredRotation (rs_trail s ! (length (rs_trail s) - 1))"
  shows "rs_trail (confirm_rotation s) = note_rotation (k_ID (rs_currentKey s)) (rs_trail s)"
    and "rs_pendingRotation (confirm_rotation s) = None"
proof -
  have "(rs_trail s ! (length (rs_trail s) - 1))\<lparr>ar_TriggeredRotation := False\<rparr> = rs_trail s ! (length (rs_trail s) - 1)"
    using assms(3) by simp
  then show "rs_trail (confirm_rotation s) = note_rotation (k_ID (rs_currentKey s)) (rs_trail s)"
    using assms(1, 2) by (auto simp: confirm_rotation_def note_rotation_def)
  show "rs_pendingRotation (confirm_rotation s) = None" using assms(1) by (simp add: confirm_rotation_def)
qed

lemma note_rotation_same:
  assumes "calls \<noteq> []" shows "note_rotation (k_ID (fst (last calls))) (audit calls) = audit calls"
proof -
  have "(audit_record calls (length calls - 1))\<lparr>ar_TriggeredRotation := False\<rparr> = audit_record calls (length calls - 1)"
    using assms by (simp add: audit_record_def)
  moreover have "ar_KeyID (audit_record calls (length calls - 1)) = k_ID (fst (last calls))"
    using assms by (simp add: audit_record_def last_conv_nth)
  ultimately show ?thesis
    using assms list_update_id [of "audit calls" "length calls - 1"] by (simp add: note_rotation_def)
qed


lemma select_key_trail:
  assumes A: "audited env a s" "a \<le> budget env s" and kp: "env_keyProvider env = Some kp"
    and ok: "snd (select_key env a (reset_trail env a s)) = None"
  defines "s2 \<equiv> fst (select_key env a (reset_trail env a s))"
  shows "rs_trail s2 = note_rotation (k_ID (rs_currentKey s2)) (audit (rs_calls s)) \<and> rs_pendingRotation s2 = None"
proof (cases "a = 0 \<or> rs_lastWasPerKeyFailure s")
  case False
  have "0 < a" "rs_calls s \<noteq> []" using A(1) False by (auto simp: audited_def running_def)
  moreover have "s2 = reset_trail env a s"
    using False kp by (simp add: s2_def select_key_def reset_trail_def)
  ultimately show ?thesis
    using A False by (simp add: audited_def running_def reset_trail_def note_rotation_same)
next
  case select: True
  obtain w u k where s2: "s2 = confirm_rotation ((reset_trail env a s)\<lparr>rs_world := w, rs_usedKeyIDs := u,
      rs_currentKey := k, rs_selectedKey := (k_ID k, k_Name k)\<rparr>)"
    using ok select kp unfolding s2_def
    by (auto simp: select_key_def split_beta Let_def reset_trail_def split: sum.splits if_splits)
  show ?thesis
  proof (cases "a = 0")
    case True
    then have "rs_calls s = []" "rs_pendingRotation s = None" using A by (auto simp: audited_def running_def)
    then show ?thesis using True kp unfolding s2 by (simp add: confirm_rotation_def reset_trail_def note_rotation_def)
  next
    case False
    let ?s1 = "(reset_trail env a s)\<lparr>rs_world := w, rs_usedKeyIDs := u,
      rs_currentKey := k, rs_selectedKey := (k_ID k, k_Name k)\<rparr>"
    have calls: "rs_calls s \<noteq> []" "0 < a" using A(1) False by (auto simp: audited_def running_def)
    then have "rs_trail ?s1 = audit (rs_calls s)" "rs_pendingRotation ?s1 = Some (length (rs_trail ?s1) - 1)"
      using A select False by (auto simp: audited_def reset_trail_def)
    moreover have "\<not> ar_TriggeredRotation (audit (rs_calls s) ! (length (rs_calls s) - 1))"
      using calls by (simp add: audit_record_def)
    ultimately show ?thesis using calls(1) confirm_rotation_trail [of ?s1] unfolding s2 by simp
  qed
qed

lemma note_rotation_attempts [simp]: "map ar_Attempt (note_rotation i t) = map ar_Attempt t"
  unfolding note_rotation_def by (rule nth_equalityI) (auto simp: nth_list_update)

lemma audit_attempts: "map ar_Attempt (audit calls) = map int [0..<length calls]"
  by (simp add: audit_def audit_record_def)

lemma prepared_trail:
  assumes A: "audited env a s" "a \<le> budget env s" and kp: "env_keyProvider env = Some kp"
    and ok: "snd (select_key env a (reset_trail env a s)) = None"
  shows "rs_trail (prepared env a s) = audit (rs_calls s @ [(rs_currentKey (prepared env a s), None)])"
    and "rs_pendingRotation (prepared env a s) = None"
proof -
  define s2 where "s2 = fst (select_key env a (reset_trail env a s))"
  have t: "rs_trail s2 = note_rotation (k_ID (rs_currentKey s2)) (audit (rs_calls s))" "rs_pendingRotation s2 = None"
    using select_key_trail [OF assms] unfolding s2_def by blast+
  have a: "a = int (length (rs_calls s))" using A(1) by (simp add: audited_def running_def)
  have "int (length (rs_calls s)) \<notin> set (map ar_Attempt (rs_trail s2))"
    unfolding t(1) note_rotation_attempts audit_attempts by auto
  then have "fresh_record (length (rs_calls s)) (rs_currentKey s2) \<notin> set (rs_trail s2)"
    by (force simp: fresh_record_def)
  then have "rs_trail (append_trail env a s2) = audit (rs_calls s @ [(rs_currentKey s2, None)])"
    using kp a t(1) by (simp add: append_trail_def Let_def audit_snoc fresh_record_def)
  then show "rs_trail (prepared env a s) = audit (rs_calls s @ [(rs_currentKey (prepared env a s), None)])"
    by (simp add: prepared_def s2_def)
  show "rs_pendingRotation (prepared env a s) = None"
    using t(2) by (simp add: prepared_def s2_def append_trail_def back_off_def Let_def)
qed

lemma failed_trail:
  assumes "audited env a s" "a \<le> budget env s" "env_keyProvider env = Some kp"
    "snd (select_key env a (reset_trail env a s)) = None"
    and "rs_bifrostError (called env a s) = Some e" "\<not> terminal_error e"
  shows "rs_trail (record_failure e (called env a s)) = audit (rs_calls (called env a s))"
proof -
  have "rs_trail (called env a s) = audit (rs_calls s @ [(rs_currentKey (prepared env a s), None)])"
    using prepared_trail(1) [OF assms(1-4)] by simp
  from audit_failed [OF assms(6) this] show ?thesis using assms(5) by simp
qed

lemma after_failure_pending:
  assumes "env_keyProvider env \<noteq> None"
  shows "rs_pendingRotation (after_failure env a e s) =
    (if is_per_key_failure e \<and> a < budget env s \<and> rs_trail s \<noteq> [] then Some (length (rs_trail s) - 1)
     else rs_pendingRotation s)"
  using assms by (auto simp: after_failure_def track_key_def Let_def split: option.splits)

lemma audited_step:
  assumes A: "audited env a s" "a \<le> budget env s" and kp: "env_keyProvider env = Some kp"
    and b: "retry_body env a s = (s', f)" and tracer: "\<And>w. env_hasTracer env w"
  shows "if f = Next then audited env (a + 1) s' else rs_trail s' = audit (rs_calls s')"
  using b
proof (cases rule: retry_body_cases)
  case (NoKey e)
  have "rs_trail s' = rs_trail (reset_trail env a s)"
    using NoKey(1, 2) kp by (auto simp: select_key_def split_beta Let_def split: sum.splits if_splits)
  moreover have "rs_calls s' = rs_calls s" using NoKey by (simp add: reset_trail_def)
  ultimately show ?thesis
    using A(1) kp NoKey(3) by (cases "a = 0") (auto simp: audited_def running_def reset_trail_def)
next
  case NoTracer
  then show ?thesis using tracer by simp
next
  case Done
  then show ?thesis using prepared_trail [OF A kp Done(1)] audit_final [OF Done(4)] by simp
next
  case (GiveUp e)
  have "rs_trail (record_failure e (called env a s)) = audit (rs_calls (called env a s))"
    by (rule failed_trail [OF A kp GiveUp(1-3)])
  then show ?thesis using GiveUp by (simp add: settled_def)
next
  case (Again e)
  have t: "rs_trail s' = audit (rs_calls s')"
    using failed_trail [OF A kp Again(1-3)] Again(5) by (simp add: settled_def)
  have "rs_pendingRotation (settled env a e s) = None"
    using prepared_trail(2) [OF A kp Again(1)]
    by (simp add: settled_def strip_encrypted_def record_failure_def called_def run_attempt_def split_beta Let_def)
  then have "rs_pendingRotation s' = (if is_per_key_failure e \<and> a < budget env s' then Some (length (rs_calls s') - 1) else None)"
    using kp t Again(5) after_failure_pending [of env a e "settled env a e s"]
    by (auto simp: settled_def)
  moreover have "running (a + 1) s'" using running_step [of a s env s'] A(1) b Again(6) by (simp add: audited_def)
  ultimately show ?thesis using t Again by (auto simp: audited_def running_def)
qed


lemma loop_trail:
  assumes "retry_loop env 0 (init_state w trail selected) = (a, s, f)" "0 \<le> nc_MaxRetries (env_config env)"
    and kp: "env_keyProvider env = Some kp" and tracer: "\<And>w. env_hasTracer env w"
  shows "rs_trail s = audit (rs_calls s)"
  using assms(1)
proof (rule retry_loop_invariant [where I = "\<lambda>a s. audited env a s \<and> extra_ok s"
      and Q = "\<lambda>a s f. rs_trail s = audit (rs_calls s)"])
  show "audited env 0 (init_state w trail selected) \<and> extra_ok (init_state w trail selected)"
    by (simp add: audited_def running_init) (simp add: init_state_def extra_ok_def)
next
  fix a s s'
  assume "audited env a s \<and> extra_ok s" "a \<le> budget env s" "retry_body env a s = (s', Next)"
  then show "audited env (a + 1) s' \<and> extra_ok s'"
    using audited_step [OF _ _ kp _ tracer, of a s s' Next] body_extra_ok [of s env a s' Next] by simp
next
  fix a s s' f
  assume "audited env a s \<and> extra_ok s" "a \<le> budget env s" "retry_body env a s = (s', f)" "f \<noteq> Next"
  then show "rs_trail s' = audit (rs_calls s')"
    using audited_step [OF _ _ kp _ tracer, of a s s' f] by simp
next
  fix a s
  assume "audited env a s \<and> extra_ok s" "budget env s < a"
  then show "rs_trail s = audit (rs_calls s)"
    using assms(2) by (auto simp: audited_def extra_ok_def split: if_splits)
qed

text \<open>C37. The attempt trail is exact: after a request with a key provider it holds one record per call of the
  request handler, in order, with the attempt number and the key of the call; the failure reason is
  set on exactly the calls that failed with a non-final error, and the rotation flag on exactly the
  calls whose successor used a different key. Nothing of an earlier request on the same context is
  left in it.\<close>

theorem attempt_trail_exact:
  assumes "0 \<le> nc_MaxRetries (env_config env)" "env_keyProvider env = Some kp" "\<And>w. env_hasTracer env w"
    and "executeRequestWithRetries env w trail selected = (s, r, err)"
  shows "rs_trail s = audit (rs_calls s)"
proof -
  obtain a s0 f where l: "retry_loop env 0 (init_state w trail selected) = (a, s0, f)" by (metis prod.exhaust)
  have "rs_trail s0 = audit (rs_calls s0)" using loop_trail [OF l assms(1-3)] .
  moreover have "rs_trail s = rs_trail s0" "rs_calls s = rs_calls s0"
    using assms(4) by (auto simp: executeRequestWithRetries_def l split: flow.splits if_splits)
  ultimately show ?thesis by simp
qed

subsection \<open>Marks and key rotation\<close>

definition failed_with :: "(BifrostError \<Rightarrow> bool) \<Rightarrow> Key \<times> BifrostError option \<Rightarrow> bool" where
  "failed_with P c \<longleftrightarrow> (case snd c of Some e \<Rightarrow> \<not> terminal_error e \<and> P e | None \<Rightarrow> False)"

abbreviation transient_key_failure :: "Key \<times> BifrostError option \<Rightarrow> bool" where
  "transient_key_failure \<equiv> failed_with (\<lambda>e. is_per_key_failure e \<and> \<not> is_permanent_status e)"

abbreviation permanent_key_failure :: "Key \<times> BifrostError option \<Rightarrow> bool" where
  "permanent_key_failure \<equiv> failed_with is_permanent_status"

definition marks_of :: "(Key \<times> BifrostError option) list \<Rightarrow> (string \<times> BifrostError) list" where
  "marks_of calls = map (\<lambda>c. (k_ID (fst c), the (snd c))) (filter transient_key_failure calls)"

lemma permanent_is_per_key: "is_permanent_status e \<Longrightarrow> is_per_key_failure e"
  by (auto simp: is_permanent_status_def is_per_key_failure_def perKeyFailureStatusCodes_def split: option.splits)

lemma after_failure_marks:
  assumes "env_keyProvider env \<noteq> None" "env_marker env \<noteq> None"
  shows "rs_marks (after_failure env a e s) =
    rs_marks s @ (if is_per_key_failure e \<and> \<not> is_permanent_status e then [(k_ID (rs_currentKey s), e)] else [])"
  using assms by (auto simp: after_failure_def track_key_def Let_def)

lemma after_failure_dead:
  assumes "env_keyProvider env \<noteq> None"
  shows "rs_deadKeyIDs (after_failure env a e s) =
    (if is_permanent_status e then insert (k_ID (rs_currentKey s)) (rs_deadKeyIDs s) else rs_deadKeyIDs s)"
  using assms permanent_is_per_key by (auto simp: after_failure_def track_key_def Let_def split: option.splits)

lemma body_marks:
  assumes "rs_marks s = marks_of (rs_calls s)" "retry_body env a s = (s', f)"
    and "env_keyProvider env \<noteq> None" "env_marker env \<noteq> None"
  shows "rs_marks s' = marks_of (rs_calls s')"
  using assms(2)
proof (cases rule: retry_body_cases)
  case (NoKey e)
  then show ?thesis using assms(1) by (simp add: reset_trail_def)
next
  case Done
  then show ?thesis using assms(1) by (auto simp: marks_of_def failed_with_def split: option.splits)
next
  case (GiveUp e)
  then show ?thesis using assms(1) by (auto simp: marks_of_def failed_with_def should_retry_def)
next
  case (Again e)
  then show ?thesis
    using assms(1) after_failure_marks [OF assms(3, 4)] by (simp add: marks_of_def failed_with_def)
qed (use assms(1) in simp)

text \<open>The failure marker is told of every transient failure of a key: over a request, the marker is called
  once for each call of the request handler that failed with a rate limit or quota error of its key,
  in order, with that key and error - also when a later attempt succeeds, also on the last attempt -
  and for no other call; authentication, billing and permission failures are not signalled.\<close>

theorem marker_sees_transient_failures:
  assumes "env_keyProvider env \<noteq> None" "env_marker env \<noteq> None"
    and "executeRequestWithRetries env w trail selected = (s, r, err)"
  shows "rs_marks s = marks_of (rs_calls s)"
proof -
  obtain a s0 f where l: "retry_loop env 0 (init_state w trail selected) = (a, s0, f)" by (metis prod.exhaust)
  have "rs_marks (init_state w trail selected :: ('a, 'b) retry_state) =
      marks_of (rs_calls (init_state w trail selected :: ('a, 'b) retry_state))"
    by (simp add: init_state_def marks_of_def)
  then have "rs_marks s0 = marks_of (rs_calls s0)"
    by (rule retry_loop_invariant [OF l, where I = "\<lambda>a s. rs_marks s = marks_of (rs_calls s)"
          and Q = "\<lambda>a s f. rs_marks s = marks_of (rs_calls s)"])
      (blast intro: body_marks [OF _ _ assms(1, 2)])+
  moreover have "rs_marks s = rs_marks s0" "rs_calls s = rs_calls s0"
    using assms(3) by (auto simp: executeRequestWithRetries_def l split: flow.splits if_splits)
  ultimately show ?thesis by simp
qed

text \<open>How the keys of the calls follow one another: a key that failed for good is not used again, and the
  key changes only after a failure of the key.\<close>

definition keys_rotate :: "(Key \<times> BifrostError option) list \<Rightarrow> bool" where
  "keys_rotate calls \<longleftrightarrow>
     sorted_wrt (\<lambda>c d. permanent_key_failure c \<longrightarrow> k_ID (fst d) \<noteq> k_ID (fst c)) calls
     \<and> successively (\<lambda>c d. failed_with is_per_key_failure c \<or> fst d = fst c) calls"

definition rotation_inv :: "Key set \<Rightarrow> int \<Rightarrow> ('w, 'r) retry_state \<Rightarrow> bool" where
  "rotation_inv pool a s \<longleftrightarrow> running a s \<and> keys_rotate (rs_calls s) \<and> list_all (\<lambda>c. fst c \<in> pool) (rs_calls s)
     \<and> list_all (\<lambda>c. permanent_key_failure c \<longrightarrow> k_ID (fst c) \<in> rs_deadKeyIDs s) (rs_calls s)
     \<and> (rs_calls s \<noteq> [] \<and> \<not> rs_lastWasPerKeyFailure s \<longrightarrow> k_ID (rs_currentKey s) \<notin> rs_deadKeyIDs s)"

lemma rotation_inv_rotates: "rotation_inv pool a s \<Longrightarrow> keys_rotate (rs_calls s) \<and> list_all (\<lambda>c. fst c \<in> pool) (rs_calls s)"
  by (simp add: rotation_inv_def)

lemma keys_rotate_snoc:
  "keys_rotate (calls @ [c]) \<longleftrightarrow> keys_rotate calls
     \<and> list_all (\<lambda>d. permanent_key_failure d \<longrightarrow> k_ID (fst c) \<noteq> k_ID (fst d)) calls
     \<and> (calls = [] \<or> failed_with is_per_key_failure (last calls) \<or> fst c = fst (last calls))"
  by (auto simp: keys_rotate_def sorted_wrt_append successively_append_iff list_all_iff)

text \<open>What the loop relies on for rotation: a key provider never returns a key it was told is dead.\<close>

locale live_key_provider =
  fixes provider :: "'w key_provider"
    and offered :: "Key set"
  assumes not_dead: "snd (snd (provider used dead w)) = Inr k \<Longrightarrow> k_ID k \<notin> dead"
    and from_pool: "snd (snd (provider used dead w)) = Inr k \<Longrightarrow> k \<in> offered"
begin

lemma prepared_key:
  assumes "rotation_inv offered a s" "env_keyProvider env = Some provider" "snd (select_key env a (reset_trail env a s)) = None"
  shows "k_ID (rs_currentKey (prepared env a s)) \<notin> rs_deadKeyIDs s \<and> rs_currentKey (prepared env a s) \<in> offered
    \<and> (a = 0 \<or> rs_lastWasPerKeyFailure s \<or> rs_currentKey (prepared env a s) = rs_currentKey s)"
proof (cases "a = 0 \<or> rs_lastWasPerKeyFailure s")
  case True
  let ?r = "provider (rs_usedKeyIDs s) (rs_deadKeyIDs s) (rs_world s)"
  obtain k where "snd (snd ?r) = Inr k" "rs_currentKey (prepared env a s) = k"
    using assms(2, 3) True
    by (auto simp: prepared_def select_key_def reset_trail_def split_beta Let_def split: sum.splits if_splits)
  then show ?thesis using not_dead from_pool True by blast
next
  case False
  then have "rs_currentKey (prepared env a s) = rs_currentKey s"
    using assms(2) by (simp add: prepared_def select_key_def reset_trail_def)
  moreover have "rs_calls s \<noteq> []" using assms(1) False by (auto simp: rotation_inv_def running_def)
  ultimately show ?thesis
    using assms(1) False by (auto simp: rotation_inv_def running_def list_all_iff)
qed

lemma called_rotates:
  assumes "rotation_inv offered a s" "env_keyProvider env = Some provider" "snd (select_key env a (reset_trail env a s)) = None"
  shows "keys_rotate (rs_calls (called env a s)) \<and> list_all (\<lambda>c. fst c \<in> offered) (rs_calls (called env a s))"
proof -
  have "failed_with is_per_key_failure (last (rs_calls s))" if "rs_calls s \<noteq> []" "rs_lastWasPerKeyFailure s"
    using assms(1) that by (auto simp: rotation_inv_def running_def list_all_iff failed_with_def retryable_def
        dest!: last_in_set)
  then show ?thesis
    using prepared_key [OF assms] assms(1)
    by (auto simp: keys_rotate_snoc rotation_inv_def running_def list_all_iff)
qed

lemma rotation_step:
  assumes I: "rotation_inv offered a s" and kp: "env_keyProvider env = Some provider" and b: "retry_body env a s = (s', f)"
  shows "keys_rotate (rs_calls s') \<and> list_all (\<lambda>c. fst c \<in> offered) (rs_calls s')" and "f = Next \<Longrightarrow> rotation_inv offered (a + 1) s'"
proof -
  show "keys_rotate (rs_calls s') \<and> list_all (\<lambda>c. fst c \<in> offered) (rs_calls s')"
    using b
  proof (cases rule: retry_body_cases)
    case (NoKey e)
    then show ?thesis using I by (simp add: rotation_inv_def reset_trail_def)
  next
    case NoTracer
    then show ?thesis using I by (simp add: rotation_inv_def)
  qed (use called_rotates [OF I kp] in simp_all)
  show "rotation_inv offered (a + 1) s'" if "f = Next"
    using b
  proof (cases rule: retry_body_cases)
    case (Again e)
    have k: "k_ID (rs_currentKey (prepared env a s)) \<notin> rs_deadKeyIDs s" using prepared_key [OF I kp Again(1)] by blast
    have "running (a + 1) s'" using running_step [of a s env s'] I b that by (simp add: rotation_inv_def)
    moreover have "rs_deadKeyIDs s' = (if is_permanent_status e then insert (k_ID (rs_currentKey (prepared env a s))) (rs_deadKeyIDs s)
        else rs_deadKeyIDs s)"
      using after_failure_dead [of env a e "settled env a e s"] kp Again(5) by simp
    moreover have "\<not> is_permanent_status e" if "\<not> is_per_key_failure e" using that permanent_is_per_key by blast
    ultimately show ?thesis
      using I Again k called_rotates [OF I kp Again(1)]
      by (auto simp: rotation_inv_def failed_with_def list_all_iff)
  qed (use that in simp_all)
qed

lemma loop_rotates:
  assumes "env_keyProvider env = Some provider" "executeRequestWithRetries env w trail selected = (s, r, err)"
  shows "keys_rotate (rs_calls s) \<and> list_all (\<lambda>c. fst c \<in> offered) (rs_calls s)"
proof -
  obtain a s0 f where l: "retry_loop env 0 (init_state w trail selected) = (a, s0, f)" by (metis prod.exhaust)
  have "rotation_inv offered 0 (init_state w trail selected :: ('w, 'a) retry_state)"
    by (simp add: rotation_inv_def running_init) (simp add: init_state_def keys_rotate_def)
  then have "keys_rotate (rs_calls s0) \<and> list_all (\<lambda>c. fst c \<in> offered) (rs_calls s0)"
    by (rule retry_loop_invariant [OF l,
          where Q = "\<lambda>a s f. keys_rotate (rs_calls s) \<and> list_all (\<lambda>c. fst c \<in> offered) (rs_calls s)"])
      (erule rotation_step(2) [OF _ assms(1) _ refl], assumption,
       erule rotation_step(1) [OF _ assms(1)], assumption, erule rotation_inv_rotates)
  moreover have "rs_calls s = rs_calls s0"
    using assms(2) by (auto simp: executeRequestWithRetries_def l split: flow.splits if_splits)
  ultimately show ?thesis by simp
qed

end


subsection \<open>The gateway's key providers\<close>

context key_source
begin

lemma rotating_not_dead:
  assumes "snd (snd (rotatingKeyProvider (Some flt) sel p m ks used dead w)) = Inr k"
  shows "k \<in> set ks \<and> k_ID k \<notin> dead"
proof -
  let ?a0 = "filter (\<lambda>k. \<not> (k_ID k \<in> dead \<or> k_ID k \<in> used)) ks"
  let ?f1 = "run_filter (Some flt) w p m ?a0"
  let ?f2 = "run_filter (Some flt) (fst ?f1) p m (filter (\<lambda>k. k_ID k \<notin> dead) ks)"
  have "\<exists>w' xs. snd (sel w' xs p m) = Inr k \<and> (xs = snd ?f1 \<or> xs = snd ?f2)"
    using assms by (auto simp: rotatingKeyProvider_def split_beta Let_def split: if_splits sum.splits)
  then have "k \<in> set (snd ?f1) \<union> set (snd ?f2)" using sel_offered by blast
  then show ?thesis by (auto simp: run_filter_result)
qed

end

text \<open>The world of a request: what the key provider acts on, and the clock it reads.\<close>

type_synonym request_world = "key_world \<times> instant"

definition pool_key_provider :: "ModelProvider \<Rightarrow> string \<Rightarrow> Key list \<Rightarrow> request_world key_provider" where
  "pool_key_provider p m pool used dead w =
     (let (x, u, r) = rotatingKeyProvider (Some (cooldown_filter (snd w))) weighted_selector p m pool used dead (fst w)
      in ((x, snd w), u, r))"

definition single_key_provider :: "ModelProvider \<Rightarrow> string \<Rightarrow> Key \<Rightarrow> request_world key_provider" where
  "single_key_provider p m k used dead w =
     (let (x, u, r) = newFixedKeyProvider (Some (cooldown_filter (snd w))) p m k used dead (fst w) in ((x, snd w), u, r))"

interpretation pool_keys: live_key_provider "pool_key_provider p m pool" "set pool" for p m pool
proof unfold_locales
  fix used dead :: "string set" and w :: request_world and k
  assume "snd (snd (pool_key_provider p m pool used dead w)) = Inr k"
  then have "snd (snd (rotatingKeyProvider (Some (cooldown_filter (snd w))) weighted_selector p m pool used dead (fst w))) = Inr k"
    by (simp add: pool_key_provider_def split_beta Let_def)
  then show "k_ID k \<notin> dead" "k \<in> set pool" using gateway_keys.rotating_not_dead by blast+
qed

interpretation single_key: live_key_provider "single_key_provider p m k" "{k}" for p m k
  by unfold_locales
    (auto simp: single_key_provider_def newFixedKeyProvider_def split_beta Let_def split: if_splits)

text \<open>C24. How a request goes through a rotating pool of keys, whatever the handler does: every call uses a key of
  the pool, a key that failed with
  401, 402 or 403 is not used again in the request, and two successive calls use the same key unless
  the first of them failed because of its key - server and network errors, and the attempt without
  encrypted reasoning, stay on the key.\<close>

theorem dead_keys_not_reused:
  assumes "env_keyProvider env = Some (pool_key_provider p m pool)"
    and "executeRequestWithRetries env w trail selected = (s, r, err)"
  shows "sorted_wrt (\<lambda>c d. permanent_key_failure c \<longrightarrow> k_ID (fst d) \<noteq> k_ID (fst c)) (rs_calls s)
    \<and> successively (\<lambda>c d. failed_with is_per_key_failure c \<or> fst d = fst c) (rs_calls s)
    \<and> list_all (\<lambda>c. fst c \<in> set pool) (rs_calls s)"
  using pool_keys.loop_rotates [OF assms] by (simp add: keys_rotate_def)

subsection \<open>Backoff\<close>

text \<open>The backoff grows geometrically up to its maximum: where the product of the initial backoff and
  the power of two fits 64 bits and the jitter stays within the advertised twenty percent, the wait
  before retry \<open>n + 1\<close> is at least eighty percent of the smaller of \<open>initial * 2^n\<close> and the
  maximum, and at most the maximum and a hundred and twenty percent of that product.\<close>

theorem backoff_range:
  assumes "0 \<le> nc_RetryBackoffInitial config" "0 \<le> nc_RetryBackoffMax config" "n < 63"
    and "nc_RetryBackoffInitial config * 2 ^ n < 2 ^ 63"
    and jitter: "\<And>d. 0 \<le> d \<Longrightarrow> 8 * d \<le> 10 * jitter d + 10 \<and> 10 * jitter d \<le> 12 * d"
  shows "8 * min (nc_RetryBackoffInitial config * 2 ^ n) (nc_RetryBackoffMax config) \<le> 10 * calculateBackoff jitter n config + 10
    \<and> calculateBackoff jitter n config \<le> nc_RetryBackoffMax config
    \<and> 10 * calculateBackoff jitter n config \<le> 12 * (nc_RetryBackoffInitial config * 2 ^ n)"
proof -
  let ?i = "nc_RetryBackoffInitial config" and ?m = "nc_RetryBackoffMax config"
  have "(2 :: int) ^ n < 2 ^ 63" using assms(3) by (rule power_strict_increasing) simp
  moreover have "- (2 ^ 63) \<le> (2 :: int) ^ n" by (rule order_trans [of _ 0]) simp_all
  ultimately have "shift_one n = 2 ^ n" using assms(3) wrap64_id [of "2 ^ n"] by (simp add: shift_one_def)
  moreover have nonneg: "0 \<le> ?i * 2 ^ n" using assms(1) by simp
  ultimately have b: "wrap64 (?i * shift_one n) = ?i * 2 ^ n"
    using wrap64_id [of "?i * 2 ^ n"] assms(4) by simp
  have "calculateBackoff jitter n config = min (jitter (min (?i * 2 ^ n) ?m)) ?m"
    by (simp add: calculateBackoff_def b)
  moreover have "8 * min (?i * 2 ^ n) ?m \<le> 10 * jitter (min (?i * 2 ^ n) ?m) + 10
      \<and> 10 * jitter (min (?i * 2 ^ n) ?m) \<le> 12 * min (?i * 2 ^ n) ?m"
    using jitter nonneg assms(2) by simp
  ultimately show ?thesis using nonneg assms(2) by (auto simp: min_def split: if_splits)
qed

theorem backoff_range_witness:
  "calculateBackoff (\<lambda>d. d) 3 \<lparr>nc_MaxRetries = 5, nc_RetryBackoffInitial = 500, nc_RetryBackoffMax = 5000\<rparr> \<le> 5000"
  using backoff_range [of "\<lparr>nc_MaxRetries = 5, nc_RetryBackoffInitial = 500, nc_RetryBackoffMax = 5000\<rparr>" 3 "\<lambda>d. d"]
  by simp



subsection \<open>A sample request\<close>

text \<open>Two keys; the upstream rejects the first as unauthorized and serves the second.\<close>

definition sample_handler :: "request_world \<Rightarrow> Key \<Rightarrow> request_world \<times> int attempt_result \<times> BifrostError option" where
  "sample_handler w k =
     (if k_ID k = ''a'' then (w, Zero, Some (zeroError\<lparr>be_StatusCode := Some 401\<rparr>)) else (w, Response 7, None))"

definition sample_env :: "(request_world, int) retry_env" where
  "sample_env =
     \<lparr>env_requestHandler = sample_handler,
      env_keyProvider = Some (pool_key_provider OpenAI ''gpt-4'' [sample_key ''a'' 100, sample_key ''b'' 50]),
      env_errorText = (\<lambda>_. ''no key''), env_marker = Some (\<lambda>w _ _ _ _ _. w), env_strip = (\<lambda>w. (w, False)),
      env_retryAfter = (\<lambda>_. None), env_clearConnectionClosed = (\<lambda>w. w), env_hasTracer = (\<lambda>_. True),
      env_jitter = (\<lambda>_ d. d),
      env_config = \<lparr>nc_MaxRetries = 2, nc_RetryBackoffInitial = 500, nc_RetryBackoffMax = 5000\<rparr>,
      env_providerKey = OpenAI, env_model = ''gpt-4''\<rparr>"

abbreviation sample_result :: "(request_world, int) retry_state \<times> int attempt_result \<times> BifrostError option" where
  "sample_result \<equiv> executeRequestWithRetries sample_env ((NewCooldownState 0, [0, 0]), 5) [] ('''', '''')"

lemma sample_env_ok:
  "0 \<le> nc_MaxRetries (env_config sample_env)" "env_hasTracer sample_env w"
  "env_keyProvider sample_env = Some (pool_key_provider OpenAI ''gpt-4'' [sample_key ''a'' 100, sample_key ''b'' 50])"
  "env_marker sample_env \<noteq> None"
  by (simp_all add: sample_env_def)

lemma sample_split: "sample_result = (fst sample_result, fst (snd sample_result), snd (snd sample_result))"
  by simp

theorem retries_bounded_witness: "length (rs_calls (fst sample_result)) \<le> 4"
  using retries_bounded [OF sample_env_ok(1) sample_split] by (simp add: sample_env_def split: if_splits)


theorem attempt_trail_exact_witness: "rs_trail (fst sample_result) = audit (rs_calls (fst sample_result))"
  by (rule attempt_trail_exact [OF sample_env_ok(1) sample_env_ok(3) sample_env_ok(2) sample_split])

theorem marker_sees_transient_failures_witness: "rs_marks (fst sample_result) = marks_of (rs_calls (fst sample_result))"
  using marker_sees_transient_failures [OF _ sample_env_ok(4) sample_split] sample_env_ok(3) by simp

theorem dead_keys_not_reused_witness:
  "list_all (\<lambda>c. fst c \<in> set [sample_key ''a'' 100, sample_key ''b'' 50]) (rs_calls (fst sample_result))"
  using dead_keys_not_reused [OF sample_env_ok(3) sample_split] by blast

end
