(* ===== verification/Request_Context.thy ===== *)
theory Request_Context
  imports Cooldown_Policy
begin

text \<open>
  The request context (\<open>core/schemas/context.go\<close>): a mutable map of values over a parent context, with a
  guard that drops writes to reserved keys while plugins run. A scoped context, which plugins receive,
  delegates every operation to its root, so the operations are those of the root. The map is nil
  (\<^const>\<open>None\<close>) until the first write; a cleared key holds nil, which hides the parent's value. The parent
  is the function that looks a key up in it. Cancellation and deadlines are not modelled.
\<close>

datatype ctx_value =
    CInt int
  | CString string
  | CBool bool
  | CRouting RoutingInfo
  | CTrail "KeyAttemptRecord list"
  | CStrings "string list"
  | CProviderKeys ModelProvider "Key list"
  | CPolicy CooldownPolicy
  | CKey Key
  | COther string

record BifrostContext =
  cx_userValues :: "(string, ctx_value option) gomap option"
  cx_parent :: "string \<Rightarrow> ctx_value option"
  cx_blockRestrictedWrites :: bool

subsection \<open>Keys\<close>

abbreviation KeyAPIKeyName :: string where "KeyAPIKeyName \<equiv> ''x-bf-api-key''"
abbreviation KeyAPIKeyID :: string where "KeyAPIKeyID \<equiv> ''x-bf-api-key-id''"
abbreviation KeyRequestID :: string where "KeyRequestID \<equiv> ''request-id''"
abbreviation KeyFallbackRequestID :: string where "KeyFallbackRequestID \<equiv> ''fallback-request-id''"
abbreviation KeyFallbackIndex :: string where "KeyFallbackIndex \<equiv> ''bifrost-fallback-index''"
abbreviation KeyRoutingInfo :: string where "KeyRoutingInfo \<equiv> ''bifrost-routing-info''"
abbreviation KeyAttemptTrail :: string where "KeyAttemptTrail \<equiv> ''bifrost-attempt-trail''"
abbreviation KeySilentLog :: string where "KeySilentLog \<equiv> ''bifrost-silent-log''"
abbreviation KeyRetryAfterSeconds :: string where "KeyRetryAfterSeconds \<equiv> ''bifrost-retry-after-seconds''"
abbreviation KeyRoutingPinnedAPIKeyID :: string where
  "KeyRoutingPinnedAPIKeyID \<equiv> ''bifrost-routing-pinned-api-key-id''"
abbreviation KeyRoutingEnginesUsed :: string where "KeyRoutingEnginesUsed \<equiv> ''bifrost-routing-engines-used''"
abbreviation KeyTracer :: string where "KeyTracer \<equiv> ''bifrost-tracer''"
abbreviation KeyProviderKeys :: string where "KeyProviderKeys \<equiv> ''bifrost-provider-keys''"
abbreviation KeyCooldownPolicy :: string where "KeyCooldownPolicy \<equiv> ''bifrost-cooldown-policy''"
abbreviation KeyDropRawRequest :: string where "KeyDropRawRequest \<equiv> ''bifrost-drop-raw-request-from-client''"
abbreviation KeyDropRawResponse :: string where "KeyDropRawResponse \<equiv> ''bifrost-drop-raw-response-from-client''"
abbreviation KeyStreamStartTime :: string where "KeyStreamStartTime \<equiv> ''bifrost-stream-start-time''"
abbreviation KeySpanID :: string where "KeySpanID \<equiv> ''bifrost-span-id''"
abbreviation KeySkipPluginPipeline :: string where "KeySkipPluginPipeline \<equiv> ''bifrost-skip-plugin-pipeline''"

definition reservedKeys :: "string list" where
  "reservedKeys =
    [''x-bf-vk'', KeyAPIKeyName, KeyAPIKeyID, ''x-bf-direct-key'', KeyRequestID, KeyFallbackRequestID,
     ''bifrost-selected-key-id'', ''bifrost-selected-key-name'', ''bifrost-number-of-retries'',
     KeyFallbackIndex, ''bifrost-skip-key-selection'', ''bifrost-anthropic-passthrough-headers'',
     ''bifrost-skip-budget-and-rate-limits'', ''bifrost-extra-url-path'', ''bifrost-defer-trace-completion'',
     KeyAttemptTrail, ''bifrost-stream-gated'', ''bifrost-mcp-health-check-request'',
     ''bifrost-upstream-latency'', KeyRoutingInfo, ''bifrost-mcp-inbound-bearer'']"

subsection \<open>Operations\<close>

definition BlockRestrictedWrites :: "BifrostContext \<Rightarrow> BifrostContext" where
  "BlockRestrictedWrites bc = bc\<lparr>cx_blockRestrictedWrites := True\<rparr>"

definition UnblockRestrictedWrites :: "BifrostContext \<Rightarrow> BifrostContext" where
  "UnblockRestrictedWrites bc = bc\<lparr>cx_blockRestrictedWrites := False\<rparr>"

definition Value :: "BifrostContext \<Rightarrow> string \<Rightarrow> ctx_value option" where
  "Value bc k =
     (case cx_userValues bc of
        None \<Rightarrow> cx_parent bc k
      | Some m \<Rightarrow> (case mapget m k of Some v \<Rightarrow> v | None \<Rightarrow> cx_parent bc k))"

definition put_value :: "string \<Rightarrow> ctx_value option \<Rightarrow> BifrostContext \<Rightarrow> BifrostContext" where
  "put_value k v bc =
     bc\<lparr>cx_userValues := Some (mapput k v (case cx_userValues bc of Some m \<Rightarrow> m | None \<Rightarrow> []))\<rparr>"

definition SetValue :: "string \<Rightarrow> ctx_value \<Rightarrow> BifrostContext \<Rightarrow> BifrostContext" where
  "SetValue k v bc =
     (if cx_blockRestrictedWrites bc \<and> k \<in> set reservedKeys then bc else put_value k (Some v) bc)"

definition setReservedValue :: "string \<Rightarrow> ctx_value \<Rightarrow> BifrostContext \<Rightarrow> BifrostContext" where
  "setReservedValue k v bc = put_value k (Some v) bc"

definition SetRoutingInfoSnapshot :: "RoutingInfo \<Rightarrow> BifrostContext \<Rightarrow> BifrostContext" where
  "SetRoutingInfoSnapshot ri bc = setReservedValue KeyRoutingInfo (CRouting ri) bc"

definition ClearValue :: "string \<Rightarrow> BifrostContext \<Rightarrow> BifrostContext" where
  "ClearValue k bc =
     (if cx_blockRestrictedWrites bc \<and> k \<in> set reservedKeys then bc
      else case cx_userValues bc of None \<Rightarrow> bc | Some _ \<Rightarrow> put_value k None bc)"

definition GetAndSetValue :: "string \<Rightarrow> ctx_value \<Rightarrow> BifrostContext \<Rightarrow> BifrostContext \<times> ctx_value option" where
  "GetAndSetValue k v bc =
     (let old = (case cx_userValues bc of
                   Some m \<Rightarrow> (case mapget m k of Some x \<Rightarrow> x | None \<Rightarrow> None)
                 | None \<Rightarrow> None)
      in if cx_blockRestrictedWrites bc \<and> k \<in> set reservedKeys then (bc, old) else (put_value k (Some v) bc, old))"

text \<open>\<open>AppendToContextList\<close> is generic in the element type; \<open>dest\<close> is the type assertion on the stored value
  and \<open>mk\<close> the conversion to the context's value type. The attempt trail and the routing engines are
  its instances.\<close>

definition AppendToContextList ::
    "(ctx_value \<Rightarrow> 'a list option) \<Rightarrow> ('a list \<Rightarrow> ctx_value) \<Rightarrow> string \<Rightarrow> 'a \<Rightarrow> BifrostContext \<Rightarrow> BifrostContext" where
  "AppendToContextList dest mk k v bc =
     (let existing = (case Option.bind (Value bc k) dest of Some t \<Rightarrow> t | None \<Rightarrow> []) in
      if v \<in> set existing then bc else SetValue k (mk (existing @ [v])) bc)"

fun dest_trail :: "ctx_value \<Rightarrow> KeyAttemptRecord list option" where
  "dest_trail (CTrail t) = Some t"
| "dest_trail _ = None"

fun dest_strings :: "ctx_value \<Rightarrow> string list option" where
  "dest_strings (CStrings t) = Some t"
| "dest_strings _ = None"

fun dest_string :: "ctx_value \<Rightarrow> string option" where
  "dest_string (CString t) = Some t"
| "dest_string _ = None"

definition AppendToTrail :: "KeyAttemptRecord \<Rightarrow> BifrostContext \<Rightarrow> BifrostContext" where
  "AppendToTrail = AppendToContextList dest_trail CTrail KeyAttemptTrail"

definition AppendRoutingEngine :: "string \<Rightarrow> BifrostContext \<Rightarrow> BifrostContext" where
  "AppendRoutingEngine = AppendToContextList dest_strings CStrings KeyRoutingEnginesUsed"

subsection \<open>Laws\<close>

lemma Value_put [simp]: "Value (put_value k v bc) k' = (if k' = k then v else Value bc k')"
  by (auto simp: Value_def put_value_def split: option.splits)

lemma put_frame [simp]:
  "cx_blockRestrictedWrites (put_value k v bc) = cx_blockRestrictedWrites bc"
  "cx_userValues (put_value k v bc) \<noteq> None"
  by (simp_all add: put_value_def)

lemma Value_block [simp]:
  "Value (BlockRestrictedWrites bc) k = Value bc k" "Value (UnblockRestrictedWrites bc) k = Value bc k"
  by (simp_all add: Value_def BlockRestrictedWrites_def UnblockRestrictedWrites_def split: option.splits)

lemma block_flag [simp]:
  "cx_blockRestrictedWrites (BlockRestrictedWrites bc)" "\<not> cx_blockRestrictedWrites (UnblockRestrictedWrites bc)"
  by (simp_all add: BlockRestrictedWrites_def UnblockRestrictedWrites_def)

lemma Value_SetValue:
  "\<not> cx_blockRestrictedWrites bc \<Longrightarrow> Value (SetValue k v bc) k' = (if k' = k then Some v else Value bc k')"
  by (simp add: SetValue_def)

lemma SetValue_frame [simp]:
  "cx_blockRestrictedWrites (SetValue k v bc) = cx_blockRestrictedWrites bc"
  "cx_blockRestrictedWrites (ClearValue k bc) = cx_blockRestrictedWrites bc"
  by (simp_all add: SetValue_def ClearValue_def split: option.splits)

lemma SetValue_opens: "\<not> cx_blockRestrictedWrites bc \<Longrightarrow> cx_userValues (SetValue k v bc) \<noteq> None"
  by (simp add: SetValue_def)

lemma ClearValue_open: "cx_userValues bc \<noteq> None \<Longrightarrow> cx_userValues (ClearValue k bc) \<noteq> None"
  by (auto simp: ClearValue_def put_value_def split: option.splits)

lemma Value_ClearValue:
  "\<not> cx_blockRestrictedWrites bc \<Longrightarrow> cx_userValues bc \<noteq> None \<Longrightarrow>
     Value (ClearValue k bc) k' = (if k' = k then None else Value bc k')"
  by (auto simp: ClearValue_def)

text \<open>What a plugin can do to the context.\<close>

datatype ctx_op =
    OpSet string ctx_value
  | OpClear string
  | OpGetAndSet string ctx_value
  | OpAppendTrail KeyAttemptRecord
  | OpAppendStrings string string

fun run_ctx_op :: "ctx_op \<Rightarrow> BifrostContext \<Rightarrow> BifrostContext" where
  "run_ctx_op (OpSet k v) bc = SetValue k v bc"
| "run_ctx_op (OpClear k) bc = ClearValue k bc"
| "run_ctx_op (OpGetAndSet k v) bc = fst (GetAndSetValue k v bc)"
| "run_ctx_op (OpAppendTrail r) bc = AppendToTrail r bc"
| "run_ctx_op (OpAppendStrings k s) bc = AppendToContextList dest_strings CStrings k s bc"

lemma run_ctx_op_blocked:
  assumes "cx_blockRestrictedWrites bc"
  shows "cx_blockRestrictedWrites (run_ctx_op p bc)
    \<and> (k \<in> set reservedKeys \<longrightarrow> Value (run_ctx_op p bc) k = Value bc k)"
  using assms by (cases p) (auto simp: SetValue_def ClearValue_def GetAndSetValue_def AppendToTrail_def
      AppendToContextList_def Let_def split: option.splits)

lemma run_ctx_ops_blocked:
  "cx_blockRestrictedWrites bc \<Longrightarrow> cx_blockRestrictedWrites (fold run_ctx_op ops bc)
     \<and> (k \<in> set reservedKeys \<longrightarrow> Value (fold run_ctx_op ops bc) k = Value bc k)"
proof (induction ops arbitrary: bc)
  case (Cons p ops)
  then show ?case using run_ctx_op_blocked [of bc p k] Cons.IH [of "run_ctx_op p bc"] by simp
qed simp

text \<open>Whatever sequence of writes, clears and appends runs between blocking and unblocking, every reserved
  key has the value it had before.\<close>

lemma reserved_values_protected:
  assumes "k \<in> set reservedKeys"
  shows "Value (UnblockRestrictedWrites (fold run_ctx_op ops (BlockRestrictedWrites bc))) k = Value bc k"
  using run_ctx_ops_blocked [of "BlockRestrictedWrites bc" ops k] assms by simp

end
