(* ===== verification/Requests.thy ===== *)
theory Requests
  imports Schemas
begin

text \<open>
  The accessors of \<open>BifrostRequest\<close> and \<open>BifrostResponse\<close> (\<open>core/schemas/bifrost.go\<close>). A
  \<open>BifrostRequest\<close> has one pointer per kind of request; here it is a function from the kinds, whose
  accessors try the kinds in the order of the Go \<open>switch\<close>. Of a sub-request only the provider, the
  model (always \<^const>\<open>Some\<close> where the Go field is a plain string), the fallbacks and an opaque body are
  kept. Of a response only the extra fields of the variant that is set (\<^const>\<open>None\<close> if none is) and an
  opaque body are kept; the fields kept are those response and error have in common, so both use one record.
\<close>

subsection \<open>Requests\<close>

datatype request_kind =
    RListModels | RTextCompletion | RChat | RResponses | RResponsesRetrieve | RResponsesDelete
  | RResponsesCancel | RResponsesInputItems | RCountTokens | RCompaction | REmbedding | RRerank | ROCR
  | RSpeech | RTranscription | RImageGeneration | RImageEdit | RImageVariation | RVideoGeneration
  | RVideoRetrieve | RVideoDownload | RVideoList | RVideoDelete | RVideoRemix | RFileUpload | RFileList
  | RFileRetrieve | RFileDelete | RFileContent | RCachedContentCreate | RCachedContentList
  | RCachedContentRetrieve | RCachedContentUpdate | RCachedContentDelete | RBatchCreate | RBatchList
  | RBatchRetrieve | RBatchCancel | RBatchResults | RBatchDelete | RContainerCreate | RContainerList
  | RContainerRetrieve | RContainerDelete | RContainerFileCreate | RContainerFileList
  | RContainerFileRetrieve | RContainerFileContent | RContainerFileDelete | RPassthrough

record sub_request =
  sr_Provider :: ModelProvider
  sr_Model :: "string option"
  sr_Fallbacks :: "Fallback list"
  sr_Body :: string

record BifrostRequest =
  br_RequestType :: RequestType
  br_part :: "request_kind \<Rightarrow> sub_request option"

definition all_kinds :: "request_kind list" where
  "all_kinds =
    [RListModels, RTextCompletion, RChat, RResponses, RResponsesRetrieve, RResponsesDelete,
     RResponsesCancel, RResponsesInputItems, RCountTokens, RCompaction, REmbedding, RRerank, ROCR,
     RSpeech, RTranscription, RImageGeneration, RImageEdit, RImageVariation, RVideoGeneration,
     RVideoRetrieve, RVideoDownload, RVideoList, RVideoDelete, RVideoRemix, RFileUpload, RFileList,
     RFileRetrieve, RFileDelete, RFileContent, RCachedContentCreate, RCachedContentList,
     RCachedContentRetrieve, RCachedContentUpdate, RCachedContentDelete, RBatchCreate, RBatchList,
     RBatchRetrieve, RBatchCancel, RBatchResults, RBatchDelete, RContainerCreate, RContainerList,
     RContainerRetrieve, RContainerDelete, RContainerFileCreate, RContainerFileList,
     RContainerFileRetrieve, RContainerFileContent, RContainerFileDelete, RPassthrough]"

text \<open>The kinds whose model \<open>GetRequestFields\<close> reports as the empty string, and those whose fallbacks it
  reports.\<close>

definition modelless_kinds :: "request_kind list" where
  "modelless_kinds =
    [RListModels, RResponsesRetrieve, RResponsesDelete, RResponsesCancel, RResponsesInputItems,
     RVideoRetrieve, RVideoDownload, RVideoList, RVideoDelete, RVideoRemix, RContainerCreate,
     RContainerList, RContainerRetrieve, RContainerDelete, RContainerFileCreate, RContainerFileList,
     RContainerFileRetrieve, RContainerFileContent, RContainerFileDelete]"

definition fallback_kinds :: "request_kind list" where
  "fallback_kinds =
    [RTextCompletion, RChat, RResponses, RCountTokens, RCompaction, REmbedding, RRerank, ROCR,
     RSpeech, RTranscription, RImageGeneration, RImageEdit, RImageVariation, RVideoGeneration]"

definition first_kind :: "request_kind list \<Rightarrow> BifrostRequest \<Rightarrow> request_kind option" where
  "first_kind kinds req = find (\<lambda>k. br_part req k \<noteq> None) kinds"

definition GetRequestFields :: "BifrostRequest \<Rightarrow> ModelProvider \<times> string \<times> Fallback list" where
  "GetRequestFields req =
     (case first_kind all_kinds req of
        None \<Rightarrow> ('''', '''', [])
      | Some k \<Rightarrow>
          (case br_part req k of
             None \<Rightarrow> ('''', '''', [])
           | Some r \<Rightarrow>
               (sr_Provider r,
                if k \<in> set modelless_kinds then '''' else case sr_Model r of Some m \<Rightarrow> m | None \<Rightarrow> '''',
                if k \<in> set fallback_kinds then sr_Fallbacks r else [])))"

definition update_part :: "request_kind \<Rightarrow> (sub_request \<Rightarrow> sub_request) \<Rightarrow> BifrostRequest \<Rightarrow> BifrostRequest" where
  "update_part k f req = req\<lparr>br_part := (br_part req)(k := map_option f (br_part req k))\<rparr>"

definition update_first ::
    "request_kind list \<Rightarrow> (request_kind \<Rightarrow> sub_request \<Rightarrow> sub_request) \<Rightarrow> BifrostRequest \<Rightarrow> BifrostRequest" where
  "update_first kinds f req =
     (case first_kind kinds req of Some k \<Rightarrow> update_part k (f k) req | None \<Rightarrow> req)"

definition provider_settable :: "request_kind list" where
  "provider_settable =
    [RListModels, RTextCompletion, RChat, RResponses, RResponsesRetrieve, RResponsesDelete,
     RResponsesCancel, RResponsesInputItems, RCountTokens, RCompaction, REmbedding, RRerank, ROCR,
     RSpeech, RTranscription, RImageGeneration, RImageEdit, RImageVariation, RVideoGeneration,
     RVideoRetrieve, RVideoDownload, RVideoList, RVideoDelete, RVideoRemix, RCachedContentCreate,
     RCachedContentList, RCachedContentRetrieve, RCachedContentUpdate, RCachedContentDelete]"

definition SetProvider :: "ModelProvider \<Rightarrow> BifrostRequest \<Rightarrow> BifrostRequest" where
  "SetProvider p = update_first provider_settable (\<lambda>k r. r\<lparr>sr_Provider := p\<rparr>)"

definition model_settable :: "request_kind list" where
  "model_settable = fallback_kinds @
    [RBatchCreate, RCachedContentCreate, RCachedContentList, RCachedContentRetrieve, RCachedContentUpdate,
     RCachedContentDelete]"

text \<open>Where the model is a pointer, it is set only if it was not nil.\<close>

definition SetModel :: "string \<Rightarrow> BifrostRequest \<Rightarrow> BifrostRequest" where
  "SetModel m = update_first model_settable
     (\<lambda>k r. if k \<in> {RBatchCreate, RCachedContentList, RCachedContentRetrieve, RCachedContentUpdate,
                    RCachedContentDelete} \<and> sr_Model r = None
            then r else r\<lparr>sr_Model := Some m\<rparr>)"

definition SetFallbacks :: "Fallback list \<Rightarrow> BifrostRequest \<Rightarrow> BifrostRequest" where
  "SetFallbacks fs = update_first fallback_kinds (\<lambda>k r. r\<lparr>sr_Fallbacks := fs\<rparr>)"

subsection \<open>Responses\<close>

record BifrostResponse =
  rs_ExtraFields :: "BifrostErrorExtraFields option"
  rs_Body :: string

definition GetExtraFields :: "BifrostResponse \<Rightarrow> BifrostErrorExtraFields" where
  "GetExtraFields r = (case rs_ExtraFields r of Some x \<Rightarrow> x | None \<Rightarrow> zeroExtraFields)"

definition Response_PopulateExtraFields ::
    "BifrostResponse \<Rightarrow> RequestType \<Rightarrow> ModelProvider \<Rightarrow> string \<Rightarrow> string \<Rightarrow> BifrostResponse" where
  "Response_PopulateExtraFields r requestType provider originalModelRequested resolvedModelUsed =
     r\<lparr>rs_ExtraFields := map_option (\<lambda>x. x
        \<lparr>xf_RequestType := requestType, xf_Provider := provider,
         xf_OriginalModelRequested := originalModelRequested,
         xf_ResolvedModelUsed :=
           (if resolvedModelUsed = '''' then originalModelRequested else resolvedModelUsed)\<rparr>)
        (rs_ExtraFields r)\<rparr>"

definition mark_fallback :: "ModelProvider \<Rightarrow> string \<Rightarrow> RoutingInfo \<Rightarrow> RoutingInfo" where
  "mark_fallback primaryProvider primaryModel ri =
     ri\<lparr>ri_IsFallback := True,
        ri_PrimaryProvider := (if primaryProvider \<noteq> '''' then Some primaryProvider else ri_PrimaryProvider ri),
        ri_PrimaryModel := (if primaryModel \<noteq> '''' then Some primaryModel else ri_PrimaryModel ri)\<rparr>"

definition Response_SetFallbackRoutingInfo ::
    "BifrostResponse \<Rightarrow> ModelProvider \<Rightarrow> string \<Rightarrow> BifrostResponse" where
  "Response_SetFallbackRoutingInfo r primaryProvider primaryModel =
     r\<lparr>rs_ExtraFields := map_option (\<lambda>x.
        let ri = mark_fallback primaryProvider primaryModel (xf_RoutingInfo x)
        in syncDeprecatedFromRoutingInfo ri (x\<lparr>xf_RoutingInfo := ri\<rparr>)) (rs_ExtraFields r)\<rparr>"

definition GetResponseFields ::
    "BifrostResponse option \<Rightarrow> BifrostError option \<Rightarrow> RequestType \<times> ModelProvider \<times> string \<times> string" where
  "GetResponseFields result err =
     (let fields = (\<lambda>x. (xf_RequestType x, xf_Provider x, xf_OriginalModelRequested x, xf_ResolvedModelUsed x)) in
      case result of
        Some r \<Rightarrow> fields (GetExtraFields r)
      | None \<Rightarrow> (case err of Some e \<Rightarrow> fields (be_ExtraFields e) | None \<Rightarrow> ('''', '''', '''', '''')))"

subsection \<open>Requests of one kind\<close>

definition single :: "request_kind \<Rightarrow> sub_request \<Rightarrow> RequestType \<Rightarrow> BifrostRequest" where
  "single k r t = \<lparr>br_RequestType = t, br_part = (\<lambda>k'. if k' = k then Some r else None)\<rparr>"

lemma find_eq: "find (\<lambda>x. x = k) xs = (if k \<in> set xs then Some k else None)"
  by (induction xs) auto

lemma part_single [simp]: "br_part (single k r t) k' = (if k' = k then Some r else None)"
  by (simp add: single_def)

lemma first_kind_single [simp]: "first_kind kinds (single k r t) = (if k \<in> set kinds then Some k else None)"
proof -
  have "(\<lambda>k'. br_part (single k r t) k' \<noteq> None) = (\<lambda>x. x = k)" by auto
  then show ?thesis by (simp add: first_kind_def find_eq)
qed

lemma update_part_single [simp]: "update_part k f (single k r t) = single k (f r) t"
  by (simp add: update_part_def single_def fun_eq_iff)

lemma update_part_other [simp]: "k' \<noteq> k \<Longrightarrow> update_part k' f (single k r t) = single k r t"
  by (simp add: update_part_def single_def fun_eq_iff)

lemma update_first_single:
  "update_first kinds f (single k r t) = (if k \<in> set kinds then single k (f k r) t else single k r t)"
  by (simp add: update_first_def)

lemma all_kinds_complete [simp]: "k \<in> set all_kinds"
  by (cases k) (simp_all add: all_kinds_def)

lemma fields_single:
  "GetRequestFields (single k r t) =
     (sr_Provider r, if k \<in> set modelless_kinds then '''' else case sr_Model r of Some m \<Rightarrow> m | None \<Rightarrow> '''',
      if k \<in> set fallback_kinds then sr_Fallbacks r else [])"
  by (simp add: GetRequestFields_def)

lemma fallback_kinds_have_model: "k \<in> set fallback_kinds \<Longrightarrow> k \<notin> set modelless_kinds"
  by (auto simp: fallback_kinds_def modelless_kinds_def)

lemma fallback_kinds_settable: "k \<in> set fallback_kinds \<Longrightarrow> k \<in> set provider_settable \<and> k \<in> set model_settable"
  by (auto simp: fallback_kinds_def provider_settable_def model_settable_def)

lemma fallback_kinds_not_pointer:
  "k \<in> set fallback_kinds \<Longrightarrow>
     k \<notin> {RBatchCreate, RCachedContentList, RCachedContentRetrieve, RCachedContentUpdate, RCachedContentDelete}"
  by (auto simp: fallback_kinds_def)

text \<open>What routing writes into a request is what dispatch reads: for every kind of request that can have
  fallbacks, \<open>GetRequestFields\<close> returns the provider, model and fallbacks last set, whatever the order of
  the kinds in the accessors; a provider set on a kind outside \<open>SetProvider\<close>'s list (files, batches,
  containers, passthrough) leaves the request as it was.\<close>

theorem request_fields_roundtrip:
  "(k \<in> set fallback_kinds \<longrightarrow>
      GetRequestFields (SetFallbacks fs (SetModel m (SetProvider p (single k r t)))) = (p, m, fs))
   \<and> (k \<in> set provider_settable \<longrightarrow> fst (GetRequestFields (SetProvider p (single k r t))) = p)
   \<and> (k \<notin> set provider_settable \<longrightarrow> SetProvider p (single k r t) = single k r t)"
proof (intro conjI impI)
  assume k: "k \<in> set fallback_kinds"
  note facts = fallback_kinds_settable [OF k] fallback_kinds_have_model [OF k] fallback_kinds_not_pointer [OF k]
  show "GetRequestFields (SetFallbacks fs (SetModel m (SetProvider p (single k r t)))) = (p, m, fs)"
    using facts k
    by (simp add: SetProvider_def SetModel_def SetFallbacks_def update_first_single fields_single)
qed (simp_all add: SetProvider_def update_first_single fields_single)

definition sample_part :: sub_request where
  "sample_part = \<lparr>sr_Provider = OpenAI, sr_Model = Some ''gpt-4o'', sr_Fallbacks = [], sr_Body = ''hello''\<rparr>"

theorem request_fields_roundtrip_witness:
  "GetRequestFields (SetFallbacks [\<lparr>fb_Provider = Azure, fb_Model = ''gpt-4''\<rparr>] (SetModel ''claude''
      (SetProvider Anthropic (single RChat sample_part ''chat_completion'')))) =
     (Anthropic, ''claude'', [\<lparr>fb_Provider = Azure, fb_Model = ''gpt-4''\<rparr>])
   \<and> fst (GetRequestFields (SetProvider Anthropic (single RVideoList sample_part ''video_list''))) = Anthropic
   \<and> SetProvider Anthropic (single RBatchList sample_part ''batch_list'') = single RBatchList sample_part ''batch_list''"
  using request_fields_roundtrip [of RChat] request_fields_roundtrip [of RVideoList]
    request_fields_roundtrip [of RBatchList]
  by (simp add: fallback_kinds_def provider_settable_def)

end
