(* ===== verification/Plugin_Pipeline.thy ===== *)
theory Plugin_Pipeline
  imports Retry_Loop Request_Context Requests
begin

text \<open>
  The plugin pipeline and one attempt at a provider (\<open>core/bifrost.go\<close>): \<open>RunPreRequestHooks\<close>,
  \<open>RunPreProviderHooks\<close>, \<open>RunLLMPreHooks\<close>, \<open>RunPostLLMHooks\<close> and \<open>tryRequest\<close>.

  A plugin is a record of its four hooks. A hook reads the context and a world \<open>'w\<close> (the plugin's and the
  environment's own state) and returns, beside its results, the operations it performs on the context,
  which the pipeline applies: \<^typ>\<open>ctx_op\<close> is what the scoped context offers a plugin. Requests are values: a
  mutation of the request through the pointer a \<open>PreLLMHook\<close> was given is the request it returns. The
  field \<open>pp_calls\<close> is not in the code: it records the hooks called, by the index of the plugin.

  In \<open>tryRequest\<close> the outcome of each \<open>select\<close> and of each racing flag is a field of \<open>queue_events\<close>, read from
  the world; the account, the tools manager and the worker (which runs the retry loop) are fields of
  the environment. Spans, timings and plugin logs are not modelled.
\<close>

subsection \<open>Plugins and the pipeline\<close>

record PluginShortCircuit =
  ps_Response :: "BifrostResponse option"
  ps_Error :: "BifrostError option"
  ps_Silent :: bool

type_synonym 'w pre_hook =
  "BifrostContext \<Rightarrow> 'w \<Rightarrow> BifrostRequest option
   \<Rightarrow> ctx_op list \<times> 'w \<times> BifrostRequest option \<times> PluginShortCircuit option \<times> string option"

record 'w LLMPlugin =
  pl_Name :: string
  pl_PreRequestHook ::
    "BifrostContext \<Rightarrow> 'w \<Rightarrow> BifrostRequest \<Rightarrow> ctx_op list \<times> 'w \<times> BifrostRequest \<times> string option"
  pl_PreProviderHook :: "'w pre_hook"
  pl_PreLLMHook :: "'w pre_hook"
  pl_PostLLMHook ::
    "BifrostContext \<Rightarrow> 'w \<Rightarrow> BifrostResponse option \<Rightarrow> BifrostError option
     \<Rightarrow> ctx_op list \<times> 'w \<times> BifrostResponse option \<times> BifrostError option \<times> string option"

datatype hook_call = CallPreRequest nat | CallPreProvider nat | CallPreLLM nat | CallPostLLM nat

record 'w PluginPipeline =
  pp_llmPlugins :: "'w LLMPlugin list"
  pp_executedPreHooks :: nat
  pp_executedPreProviderHooks :: nat
  pp_preHookErrors :: "string list"
  pp_postHookErrors :: "string list"
  pp_chunkCount :: nat
  pp_calls :: "hook_call list"

definition getPluginPipeline :: "'w LLMPlugin list \<Rightarrow> 'w PluginPipeline" where
  "getPluginPipeline plugins =
     \<lparr>pp_llmPlugins = plugins, pp_executedPreHooks = 0, pp_executedPreProviderHooks = 0,
      pp_preHookErrors = [], pp_postHookErrors = [], pp_chunkCount = 0, pp_calls = []\<rparr>"

definition resetPluginPipeline :: "'w PluginPipeline \<Rightarrow> 'w PluginPipeline" where
  "resetPluginPipeline p = getPluginPipeline []"

definition bool_flag :: "BifrostContext \<Rightarrow> string \<Rightarrow> bool" where
  "bool_flag ctx k \<longleftrightarrow> Value ctx k = Some (CBool True)"

definition opt_list :: "'a option \<Rightarrow> 'a list" where
  "opt_list x = (case x of Some e \<Rightarrow> [e] | None \<Rightarrow> [])"

subsection \<open>Hooks before the provider call\<close>

text \<open>The loop \<open>RunPreProviderHooks\<close> and \<open>RunLLMPreHooks\<close> share: \<open>hook\<close> selects the hook, \<open>note_run\<close> records how many
  ran, and a short circuit ends the loop. An error of a hook is recorded and the loop goes on.\<close>

fun pre_hook_loop ::
    "('w LLMPlugin \<Rightarrow> 'w pre_hook) \<Rightarrow> (nat \<Rightarrow> hook_call) \<Rightarrow> (nat \<Rightarrow> 'w PluginPipeline \<Rightarrow> 'w PluginPipeline) \<Rightarrow> nat
     \<Rightarrow> 'w LLMPlugin list \<Rightarrow> 'w PluginPipeline \<Rightarrow> BifrostContext \<Rightarrow> 'w \<Rightarrow> BifrostRequest option
     \<Rightarrow> 'w PluginPipeline \<times> BifrostContext \<times> 'w \<times> BifrostRequest option \<times> PluginShortCircuit option" where
  "pre_hook_loop hook call note_run i [] p ctx w req = (p, ctx, w, req, None)"
| "pre_hook_loop hook call note_run i (pl # pls) p ctx w req =
     (let (ops, w', req', shortCircuit, err) = hook pl ctx w req;
          ctx' = fold run_ctx_op ops ctx;
          p' = note_run (i + 1) (p\<lparr>pp_preHookErrors := pp_preHookErrors p @ opt_list err,
                                pp_calls := pp_calls p @ [call i]\<rparr>)
      in case shortCircuit of
           Some sc \<Rightarrow> (p', ctx', w', req', Some sc)
         | None \<Rightarrow> pre_hook_loop hook call note_run (i + 1) pls p' ctx' w' req')"

type_synonym 'w pre_result =
  "'w PluginPipeline \<times> BifrostContext \<times> 'w \<times> BifrostRequest option \<times> PluginShortCircuit option \<times> nat"

definition RunLLMPreHooks ::
    "'w PluginPipeline \<Rightarrow> BifrostContext \<Rightarrow> 'w \<Rightarrow> BifrostRequest option \<Rightarrow> 'w pre_result" where
  "RunLLMPreHooks p ctx w req =
     (if bool_flag ctx KeySkipPluginPipeline then (p, ctx, w, req, None, 0)
      else let (p', ctx', w', req', sc) =
                 pre_hook_loop pl_PreLLMHook CallPreLLM (\<lambda>n q. q\<lparr>pp_executedPreHooks := n\<rparr>) 0
                   (pp_llmPlugins p) p (BlockRestrictedWrites ctx) w req
           in (p', UnblockRestrictedWrites ctx', w', req', sc, pp_executedPreHooks p'))"

definition stampProviderKeysOnContext ::
    "(ModelProvider \<Rightarrow> Key list option) \<Rightarrow> BifrostContext \<Rightarrow> ModelProvider \<Rightarrow> BifrostContext" where
  "stampProviderKeysOnContext getKeys ctx provider =
     (if provider = '''' then ctx
      else case getKeys provider of
             None \<Rightarrow> ctx
           | Some keys \<Rightarrow> if keys = [] then ctx else SetValue KeyProviderKeys (CProviderKeys provider keys) ctx)"

text \<open>\<open>getConfig\<close> gives the cooldown policy of a provider's configuration: \<^term>\<open>None\<close> if there is no
  configuration, \<^term>\<open>Some None\<close> if the configuration has no policy.\<close>

definition stampProviderCooldownPolicyOnContext ::
    "(ModelProvider \<Rightarrow> CooldownPolicy option option) \<Rightarrow> BifrostContext \<Rightarrow> ModelProvider \<Rightarrow> BifrostContext" where
  "stampProviderCooldownPolicyOnContext getConfig ctx provider =
     (if provider = '''' then ctx
      else case getConfig provider of
             Some (Some policy) \<Rightarrow> SetValue KeyCooldownPolicy (CPolicy policy) ctx
           | _ \<Rightarrow> SetValue KeyCooldownPolicy (CPolicy (DefaultCooldownPolicy provider)) ctx)"

definition RunPreProviderHooks ::
    "(ModelProvider \<Rightarrow> CooldownPolicy option option) \<Rightarrow> 'w PluginPipeline \<Rightarrow> BifrostContext \<Rightarrow> 'w
     \<Rightarrow> BifrostRequest option \<Rightarrow> 'w pre_result" where
  "RunPreProviderHooks getConfig p ctx w req =
     (if bool_flag ctx KeySkipPluginPipeline then (p, ctx, w, req, None, 0)
      else let ctx0 = (case req of
                         Some r \<Rightarrow> stampProviderCooldownPolicyOnContext getConfig ctx (fst (GetRequestFields r))
                       | None \<Rightarrow> ctx);
               (p', ctx', w', req', sc) =
                 pre_hook_loop pl_PreProviderHook CallPreProvider (\<lambda>n q. q\<lparr>pp_executedPreProviderHooks := n\<rparr>) 0
                   (pp_llmPlugins p) p (BlockRestrictedWrites ctx0) w req
           in (p', UnblockRestrictedWrites ctx', w', req', sc, pp_executedPreProviderHooks p'))"

fun pre_request_loop ::
    "nat \<Rightarrow> 'w LLMPlugin list \<Rightarrow> 'w PluginPipeline \<Rightarrow> BifrostContext \<Rightarrow> 'w \<Rightarrow> BifrostRequest
     \<Rightarrow> 'w PluginPipeline \<times> BifrostContext \<times> 'w \<times> BifrostRequest" where
  "pre_request_loop i [] p ctx w req = (p, ctx, w, req)"
| "pre_request_loop i (pl # pls) p ctx w req =
     (let (ops, w', req', err) = pl_PreRequestHook pl ctx w req;
          p' = p\<lparr>pp_preHookErrors := pp_preHookErrors p @ opt_list err, pp_calls := pp_calls p @ [CallPreRequest i]\<rparr>
      in pre_request_loop (i + 1) pls p' (fold run_ctx_op ops ctx) w' req')"

text \<open>The pin a routing rule left under its own key becomes the caller's key pin.\<close>

definition commit_routing_pin :: "BifrostContext \<Rightarrow> BifrostContext" where
  "commit_routing_pin ctx =
     (case Option.bind (Value ctx KeyRoutingPinnedAPIKeyID) dest_string of
        Some pin \<Rightarrow> if strings_TrimSpace pin \<noteq> '''' then SetValue KeyAPIKeyID (CString (strings_TrimSpace pin)) ctx
                    else ctx
      | None \<Rightarrow> ctx)"

definition RunPreRequestHooks ::
    "'w PluginPipeline \<Rightarrow> BifrostContext \<Rightarrow> 'w \<Rightarrow> BifrostRequest
     \<Rightarrow> 'w PluginPipeline \<times> BifrostContext \<times> 'w \<times> BifrostRequest" where
  "RunPreRequestHooks p ctx w req =
     (if bool_flag ctx KeySkipPluginPipeline then (p, ctx, w, req)
      else let (p', ctx', w', req') = pre_request_loop 0 (pp_llmPlugins p) p (BlockRestrictedWrites ctx) w req
           in (p', commit_routing_pin (UnblockRestrictedWrites ctx'), w', req'))"

subsection \<open>Hooks after the provider call\<close>

fun post_hook_loop ::
    "nat \<Rightarrow> 'w PluginPipeline \<Rightarrow> BifrostContext \<Rightarrow> 'w \<Rightarrow> BifrostResponse option \<Rightarrow> BifrostError option
     \<Rightarrow> 'w PluginPipeline \<times> BifrostContext \<times> 'w \<times> BifrostResponse option \<times> BifrostError option" where
  "post_hook_loop 0 p ctx w resp bifrostErr = (p, ctx, w, resp, bifrostErr)"
| "post_hook_loop (Suc i) p ctx w resp bifrostErr =
     (let (ops, w', resp', bifrostErr', err) = pl_PostLLMHook (pp_llmPlugins p ! i) ctx w resp bifrostErr;
          p' = p\<lparr>pp_postHookErrors := pp_postHookErrors p @ opt_list err, pp_calls := pp_calls p @ [CallPostLLM i]\<rparr>
      in post_hook_loop i p' (fold run_ctx_op ops ctx) w' resp' bifrostErr')"

definition empty_error :: "BifrostError \<Rightarrow> bool" where
  "empty_error e \<longleftrightarrow> be_StatusCode e = None \<and>
     (case be_Error e of
        Some f \<Rightarrow> ef_Type f = None \<and> ef_Message f = '''' \<and> ef_Error f = None
      | None \<Rightarrow> False)"

type_synonym 'w attempt =
  "'w PluginPipeline \<times> BifrostContext \<times> 'w \<times> BifrostResponse option \<times> BifrostError option"

definition RunPostLLMHooks ::
    "'w PluginPipeline \<Rightarrow> BifrostContext \<Rightarrow> 'w \<Rightarrow> BifrostResponse option \<Rightarrow> BifrostError option \<Rightarrow> int \<Rightarrow> 'w attempt" where
  "RunPostLLMHooks p ctx w resp bifrostErr runFrom =
     (if bool_flag ctx KeySkipPluginPipeline then (p, ctx, w, resp, bifrostErr)
      else let n = min (nat runFrom) (length (pp_llmPlugins p));
               requestType = fst (GetResponseFields resp bifrostErr);
               isStreaming = (Value ctx KeyStreamStartTime \<noteq> None \<and> requestType \<noteq> ''realtime'');
               (p', ctx', w', resp', err') = post_hook_loop n p (BlockRestrictedWrites ctx) w resp bifrostErr;
               p'' = (if isStreaming then p'\<lparr>pp_chunkCount := pp_chunkCount p' + 1\<rparr> else p');
               err'' = (case err' of
                          Some e \<Rightarrow> if resp' \<noteq> None \<and> empty_error e then None else Some e
                        | None \<Rightarrow> None)
           in (p'', UnblockRestrictedWrites ctx', w', resp', err''))"

subsection \<open>One attempt\<close>

datatype ctx_err = DeadlineExceeded | Canceled

fun ctx_err_string :: "ctx_err \<Rightarrow> string" where
  "ctx_err_string DeadlineExceeded = ''context deadline exceeded''"
| "ctx_err_string Canceled = ''context canceled''"

definition newBifrostError :: "string \<Rightarrow> BifrostError" where
  "newBifrostError msg =
     zeroError\<lparr>be_Error := Some \<lparr>ef_Type = None, ef_Code = None, ef_Message = msg, ef_Error = Some msg\<rparr>\<rparr>"

definition newBifrostCtxDoneError :: "ctx_err \<Rightarrow> string \<Rightarrow> BifrostError" where
  "newBifrostCtxDoneError err stage =
     (let (statusCode, errorType, message) =
        (if err = DeadlineExceeded
         then (504, RequestTimedOut, ''request timed out '' @ stage @ '': '' @ ctx_err_string err)
         else (499, RequestCancelled, ''request cancelled '' @ stage @ '': '' @ ctx_err_string err))
      in zeroError\<lparr>be_IsBifrostError := True, be_StatusCode := Some statusCode, be_AllowFallbacks := Some False,
           be_Error := Some \<lparr>ef_Type = Some errorType, ef_Code = None, ef_Message = message,
                             ef_Error = Some (ctx_err_string err)\<rparr>\<rparr>)"

definition newBifrostQueueFullError :: BifrostError where
  "newBifrostQueueFullError =
     zeroError\<lparr>be_IsBifrostError := True, be_StatusCode := Some 503,
       be_Error := Some \<lparr>ef_Type = Some RequestDropped, ef_Code = None,
                         ef_Message = ''request dropped: queue is full'', ef_Error = None\<rparr>\<rparr>"

datatype send_event = Sent | QueueDone | ContextDone ctx_err

record queue_events =
  qe_isClosing :: bool
  qe_rerouted :: bool
  qe_select :: "send_event option"
  qe_dropExcessRequests :: bool
  qe_isClosing2 :: bool
  qe_select2 :: send_event

fun send_error :: "send_event \<Rightarrow> BifrostError option" where
  "send_error Sent = None"
| "send_error QueueDone = Some (newBifrostErrorFromMsg ''provider is shutting down'')"
| "send_error (ContextDone err) = Some (newBifrostCtxDoneError err ''while waiting for queue space'')"

text \<open>\<^const>\<open>None\<close>: the message is in the queue. In \<open>qe_select\<close>, \<^const>\<open>None\<close> is the \<open>default\<close> case.\<close>

definition enqueue :: "queue_events \<Rightarrow> BifrostError option" where
  "enqueue q =
     (if qe_isClosing q \<and> \<not> qe_rerouted q then Some (newBifrostErrorFromMsg ''provider is shutting down'')
      else case qe_select q of
             Some ev \<Rightarrow> send_error ev
           | None \<Rightarrow>
               if qe_dropExcessRequests q then Some newBifrostQueueFullError
               else if qe_isClosing2 q then Some (newBifrostErrorFromMsg ''provider is shutting down'')
               else send_error (qe_select2 q))"

datatype worker_answer =
    GotResponse "BifrostResponse option"
  | GotError BifrostError
  | GotContextDone ctx_err

record 'w attempt_env =
  ae_llmPlugins :: "'w LLMPlugin list"
  ae_pluginCount :: "'w \<Rightarrow> nat"
  ae_queueError :: "ModelProvider \<Rightarrow> string option"
  ae_addTools :: "(BifrostContext \<Rightarrow> BifrostRequest \<Rightarrow> BifrostRequest) option"
  ae_hasTracer :: bool
  ae_keys :: "ModelProvider \<Rightarrow> Key list option"
  ae_config :: "ModelProvider \<Rightarrow> CooldownPolicy option option"
  ae_queue :: "'w \<Rightarrow> queue_events"
  ae_worker :: "BifrostContext \<Rightarrow> 'w \<Rightarrow> BifrostRequest \<Rightarrow> BifrostContext \<times> 'w \<times> worker_answer"

definition finish_hooks ::
    "'w PluginPipeline \<Rightarrow> BifrostContext \<Rightarrow> 'w \<Rightarrow> BifrostResponse option \<Rightarrow> BifrostError option \<Rightarrow> nat
     \<Rightarrow> RequestType \<Rightarrow> ModelProvider \<Rightarrow> string \<Rightarrow> 'w attempt" where
  "finish_hooks p ctx w resp err n requestType provider model =
     (let (p', ctx', w', resp', err') = RunPostLLMHooks p ctx w resp err (int n) in
      case err' of
        Some e \<Rightarrow> (p', ctx', w', None, Some (PopulateExtraFields e requestType provider model model))
      | None \<Rightarrow> (p', ctx', w',
                 map_option (\<lambda>r. Response_PopulateExtraFields r requestType provider model model) resp', None))"

definition short_circuit_answer ::
    "PluginShortCircuit \<Rightarrow> RequestType \<Rightarrow> ModelProvider \<Rightarrow> string
     \<Rightarrow> (BifrostResponse option \<times> BifrostError option) option" where
  "short_circuit_answer sc requestType provider model =
     (case ps_Response sc of
        Some r \<Rightarrow> Some (Some (Response_PopulateExtraFields r requestType provider model model), None)
      | None \<Rightarrow> (case ps_Error sc of
                   Some e \<Rightarrow> Some (None, Some (PopulateExtraFields e requestType provider model model))
                 | None \<Rightarrow> None))"

definition strip_raw :: "BifrostContext \<Rightarrow> BifrostErrorExtraFields \<Rightarrow> BifrostErrorExtraFields" where
  "strip_raw ctx x =
     x\<lparr>xf_RawRequest := (if bool_flag ctx KeyDropRawRequest then None else xf_RawRequest x),
       xf_RawResponse := (if bool_flag ctx KeyDropRawResponse then None else xf_RawResponse x)\<rparr>"

definition strip_response :: "BifrostContext \<Rightarrow> BifrostResponse \<Rightarrow> BifrostResponse" where
  "strip_response ctx r = r\<lparr>rs_ExtraFields := map_option (strip_raw ctx) (rs_ExtraFields r)\<rparr>"

definition strip_error :: "BifrostContext \<Rightarrow> BifrostError \<Rightarrow> BifrostError" where
  "strip_error ctx e = e\<lparr>be_ExtraFields := strip_raw ctx (be_ExtraFields e)\<rparr>"

definition msg_error ::
    "'w PluginPipeline \<Rightarrow> BifrostContext \<Rightarrow> 'w \<Rightarrow> BifrostError \<Rightarrow> RequestType \<Rightarrow> ModelProvider \<Rightarrow> string \<Rightarrow> 'w attempt" where
  "msg_error p ctx w e requestType provider model =
     (p, ctx, w, None, Some (PopulateExtraFields e requestType provider model model))"

text \<open>The error path strips response and error; the success path strips the response only.\<close>

definition dispatch_request ::
    "'w attempt_env \<Rightarrow> 'w PluginPipeline \<Rightarrow> BifrostContext \<Rightarrow> 'w \<Rightarrow> BifrostRequest \<Rightarrow> BifrostRequest \<Rightarrow> 'w attempt" where
  "dispatch_request env p ctx w req preReq =
     (let (provider, model, _) = GetRequestFields preReq; requestType = br_RequestType req in
      case enqueue (ae_queue env w) of
        Some e \<Rightarrow> msg_error p ctx w e requestType provider model
      | None \<Rightarrow>
          let (ctx1, w1, answer) = ae_worker env ctx w preReq in
          case answer of
            GotResponse result \<Rightarrow>
              let (p2, ctx2, w2, resp, err) =
                finish_hooks p ctx1 w1 result None (ae_pluginCount env w1) requestType provider model
              in (p2, ctx2, w2, map_option (strip_response ctx2) resp, err)
          | GotError e \<Rightarrow>
              let ctx1' = (if isSyntheticNoEligibleKeysError (Some e) then SetValue KeySilentLog (CBool True) ctx1
                           else ctx1);
                  (p2, ctx2, w2, resp, err) =
                    finish_hooks p ctx1' w1 None (Some e) (ae_pluginCount env w1) requestType provider model
              in (p2, ctx2, w2, map_option (strip_response ctx2) resp, map_option (strip_error ctx2) err)
          | GotContextDone c \<Rightarrow>
              let (provider0, model0, _) = GetRequestFields req
              in msg_error p ctx1 w1 (newBifrostCtxDoneError c ''waiting for provider response'')
                   requestType provider0 model0)"

definition llm_phase ::
    "'w attempt_env \<Rightarrow> 'w PluginPipeline \<Rightarrow> BifrostContext \<Rightarrow> 'w \<Rightarrow> BifrostRequest \<Rightarrow> ModelProvider \<Rightarrow> string
     \<Rightarrow> 'w attempt" where
  "llm_phase env p ctx w req provider model =
     (let (p1, ctx1, w1, preReq, shortCircuit, preCount) = RunLLMPreHooks p ctx w (Some req);
          requestType = br_RequestType req
      in case Option.bind shortCircuit (\<lambda>sc. short_circuit_answer sc requestType provider model) of
           Some (resp, err) \<Rightarrow> finish_hooks p1 ctx1 w1 resp err preCount requestType provider model
         | None \<Rightarrow>
             (case preReq of
                None \<Rightarrow> msg_error p1 ctx1 w1
                          (newBifrostErrorFromMsg ''bifrost request after plugin hooks cannot be nil'')
                          requestType provider model
              | Some r \<Rightarrow> dispatch_request env p1 ctx1 w1 req r))"

definition provider_phase ::
    "'w attempt_env \<Rightarrow> 'w PluginPipeline \<Rightarrow> BifrostContext \<Rightarrow> 'w \<Rightarrow> BifrostRequest \<Rightarrow> ModelProvider \<Rightarrow> string
     \<Rightarrow> 'w attempt" where
  "provider_phase env p ctx w req provider model =
     (let (p1, ctx1, w1, providerReq, providerSC, providerPreCount) =
            RunPreProviderHooks (ae_config env) p (stampProviderKeysOnContext (ae_keys env) ctx provider) w (Some req);
          ctx2 = (case providerSC of
                    Some sc \<Rightarrow> if ps_Silent sc then SetValue KeySilentLog (CBool True) ctx1 else ctx1
                  | None \<Rightarrow> ctx1);
          requestType = br_RequestType req
      in case Option.bind providerSC (\<lambda>sc. short_circuit_answer sc requestType provider model) of
           Some (resp, err) \<Rightarrow> finish_hooks p1 ctx2 w1 resp err providerPreCount requestType provider model
         | None \<Rightarrow>
             (case providerReq of
                None \<Rightarrow> msg_error p1 ctx2 w1
                          (newBifrostErrorFromMsg ''bifrost request after PreProviderHook cannot be nil'')
                          requestType provider model
              | Some r \<Rightarrow> llm_phase env p1 ctx2 w1 r provider model))"

definition tryRequest :: "'w attempt_env \<Rightarrow> BifrostContext \<Rightarrow> 'w \<Rightarrow> BifrostRequest \<Rightarrow> 'w attempt" where
  "tryRequest env ctx w req =
     (let (provider, model, _) = GetRequestFields req; p = getPluginPipeline (ae_llmPlugins env) in
      case ae_queueError env provider of
        Some msg \<Rightarrow> msg_error p ctx w (newBifrostError msg) (br_RequestType req) provider model
      | None \<Rightarrow>
          let req' = (case ae_addTools env of Some add \<Rightarrow> add ctx req | None \<Rightarrow> req) in
          if \<not> ae_hasTracer env then
            msg_error p ctx w (newBifrostErrorFromMsg ''tracer not found in context'')
              (br_RequestType req') provider model
          else provider_phase env p (SetValue KeyTracer (COther ''tracer'') ctx) w req' provider model)"

subsection \<open>The context across hooks\<close>

lemma Value_SetValue_other [simp]: "k' \<noteq> k \<Longrightarrow> Value (SetValue k v bc) k' = Value bc k'"
  by (simp add: SetValue_def)

lemma bool_flag_SetValue [simp]: "k' \<noteq> k \<Longrightarrow> bool_flag (SetValue k v bc) k' = bool_flag bc k'"
  by (simp add: bool_flag_def)

lemma bool_flag_block [simp]:
  "bool_flag (BlockRestrictedWrites bc) k = bool_flag bc k" "bool_flag (UnblockRestrictedWrites bc) k = bool_flag bc k"
  by (simp_all add: bool_flag_def)

text \<open>While plugins run, the context stays blocked and no reserved value changes.\<close>

definition guarded :: "BifrostContext \<Rightarrow> BifrostContext \<Rightarrow> bool" where
  "guarded ctx ctx' \<longleftrightarrow> cx_blockRestrictedWrites ctx' \<and> (\<forall>k \<in> set reservedKeys. Value ctx' k = Value ctx k)"

lemma guarded_ops: "guarded ctx bc \<Longrightarrow> guarded ctx (fold run_ctx_op ops bc)"
  using run_ctx_ops_blocked [of bc ops] by (simp add: guarded_def)

lemma guarded_block: "guarded ctx (BlockRestrictedWrites ctx)"
  by (simp add: guarded_def)

lemma pre_hook_loop_guarded:
  "pre_hook_loop hook call note_run i pls p bc w req = (p', bc', w', req', sc) \<Longrightarrow> guarded ctx bc \<Longrightarrow> guarded ctx bc'"
proof (induction pls arbitrary: i p bc w req)
  case (Cons pl pls)
  obtain ops w1 req1 s e where h: "hook pl bc w req = (ops, w1, req1, s, e)" by (metis prod_cases5)
  show ?case using Cons.prems Cons.IH [OF _ guarded_ops [OF Cons.prems(2), of ops]]
    by (auto simp: h Let_def intro: guarded_ops split: option.splits)
qed simp

lemma pre_request_loop_guarded:
  "pre_request_loop i pls p bc w req = (p', bc', w', req') \<Longrightarrow> guarded ctx bc \<Longrightarrow> guarded ctx bc'"
proof (induction pls arbitrary: i p bc w req)
  case (Cons pl pls)
  obtain ops w1 req1 e where h: "pl_PreRequestHook pl bc w req = (ops, w1, req1, e)" by (metis prod_cases4)
  show ?case using Cons.prems Cons.IH [OF _ guarded_ops [OF Cons.prems(2), of ops]] by (auto simp: h Let_def)
qed simp

lemma post_hook_loop_guarded:
  "post_hook_loop n p bc w resp err = (p', bc', w', resp', err') \<Longrightarrow> guarded ctx bc \<Longrightarrow> guarded ctx bc'"
proof (induction n arbitrary: p bc w resp err)
  case (Suc i)
  obtain ops w1 resp1 err1 e where h: "pl_PostLLMHook (pp_llmPlugins p ! i) bc w resp err = (ops, w1, resp1, err1, e)"
    by (metis prod_cases5)
  show ?case using Suc.prems Suc.IH [OF _ guarded_ops [OF Suc.prems(2), of ops]] by (auto simp: h Let_def)
qed simp

lemmas hook_loops_guarded = pre_hook_loop_guarded pre_request_loop_guarded post_hook_loop_guarded

text \<open>Every phase leaves the context unblocked if it found it so.\<close>

definition opened :: "BifrostContext \<Rightarrow> bool" where
  "opened ctx \<longleftrightarrow> \<not> cx_blockRestrictedWrites ctx"

lemma opened_simps [simp]:
  "opened (UnblockRestrictedWrites bc)" "opened (SetValue k v bc) = opened bc" "opened (ClearValue k bc) = opened bc"
  by (simp_all add: opened_def)

lemma stamp_opened [simp]:
  "opened (stampProviderKeysOnContext f ctx p) = opened ctx"
  "opened (stampProviderCooldownPolicyOnContext g ctx p) = opened ctx"
  by (simp_all add: stampProviderKeysOnContext_def stampProviderCooldownPolicyOnContext_def split: option.splits)

lemma RunLLMPreHooks_opened: "RunLLMPreHooks p ctx w req = (p', ctx', w', req', sc, n) \<Longrightarrow> opened ctx \<Longrightarrow> opened ctx'"
  by (auto simp: RunLLMPreHooks_def split: if_splits prod.splits)

lemma RunPreProviderHooks_opened:
  "RunPreProviderHooks g p ctx w req = (p', ctx', w', req', sc, n) \<Longrightarrow> opened ctx \<Longrightarrow> opened ctx'"
  by (auto simp: RunPreProviderHooks_def Let_def split: if_splits prod.splits option.splits)

lemma RunPostLLMHooks_opened:
  "RunPostLLMHooks p ctx w resp err n = (p', ctx', w', resp', err') \<Longrightarrow> opened ctx \<Longrightarrow> opened ctx'"
  by (auto simp: RunPostLLMHooks_def Let_def split: if_splits prod.splits)

lemma finish_hooks_opened: "opened ctx \<Longrightarrow> opened (fst (snd (finish_hooks p ctx w resp err n t pr m)))"
  using RunPostLLMHooks_opened [of p ctx w resp err "int n"]
  by (auto simp: finish_hooks_def Let_def split: prod.splits option.splits)

lemma dispatch_opened:
  assumes "\<And>ctx w r. opened ctx \<Longrightarrow> opened (fst (ae_worker env ctx w r))" and "opened ctx"
  shows "opened (fst (snd (dispatch_request env p ctx w req r)))"
proof -
  obtain ctx1 w1 a where wk: "ae_worker env ctx w r = (ctx1, w1, a)" by (metis prod_cases3)
  have o1: "opened ctx1" using assms(1) [OF assms(2), of w r] wk by simp
  show ?thesis
    using o1 assms(2)
    by (simp add: dispatch_request_def finish_hooks_opened wk msg_error_def Let_def split_beta split: option.splits worker_answer.splits)
qed

lemma llm_phase_opened:
  assumes "\<And>ctx w r. opened ctx \<Longrightarrow> opened (fst (ae_worker env ctx w r))" and "opened ctx"
  shows "opened (fst (snd (llm_phase env p ctx w req pr m)))"
proof -
  obtain p1 ctx1 w1 r sc n where h: "RunLLMPreHooks p ctx w (Some req) = (p1, ctx1, w1, r, sc, n)"
    by (metis prod_cases6)
  have "opened ctx1" using RunLLMPreHooks_opened [OF h assms(2)] .
  then show ?thesis
    by (simp add: llm_phase_def dispatch_opened [OF assms(1)] finish_hooks_opened h msg_error_def Let_def split: option.splits)
qed

lemma tryRequest_opened:
  assumes "\<And>ctx w r. opened ctx \<Longrightarrow> opened (fst (ae_worker env ctx w r))" and "opened ctx"
  shows "opened (fst (snd (tryRequest env ctx w req)))"
proof -
  have "opened (fst (snd (provider_phase env p bc w r pr m)))" if o: "opened bc" for p bc r pr m
  proof -
    obtain p1 ctx1 w1 r1 sc n where
      h: "RunPreProviderHooks (ae_config env) p (stampProviderKeysOnContext (ae_keys env) bc pr) w (Some r)
            = (p1, ctx1, w1, r1, sc, n)" by (metis prod_cases6)
    have "opened ctx1" using RunPreProviderHooks_opened [OF h] o by simp
    then show ?thesis
      by (simp add: provider_phase_def llm_phase_opened [OF assms(1)] finish_hooks_opened h msg_error_def Let_def split: option.splits)
  qed
  then show ?thesis using assms(2) by (simp add: tryRequest_def msg_error_def Let_def split_beta split: option.splits)
qed


subsection \<open>Which hooks run\<close>

abbreviation posts :: "nat \<Rightarrow> hook_call list" where "posts k \<equiv> map CallPostLLM (rev [0..<k])"

lemma pre_hook_loop_calls:
  assumes keeps: "\<And>n q. pp_calls (note_run n q) = pp_calls q \<and> pp_llmPlugins (note_run n q) = pp_llmPlugins q \<and> cnt (note_run n q) = n"
    and "pre_hook_loop hook call note_run i pls p bc w req = (p', bc', w', req', sc)"
  shows "\<exists>m \<le> length pls. pp_calls p' = pp_calls p @ map call [i..<i + m] \<and> pp_llmPlugins p' = pp_llmPlugins p
     \<and> (m > 0 \<longrightarrow> cnt p' = i + m) \<and> (m = 0 \<longrightarrow> p' = p)
     \<and> (case sc of None \<Rightarrow> m = length pls
        | Some s \<Rightarrow> m > 0 \<and> (\<exists>pl \<in> set pls. \<exists>c v r. fst (snd (snd (snd (hook pl c v r)))) = Some s))"
  using assms(2)
proof (induction pls arbitrary: i p bc w req)
  case (Cons pl pls)
  obtain ops w1 req1 s e where h: "hook pl bc w req = (ops, w1, req1, s, e)" by (metis prod_cases5)
  define p1 where "p1 = note_run (i + 1) (p\<lparr>pp_preHookErrors := pp_preHookErrors p @ opt_list e,
                                pp_calls := pp_calls p @ [call i]\<rparr>)"
  have p1: "pp_calls p1 = pp_calls p @ [call i]" "pp_llmPlugins p1 = pp_llmPlugins p" "cnt p1 = i + 1"
    by (simp_all add: p1_def keeps)
  show ?case
  proof (cases s)
    case None
    then have step: "pre_hook_loop hook call note_run (i + 1) pls p1 (fold run_ctx_op ops bc) w1 req1 = (p', bc', w', req', sc)"
      using Cons.prems by (simp add: h p1_def Let_def)
    obtain m where m: "m \<le> length pls" "pp_calls p' = pp_calls p1 @ map call [i + 1..<i + 1 + m]"
        "pp_llmPlugins p' = pp_llmPlugins p1" "m > 0 \<longrightarrow> cnt p' = i + 1 + m" "m = 0 \<longrightarrow> p' = p1"
        "case sc of None \<Rightarrow> m = length pls
        | Some s \<Rightarrow> m > 0 \<and> (\<exists>pl \<in> set pls. \<exists>c v r. fst (snd (snd (snd (hook pl c v r)))) = Some s)"
      using Cons.IH [OF step] by blast
    have "[i..<i + Suc m] = i # [i + 1..<i + 1 + m]" by (simp add: upt_conv_Cons)
    then show ?thesis using m p1 by (intro exI [of _ "Suc m"]) (auto split: option.splits)
  next
    case (Some s')
    then have "p' = p1" "sc = Some s'" using Cons.prems by (auto simp: h p1_def Let_def)
    then show ?thesis using p1 h Some by (intro exI [of _ 1]) (auto intro!: exI [of _ bc] exI [of _ w] exI [of _ req])
  qed
qed auto

lemma post_hook_loop_calls:
  "post_hook_loop n p bc w resp err = (p', bc', w', resp', err') \<Longrightarrow>
     pp_calls p' = pp_calls p @ posts n \<and> pp_llmPlugins p' = pp_llmPlugins p"
proof (induction n arbitrary: p bc w resp err)
  case (Suc i)
  obtain ops w1 resp1 err1 e where h: "pl_PostLLMHook (pp_llmPlugins p ! i) bc w resp err = (ops, w1, resp1, err1, e)"
    by (metis prod_cases5)
  show ?case using Suc.prems Suc.IH by (fastforce simp: h Let_def)
qed simp

text \<open>The hooks that ran after a short circuit or an answer, unless the pipeline is switched off.\<close>

lemma finish_hooks_calls:
  "pp_calls (fst (finish_hooks p ctx w resp err n t pr m)) = pp_calls p @
      posts (if bool_flag ctx KeySkipPluginPipeline then 0 else min n (length (pp_llmPlugins p)))"
  "bool_flag ctx KeySkipPluginPipeline \<Longrightarrow>
      bool_flag (fst (snd (finish_hooks p ctx w resp err n t pr m))) KeySkipPluginPipeline"
proof -
  let ?k = "min n (length (pp_llmPlugins p))"
  obtain p1 bc1 w1 r1 e1 where h: "post_hook_loop ?k p (BlockRestrictedWrites ctx) w resp err = (p1, bc1, w1, r1, e1)"
    by (metis prod_cases5)
  have *: "fst (finish_hooks p ctx w resp err n t pr m) = fst (RunPostLLMHooks p ctx w resp err (int n))"
    "fst (snd (finish_hooks p ctx w resp err n t pr m)) = fst (snd (RunPostLLMHooks p ctx w resp err (int n)))"
    by (simp_all add: finish_hooks_def split_beta split: option.splits)
  show "pp_calls (fst (finish_hooks p ctx w resp err n t pr m)) = pp_calls p @
      posts (if bool_flag ctx KeySkipPluginPipeline then 0 else ?k)"
    using post_hook_loop_calls [OF h] by (simp add: * RunPostLLMHooks_def h Let_def)
  show "bool_flag (fst (snd (finish_hooks p ctx w resp err n t pr m))) KeySkipPluginPipeline"
    if "bool_flag ctx KeySkipPluginPipeline" using that by (simp add: * RunPostLLMHooks_def)
qed

text \<open>What the environment owes: the live plugin list has not shrunk, the worker leaves the pipeline
  switch alone, and a short circuit carries a response or an error.\<close>

definition well_behaved :: "'w attempt_env \<Rightarrow> bool" where
  "well_behaved env \<longleftrightarrow>
     (\<forall>w. length (ae_llmPlugins env) \<le> ae_pluginCount env w) \<and>
     (\<forall>ctx w r. bool_flag (fst (ae_worker env ctx w r)) KeySkipPluginPipeline = bool_flag ctx KeySkipPluginPipeline) \<and>
     (\<forall>pl \<in> set (ae_llmPlugins env). \<forall>ctx w r sc.
        fst (snd (snd (snd (pl_PreProviderHook pl ctx w r)))) = Some sc \<or> fst (snd (snd (snd (pl_PreLLMHook pl ctx w r)))) = Some sc
          \<longrightarrow> ps_Response sc \<noteq> None \<or> ps_Error sc \<noteq> None)"

text \<open>The last conjunct: if the attempt returned no error and the pipeline is not switched off at the
  end, the post-hooks ran.\<close>

definition paired :: "nat \<Rightarrow> 'w attempt \<Rightarrow> nat \<Rightarrow> bool" where
  "paired due a k \<longleftrightarrow> (k = 0 \<or> k = due)
     \<and> (snd (snd (snd (snd a))) = None \<and> \<not> bool_flag (fst (snd a)) KeySkipPluginPipeline \<longrightarrow> k = due)"

lemma paired_finish:
  assumes "n \<le> length (pp_llmPlugins p)"
  shows "\<exists>k. pp_calls (fst (finish_hooks p ctx w resp err n t pr m)) = pp_calls p @ posts k
     \<and> paired n (finish_hooks p ctx w resp err n t pr m) k"
  using finish_hooks_calls(1) [of p ctx w resp err n t pr m] finish_hooks_calls(2) [of ctx p w resp err n t pr m] assms
  by (intro exI [of _ "if bool_flag ctx KeySkipPluginPipeline then 0 else n"]) (auto simp: paired_def)

lemma short_circuit_answer_None:
  "short_circuit_answer sc t pr m = None \<longleftrightarrow> ps_Response sc = None \<and> ps_Error sc = None"
  by (auto simp: short_circuit_answer_def split: option.splits)

lemma dispatch_calls:
  assumes "well_behaved env" and "pp_llmPlugins p = ae_llmPlugins env"
  shows "\<exists>k. pp_calls (fst (dispatch_request env p ctx w req r)) = pp_calls p @ posts k
     \<and> paired (length (ae_llmPlugins env)) (dispatch_request env p ctx w req r) k
     \<and> (bool_flag ctx KeySkipPluginPipeline \<longrightarrow> k = 0)"
proof -
  let ?n = "length (ae_llmPlugins env)"
  obtain ctx1 w1 a where wk: "ae_worker env ctx w r = (ctx1, w1, a)" by (metis prod_cases3)
  have flag: "bool_flag ctx1 KeySkipPluginPipeline = bool_flag ctx KeySkipPluginPipeline"
    using assms(1) unfolding well_behaved_def by (metis wk fst_conv)
  have n: "min (ae_pluginCount env w1) ?n = ?n" using assms(1) by (simp add: well_behaved_def min_absorb2)
  define fin where "fin = (\<lambda>bc resp err. finish_hooks p bc w1 resp err (ae_pluginCount env w1) (br_RequestType req)
      (fst (GetRequestFields r)) (fst (snd (GetRequestFields r))))"
  have fin: "pp_calls (fst (fin bc resp err)) = pp_calls p @ posts (if bool_flag bc KeySkipPluginPipeline then 0 else ?n)"
    "bool_flag bc KeySkipPluginPipeline \<Longrightarrow> bool_flag (fst (snd (fin bc resp err))) KeySkipPluginPipeline" for bc resp err
    unfolding fin_def by (simp_all add: finish_hooks_calls assms(2) n)
  let ?d = "dispatch_request env p ctx w req r"
  let ?k = "if bool_flag ctx KeySkipPluginPipeline then 0 else ?n"
  show ?thesis
  proof (cases "enqueue (ae_queue env w)")
    case (Some e)
    then show ?thesis by (intro exI [of _ 0]) (simp add: dispatch_request_def msg_error_def paired_def Let_def split_beta)
  next
    case None
    show ?thesis
    proof (cases a)
      case (GotContextDone c)
      then show ?thesis using None
        by (intro exI [of _ 0]) (simp add: dispatch_request_def msg_error_def paired_def wk Let_def split_beta)
    next
      case (GotResponse result)
      have d: "fst ?d = fst (fin ctx1 result None)" "fst (snd ?d) = fst (snd (fin ctx1 result None))"
        using None GotResponse by (simp_all add: dispatch_request_def fin_def wk Let_def split_beta)
      show ?thesis using fin [of ctx1 result None] flag
        by (intro exI [of _ ?k]) (auto simp: d paired_def)
    next
      case (GotError e)
      let ?bc = "if isSyntheticNoEligibleKeysError (Some e) then SetValue KeySilentLog (CBool True) ctx1 else ctx1"
      have d: "fst ?d = fst (fin ?bc None (Some e))" "fst (snd ?d) = fst (snd (fin ?bc None (Some e)))"
        using None GotError by (simp_all add: dispatch_request_def fin_def wk Let_def split_beta)
      have "bool_flag ?bc KeySkipPluginPipeline = bool_flag ctx KeySkipPluginPipeline" using flag by simp
      then show ?thesis using fin [of ?bc None "Some e"]
        by (intro exI [of _ ?k]) (simp add: d paired_def)
    qed
  qed
qed


lemma exI2: "P a b \<Longrightarrow> \<exists>x y. P x y"
  by blast

lemma exI3: "P a b c \<Longrightarrow> \<exists>x y z. P x y z"
  by blast

lemma well_behaved_answers:
  assumes "well_behaved env" and "pl \<in> set (ae_llmPlugins env)"
    and "fst (snd (snd (snd (pl_PreProviderHook pl ctx w r)))) = Some sc
      \<or> fst (snd (snd (snd (pl_PreLLMHook pl ctx w r)))) = Some sc"
  shows "short_circuit_answer sc t pr m \<noteq> None"
  using assms unfolding well_behaved_def short_circuit_answer_None by blast

lemma RunLLMPreHooks_calls:
  assumes "RunLLMPreHooks p ctx w req = (p', ctx', w', req', sc, c)"
  shows "\<exists>j \<le> length (pp_llmPlugins p). pp_calls p' = pp_calls p @ map CallPreLLM [0..<j] \<and> pp_llmPlugins p' = pp_llmPlugins p
     \<and> (bool_flag ctx KeySkipPluginPipeline \<longrightarrow> j = 0 \<and> ctx' = ctx \<and> sc = None)
     \<and> (\<not> bool_flag ctx KeySkipPluginPipeline \<and> sc = None \<longrightarrow> j = length (pp_llmPlugins p))
     \<and> (\<forall>s. sc = Some s \<longrightarrow> 0 < j \<and> c = j \<and>
          (\<exists>pl \<in> set (pp_llmPlugins p). \<exists>a v r. fst (snd (snd (snd (pl_PreLLMHook pl a v r)))) = Some s))"
proof (cases "bool_flag ctx KeySkipPluginPipeline")
  case False
  let ?run = "\<lambda>n q :: 'a PluginPipeline. q\<lparr>pp_executedPreHooks := n\<rparr>"
  obtain bc where loop: "pre_hook_loop pl_PreLLMHook CallPreLLM ?run 0 (pp_llmPlugins p) p (BlockRestrictedWrites ctx) w req
      = (p', bc, w', req', sc)" and c: "c = pp_executedPreHooks p'"
    using assms False by (auto simp: RunLLMPreHooks_def split: prod.splits)
  show ?thesis using pre_hook_loop_calls [where cnt = pp_executedPreHooks, OF _ loop] c False
    by (fastforce split: option.splits)
qed (use assms in \<open>simp add: RunLLMPreHooks_def\<close>)

lemma RunPreProviderHooks_calls:
  assumes "RunPreProviderHooks g p ctx w req = (p', ctx', w', req', sc, c)"
  shows "\<exists>i \<le> length (pp_llmPlugins p). pp_calls p' = pp_calls p @ map CallPreProvider [0..<i] \<and> pp_llmPlugins p' = pp_llmPlugins p
     \<and> (bool_flag ctx KeySkipPluginPipeline \<longrightarrow> i = 0 \<and> ctx' = ctx \<and> sc = None)
     \<and> (\<not> bool_flag ctx KeySkipPluginPipeline \<and> sc = None \<longrightarrow> i = length (pp_llmPlugins p))
     \<and> (\<forall>s. sc = Some s \<longrightarrow> 0 < i \<and> c = i \<and>
          (\<exists>pl \<in> set (pp_llmPlugins p). \<exists>a v r. fst (snd (snd (snd (pl_PreProviderHook pl a v r)))) = Some s))"
proof (cases "bool_flag ctx KeySkipPluginPipeline")
  case False
  let ?run = "\<lambda>n q :: 'a PluginPipeline. q\<lparr>pp_executedPreProviderHooks := n\<rparr>"
  let ?ctx = "BlockRestrictedWrites (case req of
      Some r \<Rightarrow> stampProviderCooldownPolicyOnContext g ctx (fst (GetRequestFields r)) | None \<Rightarrow> ctx)"
  obtain bc where loop: "pre_hook_loop pl_PreProviderHook CallPreProvider ?run 0 (pp_llmPlugins p) p ?ctx w req
      = (p', bc, w', req', sc)" and c: "c = pp_executedPreProviderHooks p'"
    using assms False by (auto simp: RunPreProviderHooks_def Let_def split: prod.splits)
  show ?thesis using pre_hook_loop_calls [where cnt = pp_executedPreProviderHooks, OF _ loop] c False
    by (fastforce split: option.splits)
qed (use assms in \<open>simp add: RunPreProviderHooks_def\<close>)

lemma llm_phase_calls:
  assumes wb: "well_behaved env" and pls: "pp_llmPlugins p = ae_llmPlugins env"
  shows "\<exists>j k. j \<le> length (ae_llmPlugins env)
     \<and> pp_calls (fst (llm_phase env p ctx w req pr m)) = pp_calls p @ map CallPreLLM [0..<j] @ posts k
     \<and> paired (if j = 0 then length (ae_llmPlugins env) else j) (llm_phase env p ctx w req pr m) k
     \<and> (bool_flag ctx KeySkipPluginPipeline \<longrightarrow> j = 0 \<and> k = 0)"
proof -
  obtain p1 ctx1 w1 r sc c where h: "RunLLMPreHooks p ctx w (Some req) = (p1, ctx1, w1, r, sc, c)" by (metis prod_cases6)
  obtain j where j: "j \<le> length (ae_llmPlugins env)" "pp_calls p1 = pp_calls p @ map CallPreLLM [0..<j]"
    "pp_llmPlugins p1 = ae_llmPlugins env"
    "bool_flag ctx KeySkipPluginPipeline \<longrightarrow> j = 0 \<and> ctx1 = ctx \<and> sc = None"
    "\<not> bool_flag ctx KeySkipPluginPipeline \<and> sc = None \<longrightarrow> j = length (ae_llmPlugins env)"
    and sc: "\<forall>s. sc = Some s \<longrightarrow> 0 < j \<and> c = j \<and>
          (\<exists>pl \<in> set (ae_llmPlugins env). \<exists>a v r. fst (snd (snd (snd (pl_PreLLMHook pl a v r)))) = Some s)"
    using RunLLMPreHooks_calls [OF h] pls by auto
  show ?thesis
  proof (cases sc)
    case None
    show ?thesis
    proof (cases r)
      case None
      then have "llm_phase env p ctx w req pr m = msg_error p1 ctx1 w1
          (newBifrostErrorFromMsg ''bifrost request after plugin hooks cannot be nil'') (br_RequestType req) pr m"
        using h \<open>sc = None\<close> by (simp add: llm_phase_def Let_def)
      then show ?thesis using j by (intro exI2 [of _ j 0]) (simp add: msg_error_def paired_def)
    next
      case (Some r1)
      have e: "llm_phase env p ctx w req pr m = dispatch_request env p1 ctx1 w1 req r1"
        using h \<open>sc = None\<close> Some by (simp add: llm_phase_def Let_def)
      obtain k where "pp_calls (fst (dispatch_request env p1 ctx1 w1 req r1)) = pp_calls p1 @ posts k"
        "paired (length (ae_llmPlugins env)) (dispatch_request env p1 ctx1 w1 req r1) k"
        "bool_flag ctx1 KeySkipPluginPipeline \<longrightarrow> k = 0"
        using dispatch_calls [OF wb j(3)] by blast
      then show ?thesis using j \<open>sc = None\<close> unfolding e 
        by (intro exI2 [of _ j k]) (cases "bool_flag ctx KeySkipPluginPipeline"; auto)
    qed
  next
    case (Some s)
    have "short_circuit_answer s (br_RequestType req) pr m \<noteq> None"
      using sc Some well_behaved_answers [OF wb] by blast
    then obtain resp err where "short_circuit_answer s (br_RequestType req) pr m = Some (resp, err)" by auto
    then have e: "llm_phase env p ctx w req pr m = finish_hooks p1 ctx1 w1 resp err j (br_RequestType req) pr m"
      using h Some sc by (simp add: llm_phase_def Let_def)
    obtain k where "pp_calls (fst (finish_hooks p1 ctx1 w1 resp err j (br_RequestType req) pr m)) = pp_calls p1 @ posts k"
      "paired j (finish_hooks p1 ctx1 w1 resp err j (br_RequestType req) pr m) k"
      using paired_finish [of j p1] j(1,3) by metis
    then show ?thesis using j sc Some unfolding e by (intro exI2 [of _ j k]) auto
  qed
qed


lemma provider_phase_calls:
  assumes wb: "well_behaved env" and pls: "pp_llmPlugins p = ae_llmPlugins env"
  shows "\<exists>i j k. i \<le> length (ae_llmPlugins env) \<and> j \<le> length (ae_llmPlugins env)
     \<and> (0 < j \<longrightarrow> i = length (ae_llmPlugins env))
     \<and> pp_calls (fst (provider_phase env p ctx w req pr m)) =
         pp_calls p @ map CallPreProvider [0..<i] @ map CallPreLLM [0..<j] @ posts k
     \<and> paired (if j = 0 then i else j) (provider_phase env p ctx w req pr m) k"
proof -
  let ?n = "length (ae_llmPlugins env)" and ?ctx = "stampProviderKeysOnContext (ae_keys env) ctx pr"
  obtain p1 ctx1 w1 r sc c where h: "RunPreProviderHooks (ae_config env) p ?ctx w (Some req) = (p1, ctx1, w1, r, sc, c)"
    by (metis prod_cases6)
  define ctx2 where "ctx2 = (case sc of Some s \<Rightarrow> if ps_Silent s then SetValue KeySilentLog (CBool True) ctx1 else ctx1
      | None \<Rightarrow> ctx1)"
  obtain i where i: "i \<le> ?n" "pp_calls p1 = pp_calls p @ map CallPreProvider [0..<i]" "pp_llmPlugins p1 = ae_llmPlugins env"
    "bool_flag ?ctx KeySkipPluginPipeline \<longrightarrow> i = 0 \<and> ctx1 = ?ctx \<and> sc = None"
    "\<not> bool_flag ?ctx KeySkipPluginPipeline \<and> sc = None \<longrightarrow> i = ?n"
    and sc: "\<forall>s. sc = Some s \<longrightarrow> 0 < i \<and> c = i \<and>
          (\<exists>pl \<in> set (ae_llmPlugins env). \<exists>a v r. fst (snd (snd (snd (pl_PreProviderHook pl a v r)))) = Some s)"
    using RunPreProviderHooks_calls [OF h] pls by auto
  show ?thesis
  proof (cases sc)
    case None
    then have c2: "ctx2 = ctx1" by (simp add: ctx2_def)
    show ?thesis
    proof (cases r)
      case None
      then have "provider_phase env p ctx w req pr m = msg_error p1 ctx1 w1
          (newBifrostErrorFromMsg ''bifrost request after PreProviderHook cannot be nil'') (br_RequestType req) pr m"
        using h \<open>sc = None\<close> by (simp add: provider_phase_def Let_def)
      then show ?thesis using i by (intro exI3 [of _ i 0 0]) (simp add: msg_error_def paired_def)
    next
      case (Some r1)
      have e: "provider_phase env p ctx w req pr m = llm_phase env p1 ctx1 w1 r1 pr m"
        using h \<open>sc = None\<close> Some by (simp add: provider_phase_def Let_def)
      obtain j k where jk: "j \<le> ?n"
        "pp_calls (fst (llm_phase env p1 ctx1 w1 r1 pr m)) = pp_calls p1 @ map CallPreLLM [0..<j] @ posts k"
        "paired (if j = 0 then ?n else j) (llm_phase env p1 ctx1 w1 r1 pr m) k"
        "bool_flag ctx1 KeySkipPluginPipeline \<longrightarrow> j = 0 \<and> k = 0"
        using llm_phase_calls [OF wb i(3)] by blast
      show ?thesis using i jk \<open>sc = None\<close> unfolding e
        by (intro exI3 [of _ i j k])
          (cases "bool_flag ?ctx KeySkipPluginPipeline"; auto simp: paired_def split: if_splits)
    qed
  next
    case (Some s)
    have "short_circuit_answer s (br_RequestType req) pr m \<noteq> None"
      using sc Some well_behaved_answers [OF wb] by blast
    then obtain resp err where "short_circuit_answer s (br_RequestType req) pr m = Some (resp, err)" by auto
    then have e: "provider_phase env p ctx w req pr m = finish_hooks p1 ctx2 w1 resp err i (br_RequestType req) pr m"
      using h Some sc by (simp add: provider_phase_def ctx2_def Let_def)
    obtain k where "pp_calls (fst (finish_hooks p1 ctx2 w1 resp err i (br_RequestType req) pr m)) = pp_calls p1 @ posts k"
      "paired i (finish_hooks p1 ctx2 w1 resp err i (br_RequestType req) pr m) k"
      using paired_finish [of i p1] i(1,3) by metis
    then show ?thesis using i sc Some unfolding e
      by (intro exI3 [of _ i 0 k]) auto
  qed
qed



text \<open>A plugin that only looks on, one that routes, and an attempt whose provider answers.\<close>

definition quiet_plugin :: "unit LLMPlugin" where
  "quiet_plugin = \<lparr>pl_Name = ''quiet'', pl_PreRequestHook = (\<lambda>ctx w r. ([], w, r, None)),
     pl_PreProviderHook = (\<lambda>ctx w r. ([], w, r, None, None)), pl_PreLLMHook = (\<lambda>ctx w r. ([], w, r, None, None)),
     pl_PostLLMHook = (\<lambda>ctx w r e. ([], w, r, e, None))\<rparr>"

definition routing_plugin :: "unit LLMPlugin" where
  "routing_plugin = quiet_plugin\<lparr>pl_PreRequestHook := (\<lambda>ctx w r.
     ([OpSet KeyAPIKeyID (CString ''other''), OpSet KeyRoutingPinnedAPIKeyID (CString '' key-7 ''), OpClear KeyRequestID],
      w, r, None))\<rparr>"

definition sample_attempt :: "unit attempt_env" where
  "sample_attempt = \<lparr>ae_llmPlugins = [quiet_plugin, routing_plugin], ae_pluginCount = (\<lambda>_. 2), ae_queueError = (\<lambda>_. None),
     ae_addTools = None, ae_hasTracer = True, ae_keys = (\<lambda>_. None), ae_config = (\<lambda>_. None),
     ae_queue = (\<lambda>_. \<lparr>qe_isClosing = False, qe_rerouted = False, qe_select = Some Sent, qe_dropExcessRequests = False,
       qe_isClosing2 = False, qe_select2 = Sent\<rparr>),
     ae_worker = (\<lambda>ctx w r. (ctx, w, GotResponse (Some \<lparr>rs_ExtraFields = Some zeroExtraFields, rs_Body = ''hi''\<rparr>)))\<rparr>"

definition sample_ctx :: BifrostContext where
  "sample_ctx = \<lparr>cx_userValues = Some [(KeyRequestID, Some (CString ''r1''))], cx_parent = (\<lambda>_. None),
     cx_blockRestrictedWrites = False\<rparr>"

lemma sample_attempt_well_behaved: "well_behaved sample_attempt"
  by (simp add: well_behaved_def sample_attempt_def quiet_plugin_def routing_plugin_def)




end
