(* ===== verification/Fallback.thy ===== *)
theory Fallback
  imports Plugin_Pipeline
begin

text \<open>
  The fallback chain: \<open>handleRequest\<close> and \<open>handleStreamRequest\<close> with their helpers (\<open>core/bifrost.go\<close>,
  \<open>core/utils.go\<close>). \<open>handleRequest\<close> runs \<^const>\<open>tryRequest\<close>; the loop is shared with \<open>handleStreamRequest\<close>, whose
  attempt is an argument. The identifiers of \<open>uuid.New\<close> are the values of \<open>he_uuid\<close>: 0 for the request, \<open>i + 1\<close>
  for fallback \<open>i\<close>. A nil dereference is \<^const>\<open>None\<close>. Beside the code's results the handlers return the
  fallbacks they tried. Spans, routing logs, latency stamps and the model catalog handle are not modelled.
\<close>

definition isModelRequired :: "RequestType \<Rightarrow> bool" where
  "isModelRequired t \<longleftrightarrow> t \<in> {''text_completion'', ''text_completion_stream'', ''chat_completion'',
     ''chat_completion_stream'', ''responses'', ''responses_stream'', ''speech'', ''speech_stream'',
     ''transcription'', ''transcription_stream'', ''embedding'', ''image_generation'',
     ''image_generation_stream'', ''video_generation''}"

definition validateRequestAfterPreRequestHooks :: "BifrostRequest \<Rightarrow> BifrostError option" where
  "validateRequestAfterPreRequestHooks req =
     (let (provider, model, _) = GetRequestFields req in
      if provider = '''' then
        Some (newBifrostErrorFromMsg
          ''could not auto resolve a provider for the request, please specify a provider explicitly'')
      else if isModelRequired (br_RequestType req) \<and> model = '''' then
        Some (newBifrostErrorFromMsg
          ''could not auto resolve a model for the request, please specify a model explicitly'')
      else None)"

definition fallback_cleared_keys :: "string list" where
  "fallback_cleared_keys =
    [KeyAPIKeyID, KeyAPIKeyName, ''bf-governance-include-only-keys'', ''bifrost-change-request-type'',
     KeyAttemptTrail, ''bifrost-stream-end-indicator'', ''connection_closed'',
     ''bifrost-supports-assistant-prefill'', KeySilentLog, KeyRetryAfterSeconds]"

definition clearCtxForFallback :: "BifrostContext \<Rightarrow> BifrostContext" where
  "clearCtxForFallback ctx = fold ClearValue fallback_cleared_keys ctx"

definition shouldTryFallbacks :: "BifrostRequest \<Rightarrow> BifrostError option \<Rightarrow> bool" where
  "shouldTryFallbacks req primaryErr =
     (case primaryErr of
        None \<Rightarrow> False
      | Some e \<Rightarrow>
          if is_cancelled e then False
          else if be_AllowFallbacks e = Some False then False
          else snd (snd (GetRequestFields req)) \<noteq> [])"

definition rewritten_kinds :: "request_kind list" where
  "rewritten_kinds =
    [RTextCompletion, RChat, RResponses, RCountTokens, RCompaction, REmbedding, RRerank, ROCR,
     RSpeech, RTranscription, RImageGeneration, RVideoGeneration]"

definition prepareFallbackRequest ::
    "(ModelProvider \<Rightarrow> bool) \<Rightarrow> BifrostRequest \<Rightarrow> Fallback \<Rightarrow> BifrostRequest option" where
  "prepareFallbackRequest hasConfig req fb =
     (if \<not> hasConfig (fb_Provider fb) then None
      else Some (fold (\<lambda>k. update_part k (\<lambda>r. r\<lparr>sr_Provider := fb_Provider fb, sr_Model := Some (fb_Model fb)\<rparr>))
                   rewritten_kinds req))"

text \<open>\<^const>\<open>None\<close> is the nil dereference of \<open>fallbackErr.Error.Type\<close>.\<close>

definition shouldContinueWithFallbacks :: "BifrostError \<Rightarrow> bool option" where
  "shouldContinueWithFallbacks fallbackErr =
     (case be_Error fallbackErr of
        None \<Rightarrow> None
      | Some f \<Rightarrow>
          if ef_Type f = Some RequestCancelled then Some False
          else if be_AllowFallbacks fallbackErr = Some False then Some False
          else Some True)"

record ('w, 'r) handler_env =
  he_try :: "BifrostContext \<Rightarrow> 'w \<Rightarrow> BifrostRequest \<Rightarrow> BifrostContext \<times> 'w \<times> 'r option \<times> BifrostError option"
  he_plugins :: "'w LLMPlugin list"
  he_hasConfig :: "ModelProvider \<Rightarrow> bool"
  he_uuid :: "nat \<Rightarrow> string"
  he_served :: "BifrostContext \<Rightarrow> 'r option \<Rightarrow> ModelProvider \<Rightarrow> string \<Rightarrow> BifrostContext \<times> 'r option"

definition enter_fallback :: "(nat \<Rightarrow> string) \<Rightarrow> nat \<Rightarrow> BifrostContext \<Rightarrow> BifrostContext" where
  "enter_fallback uuid i ctx =
     clearCtxForFallback (SetValue KeyFallbackRequestID (CString (uuid (i + 1)))
       (SetValue KeyFallbackIndex (CInt (int i + 1)) ctx))"

text \<open>A tried fallback: its position, the context its attempt started from and the attempt's error.\<close>

record tried =
  td_index :: nat
  td_fallback :: Fallback
  td_ctx :: BifrostContext
  td_err :: "BifrostError option"

type_synonym ('w, 'r) handled =
  "(BifrostContext \<times> 'w \<times> 'r option \<times> BifrostError option \<times> tried list) option"

fun fallback_loop ::
    "('w, 'r) handler_env \<Rightarrow> BifrostRequest \<Rightarrow> ModelProvider \<Rightarrow> string \<Rightarrow> BifrostError \<Rightarrow> nat \<Rightarrow> Fallback list
     \<Rightarrow> BifrostContext \<Rightarrow> 'w \<Rightarrow> ('w, 'r) handled" where
  "fallback_loop env req provider model primaryErr i [] ctx w = Some (ctx, w, None, Some primaryErr, [])"
| "fallback_loop env req provider model primaryErr i (fb # fbs) ctx w =
     (let ctx1 = enter_fallback (he_uuid env) i ctx in
      case prepareFallbackRequest (he_hasConfig env) req fb of
        None \<Rightarrow> fallback_loop env req provider model primaryErr (i + 1) fbs ctx1 w
      | Some fallbackReq \<Rightarrow>
          let (ctx2, w2, result, err) = he_try env ctx1 w fallbackReq in
          case err of
            None \<Rightarrow>
              let (ctx3, result') = he_served env ctx2 result provider model
              in Some (ctx3, w2, result', None, [\<lparr>td_index = i, td_fallback = fb, td_ctx = ctx1, td_err = None\<rparr>])
          | Some e \<Rightarrow>
              let fallbackErr = SetFallbackRoutingInfo e provider model;
                  t = \<lparr>td_index = i, td_fallback = fb, td_ctx = ctx1, td_err = Some fallbackErr\<rparr>
              in case shouldContinueWithFallbacks fallbackErr of
                   None \<Rightarrow> None
                 | Some False \<Rightarrow> Some (ctx2, w2, None, Some fallbackErr, [t])
                 | Some True \<Rightarrow>
                     map_option (\<lambda>(c, v, r, e', ts). (c, v, r, e', t # ts))
                       (fallback_loop env req provider model primaryErr (i + 1) fbs ctx2 w2))"

definition start_request :: "(nat \<Rightarrow> string) \<Rightarrow> BifrostContext \<Rightarrow> BifrostContext" where
  "start_request uuid ctx =
     (let c1 = SetValue KeyFallbackIndex (CInt 0) ctx in
      case Option.bind (Value c1 KeyRequestID) dest_string of
        Some _ \<Rightarrow> c1
      | None \<Rightarrow> SetValue KeyRequestID (CString (uuid 0)) c1)"

definition handle_with_fallbacks ::
    "('w, 'r) handler_env \<Rightarrow> BifrostContext \<Rightarrow> 'w \<Rightarrow> BifrostRequest \<Rightarrow> ('w, 'r) handled" where
  "handle_with_fallbacks env ctx w req0 =
     (let (_, ctx1, w1, req) =
            RunPreRequestHooks (getPluginPipeline (he_plugins env)) (start_request (he_uuid env) ctx) w req0;
          (provider, model, fallbacks) = GetRequestFields req
      in case validateRequestAfterPreRequestHooks req of
           Some err \<Rightarrow>
             Some (ctx1, w1, None, Some (PopulateExtraFields err (br_RequestType req) provider model model), [])
         | None \<Rightarrow>
             let (ctx2, w2, primaryResult, primaryErr) = he_try env ctx1 w1 req in
             if \<not> shouldTryFallbacks req primaryErr then Some (ctx2, w2, primaryResult, primaryErr, [])
             else fallback_loop env req provider model (the primaryErr) 0 fallbacks
                    (AppendRoutingEngine ''core'' ctx2) w2)"

text \<open>The two entry points differ in what they do with a fallback's success: \<open>handleRequest\<close> marks the
  response, \<open>handleStreamRequest\<close> the routing information in the context.\<close>

definition handleRequest ::
    "'w attempt_env \<Rightarrow> (ModelProvider \<Rightarrow> bool) \<Rightarrow> (nat \<Rightarrow> string) \<Rightarrow> BifrostContext \<Rightarrow> 'w \<Rightarrow> BifrostRequest
     \<Rightarrow> ('w, BifrostResponse) handled" where
  "handleRequest aenv hasConfig uuid =
     handle_with_fallbacks
       \<lparr>he_try = (\<lambda>ctx w req. snd (tryRequest aenv ctx w req)), he_plugins = ae_llmPlugins aenv,
        he_hasConfig = hasConfig, he_uuid = uuid,
        he_served = (\<lambda>ctx r p m. (ctx, map_option (\<lambda>x. Response_SetFallbackRoutingInfo x p m) r))\<rparr>"

definition stream_fallback_info :: "BifrostContext \<Rightarrow> ModelProvider \<Rightarrow> string \<Rightarrow> BifrostContext" where
  "stream_fallback_info ctx provider model =
     (case Value ctx KeyRoutingInfo of
        Some (CRouting ri) \<Rightarrow> SetRoutingInfoSnapshot (mark_fallback provider model ri) ctx
      | _ \<Rightarrow> ctx)"

definition handleStreamRequest ::
    "(BifrostContext \<Rightarrow> 'w \<Rightarrow> BifrostRequest \<Rightarrow> BifrostContext \<times> 'w \<times> 'r option \<times> BifrostError option) \<Rightarrow> 'w LLMPlugin list
     \<Rightarrow> (ModelProvider \<Rightarrow> bool) \<Rightarrow> (nat \<Rightarrow> string) \<Rightarrow> BifrostContext \<Rightarrow> 'w \<Rightarrow> BifrostRequest \<Rightarrow> ('w, 'r) handled" where
  "handleStreamRequest tryStreamRequest plugins hasConfig uuid =
     handle_with_fallbacks
       \<lparr>he_try = tryStreamRequest, he_plugins = plugins, he_hasConfig = hasConfig, he_uuid = uuid,
        he_served = (\<lambda>ctx r p m. (stream_fallback_info ctx p m, r))\<rparr>"


subsection \<open>The outcome of the chain\<close>

lemma SetFallback_frame [simp]:
  "be_Error (SetFallbackRoutingInfo e p m) = be_Error e"
  "be_AllowFallbacks (SetFallbackRoutingInfo e p m) = be_AllowFallbacks e"
  by (simp_all add: SetFallbackRoutingInfo_def Let_def)

lemma shouldContinue_frame [simp]:
  "shouldContinueWithFallbacks (SetFallbackRoutingInfo e p m) = shouldContinueWithFallbacks e"
  by (simp add: shouldContinueWithFallbacks_def)

lemma shouldContinue_total: "be_Error e \<noteq> None \<Longrightarrow> shouldContinueWithFallbacks e \<noteq> None"
  by (auto simp: shouldContinueWithFallbacks_def)

definition gave_way :: "tried \<Rightarrow> bool" where
  "gave_way t \<longleftrightarrow> (\<exists>e. td_err t = Some e \<and> shouldContinueWithFallbacks e = Some True)"

definition usable :: "(ModelProvider \<Rightarrow> bool) \<Rightarrow> Fallback list \<Rightarrow> Fallback list" where
  "usable hasConfig fbs = filter (\<lambda>fb. hasConfig (fb_Provider fb)) fbs"

text \<open>The contract of the chain: the fallbacks tried are the first ones with a configuration, in order; all
  but the last gave way; and the request ends with the first success, the first error that forbids
  going on, or the primary's error when every usable fallback gave way.\<close>

definition chain_ok ::
    "(ModelProvider \<Rightarrow> bool) \<Rightarrow> Fallback list \<Rightarrow> BifrostError \<Rightarrow> 'r option \<Rightarrow> BifrostError option \<Rightarrow> tried list \<Rightarrow> bool" where
  "chain_ok hasConfig fbs primaryErr r err ts \<longleftrightarrow>
     map td_fallback ts = take (length ts) (usable hasConfig fbs) \<and>
     (\<forall>t \<in> set (butlast ts). gave_way t) \<and>
     (case err of
        None \<Rightarrow> ts \<noteq> [] \<and> td_err (last ts) = None
      | Some e \<Rightarrow> r = None \<and>
          (ts \<noteq> [] \<and> td_err (last ts) = Some e \<and> shouldContinueWithFallbacks e = Some False
           \<or> e = primaryErr \<and> map td_fallback ts = usable hasConfig fbs \<and> (\<forall>t \<in> set ts. gave_way t)))"

lemma usable_simps [simp]:
  "usable f [] = []" "usable f (fb # fbs) = (if f (fb_Provider fb) then fb # usable f fbs else usable f fbs)"
  by (simp_all add: usable_def)

lemma chain_ok_skip:
  assumes "\<not> f (fb_Provider fb)" shows "chain_ok f (fb # fbs) pe r err ts = chain_ok f fbs pe r err ts"
proof -
  have "usable f (fb # fbs) = usable f fbs" using assms by simp
  then show ?thesis unfolding chain_ok_def by (rule ssubst) simp
qed

lemma chain_ok_step:
  assumes "f (fb_Provider (td_fallback t))" and "gave_way t" and "chain_ok f fbs pe r err ts"
  shows "chain_ok f (td_fallback t # fbs) pe r err (t # ts)"
  using assms by (cases ts; cases err) (auto simp: chain_ok_def)

lemma fallback_loop_outcome:
  assumes bodies: "\<And>c v q e. snd (snd (snd (he_try env c v q))) = Some e \<Longrightarrow> be_Error e \<noteq> None"
  shows "\<exists>ctx' w' r err ts. fallback_loop env req provider model pe i fbs ctx w = Some (ctx', w', r, err, ts)
     \<and> chain_ok (he_hasConfig env) fbs pe r err ts"
proof (induction fbs arbitrary: i ctx w)
  case Nil
  then show ?case by (simp add: chain_ok_def)
next
  case (Cons fb fbs)
  let ?ctx = "enter_fallback (he_uuid env) i ctx"
  show ?case
  proof (cases "he_hasConfig env (fb_Provider fb)")
    case False
    then have "prepareFallbackRequest (he_hasConfig env) req fb = None" by (simp add: prepareFallbackRequest_def)
    then show ?thesis using Cons.IH [of "i + 1" ?ctx w] False
      by (simp add: Let_def chain_ok_skip [of "he_hasConfig env" fb])
  next
    case True
    then obtain q where q: "prepareFallbackRequest (he_hasConfig env) req fb = Some q" by (simp add: prepareFallbackRequest_def)
    obtain c2 w2 res err where att: "he_try env ?ctx w q = (c2, w2, res, err)" by (metis prod_cases4)
    show ?thesis
    proof (cases err)
      case None
      then show ?thesis using q att True by (simp add: Let_def split_beta chain_ok_def)
    next
      case (Some e)
      let ?fe = "SetFallbackRoutingInfo e provider model"
      let ?t = "\<lparr>td_index = i, td_fallback = fb, td_ctx = ?ctx, td_err = Some ?fe\<rparr>"
      have "shouldContinueWithFallbacks e \<noteq> None" using bodies [of ?ctx w q e] att Some shouldContinue_total by simp
      then consider (stop) "shouldContinueWithFallbacks e = Some False" | (go) "shouldContinueWithFallbacks e = Some True"
        by (metis option.exhaust)
      then show ?thesis
      proof cases
        case stop
        then show ?thesis using q att Some True by (simp add: Let_def chain_ok_def)
      next
        case go
        obtain c' v' r err' ts where
          ih: "fallback_loop env req provider model pe (i + 1) fbs c2 w2 = Some (c', v', r, err', ts)"
              "chain_ok (he_hasConfig env) fbs pe r err' ts" using Cons.IH [of "i + 1" c2 w2] by blast
        have "chain_ok (he_hasConfig env) (fb # fbs) pe r err' (?t # ts)"
          using chain_ok_step [of "he_hasConfig env" ?t] ih(2) True go by (simp add: gave_way_def)
        then show ?thesis using q att Some go ih(1) by (simp add: Let_def)
      qed
    qed
  qed
qed


text \<open>A fallback that fails with an error without a body makes the handler dereference nil.\<close>

lemma nil_error_panics:
  assumes "he_hasConfig env (fb_Provider fb)" and "\<And>c v q. snd (snd (snd (he_try env c v q))) = Some zeroError"
  shows "fallback_loop env req provider model pe i (fb # fbs) ctx w = None"
  using assms by (simp add: prepareFallbackRequest_def shouldContinueWithFallbacks_def zeroError_def Let_def split_beta)


definition down_env :: "(unit, string) handler_env" where
  "down_env = \<lparr>he_try = (\<lambda>ctx w q. if fst (GetRequestFields q) = OpenAI
        then (ctx, w, None, Some (newBifrostErrorFromMsg ''down'')) else (ctx, w, Some ''ok'', None)),
     he_plugins = [], he_hasConfig = (\<lambda>p. p \<noteq> Vertex), he_uuid = (\<lambda>_. ''id''), he_served = (\<lambda>ctx r p m. (ctx, r))\<rparr>"

abbreviation fb_vertex :: Fallback where "fb_vertex \<equiv> \<lparr>fb_Provider = Vertex, fb_Model = ''gemini''\<rparr>"
abbreviation fb_azure :: Fallback where "fb_azure \<equiv> \<lparr>fb_Provider = Azure, fb_Model = ''gpt-4''\<rparr>"

definition chat_with_fallbacks :: BifrostRequest where
  "chat_with_fallbacks = single RChat (sample_part\<lparr>sr_Fallbacks := [fb_vertex, fb_azure]\<rparr>) ''chat_completion''"

lemma chat_with_fallbacks_fields: "GetRequestFields chat_with_fallbacks = (OpenAI, ''gpt-4o'', [fb_vertex, fb_azure])"
  by (simp add: chat_with_fallbacks_def fields_single sample_part_def fallback_kinds_def modelless_kinds_def)


subsection \<open>Where a fallback goes\<close>

lemma fold_update_single:
  "distinct ks \<Longrightarrow> fold (\<lambda>k. update_part k f) ks (single k r t) = single k (if k \<in> set ks then f r else r) t"
proof (induction ks arbitrary: r)
  case (Cons k' ks)
  then show ?case by (cases "k' = k") auto
qed simp

lemma rewritten_kinds_iff: "k \<in> set fallback_kinds \<Longrightarrow> k \<in> set rewritten_kinds \<longleftrightarrow> k \<notin> {RImageEdit, RImageVariation}"
  by (auto simp: fallback_kinds_def rewritten_kinds_def)

lemma rewritten_kinds_distinct: "distinct rewritten_kinds"
  by (simp add: rewritten_kinds_def)

text \<open>Where a fallback goes. For every kind of request that can have fallbacks, the prepared request keeps
  the body, type and fallbacks and goes to the fallback's provider and model - except image edits and
  image variations, which are not rewritten: their fallback attempt goes to the primary provider again.
  A fallback whose provider has no configuration gives no request.\<close>

theorem fallback_request_target:
  assumes "k \<in> set fallback_kinds"
  shows "prepareFallbackRequest hasConfig (single k r t) fb =
    (if \<not> hasConfig (fb_Provider fb) then None
     else Some (single k (if k \<in> {RImageEdit, RImageVariation} then r
                          else r\<lparr>sr_Provider := fb_Provider fb, sr_Model := Some (fb_Model fb)\<rparr>) t))
   \<and> (hasConfig (fb_Provider fb) \<longrightarrow> GetRequestFields (the (prepareFallbackRequest hasConfig (single k r t) fb)) =
          (if k \<in> {RImageEdit, RImageVariation} then GetRequestFields (single k r t)
           else (fb_Provider fb, fb_Model fb, sr_Fallbacks r)))"
proof -
  have e: "prepareFallbackRequest hasConfig (single k r t) fb =
    (if \<not> hasConfig (fb_Provider fb) then None
     else Some (single k (if k \<in> {RImageEdit, RImageVariation} then r
                          else r\<lparr>sr_Provider := fb_Provider fb, sr_Model := Some (fb_Model fb)\<rparr>) t))"
    using rewritten_kinds_iff [OF assms] by (simp add: prepareFallbackRequest_def fold_update_single [OF rewritten_kinds_distinct])
  then show ?thesis using assms fallback_kinds_have_model [OF assms] by (simp add: fields_single)
qed

theorem fallback_request_target_witness:
  "GetRequestFields (the (prepareFallbackRequest (\<lambda>_. True) (single RChat sample_part ''chat_completion'') fb_azure))
     = (Azure, ''gpt-4'', [])
   \<and> GetRequestFields (the (prepareFallbackRequest (\<lambda>_. True) (single RImageEdit sample_part ''image_edit'') fb_azure))
     = GetRequestFields (single RImageEdit sample_part ''image_edit'')"
proof -
  have k: "RChat \<in> set fallback_kinds" "RImageEdit \<in> set fallback_kinds" by (simp_all add: fallback_kinds_def)
  show ?thesis
    using conjunct2 [OF fallback_request_target [OF k(1), of "\<lambda>_. True" sample_part "''chat_completion''" fb_azure]]
      conjunct2 [OF fallback_request_target [OF k(2), of "\<lambda>_. True" sample_part "''image_edit''" fb_azure]]
    by (simp add: sample_part_def)
qed

subsection \<open>The context of a fallback attempt\<close>

lemma fold_ClearValue:
  "opened bc \<Longrightarrow> cx_userValues bc \<noteq> None \<Longrightarrow>
     Value (fold ClearValue ks bc) k = (if k \<in> set ks then None else Value bc k)"
proof (induction ks arbitrary: bc)
  case (Cons x ks)
  then show ?case using Value_ClearValue [of bc x] ClearValue_open [of bc x] by (auto simp: opened_def)
qed simp

lemma fold_ClearValue_opened [simp]: "opened (fold ClearValue ks bc) = opened bc"
  by (induction ks arbitrary: bc) simp_all

lemma enter_fallback_opened [simp]: "opened (enter_fallback uuid i ctx) = opened ctx"
  by (simp add: enter_fallback_def clearCtxForFallback_def)

lemma enter_fallback_values:
  assumes "opened ctx"
  shows "Value (enter_fallback uuid i ctx) KeyFallbackIndex = Some (CInt (int i + 1))"
    and "Value (enter_fallback uuid i ctx) KeyFallbackRequestID = Some (CString (uuid (i + 1)))"
    and "k \<in> set fallback_cleared_keys \<Longrightarrow> Value (enter_fallback uuid i ctx) k = None"
proof -
  have "KeyFallbackIndex \<notin> set fallback_cleared_keys" "KeyFallbackRequestID \<notin> set fallback_cleared_keys"
    by (simp_all add: fallback_cleared_keys_def)
  then show "Value (enter_fallback uuid i ctx) KeyFallbackIndex = Some (CInt (int i + 1))"
    "Value (enter_fallback uuid i ctx) KeyFallbackRequestID = Some (CString (uuid (i + 1)))"
    "k \<in> set fallback_cleared_keys \<Longrightarrow> Value (enter_fallback uuid i ctx) k = None"
    using assms by (simp_all add: enter_fallback_def clearCtxForFallback_def fold_ClearValue SetValue_opens Value_SetValue opened_def)
qed

lemma fallback_loop_tried:
  assumes keeps: "\<And>c v q. opened c \<Longrightarrow> opened (fst (he_try env c v q))"
    and "fallback_loop env req provider model pe i fbs ctx w = Some (ctx', w', r, err, ts)" and "opened ctx" and "t \<in> set ts"
  shows "i \<le> td_index t \<and> td_index t < i + length fbs \<and> fbs ! (td_index t - i) = td_fallback t
    \<and> (\<exists>c. opened c \<and> td_ctx t = enter_fallback (he_uuid env) (td_index t) c)"
  using assms(2-)
proof (induction fbs arbitrary: i ctx w r ts)
  case (Cons fb fbs)
  let ?ctx = "enter_fallback (he_uuid env) i ctx"
  show ?case
  proof (cases "prepareFallbackRequest (he_hasConfig env) req fb")
    case None
    then show ?thesis using Cons.IH [of "i + 1" ?ctx w r ts] Cons.prems by (auto simp: Let_def nth_Cons' Suc_diff_le)
  next
    case (Some q)
    obtain c2 w2 res e where att: "he_try env ?ctx w q = (c2, w2, res, e)" by (metis prod_cases4)
    have c2: "opened c2" using keeps [of ?ctx w q] att Cons.prems by simp
    have here: "td_index t = i \<and> td_fallback t = fb \<and> td_ctx t = ?ctx \<Longrightarrow> ?thesis"
      using Cons.prems(2) by (auto intro!: exI [of _ ctx])
    have later: "?thesis" if "fallback_loop env req provider model pe (i + 1) fbs c2 w2 = Some (ctx', w', r', err, ts')"
      "t \<in> set ts'" for r' ts'
      using Cons.IH [OF that(1) c2 that(2)] by (auto simp: nth_Cons' Suc_diff_le)
    show ?thesis using Cons.prems(1,3) Some att here later
      by (auto simp: Let_def split: option.splits bool.splits prod.splits)
  qed
qed simp


lemma RunPreRequestHooks_opened:
  "RunPreRequestHooks p ctx w req = (p', ctx', w', req') \<Longrightarrow> opened ctx \<Longrightarrow> opened ctx'"
  by (auto simp: RunPreRequestHooks_def commit_routing_pin_def split: if_splits prod.splits option.splits)

lemma start_request_opened [simp]: "opened (start_request uuid ctx) = opened ctx"
  by (simp add: start_request_def Let_def split: option.splits)

lemma AppendRoutingEngine_opened [simp]: "opened (AppendRoutingEngine s ctx) = opened ctx"
  by (simp add: AppendRoutingEngine_def AppendToContextList_def Let_def)

lemma handle_with_fallbacks_tried:
  assumes keeps: "\<And>c v q. opened c \<Longrightarrow> opened (fst (he_try env c v q))"
    and "handle_with_fallbacks env ctx w req0 = Some (ctx', w', r, err, ts)" and "opened ctx" and "t \<in> set ts"
    and "RunPreRequestHooks (getPluginPipeline (he_plugins env)) (start_request (he_uuid env) ctx) w req0 = (p1, ctx1, w1, req)"
  shows "td_index t < length (snd (snd (GetRequestFields req))) \<and> snd (snd (GetRequestFields req)) ! td_index t = td_fallback t
    \<and> (\<exists>c. opened c \<and> td_ctx t = enter_fallback (he_uuid env) (td_index t) c)"
proof -
  have o1: "opened ctx1" using RunPreRequestHooks_opened [OF assms(5)] assms(3) by simp
  obtain c2 w2 res pe where att: "he_try env ctx1 w1 req = (c2, w2, res, pe)" by (metis prod_cases4)
  have o2: "opened (AppendRoutingEngine ''core'' c2)" using keeps [OF o1, of w1 req] att by simp
  have loop: "fallback_loop env req (fst (GetRequestFields req)) (fst (snd (GetRequestFields req))) (the pe) 0
      (snd (snd (GetRequestFields req))) (AppendRoutingEngine ''core'' c2) w2 = Some (ctx', w', r, err, ts)"
    using assms(2,4,5) att by (auto simp: handle_with_fallbacks_def split_beta split: option.splits if_splits)
  show ?thesis using fallback_loop_tried [OF keeps loop o2 assms(4)] by simp
qed

text \<open>C27. No fallback attempt inherits the primary attempt's state: each one starts from a context that carries
  its own position and request identifier and no pinned key, no attempt trail, no retry hint, no silent
  flag and none of the other cleared values, however many attempts ran before it and whatever the hooks
  and the worker wrote, as long as the worker does not leave the context blocked.\<close>

theorem fallback_context_clean:
  assumes "\<And>c v q. opened c \<Longrightarrow> opened (fst (ae_worker aenv c v q))"
    and "handleRequest aenv hasConfig uuid ctx w req0 = Some (ctx', w', r, err, ts)"
    and "opened ctx" and "t \<in> set ts"
    and "RunPreRequestHooks (getPluginPipeline (ae_llmPlugins aenv)) (start_request uuid ctx) w req0 = (p1, ctx1, w1, req)"
  shows "td_index t < length (snd (snd (GetRequestFields req)))
    \<and> snd (snd (GetRequestFields req)) ! td_index t = td_fallback t
    \<and> Value (td_ctx t) KeyFallbackIndex = Some (CInt (int (td_index t) + 1))
    \<and> Value (td_ctx t) KeyFallbackRequestID = Some (CString (uuid (td_index t + 1)))
    \<and> (\<forall>k \<in> set fallback_cleared_keys. Value (td_ctx t) k = None)"
  using handle_with_fallbacks_tried [OF _ assms(2) [unfolded handleRequest_def] assms(3,4)] assms(5)
    tryRequest_opened [OF assms(1)]
  by (auto simp: enter_fallback_values)

definition failing_attempt :: "unit attempt_env" where
  "failing_attempt = sample_attempt\<lparr>ae_worker := (\<lambda>ctx w q. (AppendToTrail
     \<lparr>ar_Attempt = 0, ar_KeyID = ''k1'', ar_KeyName = ''k1'', ar_FailReason = None, ar_TriggeredRotation = False\<rparr> ctx,
     w, GotError (newBifrostErrorFromMsg ''down'')))\<rparr>"


definition tried_of :: "('w, 'r) handled \<Rightarrow> tried list" where
  "tried_of h = (case h of Some (_, _, _, _, ts) \<Rightarrow> ts | None \<Rightarrow> [])"

lemma tried_of_mem: "t \<in> set (tried_of h) \<Longrightarrow> \<exists>c v r e. h = Some (c, v, r, e, tried_of h)"
  by (cases h) (auto simp: tried_of_def)

lemma failing_run:
  "map td_index (tried_of (handleRequest failing_attempt (\<lambda>p. p \<noteq> Vertex) (\<lambda>_. ''id'') sample_ctx () chat_with_fallbacks)) = [1]"
  by code_simp

theorem fallback_context_clean_witness:
  "\<exists>t \<in> set (tried_of (handleRequest failing_attempt (\<lambda>p. p \<noteq> Vertex) (\<lambda>_. ''id'') sample_ctx () chat_with_fallbacks)).
     td_index t = 1 \<and> Value (td_ctx t) KeyFallbackIndex = Some (CInt 2) \<and> Value (td_ctx t) KeyAttemptTrail = None"
proof -
  let ?h = "handleRequest failing_attempt (\<lambda>p. p \<noteq> Vertex) (\<lambda>_. ''id'') sample_ctx () chat_with_fallbacks"
  obtain t where t: "t \<in> set (tried_of ?h)" "td_index t = 1"
    using failing_run by (metis (no_types, lifting) imageE list.set_intros(1) set_map)
  then obtain c v r e where h: "?h = Some (c, v, r, e, tried_of ?h)" using tried_of_mem by blast
  have worker: "opened (fst (ae_worker failing_attempt c v q))" if "opened c" for c v q
    using that by (simp add: failing_attempt_def AppendToTrail_def AppendToContextList_def Let_def)
  obtain p1 c1 w1 q where pre: "RunPreRequestHooks (getPluginPipeline (ae_llmPlugins failing_attempt))
      (start_request (\<lambda>_. ''id'') sample_ctx) () chat_with_fallbacks = (p1, c1, w1, q)" by (metis prod_cases4)
  have "opened sample_ctx" by (simp add: opened_def sample_ctx_def)
  from fallback_context_clean [OF worker h this t(1) pre] t show ?thesis
    by (intro bexI [of _ t]) (simp_all add: fallback_cleared_keys_def)
qed

end
