(* ===== verification/Event_Machine.thy ===== *)
theory Event_Machine
  imports Main
begin

text \<open>
  Concurrent components as event machines: an event is one atomic section of one goroutine, a step
  function executes it, and \<^const>\<open>None\<close> says that it is not enabled. A schedule is a list of events.
  Three interfaces carry the arguments that the components share.

  \<^item> \<open>invariant_machine\<close>: an invariant that holds initially and is kept by every event holds in
    every reachable state and along every schedule.
  \<^item> \<open>draining_machine\<close>: a choice of worker events that are enabled while there is work and lower a
    rank finishes the work, and takes a bounded number of turns.
  \<^item> \<open>ranked_machine\<close>: when every internal event lowers a rank, no schedule of internal events is
    longer than the rank of its first state.
\<close>

fun run_events :: "('e \<Rightarrow> 's \<Rightarrow> 's option) \<Rightarrow> 'e list \<Rightarrow> 's \<Rightarrow> 's option" where
  "run_events step [] s = Some s"
| "run_events step (e # es) s = (case step e s of None \<Rightarrow> None | Some s' \<Rightarrow> run_events step es s')"

inductive reachable :: "('e \<Rightarrow> 's \<Rightarrow> 's option) \<Rightarrow> 's \<Rightarrow> 's \<Rightarrow> bool" for step s0 where
  start: "reachable step s0 s0"
| step: "reachable step s0 s \<Longrightarrow> step e s = Some s' \<Longrightarrow> reachable step s0 s'"

lemma run_events_append:
  "run_events step (es @ fs) s =
     (case run_events step es s of None \<Rightarrow> None | Some s' \<Rightarrow> run_events step fs s')"
  by (induction es arbitrary: s) (auto split: option.split)

lemma run_events_reachable:
  "run_events step es s = Some s' \<Longrightarrow> reachable step s0 s \<Longrightarrow> reachable step s0 s'"
  by (induction es arbitrary: s) (auto split: option.splits intro: reachable.step)

lemma run_events_ConsE:
  assumes "run_events step (e # es) s = Some s'"
  obtains s1 where "step e s = Some s1" "run_events step es s1 = Some s'"
  using assms by (auto split: option.splits)

lemma run_events_keeps:
  assumes "\<And>e s s'. step e s = Some s' \<Longrightarrow> P s \<Longrightarrow> P s'"
  shows "run_events step es s = Some s' \<Longrightarrow> P s \<Longrightarrow> P s'"
  by (induction es arbitrary: s) (auto split: option.splits dest: assms)

locale invariant_machine =
  fixes step :: "'e \<Rightarrow> 's \<Rightarrow> 's option"
    and s0 :: 's
    and safe :: "'s \<Rightarrow> bool"
  assumes initially: "safe s0"
    and preserved: "step e s = Some s' \<Longrightarrow> safe s \<Longrightarrow> safe s'"
begin

lemma run_safe: "run_events step es s = Some s' \<Longrightarrow> safe s \<Longrightarrow> safe s'"
  using preserved by (rule run_events_keeps)

lemma reachable_safe: "reachable step s0 s \<Longrightarrow> safe s"
  by (induction rule: reachable.induct) (auto simp: initially dest: preserved)

end

locale draining_machine =
  fixes step :: "'e \<Rightarrow> 's \<Rightarrow> 's option"
    and work :: "'s \<Rightarrow> 'e"
    and good :: "'s \<Rightarrow> bool"
    and rank :: "'s \<Rightarrow> nat"
    and finished :: "'s \<Rightarrow> bool"
  assumes enabled: "good s \<Longrightarrow> \<not> finished s \<Longrightarrow> \<exists>s'. step (work s) s = Some s'"
    and lowers: "good s \<Longrightarrow> \<not> finished s \<Longrightarrow> step (work s) s = Some s' \<Longrightarrow> good s' \<and> rank s' < rank s"
begin

lemma drains:
  "good s \<Longrightarrow> \<exists>es s'. length es \<le> rank s \<and> set es \<subseteq> range work
     \<and> run_events step es s = Some s' \<and> finished s' \<and> good s'"
proof (induction "rank s" arbitrary: s rule: less_induct)
  case less
  show ?case
  proof (cases "finished s")
    case True
    then show ?thesis using less.prems by (intro exI [of _ "[]"]) simp
  next
    case False
    then obtain s1 where s1: "step (work s) s = Some s1" using enabled less.prems by blast
    with lowers less.prems False have "good s1" "rank s1 < rank s" by blast+
    with less.hyps obtain es s' where es: "length es \<le> rank s1" "set es \<subseteq> range work"
      "run_events step es s1 = Some s'" "finished s'" "good s'" by blast
    have "run_events step (work s # es) s = Some s'" using s1 es(3) by simp
    then show ?thesis using es \<open>rank s1 < rank s\<close> by (intro exI [of _ "work s # es"] exI [of _ s']) simp
  qed
qed

end

locale ranked_machine =
  fixes step :: "'e \<Rightarrow> 's \<Rightarrow> 's option"
    and internal :: "'e \<Rightarrow> bool"
    and good :: "'s \<Rightarrow> bool"
    and rank :: "'s \<Rightarrow> nat"
  assumes descends: "step e s = Some s' \<Longrightarrow> internal e \<Longrightarrow> good s \<Longrightarrow> good s' \<and> rank s' < rank s"
begin

lemma run_bounded:
  "run_events step es s = Some s' \<Longrightarrow> list_all internal es \<Longrightarrow> good s \<Longrightarrow> length es + rank s' \<le> rank s \<and> good s'"
proof (induction es arbitrary: s)
  case (Cons e es)
  from Cons.prems(1) obtain s1 where s1: "step e s = Some s1" "run_events step es s1 = Some s'"
    by (rule run_events_ConsE)
  with Cons.prems descends have "good s1" "rank s1 < rank s" by auto
  with Cons.IH [OF s1(2)] Cons.prems(2) show ?case by simp
qed simp

end

end
