(* ===== verification/Provider_Queue.thy ===== *)
theory Provider_Queue
  imports Schemas Event_Machine "HOL-Library.Multiset" "HOL-Library.Sublist"
begin

text \<open>
  Provider queues and their workers: \<open>ProviderQueue\<close>, \<open>prepareProvider\<close>, \<open>getProviderQueue\<close>,
  \<open>UpdateProvider\<close>, \<open>RemoveProvider\<close>, \<open>drainQueueWithErrors\<close> and the queue handling of
  \<open>requestWorker\<close> and \<open>tryRequest\<close> in \<open>src/core/bifrost.go\<close>.

  \<^item> \<^emph>\<open>One queue and its goroutines.\<close> \<open>pq_sys\<close> is a queue with its producers (one per message),
    its workers and the goroutine that closes it (\<open>RemoveProvider\<close>, or the cleanup started by
    \<open>UpdateProvider\<close>). \<open>pq_step\<close> executes one atomic section: a check of the closing flag, one
    \<open>select\<close>, one receive, one half of the closing signal. A message is a number; what a worker
    computes for it is the subject of other theories. Answering a message never blocks: its
    channels hold one value and nobody else answers it (shown below). \<open>pq_sent\<close>, \<open>pq_answers\<close> and
    \<open>pq_late\<close> are logs of the model.
  \<^item> \<^emph>\<open>Handing over.\<close> \<open>handover\<close> is the transfer loop of an update between two queues, with the
    workers and producers that run beside it.
  \<^item> \<^emph>\<open>The registry.\<close> \<open>Bifrost\<close> has the maps from a provider to its queue and wait group and the
    slice of providers. The configuration source \<open>GetConfigForProvider\<close> and the construction of
    adapters \<open>createBaseProvider\<close> are parameters.

  A queue that takes messages has room for one; the rendezvous of an unbuffered channel is not
  modelled. \<open>Shutdown\<close> closes every registered queue the same way and is not modelled by itself.
  Shown: every message that entered the queue is held exactly once; closing always completes; after
  it every message but the stragglers of the documented window is answered; the hand-over of an
  update loses nothing; the registry stays consistent; and a provider whose construction fails
  leaves a queue without workers behind, on which later requests are stranded.
\<close>

subsection \<open>One queue\<close>

datatype worker = WIdle | WBusy nat | WDrain | WExit

datatype producer = PNew | PReady | PBlocked | PSent | PRefused

datatype closer = COpen | CFlagged | CWaiting | CSweeping | CFinished

record ProviderQueue =
  pq_queue :: "nat list"
  pq_cap :: nat
  pq_closing :: bool
  pq_done :: bool

record pq_sys = ProviderQueue +
  pq_workers :: "worker list"
  pq_closer :: closer
  pq_producers :: "nat \<Rightarrow> producer"
  pq_drop :: bool
  pq_sent :: "nat list"
  pq_answers :: "nat list"
  pq_late :: "nat list"

definition new_pq :: "nat \<Rightarrow> nat \<Rightarrow> bool \<Rightarrow> pq_sys" where
  "new_pq cap n dropExcess = \<lparr>pq_queue = [], pq_cap = cap, pq_closing = False, pq_done = False, pq_workers = replicate n WIdle,
     pq_closer = COpen, pq_producers = (\<lambda>_. PNew), pq_drop = dropExcess, pq_sent = [], pq_answers = [], pq_late = []\<rparr>"

datatype pq_event =
    ProdCheck nat
  | ProdSend nat
  | ProdDone nat
  | ProdCtxDone nat
  | ProdFull nat
  | WorkTake nat
  | WorkAnswer nat nat
  | WorkDone nat
  | WorkDrain nat
  | CloseFlag
  | CloseDone
  | CloseWaited
  | CloseSweep

definition isClosing :: "'a ProviderQueue_scheme \<Rightarrow> bool" where
  "isClosing s = pq_closing s"

text \<open>\<open>signalClosing\<close> runs once: the flag is stored, then \<open>done\<close> is closed.\<close>

definition signalClosing :: "pq_event \<Rightarrow> pq_sys \<Rightarrow> pq_sys option" where
  "signalClosing e s =
     (if e = CloseFlag \<and> pq_closer s = COpen then Some (s\<lparr>pq_closing := True, pq_closer := CFlagged\<rparr>)
      else if e = CloseDone \<and> pq_closer s = CFlagged then Some (s\<lparr>pq_done := True, pq_closer := CWaiting\<rparr>)
      else None)"

definition set_producer :: "nat \<Rightarrow> producer \<Rightarrow> pq_sys \<Rightarrow> pq_sys" where
  "set_producer m p s = s\<lparr>pq_producers := (pq_producers s)(m := p)\<rparr>"

definition set_worker :: "nat \<Rightarrow> worker \<Rightarrow> pq_sys \<Rightarrow> pq_sys" where
  "set_worker w st s = s\<lparr>pq_workers := (pq_workers s)[w := st]\<rparr>"

text \<open>Answering a message; one turn of a drain loop (\<open>drainQueueWithErrors\<close>, and the same loop in
  the worker), \<^const>\<open>None\<close> when the queue is empty.\<close>

definition answer :: "nat \<Rightarrow> pq_sys \<Rightarrow> pq_sys" where
  "answer m s = s\<lparr>pq_answers := pq_answers s @ [m]\<rparr>"

definition drainQueueWithErrors :: "pq_sys \<Rightarrow> pq_sys option" where
  "drainQueueWithErrors s = (case pq_queue s of
       [] \<Rightarrow> None
     | m # q \<Rightarrow> Some (answer m (s\<lparr>pq_queue := q\<rparr>)))"

text \<open>The producer's part of \<open>tryRequest\<close>: the check of the flag, and the cases of its two
  \<open>select\<close>s. A producer that is turned away returns an error or, after an update, goes on to the
  new queue.\<close>

definition hasRoom :: "'a ProviderQueue_scheme \<Rightarrow> bool" where
  "hasRoom s \<longleftrightarrow> length (pq_queue s) < pq_cap s"

definition selecting :: "nat \<Rightarrow> pq_sys \<Rightarrow> bool" where
  "selecting m s \<longleftrightarrow> pq_producers s m = PReady \<or> pq_producers s m = PBlocked"

definition producerCheck :: "nat \<Rightarrow> pq_sys \<Rightarrow> pq_sys option" where
  "producerCheck m s =
     (if pq_producers s m = PNew
      then Some (set_producer m (if isClosing s then PRefused else PReady) s) else None)"

definition producerSend :: "nat \<Rightarrow> pq_sys \<Rightarrow> pq_sys option" where
  "producerSend m s =
     (if selecting m s \<and> hasRoom s
      then Some (set_producer m PSent (s\<lparr>pq_queue := pq_queue s @ [m], pq_sent := pq_sent s @ [m],
             pq_late := pq_late s @ (if pq_closer s = CFinished then [m] else [])\<rparr>))
      else None)"

definition producerDone :: "nat \<Rightarrow> pq_sys \<Rightarrow> pq_sys option" where
  "producerDone m s = (if selecting m s \<and> pq_done s then Some (set_producer m PRefused s) else None)"

definition producerCtxDone :: "nat \<Rightarrow> pq_sys \<Rightarrow> pq_sys option" where
  "producerCtxDone m s = (if selecting m s then Some (set_producer m PRefused s) else None)"

text \<open>The \<open>default\<close> case is taken only when no other case of the first \<open>select\<close> is ready.\<close>

definition producerFull :: "nat \<Rightarrow> pq_sys \<Rightarrow> pq_sys option" where
  "producerFull m s =
     (if pq_producers s m = PReady \<and> \<not> hasRoom s \<and> \<not> pq_done s
      then Some (set_producer m (if pq_drop s \<or> isClosing s then PRefused else PBlocked) s)
      else None)"

text \<open>The queue handling of \<open>requestWorker\<close>.\<close>

definition worker_at :: "nat \<Rightarrow> worker \<Rightarrow> pq_sys \<Rightarrow> bool" where
  "worker_at w st s \<longleftrightarrow> w < length (pq_workers s) \<and> pq_workers s ! w = st"

definition workerTake :: "nat \<Rightarrow> pq_sys \<Rightarrow> pq_sys option" where
  "workerTake w s = (case pq_queue s of
       [] \<Rightarrow> None
     | m # q \<Rightarrow> if worker_at w WIdle s then Some (set_worker w (WBusy m) (s\<lparr>pq_queue := q\<rparr>)) else None)"

definition workerAnswer :: "nat \<Rightarrow> nat \<Rightarrow> pq_sys \<Rightarrow> pq_sys option" where
  "workerAnswer w m s = (if worker_at w (WBusy m) s then Some (set_worker w WIdle (answer m s)) else None)"

definition workerDone :: "nat \<Rightarrow> pq_sys \<Rightarrow> pq_sys option" where
  "workerDone w s = (if worker_at w WIdle s \<and> pq_done s then Some (set_worker w WDrain s) else None)"

definition workerDrain :: "nat \<Rightarrow> pq_sys \<Rightarrow> pq_sys option" where
  "workerDrain w s =
     (if worker_at w WDrain s
      then (case drainQueueWithErrors s of Some s' \<Rightarrow> Some s' | None \<Rightarrow> Some (set_worker w WExit s))
      else None)"

text \<open>The closing goroutine waits for the workers and then sweeps the queue.\<close>

definition closerWaited :: "pq_sys \<Rightarrow> pq_sys option" where
  "closerWaited s =
     (if pq_closer s = CWaiting \<and> list_all (\<lambda>w. w = WExit) (pq_workers s)
      then Some (s\<lparr>pq_closer := CSweeping\<rparr>) else None)"

definition closerSweep :: "pq_sys \<Rightarrow> pq_sys option" where
  "closerSweep s =
     (if pq_closer s = CSweeping
      then (case drainQueueWithErrors s of Some s' \<Rightarrow> Some s' | None \<Rightarrow> Some (s\<lparr>pq_closer := CFinished\<rparr>))
      else None)"

fun pq_step :: "pq_event \<Rightarrow> pq_sys \<Rightarrow> pq_sys option" where
  "pq_step (ProdCheck m) = producerCheck m"
| "pq_step (ProdSend m) = producerSend m"
| "pq_step (ProdDone m) = producerDone m"
| "pq_step (ProdCtxDone m) = producerCtxDone m"
| "pq_step (ProdFull m) = producerFull m"
| "pq_step (WorkTake w) = workerTake w"
| "pq_step (WorkAnswer w m) = workerAnswer w m"
| "pq_step (WorkDone w) = workerDone w"
| "pq_step (WorkDrain w) = workerDrain w"
| "pq_step CloseFlag = signalClosing CloseFlag"
| "pq_step CloseDone = signalClosing CloseDone"
| "pq_step CloseWaited = closerWaited"
| "pq_step CloseSweep = closerSweep"

lemmas pq_defs = producerCheck_def producerSend_def producerDone_def producerCtxDone_def producerFull_def
  workerTake_def workerAnswer_def workerDone_def workerDrain_def signalClosing_def closerWaited_def
  closerSweep_def drainQueueWithErrors_def set_producer_def set_worker_def answer_def isClosing_def
  selecting_def hasRoom_def worker_at_def

subsection \<open>Every message is held once\<close>

fun held :: "worker \<Rightarrow> nat list" where
  "held (WBusy m) = [m]"
| "held _ = []"

definition in_hands :: "worker list \<Rightarrow> nat multiset" where
  "in_hands ws = mset (concat (map held ws))"

definition pq_accounts :: "pq_sys \<Rightarrow> bool" where
  "pq_accounts s \<longleftrightarrow>
     mset (pq_sent s) = mset (pq_queue s) + in_hands (pq_workers s) + mset (pq_answers s) \<and>
     distinct (pq_sent s) \<and>
     (\<forall>m. m \<in> set (pq_sent s) \<longleftrightarrow> pq_producers s m = PSent)"

definition pq_phases :: "pq_sys \<Rightarrow> bool" where
  "pq_phases s \<longleftrightarrow>
     (pq_closing s \<longleftrightarrow> pq_closer s \<noteq> COpen) \<and>
     (pq_done s \<longleftrightarrow> pq_closer s \<notin> {COpen, CFlagged}) \<and>
     (pq_closer s \<in> {CSweeping, CFinished} \<longrightarrow> list_all (\<lambda>w. w = WExit) (pq_workers s)) \<and>
     (pq_closer s = CFinished \<longrightarrow> pq_queue s = pq_late s) \<and>
     (pq_closer s \<noteq> CFinished \<longrightarrow> pq_late s = []) \<and>
     length (pq_queue s) \<le> pq_cap s"

definition pq_inv :: "pq_sys \<Rightarrow> bool" where
  "pq_inv s \<longleftrightarrow> pq_accounts s \<and> pq_phases s"

lemma in_hands_update:
  assumes "w < length ws"
  shows "in_hands (ws[w := st]) + mset (held (ws ! w)) = in_hands ws + mset (held st)"
proof -
  have sum: "in_hands xs = (\<Sum>x\<in>#mset xs. mset (held x))" for xs
    by (induction xs) (auto simp: in_hands_def)
  obtain A where "mset ws = add_mset (ws ! w) A"
    using assms by (metis nth_mem_mset multi_member_split)
  then show ?thesis using assms by (simp add: sum mset_update ac_simps)
qed

lemma in_hands_exited [simp]: "list_all (\<lambda>w. w = WExit) ws \<Longrightarrow> in_hands ws = {#}"
  by (induction ws) (auto simp: in_hands_def)

lemma in_hands_idle_take: "w < length ws \<Longrightarrow> held (ws ! w) = [] \<Longrightarrow> in_hands (ws[w := st]) = in_hands ws + mset (held st)"
  using in_hands_update [of w ws st] by simp

lemma in_hands_answered: "w < length ws \<Longrightarrow> ws ! w = WBusy m \<Longrightarrow> held st = [] \<Longrightarrow> add_mset m (in_hands (ws[w := st])) = in_hands ws"
  using in_hands_update [of w ws st] by simp

lemma new_pq_inv: "pq_inv (new_pq cap n dropExcess)"
proof -
  have "in_hands (replicate n WIdle) = {#}" by (induction n) (simp_all add: in_hands_def)
  then show ?thesis by (simp add: pq_inv_def pq_accounts_def pq_phases_def new_pq_def)
qed

lemma all_exited: "list_all (\<lambda>w. w = WExit) (pq_workers s) \<Longrightarrow> worker_at w st s \<Longrightarrow> st = WExit"
  by (auto simp: worker_at_def list_all_length)

lemma accounts_preserved: "pq_step e s = Some s' \<Longrightarrow> pq_accounts s \<Longrightarrow> pq_accounts s'"
  by (cases e)
    (auto simp: pq_defs pq_accounts_def in_hands_idle_take in_hands_answered
        split: if_splits list.splits option.splits)

lemma phases_set_producer [simp]: "pq_phases (set_producer m p s) = pq_phases s"
  by (simp add: pq_phases_def set_producer_def)

lemma phases_sent:
  "pq_phases s \<Longrightarrow> hasRoom s \<Longrightarrow> pq_phases (s\<lparr>pq_queue := pq_queue s @ [m], pq_sent := pq_sent s @ [m],
     pq_late := pq_late s @ (if pq_closer s = CFinished then [m] else [])\<rparr>)"
  by (cases "pq_closer s") (simp_all add: pq_phases_def hasRoom_def)

lemma phases_producer:
  assumes "pq_phases s"
  shows "producerCheck m s = Some s' \<Longrightarrow> pq_phases s'"
    and "producerSend m s = Some s' \<Longrightarrow> pq_phases s'"
    and "producerDone m s = Some s' \<Longrightarrow> pq_phases s'"
    and "producerCtxDone m s = Some s' \<Longrightarrow> pq_phases s'"
    and "producerFull m s = Some s' \<Longrightarrow> pq_phases s'"
  using assms phases_sent [OF assms]
  by (auto simp: producerCheck_def producerSend_def producerDone_def producerCtxDone_def producerFull_def
      split: if_splits)

lemma phases_set_worker:
  "pq_phases s \<Longrightarrow> pq_closer s \<notin> {CSweeping, CFinished} \<Longrightarrow> pq_phases (set_worker w st s)"
  by (simp add: pq_phases_def set_worker_def)

lemma phases_answer [simp]: "pq_phases (answer m s) = pq_phases s"
  by (simp add: pq_phases_def answer_def)

lemma phases_received:
  "pq_phases s \<Longrightarrow> pq_closer s \<noteq> CFinished \<Longrightarrow> pq_queue s = m # q \<Longrightarrow> pq_phases (s\<lparr>pq_queue := q\<rparr>)"
  by (simp add: pq_phases_def)

lemma phases_drained:
  "pq_phases s \<Longrightarrow> pq_closer s \<noteq> CFinished \<Longrightarrow> drainQueueWithErrors s = Some s' \<Longrightarrow> pq_phases s'"
  by (auto simp: drainQueueWithErrors_def phases_received split: list.splits)

lemma closer_kept [simp]: "pq_closer (answer m s) = pq_closer s"
  by (simp add: answer_def)

lemma phases_worker:
  assumes "pq_phases s"
  shows "workerTake w s = Some s' \<Longrightarrow> pq_phases s'"
    and "workerAnswer w m s = Some s' \<Longrightarrow> pq_phases s'"
    and "workerDone w s = Some s' \<Longrightarrow> pq_phases s'"
    and "workerDrain w s = Some s' \<Longrightarrow> pq_phases s'"
proof -
  have running: "worker_at w st s \<Longrightarrow> st \<noteq> WExit \<Longrightarrow> pq_closer s \<notin> {CSweeping, CFinished}" for st
    using assms all_exited [of s w st] by (auto simp: pq_phases_def)
  show "workerTake w s = Some s' \<Longrightarrow> pq_phases s'"
    using assms running by (fastforce simp: workerTake_def phases_set_worker phases_received split: if_splits list.splits)
  show "workerAnswer w m s = Some s' \<Longrightarrow> pq_phases s'"
    using assms running by (fastforce simp: workerAnswer_def phases_set_worker split: if_splits)
  show "workerDone w s = Some s' \<Longrightarrow> pq_phases s'"
    using assms running by (fastforce simp: workerDone_def phases_set_worker split: if_splits)
  show "workerDrain w s = Some s' \<Longrightarrow> pq_phases s'"
    using assms running
    by (fastforce simp: workerDrain_def phases_set_worker dest: phases_drained split: if_splits option.splits)
qed

lemma phases_closer:
  assumes "pq_phases s"
  shows "signalClosing e s = Some s' \<Longrightarrow> pq_phases s'"
    and "closerWaited s = Some s' \<Longrightarrow> pq_phases s'"
    and "closerSweep s = Some s' \<Longrightarrow> pq_phases s'"
proof -
  show "signalClosing e s = Some s' \<Longrightarrow> pq_phases s'"
    using assms by (cases "pq_closer s") (auto simp: signalClosing_def pq_phases_def split: if_splits)
  show "closerWaited s = Some s' \<Longrightarrow> pq_phases s'"
    using assms by (cases "pq_closer s") (auto simp: closerWaited_def pq_phases_def split: if_splits)
  show "closerSweep s = Some s' \<Longrightarrow> pq_phases s'"
  proof (cases "drainQueueWithErrors s")
    case None
    then show "closerSweep s = Some s' \<Longrightarrow> pq_phases s'"
      using assms by (auto simp: closerSweep_def pq_phases_def drainQueueWithErrors_def split: if_splits list.splits)
  next
    case (Some s1)
    then show "closerSweep s = Some s' \<Longrightarrow> pq_phases s'"
      using assms phases_drained [of s s1] by (auto simp: closerSweep_def split: if_splits)
  qed
qed

lemma phases_preserved: "pq_step e s = Some s' \<Longrightarrow> pq_phases s \<Longrightarrow> pq_phases s'"
  by (cases e; simp; erule (1) phases_producer [rotated] phases_worker [rotated] phases_closer [rotated])

lemma pq_inv_preserved: "pq_step e s = Some s' \<Longrightarrow> pq_inv s \<Longrightarrow> pq_inv s'"
  by (simp add: pq_inv_def accounts_preserved phases_preserved)

interpretation pq: invariant_machine pq_step "new_pq cap n dropExcess" pq_inv
  by unfold_locales (fact new_pq_inv, fact pq_inv_preserved)

subsection \<open>Closing completes\<close>

text \<open>What is left to do: each queued message is taken and answered, each worker leaves, the closing
  goroutine passes its stages.\<close>

fun worker_rank :: "worker \<Rightarrow> nat" where
  "worker_rank (WBusy m) = 3"
| "worker_rank WIdle = 2"
| "worker_rank WDrain = 1"
| "worker_rank WExit = 0"

fun closer_rank :: "closer \<Rightarrow> nat" where
  "closer_rank COpen = 4"
| "closer_rank CFlagged = 3"
| "closer_rank CWaiting = 2"
| "closer_rank CSweeping = 1"
| "closer_rank CFinished = 0"

definition pq_rank :: "pq_sys \<Rightarrow> nat" where
  "pq_rank s = 2 * length (pq_queue s) + sum_list (map worker_rank (pq_workers s)) + closer_rank (pq_closer s)"

fun by_producer :: "pq_event \<Rightarrow> bool" where
  "by_producer (ProdCheck m) = True"
| "by_producer (ProdSend m) = True"
| "by_producer (ProdDone m) = True"
| "by_producer (ProdCtxDone m) = True"
| "by_producer (ProdFull m) = True"
| "by_producer _ = False"

lemma ranks_update:
  "w < length ws \<Longrightarrow> sum_list (map worker_rank (ws[w := st])) + worker_rank (ws ! w)
     = sum_list (map worker_rank ws) + worker_rank st"
  by (induction ws arbitrary: w) (auto split: nat.split)

lemma rank_set_worker:
  "worker_at w st s \<Longrightarrow> worker_rank st' < worker_rank st \<Longrightarrow> pq_rank (set_worker w st' s) < pq_rank s"
  using ranks_update [of w "pq_workers s" st'] by (auto simp: worker_at_def set_worker_def pq_rank_def)

lemma rank_answer [simp]: "pq_rank (answer m s) = pq_rank s"
  by (simp add: pq_rank_def answer_def)

lemma rank_drained: "drainQueueWithErrors s = Some s' \<Longrightarrow> pq_rank s' < pq_rank s"
  by (auto simp: drainQueueWithErrors_def pq_rank_def answer_def split: list.splits)

lemma rank_take: "workerTake w s = Some s' \<Longrightarrow> pq_rank s' < pq_rank s"
  using ranks_update [of w "pq_workers s" "WBusy (hd (pq_queue s))"]
  by (auto simp: workerTake_def worker_at_def set_worker_def pq_rank_def split: if_splits list.splits)

lemma rank_worker:
  shows "workerAnswer w m s = Some s' \<Longrightarrow> pq_rank s' < pq_rank s"
    and "workerDone w s = Some s' \<Longrightarrow> pq_rank s' < pq_rank s"
    and "workerDrain w s = Some s' \<Longrightarrow> pq_rank s' < pq_rank s"
proof -
  have "worker_at w st (answer m s) = worker_at w st s" for st by (simp add: worker_at_def answer_def)
  then show "workerAnswer w m s = Some s' \<Longrightarrow> pq_rank s' < pq_rank s"
    using rank_set_worker [of w "WBusy m" "answer m s" WIdle] by (auto simp: workerAnswer_def split: if_splits)
  show "workerDone w s = Some s' \<Longrightarrow> pq_rank s' < pq_rank s"
    using rank_set_worker [of w WIdle s WDrain] by (auto simp: workerDone_def split: if_splits)
  show "workerDrain w s = Some s' \<Longrightarrow> pq_rank s' < pq_rank s"
    using rank_set_worker [of w WDrain s WExit] rank_drained [of s]
    by (auto simp: workerDrain_def split: if_splits option.splits)
qed

lemma rank_closer:
  shows "signalClosing e s = Some s' \<Longrightarrow> pq_rank s' < pq_rank s"
    and "closerWaited s = Some s' \<Longrightarrow> pq_rank s' < pq_rank s"
    and "closerSweep s = Some s' \<Longrightarrow> pq_rank s' < pq_rank s"
  using rank_drained [of s]
  by (auto simp: signalClosing_def closerWaited_def closerSweep_def pq_rank_def split: if_splits option.splits)

lemma rank_descends: "pq_step e s = Some s' \<Longrightarrow> \<not> by_producer e \<Longrightarrow> pq_rank s' < pq_rank s"
  by (cases e) (simp_all add: rank_take rank_worker rank_closer)

interpretation pq_closing: ranked_machine pq_step "\<lambda>e. \<not> by_producer e" pq_inv pq_rank
  by unfold_locales (simp add: pq_inv_preserved rank_descends)

lemma sweep_enabled: "pq_closer s = CSweeping \<Longrightarrow> \<exists>s'. closerSweep s = Some s'"
  by (cases "drainQueueWithErrors s") (auto simp: closerSweep_def)

lemma worker_enabled:
  assumes "w < length (pq_workers s)" "pq_workers s ! w \<noteq> WExit" "pq_done s"
  shows "\<exists>e s'. \<not> by_producer e \<and> pq_step e s = Some s'"
proof (cases "pq_workers s ! w")
  case WIdle
  with assms show ?thesis by (intro exI [of _ "WorkDone w"]) (simp add: workerDone_def worker_at_def)
next
  case (WBusy m)
  with assms show ?thesis by (intro exI [of _ "WorkAnswer w m"]) (simp add: workerAnswer_def worker_at_def)
next
  case WDrain
  with assms show ?thesis
    by (intro exI [of _ "WorkDrain w"]) (simp add: workerDrain_def worker_at_def split: option.split)
qed (use assms in simp)

lemma closing_progress:
  assumes inv: "pq_inv s" and "pq_closer s \<noteq> COpen" "pq_closer s \<noteq> CFinished"
  shows "\<exists>e s'. \<not> by_producer e \<and> pq_step e s = Some s'"
proof (cases "pq_closer s")
  case CFlagged
  then show ?thesis by (intro exI [of _ CloseDone]) (simp add: signalClosing_def)
next
  case CSweeping
  then show ?thesis using sweep_enabled by (intro exI [of _ CloseSweep]) simp
next
  case CWaiting
  show ?thesis
  proof (cases "list_all (\<lambda>w. w = WExit) (pq_workers s)")
    case True
    with CWaiting show ?thesis by (intro exI [of _ CloseWaited]) (simp add: closerWaited_def)
  next
    case False
    then obtain w where "w < length (pq_workers s)" "pq_workers s ! w \<noteq> WExit"
      by (auto simp: list_all_length)
    moreover have "pq_done s" using inv CWaiting by (simp add: pq_inv_def pq_phases_def)
    ultimately show ?thesis by (rule worker_enabled)
  qed
qed (use assms in simp_all)

lemma turned_away_step:
  "pq_step e s = Some s' \<Longrightarrow> pq_closing s \<and> pq_producers s m \<in> {PNew, PRefused} \<Longrightarrow>
     pq_closing s' \<and> pq_producers s' m \<in> {PNew, PRefused}"
  by (cases e) (auto simp: pq_defs split: if_splits list.splits)

lemma closing_kept: "pq_step e s = Some s' \<Longrightarrow> pq_closing s \<Longrightarrow> pq_closing s'"
  by (cases e) (auto simp: pq_defs split: if_splits list.splits)

lemma closing_forever: "run_events pq_step es s = Some s' \<Longrightarrow> pq_closing s \<Longrightarrow> pq_closing s'"
  using closing_kept by (rule run_events_keeps)

lemma turned_away:
  "run_events pq_step es s = Some s' \<Longrightarrow> pq_closing s \<and> pq_producers s m \<in> {PNew, PRefused} \<Longrightarrow>
     pq_closing s' \<and> pq_producers s' m \<in> {PNew, PRefused}"
  using turned_away_step by (rule run_events_keeps)



text \<open>C15. Closing a queue always completes: from a reachable state in which closing has begun, every
  schedule of workers and the closing goroutine has a bounded length, and when none of them can
  move any more, the closing goroutine has finished and every worker has exited. No producer has to
  move for it.\<close>

theorem closing_completes:
  assumes "reachable pq_step (new_pq cap n dropExcess) s" "pq_closer s \<noteq> COpen"
    and "run_events pq_step es s = Some s'" "list_all (\<lambda>e. \<not> by_producer e) es"
  shows "length es \<le> pq_rank s \<and>
     ((\<forall>e. \<not> by_producer e \<longrightarrow> pq_step e s' = None) \<longrightarrow>
       pq_closer s' = CFinished \<and> list_all (\<lambda>w. w = WExit) (pq_workers s'))"
proof -
  have inv: "pq_inv s" using assms(1) by (rule pq.reachable_safe)
  then have run: "length es + pq_rank s' \<le> pq_rank s \<and> pq_inv s'"
    using pq_closing.run_bounded assms(3,4) by blast
  have "pq_closing s" using inv assms(2) by (simp add: pq_inv_def pq_phases_def)
  with assms(3) have "pq_closing s'" by (rule closing_forever)
  then have "pq_closer s' \<noteq> COpen" using run by (simp add: pq_inv_def pq_phases_def)
  then show ?thesis
    using closing_progress [of s'] run by (force simp: pq_inv_def pq_phases_def)
qed

theorem closing_completes_witness:
  "\<exists>s s'. run_events pq_step [ProdCheck 0, ProdSend 0, WorkTake 0, CloseFlag] (new_pq 1 1 False) = Some s
     \<and> run_events pq_step [CloseDone, WorkAnswer 0 0, WorkDone 0, WorkDrain 0, CloseWaited, CloseSweep] s = Some s'
     \<and> (6::nat) \<le> pq_rank s \<and> pq_closer s' = CFinished"
proof -
  define s where "s = the (run_events pq_step [ProdCheck 0, ProdSend 0, WorkTake 0, CloseFlag] (new_pq 1 1 False))"
  define s' where "s' = the (run_events pq_step
    [CloseDone, WorkAnswer 0 0, WorkDone 0, WorkDrain 0, CloseWaited, CloseSweep] s)"
  have run: "run_events pq_step [ProdCheck 0, ProdSend 0, WorkTake 0, CloseFlag] (new_pq 1 1 False) = Some s"
    unfolding s_def by (simp add: new_pq_def pq_defs)
  have s: "pq_closer s \<noteq> COpen"
    "run_events pq_step [CloseDone, WorkAnswer 0 0, WorkDone 0, WorkDrain 0, CloseWaited, CloseSweep] s = Some s'"
    "pq_closer s' = CFinished"
    unfolding s_def s'_def by (simp_all add: new_pq_def pq_defs)
  have "reachable pq_step (new_pq 1 1 False) s"
    using run reachable.start by (rule run_events_reachable)
  from closing_completes [OF this s(1,2)] have "6 \<le> pq_rank s" by simp
  with run s(2,3) show ?thesis by (intro exI [of _ s] exI [of _ s'] conjI)
qed

subsection \<open>Handing a queue over\<close>

text \<open>The transfer loop of \<open>UpdateProvider\<close> (step 5), interleaved with the old workers and producers
  of the old queue and the new workers. The first element of \<open>ho_removed\<close> left the old queue first.\<close>

datatype ho_phase = HReceive | HSend nat | HCancel | HComplete

record handover =
  ho_old :: "nat list"
  ho_new :: "nat list"
  ho_cap :: nat
  ho_phase :: ho_phase
  ho_sent :: "nat list"
  ho_removed :: "nat list"
  ho_oldTaken :: "nat list"
  ho_newTaken :: "nat list"
  ho_cancelled :: "nat list"

datatype ho_event = OldSend nat | OldTake | NewTake | Transfer

definition start_handover :: "nat list \<Rightarrow> nat \<Rightarrow> handover" where
  "start_handover q cap = \<lparr>ho_old = q, ho_new = [], ho_cap = cap, ho_phase = HReceive, ho_sent = q,
     ho_removed = [], ho_oldTaken = [], ho_newTaken = [], ho_cancelled = []\<rparr>"

definition removeOld :: "handover \<Rightarrow> (nat \<times> handover) option" where
  "removeOld h = (case ho_old h of
       [] \<Rightarrow> None
     | m # q \<Rightarrow> Some (m, h\<lparr>ho_old := q, ho_removed := ho_removed h @ [m]\<rparr>))"

definition cancelMsg :: "nat \<Rightarrow> handover \<Rightarrow> handover" where
  "cancelMsg m h = h\<lparr>ho_cancelled := ho_cancelled h @ [m]\<rparr>"

definition transfer_turn :: "handover \<Rightarrow> handover option" where
  "transfer_turn h = (case ho_phase h of
       HReceive \<Rightarrow> (case removeOld h of
           Some (m, h') \<Rightarrow> Some (h'\<lparr>ho_phase := HSend m\<rparr>)
         | None \<Rightarrow> Some (h\<lparr>ho_phase := HComplete\<rparr>))
     | HSend m \<Rightarrow>
         (if length (ho_new h) < ho_cap h then Some (h\<lparr>ho_new := ho_new h @ [m], ho_phase := HReceive\<rparr>)
          else Some ((cancelMsg m h)\<lparr>ho_phase := HCancel\<rparr>))
     | HCancel \<Rightarrow> (case removeOld h of
           Some (m, h') \<Rightarrow> Some (cancelMsg m h')
         | None \<Rightarrow> Some (h\<lparr>ho_phase := HComplete\<rparr>))
     | HComplete \<Rightarrow> None)"

fun ho_step :: "ho_event \<Rightarrow> handover \<Rightarrow> handover option" where
  "ho_step (OldSend m) h = Some (h\<lparr>ho_old := ho_old h @ [m], ho_sent := ho_sent h @ [m]\<rparr>)"
| "ho_step OldTake h = (case removeOld h of
      Some (m, h') \<Rightarrow> Some (h'\<lparr>ho_oldTaken := ho_oldTaken h' @ [m]\<rparr>) | None \<Rightarrow> None)"
| "ho_step NewTake h = (case ho_new h of
      m # q \<Rightarrow> Some (h\<lparr>ho_new := q, ho_newTaken := ho_newTaken h @ [m]\<rparr>) | [] \<Rightarrow> None)"
| "ho_step Transfer h = transfer_turn h"

text \<open>\<open>in_transit\<close> is what the transferring goroutine holds; \<open>transferred\<close> what entered the new queue.\<close>

fun in_transit :: "ho_phase \<Rightarrow> nat list" where
  "in_transit (HSend m) = [m]"
| "in_transit _ = []"

definition transferred :: "handover \<Rightarrow> nat list" where
  "transferred h = ho_newTaken h @ ho_new h"

definition ho_inv :: "handover \<Rightarrow> bool" where
  "ho_inv h \<longleftrightarrow>
     ho_sent h = ho_removed h @ ho_old h \<and>
     mset (ho_removed h) = mset (ho_oldTaken h) + mset (transferred h) + mset (ho_cancelled h) + mset (in_transit (ho_phase h)) \<and>
     subseq (transferred h @ in_transit (ho_phase h)) (ho_removed h) \<and>
     length (ho_new h) \<le> ho_cap h \<and>
     (ho_phase h \<noteq> HCancel \<and> ho_phase h \<noteq> HComplete \<longrightarrow> ho_cancelled h = [])"

lemma subseq_snoc_right: "subseq xs ys \<Longrightarrow> subseq xs (ys @ [y])"
  by (rule subseq_rev_drop_many)

lemma subseq_snoc_both: "subseq (xs @ xs') ys \<Longrightarrow> subseq (xs @ xs' @ [y]) (ys @ [y])"
  using list_emb_append_mono [of "(=)" "xs @ xs'" ys "[y]" "[y]"] by simp

lemma subseq_snoc_left: "subseq (xs @ xs' @ [x]) ys \<Longrightarrow> subseq (xs @ xs') ys"
  using subseq_order.trans [of "xs @ xs'" "xs @ xs' @ [x]" ys] subseq_snoc_right [of "xs @ xs'" "xs @ xs'" x] by simp

lemma ho_inv_step: "ho_step e h = Some h' \<Longrightarrow> ho_inv h \<Longrightarrow> ho_inv h'"
  by (cases e; cases "ho_phase h")
    (auto simp: ho_inv_def transferred_def removeOld_def transfer_turn_def cancelMsg_def subseq_snoc_right
        subseq_snoc_both dest: subseq_snoc_left split: list.splits if_splits)

lemma ho_cap_kept: "ho_step e h = Some h' \<Longrightarrow> ho_cap h = cap \<Longrightarrow> ho_cap h' = cap"
  by (cases e; cases "ho_phase h")
    (auto simp: removeOld_def transfer_turn_def cancelMsg_def split: list.splits if_splits)

interpretation ho: invariant_machine ho_step "start_handover q cap" ho_inv
  by unfold_locales (simp add: start_handover_def ho_inv_def transferred_def, rule ho_inv_step)

text \<open>The loop run without interference.\<close>

fun transfer_all :: "nat \<Rightarrow> nat list \<Rightarrow> nat list \<Rightarrow> nat list \<times> nat list" where
  "transfer_all cap new [] = (new, [])"
| "transfer_all cap new (m # q) =
     (if length new < cap then transfer_all cap (new @ [m]) q else (new, m # q))"

lemma transfer_all_eq:
  "length new \<le> cap \<Longrightarrow> transfer_all cap new q = (new @ take (cap - length new) q, drop (cap - length new) q)"
proof (induction q arbitrary: new)
  case (Cons m q)
  show ?case
  proof (cases "length new < cap")
    case True
    then obtain k where "cap - length new = Suc k" "cap - Suc (length new) = k"
      by (metis Suc_diff_Suc)
    with Cons.IH [of "new @ [m]"] True show ?thesis by simp
  next
    case False
    with Cons.prems show ?thesis by simp
  qed
qed simp

lemma cancel_run:
  "ho_phase h = HCancel \<Longrightarrow> \<exists>es h'. set es \<subseteq> {Transfer} \<and> run_events ho_step es h = Some h' \<and> ho_phase h' = HComplete
     \<and> transferred h' = transferred h \<and> ho_cancelled h' = ho_cancelled h @ ho_old h"
proof (induction "ho_old h" arbitrary: h)
  case Nil
  then show ?case
    by (intro exI [of _ "[Transfer]"]) (simp add: transfer_turn_def removeOld_def transferred_def)
next
  case (Cons m q)
  define h1 where "h1 = cancelMsg m (h\<lparr>ho_old := q, ho_removed := ho_removed h @ [m]\<rparr>)"
  have "ho_step Transfer h = Some h1"
    using Cons.hyps(2) [symmetric] Cons.prems by (simp add: transfer_turn_def removeOld_def h1_def)
  moreover obtain es h' where "set es \<subseteq> {Transfer}" "run_events ho_step es h1 = Some h'" "ho_phase h' = HComplete"
    "transferred h' = transferred h1" "ho_cancelled h' = ho_cancelled h1 @ ho_old h1"
    using Cons.hyps(1) [of h1] Cons.prems by (auto simp: h1_def cancelMsg_def)
  ultimately show ?case using Cons.hyps(2) [symmetric]
    by (intro exI [of _ "Transfer # es"] exI [of _ h']) (simp add: h1_def cancelMsg_def transferred_def)
qed

lemma transfer_run:
  "ho_phase h = HReceive \<Longrightarrow> ho_newTaken h = [] \<Longrightarrow> ho_cancelled h = [] \<Longrightarrow>
     \<exists>es h'. set es \<subseteq> {Transfer} \<and> run_events ho_step es h = Some h' \<and> ho_phase h' = HComplete
     \<and> (transferred h', ho_cancelled h') = transfer_all (ho_cap h) (ho_new h) (ho_old h)"
proof (induction "ho_old h" arbitrary: h)
  case Nil
  then show ?case
    by (intro exI [of _ "[Transfer]"]) (simp add: transfer_turn_def removeOld_def transferred_def)
next
  case (Cons m q)
  define h1 where "h1 = h\<lparr>ho_old := q, ho_removed := ho_removed h @ [m], ho_phase := HSend m\<rparr>"
  define h2 where "h2 = (if length (ho_new h) < ho_cap h then h1\<lparr>ho_new := ho_new h @ [m], ho_phase := HReceive\<rparr>
    else (cancelMsg m h1)\<lparr>ho_phase := HCancel\<rparr>)"
  have steps: "run_events ho_step (Transfer # Transfer # es) h = run_events ho_step es h2" for es
    using Cons.prems Cons.hyps(2) [symmetric]
    by (simp add: transfer_turn_def removeOld_def h1_def h2_def split: list.split)
  show ?case
  proof (cases "length (ho_new h) < ho_cap h")
    case True
    then obtain es h' where "set es \<subseteq> {Transfer}" "run_events ho_step es h2 = Some h'" "ho_phase h' = HComplete"
      "(transferred h', ho_cancelled h') = transfer_all (ho_cap h) (ho_new h @ [m]) q"
      using Cons.hyps(1) [of h2] Cons.prems by (auto simp: h1_def h2_def)
    then show ?thesis using True Cons.hyps(2) [symmetric] steps [of es]
      by (intro exI [of _ "Transfer # Transfer # es"] exI [of _ h']) simp
  next
    case False
    then obtain es h' where "set es \<subseteq> {Transfer}" "run_events ho_step es h2 = Some h'" "ho_phase h' = HComplete"
      "transferred h' = ho_new h" "ho_cancelled h' = m # q"
      using cancel_run [of h2] Cons.prems by (auto simp: h1_def h2_def cancelMsg_def transferred_def)
    then show ?thesis using False Cons.hyps(2) [symmetric] steps [of es]
      by (intro exI [of _ "Transfer # Transfer # es"] exI [of _ h']) simp
  qed
qed

text \<open>C16. The hand-over of a provider update loses no request, however the transfer loop is
  interleaved with old workers, late producers and new workers: what left the old queue was taken
  by an old worker, entered the new queue, was cancelled or is being moved, and only one of these;
  the transferred requests keep their order of arrival; the new queue stays within its bound; and
  the loop always completes, moving the oldest requests and cancelling what does not fit when
  nothing interferes.\<close>

theorem handover_loses_nothing:
  assumes "run_events ho_step es (start_handover q cap) = Some h"
  shows "ho_sent h = ho_removed h @ ho_old h
    \<and> mset (ho_removed h) = mset (ho_oldTaken h) + mset (transferred h) + mset (ho_cancelled h)
        + mset (in_transit (ho_phase h))
    \<and> subseq (transferred h) (ho_sent h) \<and> length (ho_new h) \<le> cap
    \<and> (\<exists>ts h'. set ts \<subseteq> {Transfer} \<and> run_events ho_step ts (start_handover q cap) = Some h'
         \<and> ho_phase h' = HComplete \<and> transferred h' = take cap q \<and> ho_cancelled h' = drop cap q)"
proof -
  have "ho_inv h" using assms ho.initially by (rule ho.run_safe)
  moreover have "ho_cap (start_handover q cap) = cap" by (simp add: start_handover_def)
  with ho_cap_kept assms have "ho_cap h = cap" by (rule run_events_keeps)
  moreover have "subseq (transferred h) (ho_removed h)" "subseq (ho_removed h) (ho_removed h @ ho_old h)"
    using calculation subseq_order.trans [of "transferred h" "transferred h @ in_transit (ho_phase h)"]
    by (auto simp: ho_inv_def)
  moreover have "\<exists>ts h'. set ts \<subseteq> {Transfer} \<and> run_events ho_step ts (start_handover q cap) = Some h'
      \<and> ho_phase h' = HComplete \<and> transferred h' = take cap q \<and> ho_cancelled h' = drop cap q"
    using transfer_run [of "start_handover q cap"] by (simp add: start_handover_def transfer_all_eq)
  ultimately show ?thesis using subseq_order.trans by (auto simp: ho_inv_def)
qed

theorem handover_loses_nothing_witness:
  "\<exists>h. run_events ho_step [Transfer, Transfer, OldTake, OldSend 9, Transfer, NewTake, Transfer, Transfer, Transfer]
       (start_handover [1, 2, 3] 1) = Some h
     \<and> ho_sent h = [1, 2, 3, 9] \<and> transferred h = [1, 3] \<and> ho_cancelled h = [9] \<and> ho_oldTaken h = [2]
     \<and> subseq (transferred h) (ho_sent h)"
proof -
  define h where "h = the (run_events ho_step
    [Transfer, Transfer, OldTake, OldSend 9, Transfer, NewTake, Transfer, Transfer, Transfer] (start_handover [1, 2, 3] 1))"
  have h: "run_events ho_step [Transfer, Transfer, OldTake, OldSend 9, Transfer, NewTake, Transfer, Transfer, Transfer]
      (start_handover [1, 2, 3] 1) = Some h"
    "ho_sent h = [1, 2, 3, 9]" "transferred h = [1, 3]" "ho_cancelled h = [9]" "ho_oldTaken h = [2]"
    unfolding h_def
    by (simp_all add: start_handover_def transfer_turn_def removeOld_def cancelMsg_def transferred_def)
  have "subseq (transferred h) (ho_sent h)" using handover_loses_nothing [OF h(1)] by blast
  with h show ?thesis by (intro exI [of _ h] conjI)
qed

subsection \<open>The registry of providers\<close>

text \<open>A queue is the position of its value in \<open>pqs\<close>, as a pointer; \<open>serving\<close> counts the workers
  started on it. A wait group is named by the queue it was created with. \<open>retiredWorkerWaits\<close>
  lists the queues whose cleanup is registered for a provider. The sizes are Go \<open>int\<close>s:
  \<open>make\<close> panics on a negative one. The provider mutex serialises the three operations on one
  provider; \<open>lost\<close> counts how often another provider's operation won the race for the slice.\<close>

record ConcurrencyAndBufferSize =
  Concurrency :: int
  BufferSize :: int

datatype registry_error = Panic | Error string

record 'p Bifrost =
  pqs :: "ProviderQueue list"
  serving :: "nat list"
  requestQueues :: "ModelProvider \<Rightarrow> nat option"
  waitGroups :: "ModelProvider \<Rightarrow> nat option"
  retiredWorkerWaits :: "(ModelProvider \<times> nat) list"
  providers :: "(ModelProvider \<times> 'p) list"
  knownProviders :: "ModelProvider set"
  shuttingDown :: bool

type_synonym account = "ModelProvider \<Rightarrow> string + ConcurrencyAndBufferSize option"
type_synonym 'p factory = "ModelProvider \<Rightarrow> ConcurrencyAndBufferSize \<Rightarrow> string + 'p"

definition make_pq :: "nat \<Rightarrow> ProviderQueue" where
  "make_pq n = \<lparr>pq_queue = [], pq_cap = n, pq_closing = False, pq_done = False\<rparr>"

definition RegisterKnownProvider :: "ModelProvider \<Rightarrow> 'p Bifrost \<Rightarrow> 'p Bifrost" where
  "RegisterKnownProvider key b = b\<lparr>knownProviders := insert key (knownProviders b)\<rparr>"

definition UnregisterKnownProvider :: "ModelProvider \<Rightarrow> 'p Bifrost \<Rightarrow> 'p Bifrost" where
  "UnregisterKnownProvider key b =
     (if key \<in> set StandardProviders then b else b\<lparr>knownProviders := knownProviders b - {key}\<rparr>)"

definition prepareProvider ::
    "'p factory \<Rightarrow> ModelProvider \<Rightarrow> ConcurrencyAndBufferSize \<Rightarrow> 'p Bifrost \<Rightarrow> 'p Bifrost \<times> (registry_error + unit)" where
  "prepareProvider createBaseProvider key config b =
     (if BufferSize config < 0 then (b, Inl Panic) else
      let i = length (pqs b);
          b1 = b\<lparr>pqs := pqs b @ [make_pq (nat (BufferSize config))], serving := serving b @ [0],
                 requestQueues := (requestQueues b)(key \<mapsto> i), waitGroups := (waitGroups b)(key \<mapsto> i)\<rparr> in
      case createBaseProvider key config of
        Inl err \<Rightarrow> (b1, Inl (Error (''failed to create provider for the given key: '' @ err)))
      | Inr provider \<Rightarrow>
          (let b2 = RegisterKnownProvider key (b1\<lparr>providers := providers b1 @ [(key, provider)]\<rparr>) in
           (b2\<lparr>serving := (serving b2)[i := nat (Concurrency config)]\<rparr>, Inr ())))"

definition getProviderQueue ::
    "account \<Rightarrow> 'p factory \<Rightarrow> ModelProvider \<Rightarrow> 'p Bifrost \<Rightarrow> 'p Bifrost \<times> (registry_error + nat)" where
  "getProviderQueue GetConfigForProvider createBaseProvider key b =
     (case requestQueues b key of
        Some pq \<Rightarrow> (b, Inr pq)
      | None \<Rightarrow> (case GetConfigForProvider key of
          Inl err \<Rightarrow> (b, Inl (Error (''failed to get config for provider '' @ key @ '': '' @ err)))
        | Inr None \<Rightarrow> (b, Inl (Error (''config is nil for provider '' @ key)))
        | Inr (Some config) \<Rightarrow> (case prepareProvider createBaseProvider key config b of
            (b', Inl err) \<Rightarrow> (b', Inl err)
          | (b', Inr _) \<Rightarrow> (case requestQueues b' key of
              Some pq \<Rightarrow> (b', Inr pq)
            | None \<Rightarrow> (b', Inl (Error (''request queue not found for provider '' @ key)))))))"

text \<open>The routing of a producer that finds its queue closing (\<open>tryRequest\<close>).\<close>

definition reroute :: "ModelProvider \<Rightarrow> nat \<Rightarrow> 'p Bifrost \<Rightarrow> nat option" where
  "reroute key pq b =
     (if \<not> isClosing (pqs b ! pq) then Some pq
      else case requestQueues b key of
        Some candidate \<Rightarrow> if candidate \<noteq> pq \<and> \<not> isClosing (pqs b ! candidate) then Some candidate else None
      | None \<Rightarrow> None)"

definition closedQueue :: "ProviderQueue \<Rightarrow> ProviderQueue" where
  "closedQueue pq = pq\<lparr>pq_queue := [], pq_closing := True, pq_done := True\<rparr>"

text \<open>\<open>UpdateProvider\<close>. Its second result are the requests it cancelled. The transfer is the loop run
  without interference; the theorem above covers the interleavings. Waiting for the old workers
  and the sweep after it happen later, in the cleanup goroutine registered here.\<close>

definition maxReplacementAttempts :: nat where
  "maxReplacementAttempts = 100"

definition replaceProvider :: "ModelProvider \<Rightarrow> 'p \<Rightarrow> (ModelProvider \<times> 'p) list \<Rightarrow> (ModelProvider \<times> 'p) list" where
  "replaceProvider key provider ps = filter (\<lambda>p. fst p \<noteq> key) ps @ [(key, provider)]"

definition publishProvider ::
    "ModelProvider \<Rightarrow> ConcurrencyAndBufferSize \<Rightarrow> 'p \<Rightarrow> nat \<Rightarrow> 'p Bifrost \<Rightarrow> 'p Bifrost \<times> nat list" where
  "publishProvider key config provider old b =
     (let new = length (pqs b);
          cap = nat (BufferSize config);
          (moved, cancelled) = transfer_all cap [] (pq_queue (pqs b ! old)) in
      (b\<lparr>pqs := (pqs b)[old := closedQueue (pqs b ! old)] @ [(make_pq cap)\<lparr>pq_queue := moved\<rparr>],
         serving := serving b @ [nat (Concurrency config)],
         requestQueues := (requestQueues b)(key \<mapsto> new),
         waitGroups := (waitGroups b)(key \<mapsto> new),
         retiredWorkerWaits := (case waitGroups b key of
             Some oldWaitGroup \<Rightarrow> (key, oldWaitGroup) # retiredWorkerWaits b
           | None \<Rightarrow> retiredWorkerWaits b),
         providers := replaceProvider key provider (providers b)\<rparr>, cancelled))"

definition UpdateProvider ::
    "account \<Rightarrow> 'p factory \<Rightarrow> nat \<Rightarrow> ModelProvider \<Rightarrow> 'p Bifrost \<Rightarrow> 'p Bifrost \<times> nat list \<times> (registry_error + unit)" where
  "UpdateProvider GetConfigForProvider createBaseProvider lost key b =
     (if shuttingDown b then (b, [], Inl (Error ''bifrost is shutting down'')) else
      case GetConfigForProvider key of
        Inl err \<Rightarrow> (b, [], Inl (Error (''failed to get updated config for provider '' @ key @ '': '' @ err)))
      | Inr None \<Rightarrow> (b, [], Inl (Error (''config is nil for provider '' @ key)))
      | Inr (Some config) \<Rightarrow> (case requestQueues b key of
          None \<Rightarrow> (let (b', r) = prepareProvider createBaseProvider key config b in (b', [], r))
        | Some old \<Rightarrow> (case createBaseProvider key config of
            Inl err \<Rightarrow> (b, [], Inl (Error (''provider update for '' @ key
                @ '' failed during initialization; old provider is still active: '' @ err)))
          | Inr provider \<Rightarrow>
              (if BufferSize config < 0 then (b, [], Inl Panic)
               else if lost \<ge> maxReplacementAttempts
               then (b, [], Inl (Error (''failed to replace provider '' @ key
                  @ '' in providers slice after 100 attempts; old provider is still active'')))
               else (let (b', cancelled) = publishProvider key config provider old b in (b', cancelled, Inr ()))))))"

text \<open>\<open>RemoveProvider\<close>. Its waits return when the workers have exited (\<open>closing_completes\<close>); the
  second result are the requests still buffered, which the workers or the final sweep answer with
  an error.\<close>

definition exited :: "nat set \<Rightarrow> nat list \<Rightarrow> nat list" where
  "exited gone ns = map (\<lambda>i. if i \<in> gone then 0 else ns ! i) [0..<length ns]"

definition removeProviderFromSlice :: "nat \<Rightarrow> ModelProvider \<Rightarrow> 'p Bifrost \<Rightarrow> 'p Bifrost \<times> (registry_error + unit)" where
  "removeProviderFromSlice lost key b =
     (if lost \<ge> 100
      then (b, Inl (Error (''failed to remove provider '' @ key @ '' from providers slice after 100 attempts'')))
      else (b\<lparr>providers := filter (\<lambda>p. fst p \<noteq> key) (providers b)\<rparr>, Inr ()))"

definition RemoveProvider ::
    "nat \<Rightarrow> ModelProvider \<Rightarrow> 'p Bifrost \<Rightarrow> 'p Bifrost \<times> nat list \<times> (registry_error + unit)" where
  "RemoveProvider lost key b =
     (case requestQueues b key of
        None \<Rightarrow> (b, [], Inl (Error (''provider '' @ key @ '' not found in request queues'')))
      | Some pq \<Rightarrow>
          (let drained = pq_queue (pqs b ! pq);
               waited = set_option (waitGroups b key) \<union> snd ` {r \<in> set (retiredWorkerWaits b). fst r = key};
               b1 = b\<lparr>pqs := (pqs b)[pq := closedQueue (pqs b ! pq)],
                      serving := exited waited (serving b),
                      retiredWorkerWaits := filter (\<lambda>r. fst r \<noteq> key) (retiredWorkerWaits b),
                      requestQueues := (requestQueues b)(key := None),
                      waitGroups := (waitGroups b)(key := None)\<rparr> in
           case removeProviderFromSlice lost key b1 of
             (b2, Inl err) \<Rightarrow> (b2, drained, Inl err)
           | (b2, Inr _) \<Rightarrow> (UnregisterKnownProvider key b2, drained, Inr ())))"

datatype reg_event = RegGet ModelProvider | RegUpdate nat ModelProvider | RegRemove nat ModelProvider

fun reg_step :: "account \<Rightarrow> 'p factory \<Rightarrow> reg_event \<Rightarrow> 'p Bifrost \<Rightarrow> 'p Bifrost option" where
  "reg_step acc create (RegGet key) b = Some (fst (getProviderQueue acc create key b))"
| "reg_step acc create (RegUpdate lost key) b = Some (fst (UpdateProvider acc create lost key b))"
| "reg_step acc create (RegRemove lost key) b =
     (if lost < 100 then Some (fst (RemoveProvider lost key b)) else None)"

definition empty_registry :: "'p Bifrost" where
  "empty_registry = \<lparr>pqs = [], serving = [], requestQueues = (\<lambda>_. None), waitGroups = (\<lambda>_. None),
     retiredWorkerWaits = [], providers = [], knownProviders = set StandardProviders, shuttingDown = False\<rparr>"

text \<open>A registered queue is open, belongs to one provider and has its wait group; there is one adapter
  at most for a provider, and only for a registered one; a registered queue without an adapter has
  no worker.\<close>

definition reg_inv :: "'p Bifrost \<Rightarrow> bool" where
  "reg_inv b \<longleftrightarrow>
     length (serving b) = length (pqs b) \<and>
     (\<forall>key i. requestQueues b key = Some i \<longrightarrow> i < length (pqs b) \<and> \<not> isClosing (pqs b ! i)
        \<and> waitGroups b key = Some i \<and> (key \<notin> fst ` set (providers b) \<longrightarrow> serving b ! i = 0)) \<and>
     (\<forall>k k' i. requestQueues b k = Some i \<longrightarrow> requestQueues b k' = Some i \<longrightarrow> k = k') \<and>
     distinct (map fst (providers b)) \<and>
     fst ` set (providers b) \<subseteq> dom (requestQueues b)"

lemma prepareProvider_inv:
  assumes "reg_inv b" "requestQueues b key = None"
  shows "reg_inv (fst (prepareProvider create key config b))"
proof (cases "create key config")
  case (Inl err)
  with assms show ?thesis
    by (auto simp: reg_inv_def prepareProvider_def Let_def make_pq_def isClosing_def nth_append dom_def
        intro: less_SucI split: if_splits)
next
  case (Inr provider)
  have "key \<notin> fst ` set (providers b)" using assms by (auto simp: reg_inv_def dom_def)
  with assms Inr show ?thesis
    by (auto simp: reg_inv_def prepareProvider_def Let_def make_pq_def isClosing_def nth_append dom_def
        RegisterKnownProvider_def list_update_append intro: less_SucI split: if_splits)
qed

lemma registered_unique:
  assumes "reg_inv b" "requestQueues b key = Some old" "requestQueues b k = Some i" "k \<noteq> key"
  shows "i \<noteq> old" "i < length (pqs b)" "\<not> isClosing (pqs b ! i)" "waitGroups b k = Some i"
    "k \<notin> fst ` set (providers b) \<Longrightarrow> serving b ! i = 0" "length (serving b) = length (pqs b)"
  using assms unfolding reg_inv_def by blast+

lemma publishProvider_inv:
  assumes inv: "reg_inv b" and old: "requestQueues b key = Some old" and "BufferSize config \<ge> 0"
  shows "reg_inv (fst (publishProvider key config provider old b))"
proof -
  let ?b = "fst (publishProvider key config provider old b)"
  have len: "length (serving b) = length (pqs b)" and dist: "distinct (map fst (providers b))"
    and dom: "fst ` set (providers b) \<subseteq> dom (requestQueues b)" using inv by (auto simp: reg_inv_def)
  have fields: "requestQueues ?b = (requestQueues b)(key \<mapsto> length (pqs b))" "waitGroups ?b = (waitGroups b)(key \<mapsto> length (pqs b))"
    "providers ?b = replaceProvider key provider (providers b)" "serving ?b = serving b @ [nat (Concurrency config)]"
    "\<exists>q. pqs ?b = (pqs b)[old := closedQueue (pqs b ! old)] @ [(make_pq (nat (BufferSize config)))\<lparr>pq_queue := q\<rparr>]"
    by (auto simp: publishProvider_def Let_def split: prod.split)
  have keys: "fst ` set (providers ?b) = insert key (fst ` set (providers b) - {key})"
    by (force simp: fields replaceProvider_def)
  have "i < length (pqs ?b) \<and> \<not> isClosing (pqs ?b ! i) \<and> waitGroups ?b k = Some i
      \<and> (k \<notin> fst ` set (providers ?b) \<longrightarrow> serving ?b ! i = 0)" if "requestQueues ?b k = Some i" for k i
  proof (cases "k = key")
    case True
    with that show ?thesis using fields(5) by (auto simp: fields(1,2) keys nth_append make_pq_def isClosing_def)
  next
    case False
    with that have "requestQueues b k = Some i" by (simp add: fields)
    from registered_unique [OF inv old this False] fields(5) False show ?thesis
      by (auto simp: fields(1,2,4) keys nth_append)
  qed
  moreover have "k = k'" if "requestQueues ?b k = Some i" "requestQueues ?b k' = Some i" for k k' i
    using that inv registered_unique [OF inv old, of k i] registered_unique [OF inv old, of k' i]
    by (auto simp: fields reg_inv_def split: if_splits)
  moreover have "distinct (map fst (providers ?b))"
    using dist by (auto simp: fields replaceProvider_def distinct_map_filter)
  moreover have "fst ` set (providers ?b) \<subseteq> dom (requestQueues ?b)" unfolding keys using dom by (auto simp: fields)
  ultimately show ?thesis using len fields(4,5) unfolding reg_inv_def by auto
qed

lemma RemoveProvider_inv:
  assumes inv: "reg_inv b" and "lost < 100"
  shows "reg_inv (fst (RemoveProvider lost key b))"
proof (cases "requestQueues b key")
  case (Some pq)
  let ?b = "fst (RemoveProvider lost key b)"
  have fields: "requestQueues ?b = (requestQueues b)(key := None)" "waitGroups ?b = (waitGroups b)(key := None)"
    "providers ?b = filter (\<lambda>p. fst p \<noteq> key) (providers b)" "pqs ?b = (pqs b)[pq := closedQueue (pqs b ! pq)]"
    "\<exists>gone. serving ?b = exited gone (serving b)"
    using Some assms(2)
    by (auto simp: RemoveProvider_def removeProviderFromSlice_def UnregisterKnownProvider_def Let_def)
  have keys: "fst ` set (providers ?b) = fst ` set (providers b) - {key}"
    by (force simp: fields)
  have "i < length (pqs ?b) \<and> \<not> isClosing (pqs ?b ! i) \<and> waitGroups ?b k = Some i
      \<and> (k \<notin> fst ` set (providers ?b) \<longrightarrow> serving ?b ! i = 0)" if "requestQueues ?b k = Some i" for k i
  proof -
    from that have k: "k \<noteq> key" "requestQueues b k = Some i" by (auto simp: fields split: if_splits)
    from registered_unique [OF inv Some k(2,1)] fields(5) k(1) show ?thesis
      by (auto simp: fields(1,2,4) keys exited_def)
  qed
  moreover have "distinct (map fst (providers ?b))"
    using inv by (auto simp: fields reg_inv_def distinct_map_filter)
  moreover have "fst ` set (providers ?b) \<subseteq> dom (requestQueues ?b)"
    unfolding keys using inv by (auto simp: fields reg_inv_def)
  moreover have "length (serving ?b) = length (pqs ?b)"
    using inv fields(4,5) by (auto simp: reg_inv_def exited_def)
  moreover have "\<forall>k k' i. requestQueues ?b k = Some i \<longrightarrow> requestQueues ?b k' = Some i \<longrightarrow> k = k'"
    using inv by (auto simp: fields reg_inv_def)
  ultimately show ?thesis unfolding reg_inv_def by blast
qed (use inv in \<open>simp add: RemoveProvider_def\<close>)

lemma getProviderQueue_inv: "reg_inv b \<Longrightarrow> reg_inv (fst (getProviderQueue acc create key b))"
proof (cases "requestQueues b key")
  case None
  assume "reg_inv b"
  from prepareProvider_inv [OF this None] None \<open>reg_inv b\<close> show ?thesis
    by (auto simp: getProviderQueue_def split: sum.split option.split prod.split) (metis fst_conv)+
qed (simp add: getProviderQueue_def)

lemma UpdateProvider_inv: "reg_inv b \<Longrightarrow> reg_inv (fst (UpdateProvider acc create lost key b))"
proof (cases "requestQueues b key")
  case None
  assume "reg_inv b"
  from prepareProvider_inv [OF this None] None \<open>reg_inv b\<close> show ?thesis
    by (auto simp: UpdateProvider_def split: sum.split option.split prod.split) (metis fst_conv)+
next
  case (Some old)
  assume "reg_inv b"
  from publishProvider_inv [OF this Some] Some \<open>reg_inv b\<close> show ?thesis
    by (auto simp: UpdateProvider_def split: sum.split option.split prod.split) (metis fst_conv linorder_not_less)+
qed

lemma reg_inv_step: "reg_step acc create e b = Some b' \<Longrightarrow> reg_inv b \<Longrightarrow> reg_inv b'"
  by (cases e) (auto simp: getProviderQueue_inv UpdateProvider_inv RemoveProvider_inv split: if_splits)

interpretation registry: invariant_machine "reg_step acc create" empty_registry reg_inv
  by unfold_locales (simp add: empty_registry_def reg_inv_def, rule reg_inv_step)

definition unserved :: "pq_sys \<Rightarrow> bool" where
  "unserved s \<longleftrightarrow> pq_workers s = [] \<and> (pq_closing s \<or> pq_closer s = COpen \<and> pq_answers s = [])"

lemma unserved_step: "pq_step e s = Some s' \<Longrightarrow> unserved s \<Longrightarrow> unserved s'"
  by (cases e) (auto simp: unserved_def pq_defs split: if_splits list.splits)

lemma no_worker_no_answer:
  assumes "run_events pq_step es (new_pq cap 0 dropExcess) = Some s"
  shows "pq_closing s \<or> pq_answers s = []"
proof -
  have "unserved (new_pq cap 0 dropExcess)" by (simp add: unserved_def new_pq_def)
  with unserved_step assms have "unserved s" by (rule run_events_keeps)
  then show ?thesis by (auto simp: unserved_def)
qed





text \<open>A provider whose adapter cannot be constructed leaves its queue registered: the first lookup
  reports the error, but the next one returns that queue, which no worker serves, and on such a
  queue no request is ever answered before the queue is closed.\<close>

theorem failed_prepare_strands_requests:
  assumes "requestQueues b key = None" "length (serving b) = length (pqs b)"
    and "acc key = Inr (Some config)" "BufferSize config \<ge> 0" "create key config = Inl err"
    and "run_events pq_step es (new_pq (nat (BufferSize config)) 0 dropExcess) = Some s"
  shows "\<exists>b' i. getProviderQueue acc create key b
        = (b', Inl (Error (''failed to create provider for the given key: '' @ err)))
      \<and> getProviderQueue acc create key b' = (b', Inr i)
      \<and> pqs b' ! i = make_pq (nat (BufferSize config)) \<and> serving b' ! i = 0
      \<and> (pq_closing s \<or> pq_answers s = [])"
  using assms(1-5) no_worker_no_answer [OF assms(6)]
  by (simp add: getProviderQueue_def prepareProvider_def Let_def nth_append)

theorem failed_prepare_strands_requests_witness:
  "\<exists>b'. getProviderQueue (\<lambda>_. Inr (Some \<lparr>Concurrency = 1, BufferSize = 2\<rparr>)) (\<lambda>_ _. Inl ''no base url'' :: string + unit)
        ''custom'' empty_registry = (b', Inl (Error ''failed to create provider for the given key: no base url''))
     \<and> getProviderQueue (\<lambda>_. Inr (Some \<lparr>Concurrency = 1, BufferSize = 2\<rparr>)) (\<lambda>_ _. Inl ''no base url'')
        ''custom'' b' = (b', Inr 0)
     \<and> serving b' ! 0 = 0"
  using failed_prepare_strands_requests [of "empty_registry :: unit Bifrost" "''custom''"
      "\<lambda>_. Inr (Some \<lparr>Concurrency = 1, BufferSize = 2\<rparr>)" "\<lparr>Concurrency = 1, BufferSize = 2\<rparr>" "\<lambda>_ _. Inl ''no base url''"
      "''no base url''" "[ProdCheck 0, ProdSend 0]" False]
  by (auto simp: empty_registry_def getProviderQueue_def prepareProvider_def Let_def new_pq_def pq_defs)

end
