(* ===== verification/Stream_Gate.thy ===== *)
theory Stream_Gate
  imports Schemas Event_Machine "HOL-Library.Multiset"
begin

text \<open>
  The delivery gate of a streaming response: \<open>src/framework/streaming/gate.go\<close> and the gate part
  of \<open>accumulator.go\<close>. A provider goroutine hands every chunk to \<open>GateSend\<close>; a plugin may pause,
  resume or end the stream from another goroutine; chunks held back are delivered by a third
  goroutine, the flusher.

  \<^item> \<^emph>\<open>State.\<close> \<open>StreamGate\<close> has the gate fields of \<open>StreamAccumulator\<close> and the control
    point of the flusher: what it does is atomic between two points at which it gives up
    \<open>sa.mu\<close>, so these points are its only control states. The response channel and the request
    context are one each (\<open>They are stable for the life of the stream\<close>), so that the captured
    \<open>gateFlusherCh\<close> and \<open>gateFlusherCtx\<close> are flags saying whether they are set. \<open>gateCond\<close> is
    never nil: both constructors set it.
  \<^item> \<^emph>\<open>Interleaving.\<close> \<open>gate_event\<close> executes one atomic section of one goroutine; a section
    that is not enabled is \<^const>\<open>None\<close>. The provider is one goroutine: it calls \<open>GateSend\<close> again
    only after its direct send has returned. \<open>sendOrCancel\<close> gives true and delivers on a
    channel that is open, and can give false once the context is done or the channel closed.
  \<^item> \<open>MarshalJSON\<close> is the parameter \<open>mj\<close>: the length of the encoding, \<^const>\<open>None\<close> on an
    error. It is a function of the chunk, so the sizes on append and on removal agree.

  Shown: the invariant of the gate with no lost wake-up; nothing is lost or duplicated; the order
  of delivery when no direct send overlaps the flusher's, and a run in which a live chunk
  overtakes a replayed one; what the overflow of the replay buffer does; that an ended gate always
  drains and delivers its terminal error.
\<close>

subsection \<open>State\<close>

datatype StreamState = StreamStateActive | StreamStatePaused | StreamStateEnded

datatype 'c BifrostStreamChunk = ResponseChunk 'c | ErrorChunk BifrostError

type_synonym 'c chunk = "'c BifrostStreamChunk option"
type_synonym 'c marshal = "'c BifrostStreamChunk \<Rightarrow> nat option"

datatype 'c flusher = FOff | FReady | FParked | FSend "'c chunk" | FPace | FErr "'c chunk"

record 'c StreamGate =
  sg_gateState :: StreamState
  sg_gatePausedAt :: int
  sg_gatePendingTerminal :: bool
  sg_gateSeq :: int
  sg_gateReplayBuf :: "'c chunk list"
  sg_gateReplayBufBytes :: int
  sg_gateReplayEventInterval :: duration
  sg_gateEndError :: "BifrostError option"
  sg_gateFlusherCh :: bool
  sg_gateFlusherCtx :: bool
  sg_gateFlusherOn :: bool
  sg_gateFlusherDone :: bool
  sg_gatePendingCleanup :: bool
  sg_registered :: bool
  sg_flusher :: "'c flusher"

definition newGate :: "'c StreamGate" where
  "newGate = \<lparr>sg_gateState = StreamStateActive, sg_gatePausedAt = -1, sg_gatePendingTerminal = False,
     sg_gateSeq = 0, sg_gateReplayBuf = [], sg_gateReplayBufBytes = 0,
     sg_gateReplayEventInterval = 0, sg_gateEndError = None, sg_gateFlusherCh = False,
     sg_gateFlusherCtx = False, sg_gateFlusherOn = False, sg_gateFlusherDone = False,
     sg_gatePendingCleanup = False, sg_registered = True, sg_flusher = FOff\<rparr>"

definition gateReplayBufMaxBytes :: int where
  "gateReplayBufMaxBytes = 100 * 1024 * 1024"

definition chunkBytes :: "'c marshal \<Rightarrow> 'c chunk \<Rightarrow> int" where
  "chunkBytes mj chunk = (case chunk of
       None \<Rightarrow> 0
     | Some c \<Rightarrow> (case mj c of None \<Rightarrow> 0 | Some n \<Rightarrow> int n))"

text \<open>\<open>gateCond.Broadcast\<close> wakes a flusher parked in \<open>gateCond.Wait\<close>; \<open>go sa.gateFlusher()\<close> starts one.\<close>

definition Broadcast :: "'c StreamGate \<Rightarrow> 'c StreamGate" where
  "Broadcast g = (if sg_flusher g = FParked then g\<lparr>sg_flusher := FReady\<rparr> else g)"

definition startFlusher :: "'c StreamGate \<Rightarrow> 'c StreamGate" where
  "startFlusher g = g\<lparr>sg_gateFlusherOn := True, sg_gateFlusherDone := True, sg_flusher := FReady\<rparr>"

subsection \<open>Operations of the other goroutines\<close>

definition Pause :: "'c StreamGate \<Rightarrow> 'c StreamGate" where
  "Pause g = (if sg_gateState g \<noteq> StreamStateActive then g
     else g\<lparr>sg_gateReplayEventInterval := 0, sg_gateState := StreamStatePaused,
            sg_gatePausedAt := sg_gateSeq g\<rparr>)"

definition Resume :: "'c StreamGate \<Rightarrow> 'c StreamGate" where
  "Resume g = (if sg_gateState g \<noteq> StreamStatePaused then g
     else Broadcast (g\<lparr>sg_gateReplayEventInterval := 0, sg_gateState := StreamStateActive\<rparr>))"

definition ResumeWithReplayInterval :: "duration \<Rightarrow> 'c StreamGate \<Rightarrow> 'c StreamGate \<times> bool" where
  "ResumeWithReplayInterval eventInterval g =
     (if sg_gateState g \<noteq> StreamStatePaused \<or> eventInterval \<le> 0 then (g, False)
      else (g\<lparr>sg_gateReplayEventInterval := eventInterval\<rparr>, True))"

definition ClearPausedBuffer :: "'c StreamGate \<Rightarrow> 'c StreamGate \<times> string option" where
  "ClearPausedBuffer g =
     (if sg_gateState g \<noteq> StreamStatePaused then (g, Some ''stream gate is not paused'')
      else (Broadcast (g\<lparr>sg_gateReplayBuf := [], sg_gateReplayBufBytes := 0,
              sg_gateReplayEventInterval := 0, sg_gatePendingTerminal := False\<rparr>), None))"

definition End :: "BifrostError option \<Rightarrow> 'c StreamGate \<Rightarrow> 'c StreamGate" where
  "End err g =
     (if sg_gateState g = StreamStateEnded then g
      else
        let g = (if sg_gateState g = StreamStatePaused then g\<lparr>sg_gateReplayEventInterval := 0\<rparr> else g);
            g = g\<lparr>sg_gateState := StreamStateEnded\<rparr>;
            g = (if err \<noteq> None then g\<lparr>sg_gateEndError := err\<rparr> else g);
            g = (if \<not> sg_gateFlusherOn g \<and> sg_gateFlusherCh g
                    \<and> (sg_gateReplayBuf g \<noteq> [] \<or> sg_gateEndError g \<noteq> None)
                 then startFlusher g else g)
        in Broadcast g)"

definition cleanupStreamAccumulator :: "bool \<Rightarrow> 'c StreamGate \<Rightarrow> 'c StreamGate" where
  "cleanupStreamAccumulator forceEndGate g =
     (if \<not> sg_registered g then g
      else if \<not> forceEndGate \<and> (sg_gateFlusherOn g \<or> sg_gateState g = StreamStatePaused)
      then g\<lparr>sg_gatePendingCleanup := True\<rparr>
      else
        let g = (if forceEndGate \<and> sg_gateState g \<noteq> StreamStateEnded
                 then (Broadcast (g\<lparr>sg_gateState := StreamStateEnded, sg_gatePendingTerminal := False,
                         sg_gateEndError := None, sg_gateReplayEventInterval := 0\<rparr>))
                        \<lparr>sg_gateReplayBuf := [], sg_gateReplayBufBytes := 0\<rparr>
                 else g)
        in g\<lparr>sg_registered := False\<rparr>)"

text \<open>\<open>GateSend\<close> up to the point where it releases \<open>sa.mu\<close>: either it returns, or it goes on to
  send the chunk itself.\<close>

datatype gate_result = Handled bool | Passthrough

definition overflowError :: BifrostError where
  "overflowError = zeroError\<lparr>be_IsBifrostError := True,
     be_Error := Some \<lparr>ef_Type = Some ''paused_replay_buffer_overflow'', ef_Code = None,
       ef_Message = ''paused stream replay buffer exceeded '' @ strconv_Itoa gateReplayBufMaxBytes
         @ '' bytes '' @ [CHR 0xE2, CHR 0x80, CHR 0x94] @ '' ending stream'', ef_Error = None\<rparr>\<rparr>"

definition captureTarget :: "bool \<Rightarrow> 'c StreamGate \<Rightarrow> 'c StreamGate" where
  "captureTarget ctx g = g\<lparr>sg_gateSeq := sg_gateSeq g + 1, sg_gateFlusherCh := True,
     sg_gateFlusherCtx := sg_gateFlusherCtx g \<or> ctx\<rparr>"

definition appendReplay :: "'c marshal \<Rightarrow> 'c chunk \<Rightarrow> 'c StreamGate \<Rightarrow> 'c StreamGate" where
  "appendReplay mj chunk g = g\<lparr>sg_gateReplayBuf := sg_gateReplayBuf g @ [chunk],
     sg_gateReplayBufBytes := sg_gateReplayBufBytes g + chunkBytes mj chunk\<rparr>"

definition gateSendPaused ::
    "'c marshal \<Rightarrow> 'c chunk \<Rightarrow> bool \<Rightarrow> 'c StreamGate \<Rightarrow> 'c StreamGate \<times> gate_result" where
  "gateSendPaused mj chunk terminal g =
     (if sg_gateReplayBufBytes g + chunkBytes mj chunk > gateReplayBufMaxBytes
      then let g = g\<lparr>sg_gateState := StreamStateEnded, sg_gateReplayEventInterval := 0,
                     sg_gateEndError := Some overflowError\<rparr>;
               g = (if \<not> sg_gateFlusherOn g \<and> sg_gateFlusherCh g then startFlusher g else g)
           in (Broadcast g, Handled False)
      else let g = appendReplay mj chunk g;
               g = (if terminal then g\<lparr>sg_gatePendingTerminal := True\<rparr> else g);
               g = (if \<not> sg_gateFlusherOn g then startFlusher g else g);
               g = (if sg_gateReplayEventInterval g > 0
                    then Broadcast (g\<lparr>sg_gateState := StreamStateActive\<rparr>) else g)
           in (g, Handled True))"

definition gateSendActive ::
    "'c marshal \<Rightarrow> 'c chunk \<Rightarrow> bool \<Rightarrow> 'c StreamGate \<Rightarrow> 'c StreamGate \<times> gate_result" where
  "gateSendActive mj chunk terminal g =
     (if terminal
      then if sg_gateFlusherOn g \<or> sg_gateReplayBuf g \<noteq> []
           then (Broadcast ((appendReplay mj chunk g)\<lparr>sg_gateState := StreamStateEnded\<rparr>), Handled True)
           else (g\<lparr>sg_gateState := StreamStateEnded\<rparr>, Passthrough)
      else if sg_gateReplayBuf g \<noteq> []
           then (Broadcast (appendReplay mj chunk g), Handled True)
           else (g, Passthrough))"

definition GateSend ::
    "'c marshal \<Rightarrow> 'c chunk \<Rightarrow> bool \<Rightarrow> bool \<Rightarrow> bool \<Rightarrow> 'c StreamGate \<Rightarrow> 'c StreamGate \<times> gate_result" where
  "GateSend mj chunk isFinal isHardErr ctx g =
     (let g = captureTarget ctx g in
      case sg_gateState g of
        StreamStateEnded \<Rightarrow> (g, Handled False)
      | StreamStatePaused \<Rightarrow> gateSendPaused mj chunk (isFinal \<or> isHardErr) g
      | StreamStateActive \<Rightarrow> gateSendActive mj chunk (isFinal \<or> isHardErr) g)"

subsection \<open>The flusher\<close>

text \<open>The wait condition of the flusher's loop, its exit (the deferred function), and the loops.
  Each function runs until the flusher next releases \<open>sa.mu\<close>: to park, to send, to wait for the
  replay interval, or for good.\<close>

definition flusherWaits :: "'c StreamGate \<Rightarrow> bool" where
  "flusherWaits g \<longleftrightarrow> sg_gateState g \<noteq> StreamStateEnded
     \<and> (sg_gateState g = StreamStatePaused \<or> sg_gateReplayBuf g = [])"

definition flusherExit :: "'c StreamGate \<Rightarrow> 'c StreamGate" where
  "flusherExit g =
     (let g = g\<lparr>sg_gateFlusherOn := False, sg_gateFlusherDone := False, sg_flusher := FOff\<rparr>
      in if sg_gatePendingCleanup g then cleanupStreamAccumulator False g else g)"

definition dequeueReplay :: "'c marshal \<Rightarrow> 'c StreamGate \<Rightarrow> 'c StreamGate" where
  "dequeueReplay mj g =
     (let chunk = hd (sg_gateReplayBuf g);
          bytes = sg_gateReplayBufBytes g - chunkBytes mj chunk
      in g\<lparr>sg_gateReplayBuf := tl (sg_gateReplayBuf g),
           sg_gateReplayBufBytes := (if bytes < 0 then 0 else bytes),
           sg_flusher := FSend chunk\<rparr>)"

definition drainReset :: "'c StreamGate \<Rightarrow> 'c StreamGate" where
  "drainReset g = (if sg_gateReplayBuf g = []
     then g\<lparr>sg_gateReplayBufBytes := 0, sg_gateReplayEventInterval := 0\<rparr> else g)"

definition pendingTerminal :: "'c StreamGate \<Rightarrow> 'c StreamGate" where
  "pendingTerminal g = (if sg_gatePendingTerminal g \<and> sg_gateState g = StreamStateActive
     then g\<lparr>sg_gatePendingTerminal := False, sg_gateState := StreamStateEnded\<rparr> else g)"

definition flusherFinish :: "'c StreamGate \<Rightarrow> 'c StreamGate" where
  "flusherFinish g = (case sg_gateEndError g of
       Some e \<Rightarrow> g\<lparr>sg_gateEndError := None, sg_flusher := FErr (Some (ErrorChunk e))\<rparr>
     | None \<Rightarrow> flusherExit g)"

lemma StreamState_neq:
  "st \<noteq> StreamStateActive \<Longrightarrow> st \<noteq> StreamStateEnded \<Longrightarrow> st = StreamStatePaused"
  by (cases st) auto

function (sequential) gateFlusher :: "'c marshal \<Rightarrow> 'c StreamGate \<Rightarrow> 'c StreamGate"
  and drainBufferLocked :: "'c marshal \<Rightarrow> 'c StreamGate \<Rightarrow> 'c StreamGate"
  and gateFlusherDrained :: "'c marshal \<Rightarrow> 'c StreamGate \<Rightarrow> 'c StreamGate" where
  "gateFlusher mj g =
     (if flusherWaits g then g\<lparr>sg_flusher := FParked\<rparr> else drainBufferLocked mj g)"
| "drainBufferLocked mj g =
     (if sg_gateState g \<noteq> StreamStatePaused \<and> sg_gateReplayBuf g \<noteq> []
      then dequeueReplay mj g
      else gateFlusherDrained mj (drainReset g))"
| "gateFlusherDrained mj g =
     (let g = pendingTerminal g in
      if sg_gateState g = StreamStateEnded then flusherFinish g else gateFlusher mj g)"
  by pat_completeness auto
termination
  by (relation "measure (\<lambda>x. case x of
        Inl (mj, g) \<Rightarrow> if flusherWaits g then 0 else 3
      | Inr (Inl (mj, g)) \<Rightarrow> 2
      | Inr (Inr (mj, g)) \<Rightarrow> if sg_gateState g = StreamStateActive \<and> sg_gateReplayBuf g \<noteq> [] then 4 else 1)")
    (auto simp: flusherWaits_def drainReset_def pendingTerminal_def intro: StreamState_neq split: if_splits)

declare gateFlusher.simps [simp del] drainBufferLocked.simps [simp del] gateFlusherDrained.simps [simp del]

text \<open>What the flusher does once it has the lock again: after a delivery or a wait that was
  canceled it abandons the buffer; after a delivery it paces the next one; after a wait it goes on
  draining.\<close>

definition abandonReplay :: "'c marshal \<Rightarrow> 'c StreamGate \<Rightarrow> 'c StreamGate" where
  "abandonReplay mj g = gateFlusherDrained mj (g\<lparr>sg_gateReplayBuf := [], sg_gateReplayBufBytes := 0,
     sg_gateReplayEventInterval := 0, sg_gateState := StreamStateEnded\<rparr>)"

definition afterSend :: "'c marshal \<Rightarrow> bool \<Rightarrow> 'c StreamGate \<Rightarrow> 'c StreamGate" where
  "afterSend mj ok g =
     (if \<not> ok then abandonReplay mj g
      else if sg_gateReplayBuf g \<noteq> [] \<and> sg_gateReplayEventInterval g > 0
      then g\<lparr>sg_flusher := FPace\<rparr>
      else drainBufferLocked mj g)"

definition afterPace :: "'c marshal \<Rightarrow> bool \<Rightarrow> 'c StreamGate \<Rightarrow> 'c StreamGate" where
  "afterPace mj ok g = (if \<not> ok then abandonReplay mj g else drainBufferLocked mj g)"

definition flusherResumes :: "'c marshal \<Rightarrow> bool \<Rightarrow> 'c StreamGate \<Rightarrow> 'c StreamGate" where
  "flusherResumes mj ok g = (case sg_flusher g of
       FReady \<Rightarrow> gateFlusher mj g
     | FSend c \<Rightarrow> afterSend mj ok g
     | FPace \<Rightarrow> afterPace mj ok g
     | FErr c \<Rightarrow> flusherExit g
     | _ \<Rightarrow> g)"

subsection \<open>Interleaving\<close>

text \<open>The gate with its surroundings: the provider's direct send in progress, whether the context is
  done and the channel closed, the chunks the channel received, and (for the statements only) the
  chunks the gate took charge of, in that order.\<close>

record 'c gate_sys =
  gs_gate :: "'c StreamGate"
  gs_producer :: "('c chunk \<times> bool) option"
  gs_cancelled :: bool
  gs_closed :: bool
  gs_received :: "'c chunk list"
  gs_accepted :: "'c chunk list"

definition init_sys :: "'c gate_sys" where
  "init_sys = \<lparr>gs_gate = newGate, gs_producer = None, gs_cancelled = False, gs_closed = False,
     gs_received = [], gs_accepted = []\<rparr>"

datatype 'c gate_ev =
    EvGateSend "'c chunk" bool bool bool
  | EvSent bool
  | EvPause
  | EvResume
  | EvResumePaced duration
  | EvClear
  | EvEnd "BifrostError option"
  | EvCleanup bool
  | EvFlusher bool
  | EvCancel
  | EvClose

definition sendOrCancel :: "bool \<Rightarrow> bool \<Rightarrow> 'c chunk \<Rightarrow> 'c gate_sys \<Rightarrow> 'c gate_sys option" where
  "sendOrCancel ctx ok chunk s =
     (if ok then if gs_closed s then None else Some (s\<lparr>gs_received := gs_received s @ [chunk]\<rparr>)
      else if gs_closed s \<or> ctx \<and> gs_cancelled s then Some s else None)"

definition with_gate :: "'c gate_sys \<Rightarrow> 'c StreamGate \<Rightarrow> 'c gate_sys" where
  "with_gate s g = s\<lparr>gs_gate := g,
     gs_accepted := gs_accepted s @ (case sg_flusher g of FErr c \<Rightarrow> [c] | _ \<Rightarrow> [])\<rparr>"

definition ev_GateSend ::
    "'c marshal \<Rightarrow> 'c chunk \<Rightarrow> bool \<Rightarrow> bool \<Rightarrow> bool \<Rightarrow> 'c gate_sys \<Rightarrow> 'c gate_sys option" where
  "ev_GateSend mj c isFinal isHardErr ctx s =
     (if gs_producer s \<noteq> None then None
      else case GateSend mj c isFinal isHardErr ctx (gs_gate s) of
          (g, Handled ok) \<Rightarrow> Some (s\<lparr>gs_gate := g,
             gs_accepted := gs_accepted s @ (if ok then [c] else [])\<rparr>)
        | (g, Passthrough) \<Rightarrow> Some (s\<lparr>gs_gate := g, gs_producer := Some (c, ctx),
             gs_accepted := gs_accepted s @ [c]\<rparr>))"

definition ev_Flusher :: "'c marshal \<Rightarrow> bool \<Rightarrow> 'c gate_sys \<Rightarrow> 'c gate_sys option" where
  "ev_Flusher mj ok s =
     (let g = gs_gate s in case sg_flusher g of
        FOff \<Rightarrow> None
      | FParked \<Rightarrow> None
      | FReady \<Rightarrow> if ok then Some (with_gate s (gateFlusher mj g)) else None
      | FSend c \<Rightarrow> map_option (\<lambda>s. with_gate s (afterSend mj ok g)) (sendOrCancel (sg_gateFlusherCtx g) ok c s)
      | FPace \<Rightarrow> if ok \<or> sg_gateFlusherCtx g \<and> gs_cancelled s
                then Some (with_gate s (afterPace mj ok g)) else None
      | FErr c \<Rightarrow> map_option (\<lambda>s. with_gate s (flusherExit g)) (sendOrCancel (sg_gateFlusherCtx g) ok c s))"

fun gate_event :: "'c marshal \<Rightarrow> 'c gate_ev \<Rightarrow> 'c gate_sys \<Rightarrow> 'c gate_sys option" where
  "gate_event mj (EvGateSend c isFinal isHardErr ctx) s = ev_GateSend mj c isFinal isHardErr ctx s"
| "gate_event mj (EvSent ok) s = (case gs_producer s of None \<Rightarrow> None
     | Some (c, ctx) \<Rightarrow> map_option (\<lambda>s. s\<lparr>gs_producer := None\<rparr>) (sendOrCancel ctx ok c s))"
| "gate_event mj EvPause s = Some (s\<lparr>gs_gate := Pause (gs_gate s)\<rparr>)"
| "gate_event mj EvResume s = Some (s\<lparr>gs_gate := Resume (gs_gate s)\<rparr>)"
| "gate_event mj (EvResumePaced d) s =
     Some (s\<lparr>gs_gate := fst (ResumeWithReplayInterval d (gs_gate s))\<rparr>)"
| "gate_event mj EvClear s = Some (s\<lparr>gs_gate := fst (ClearPausedBuffer (gs_gate s))\<rparr>)"
| "gate_event mj (EvEnd err) s = Some (s\<lparr>gs_gate := End err (gs_gate s)\<rparr>)"
| "gate_event mj (EvCleanup force) s =
     Some (s\<lparr>gs_gate := cleanupStreamAccumulator force (gs_gate s)\<rparr>)"
| "gate_event mj (EvFlusher ok) s = ev_Flusher mj ok s"
| "gate_event mj EvCancel s = Some (s\<lparr>gs_cancelled := True\<rparr>)"
| "gate_event mj EvClose s = Some (s\<lparr>gs_closed := True\<rparr>)"

abbreviation gate_run :: "'c marshal \<Rightarrow> 'c gate_ev list \<Rightarrow> 'c gate_sys \<Rightarrow> 'c gate_sys option" where
  "gate_run mj \<equiv> run_events (gate_event mj)"

abbreviation gate_reach :: "'c marshal \<Rightarrow> 'c gate_sys \<Rightarrow> bool" where
  "gate_reach mj \<equiv> reachable (gate_event mj) init_sys"

subsection \<open>Streams by trace\<close>

text \<open>The accumulator keeps one gate per trace; the operations a tracer calls look the gate up, some
  of them creating it.\<close>

type_synonym 'c gates = "(string, 'c StreamGate) gomap"

definition getOrCreateStreamAccumulator :: "string \<Rightarrow> 'c gates \<Rightarrow> 'c gates \<times> 'c StreamGate" where
  "getOrCreateStreamAccumulator requestID a = (case mapget a requestID of
       Some g \<Rightarrow> (a, g)
     | None \<Rightarrow> (mapput requestID newGate a, newGate))"

definition PauseStream :: "string \<Rightarrow> 'c gates \<Rightarrow> 'c gates" where
  "PauseStream traceID a = (if traceID = '''' then a
     else let (a, g) = getOrCreateStreamAccumulator traceID a in mapput traceID (Pause g) a)"

definition ResumeStream :: "string \<Rightarrow> 'c gates \<Rightarrow> 'c gates" where
  "ResumeStream traceID a = (if traceID = '''' then a
     else let (a, g) = getOrCreateStreamAccumulator traceID a in mapput traceID (Resume g) a)"

definition ResumeStreamWithReplayInterval :: "string \<Rightarrow> duration \<Rightarrow> 'c gates \<Rightarrow> 'c gates \<times> bool" where
  "ResumeStreamWithReplayInterval traceID eventInterval a =
     (if traceID = '''' \<or> eventInterval \<le> 0 then (a, False)
      else case mapget a traceID of
          None \<Rightarrow> (a, False)
        | Some g \<Rightarrow> (case ResumeWithReplayInterval eventInterval g of (g', ok) \<Rightarrow> (mapput traceID g' a, ok)))"

definition ClearPausedStreamBuffer :: "string \<Rightarrow> 'c gates \<Rightarrow> 'c gates \<times> string option" where
  "ClearPausedStreamBuffer traceID a =
     (if traceID = '''' then (a, Some ''trace ID is empty'')
      else case mapget a traceID of
          None \<Rightarrow> (a, Some ''stream accumulator not found'')
        | Some g \<Rightarrow> (case ClearPausedBuffer g of (g', err) \<Rightarrow> (mapput traceID g' a, err)))"

definition EndStream :: "string \<Rightarrow> BifrostError option \<Rightarrow> 'c gates \<Rightarrow> 'c gates" where
  "EndStream traceID err a = (if traceID = '''' then a
     else let (a, g) = getOrCreateStreamAccumulator traceID a in mapput traceID (End err g) a)"

definition IsStreamEnded :: "string \<Rightarrow> 'c gates \<Rightarrow> bool" where
  "IsStreamEnded traceID a = (if traceID = '''' then False
     else case mapget a traceID of None \<Rightarrow> False | Some g \<Rightarrow> sg_gateState g = StreamStateEnded)"

definition IsStreamPaused :: "string \<Rightarrow> 'c gates \<Rightarrow> bool" where
  "IsStreamPaused traceID a = (if traceID = '''' then False
     else case mapget a traceID of None \<Rightarrow> False | Some g \<Rightarrow> sg_gateState g = StreamStatePaused)"

definition GateSendStream ::
    "'c marshal \<Rightarrow> string \<Rightarrow> 'c chunk \<Rightarrow> bool \<Rightarrow> bool \<Rightarrow> bool \<Rightarrow> 'c gates \<Rightarrow> 'c gates \<times> gate_result" where
  "GateSendStream mj traceID chunk isFinal isHardErr ctx a =
     (let (a, g) = getOrCreateStreamAccumulator traceID a in
      case GateSend mj chunk isFinal isHardErr ctx g of (g', r) \<Rightarrow> (mapput traceID g' a, r))"

subsection \<open>The loops of the flusher, unrolled\<close>

definition drainedGate :: "'c StreamGate \<Rightarrow> 'c StreamGate" where
  "drainedGate g = (let g = pendingTerminal g in
     if sg_gateState g = StreamStateEnded then flusherFinish g else g\<lparr>sg_flusher := FParked\<rparr>)"

lemma gateFlusherDrained_eq:
  assumes "sg_gateState g \<noteq> StreamStateActive \<or> sg_gateReplayBuf g = []"
  shows "gateFlusherDrained mj g = drainedGate g"
  using assms
  by (auto simp: gateFlusherDrained.simps [of mj g] gateFlusher.simps Let_def drainedGate_def
      flusherWaits_def pendingTerminal_def dest: StreamState_neq)

lemma drainBufferLocked_eq:
  "drainBufferLocked mj g =
     (if sg_gateState g \<noteq> StreamStatePaused \<and> sg_gateReplayBuf g \<noteq> [] then dequeueReplay mj g
      else drainedGate (drainReset g))"
proof -
  have "\<not> (sg_gateState g \<noteq> StreamStatePaused \<and> sg_gateReplayBuf g \<noteq> []) \<Longrightarrow>
      sg_gateState (drainReset g) \<noteq> StreamStateActive \<or> sg_gateReplayBuf (drainReset g) = []"
    by (auto simp: drainReset_def)
  then show ?thesis
    unfolding drainBufferLocked.simps [of mj g] by (simp add: gateFlusherDrained_eq)
qed

lemma gateFlusher_eq:
  "gateFlusher mj g =
     (if flusherWaits g then g\<lparr>sg_flusher := FParked\<rparr>
      else if sg_gateReplayBuf g \<noteq> [] then dequeueReplay mj g
      else flusherFinish (drainReset g))"
  by (auto simp: gateFlusher.simps [of mj g] drainBufferLocked_eq flusherWaits_def drainedGate_def
      drainReset_def pendingTerminal_def Let_def)

lemma abandonReplay_eq:
  "abandonReplay mj g = flusherFinish (g\<lparr>sg_gateReplayBuf := [], sg_gateReplayBufBytes := 0,
     sg_gateReplayEventInterval := 0, sg_gateState := StreamStateEnded\<rparr>)"
  by (simp add: abandonReplay_def gateFlusherDrained_eq drainedGate_def pendingTerminal_def)

lemmas flusher_eqs = gateFlusher_eq drainBufferLocked_eq abandonReplay_eq afterSend_def afterPace_def

subsection \<open>The invariant\<close>

definition replayBytes :: "'c marshal \<Rightarrow> 'c chunk list \<Rightarrow> int" where
  "replayBytes mj cs = sum_list (map (chunkBytes mj) cs)"

definition gate_inv :: "'c marshal \<Rightarrow> 'c StreamGate \<Rightarrow> bool" where
  "gate_inv mj g \<longleftrightarrow>
     sg_gateFlusherOn g = (sg_flusher g \<noteq> FOff) \<and>
     sg_gateFlusherDone g = sg_gateFlusherOn g \<and>
     sg_gateReplayBufBytes g = replayBytes mj (sg_gateReplayBuf g) \<and>
     (sg_gateReplayBuf g \<noteq> [] \<longrightarrow> sg_gateFlusherOn g) \<and>
     (sg_gateFlusherOn g \<longrightarrow> sg_gateFlusherCh g) \<and>
     (sg_flusher g = FParked \<longrightarrow> flusherWaits g) \<and>
     (\<forall>c. sg_flusher g = FErr c \<longrightarrow> sg_gateState g = StreamStateEnded \<and> sg_gateReplayBuf g = []) \<and>
     0 \<le> sg_gateReplayEventInterval g"

lemma chunkBytes_nonneg [simp]: "0 \<le> chunkBytes mj c"
  by (simp add: chunkBytes_def split: option.split)

lemma replayBytes_simps [simp]:
  "replayBytes mj [] = 0"
  "replayBytes mj (c # cs) = chunkBytes mj c + replayBytes mj cs"
  "replayBytes mj (cs @ ds) = replayBytes mj cs + replayBytes mj ds"
  by (simp_all add: replayBytes_def)

lemma replayBytes_nonneg [simp]: "0 \<le> replayBytes mj cs"
  by (induction cs) auto

lemma replayBytes_not_neg [simp]: "\<not> replayBytes mj cs < 0"
  by (simp add: not_less)

lemma newGate_inv: "gate_inv mj newGate"
  by (simp add: gate_inv_def newGate_def)

lemma Broadcast_inv:
  "gate_inv mj (g\<lparr>sg_flusher := (if sg_flusher g = FParked then FReady else sg_flusher g)\<rparr>) \<Longrightarrow>
   gate_inv mj (Broadcast g)"
  by (auto simp: Broadcast_def split: if_splits)

lemma Pause_inv: "gate_inv mj g \<Longrightarrow> gate_inv mj (Pause g)"
  by (auto simp: Pause_def gate_inv_def flusherWaits_def)

lemma Resume_inv: "gate_inv mj g \<Longrightarrow> gate_inv mj (Resume g)"
  by (auto simp: Resume_def gate_inv_def flusherWaits_def Broadcast_def)

lemma ResumeWithReplayInterval_inv:
  "gate_inv mj g \<Longrightarrow> gate_inv mj (fst (ResumeWithReplayInterval d g))"
  by (auto simp: ResumeWithReplayInterval_def gate_inv_def flusherWaits_def)

lemma ClearPausedBuffer_inv: "gate_inv mj g \<Longrightarrow> gate_inv mj (fst (ClearPausedBuffer g))"
  by (auto simp: ClearPausedBuffer_def gate_inv_def flusherWaits_def Broadcast_def)

lemma End_inv: "gate_inv mj g \<Longrightarrow> gate_inv mj (End err g)"
  by (auto simp: End_def gate_inv_def flusherWaits_def Broadcast_def startFlusher_def Let_def)

lemma cleanup_inv: "gate_inv mj g \<Longrightarrow> gate_inv mj (cleanupStreamAccumulator force g)"
  by (auto simp: cleanupStreamAccumulator_def gate_inv_def flusherWaits_def Broadcast_def Let_def)

lemma captureTarget_inv: "gate_inv mj g \<Longrightarrow> gate_inv mj (captureTarget ctx g)"
  by (auto simp: captureTarget_def gate_inv_def flusherWaits_def)

lemma gateSendPaused_inv:
  assumes "gate_inv mj g" "sg_gateFlusherCh g" "sg_gateState g = StreamStatePaused"
  shows "gate_inv mj (fst (gateSendPaused mj c terminal g))"
  using assms
  by (auto simp: gateSendPaused_def gate_inv_def flusherWaits_def Broadcast_def startFlusher_def
      appendReplay_def Let_def)

lemma gateSendActive_inv:
  assumes "gate_inv mj g" "sg_gateState g = StreamStateActive"
  shows "gate_inv mj (fst (gateSendActive mj c terminal g))"
  using assms
  by (auto simp: gateSendActive_def gate_inv_def flusherWaits_def Broadcast_def appendReplay_def)

lemma GateSend_inv: "gate_inv mj g \<Longrightarrow> gate_inv mj (fst (GateSend mj c f h ctx g))"
proof -
  assume "gate_inv mj g"
  then have "gate_inv mj (captureTarget ctx g)" "sg_gateFlusherCh (captureTarget ctx g)"
    by (simp_all add: captureTarget_inv) (simp add: captureTarget_def)
  then show ?thesis
    by (auto simp: GateSend_def Let_def gateSendPaused_inv gateSendActive_inv split: StreamState.split)
qed

lemma flusherExit_inv:
  assumes "gate_inv mj g" "sg_gateReplayBuf g = []"
  shows "gate_inv mj (flusherExit g)"
proof -
  have "gate_inv mj (g\<lparr>sg_gateFlusherOn := False, sg_gateFlusherDone := False, sg_flusher := FOff\<rparr>)"
    using assms by (simp add: gate_inv_def)
  then show ?thesis by (simp add: flusherExit_def Let_def cleanup_inv)
qed

lemma flusherFinish_inv:
  assumes "gate_inv mj g" "sg_gateReplayBuf g = []" "sg_gateState g = StreamStateEnded" "sg_gateFlusherOn g"
  shows "gate_inv mj (flusherFinish g)"
proof (cases "sg_gateEndError g")
  case None
  then show ?thesis using assms by (simp add: flusherFinish_def flusherExit_inv)
next
  case (Some e)
  then show ?thesis using assms by (auto simp: flusherFinish_def gate_inv_def)
qed

lemma drainReset_inv: "gate_inv mj g \<Longrightarrow> gate_inv mj (drainReset g)"
  by (auto simp: drainReset_def gate_inv_def flusherWaits_def)

lemma dequeueReplay_inv:
  assumes "gate_inv mj g" "sg_gateReplayBuf g \<noteq> []" "sg_flusher g \<noteq> FOff"
  shows "gate_inv mj (dequeueReplay mj g)"
  using assms
  by (cases "sg_gateReplayBuf g") (auto simp: dequeueReplay_def gate_inv_def Let_def)

lemma pendingTerminal_inv:
  "gate_inv mj g \<Longrightarrow> sg_flusher g \<noteq> FParked \<Longrightarrow> gate_inv mj (pendingTerminal g)"
  by (auto simp: pendingTerminal_def gate_inv_def flusherWaits_def)

lemma drainedGate_inv:
  assumes "gate_inv mj g" "sg_flusher g \<notin> {FOff, FParked}"
    "sg_gateState g = StreamStatePaused \<or> sg_gateReplayBuf g = []"
  shows "gate_inv mj (drainedGate g)"
proof -
  let ?g = "pendingTerminal g"
  have inv: "gate_inv mj ?g" using assms by (auto intro: pendingTerminal_inv)
  have g: "sg_flusher ?g = sg_flusher g" "sg_gateReplayBuf ?g = sg_gateReplayBuf g"
    "sg_gateState ?g = sg_gateState g \<or> sg_gateState ?g = StreamStateEnded \<and> sg_gateState g = StreamStateActive"
    by (auto simp: pendingTerminal_def)
  have on: "sg_gateFlusherOn ?g" using inv g assms by (auto simp: gate_inv_def)
  show ?thesis
  proof (cases "sg_gateState ?g = StreamStateEnded")
    case True
    then have "sg_gateReplayBuf ?g = []" using g assms by auto
    then show ?thesis using True inv on by (simp add: drainedGate_def Let_def flusherFinish_inv)
  next
    case False
    then have "flusherWaits ?g" using g assms by (auto simp: flusherWaits_def)
    then show ?thesis
      using False inv on by (auto simp: drainedGate_def Let_def gate_inv_def flusherWaits_def)
  qed
qed

lemma drainBufferLocked_inv:
  assumes "gate_inv mj g" "sg_flusher g \<notin> {FOff, FParked}"
  shows "gate_inv mj (drainBufferLocked mj g)"
proof (cases "sg_gateState g \<noteq> StreamStatePaused \<and> sg_gateReplayBuf g \<noteq> []")
  case True
  then show ?thesis using assms by (simp add: drainBufferLocked_eq dequeueReplay_inv)
next
  case False
  then have "gate_inv mj (drainedGate (drainReset g))"
    using assms by (intro drainedGate_inv drainReset_inv) (auto simp: drainReset_def)
  then show ?thesis using False by (auto simp: drainBufferLocked_eq)
qed

lemma abandonReplay_inv:
  assumes "gate_inv mj g" "sg_flusher g \<notin> {FOff, FParked}"
  shows "gate_inv mj (abandonReplay mj g)"
  unfolding abandonReplay_eq using assms
  by (intro flusherFinish_inv) (auto simp: gate_inv_def flusherWaits_def)

lemma gateFlusher_inv:
  assumes "gate_inv mj g" "sg_flusher g = FReady"
  shows "gate_inv mj (gateFlusher mj g)"
proof (cases "flusherWaits g")
  case True
  then show ?thesis using assms by (auto simp: gateFlusher_eq gate_inv_def flusherWaits_def)
next
  case False
  then show ?thesis
    using assms drainBufferLocked_inv [of mj g] by (simp add: gateFlusher.simps)
qed

lemma ev_Flusher_inv:
  assumes "ev_Flusher mj ok s = Some s'" "gate_inv mj (gs_gate s)"
  shows "gate_inv mj (gs_gate s')"
proof -
  let ?g = "gs_gate s"
  have pace: "sg_flusher ?g = FSend c \<Longrightarrow> gate_inv mj (?g\<lparr>sg_flusher := FPace\<rparr>)" for c
    using assms(2) by (auto simp: gate_inv_def)
  show ?thesis
    using assms pace
    by (auto simp: ev_Flusher_def Let_def with_gate_def afterSend_def afterPace_def gateFlusher_inv
        sendOrCancel_def drainBufferLocked_inv abandonReplay_inv gate_inv_def [of mj "gs_gate s"]
        intro!: flusherExit_inv split: flusher.splits if_splits)
qed

lemma gate_event_inv:
  assumes "gate_event mj e s = Some s'" "gate_inv mj (gs_gate s)"
  shows "gate_inv mj (gs_gate s')"
proof (cases e)
  case (EvGateSend c f h ctx)
  then show ?thesis
    using assms GateSend_inv [of mj "gs_gate s" c f h ctx]
    by (auto simp: ev_GateSend_def split: prod.splits gate_result.splits if_splits)
next
  case (EvFlusher ok)
  then show ?thesis using assms ev_Flusher_inv by auto
qed (use assms in \<open>auto simp: Pause_inv Resume_inv ResumeWithReplayInterval_inv ClearPausedBuffer_inv
    End_inv cleanup_inv sendOrCancel_def split: option.splits if_splits\<close>)

interpretation gate: invariant_machine "gate_event mj" init_sys "\<lambda>s. gate_inv mj (gs_gate s)"
  by unfold_locales (auto simp: init_sys_def newGate_inv gate_event_inv)

subsection \<open>Nothing is lost, and the order of delivery\<close>

text \<open>The chunk the flusher is sending; every chunk the gate still owes; the events that do not by
  themselves discard chunks.\<close>

definition flight :: "'c StreamGate \<Rightarrow> 'c chunk list" where
  "flight g = (case sg_flusher g of FSend c \<Rightarrow> [c] | FErr c \<Rightarrow> [c] | _ \<Rightarrow> [])"

definition producing :: "'c gate_sys \<Rightarrow> 'c chunk list" where
  "producing s = (case gs_producer s of None \<Rightarrow> [] | Some (c, ctx) \<Rightarrow> [c])"

definition flow :: "'c gate_sys \<Rightarrow> 'c chunk list" where
  "flow s = gs_received s @ producing s @ flight (gs_gate s) @ sg_gateReplayBuf (gs_gate s)"

definition overlap :: "'c gate_sys \<Rightarrow> bool" where
  "overlap s \<longleftrightarrow> gs_producer s \<noteq> None \<and> flight (gs_gate s) \<noteq> []"

definition lossless :: "'c gate_ev \<Rightarrow> bool" where
  "lossless e = (case e of EvClear \<Rightarrow> False | EvCleanup force \<Rightarrow> \<not> force | EvCancel \<Rightarrow> False
     | EvClose \<Rightarrow> False | _ \<Rightarrow> True)"

fun gate_run_orderly :: "'c marshal \<Rightarrow> 'c gate_ev list \<Rightarrow> 'c gate_sys \<Rightarrow> 'c gate_sys option" where
  "gate_run_orderly mj [] s = Some s"
| "gate_run_orderly mj (e # es) s = (case gate_event mj e s of
       None \<Rightarrow> None
     | Some s' \<Rightarrow> if overlap s' then None else gate_run_orderly mj es s')"

definition errFlight :: "'c StreamGate \<Rightarrow> 'c chunk list" where
  "errFlight g = (case sg_flusher g of FErr c \<Rightarrow> [c] | _ \<Rightarrow> [])"

lemmas flight_defs = flight_def errFlight_def

lemma cleanup_False_frame [simp]:
  "sg_gateReplayBuf (cleanupStreamAccumulator False g) = sg_gateReplayBuf g"
  "sg_flusher (cleanupStreamAccumulator False g) = sg_flusher g"
  "sg_gateState (cleanupStreamAccumulator False g) = sg_gateState g"
  "sg_gateEndError (cleanupStreamAccumulator False g) = sg_gateEndError g"
  by (auto simp: cleanupStreamAccumulator_def Let_def)

lemma flusherExit_frame [simp]:
  "sg_gateReplayBuf (flusherExit g) = sg_gateReplayBuf g"
  "sg_flusher (flusherExit g) = FOff"
  "sg_gateState (flusherExit g) = sg_gateState g"
  "sg_gateEndError (flusherExit g) = sg_gateEndError g"
  by (auto simp: flusherExit_def Let_def)

lemma flusherFinish_flight:
  "flight (flusherFinish g) @ sg_gateReplayBuf (flusherFinish g) =
     errFlight (flusherFinish g) @ sg_gateReplayBuf g"
  by (auto simp: flusherFinish_def flight_defs split: option.split)

lemma pendingTerminal_frame [simp]:
  "sg_gateReplayBuf (pendingTerminal g) = sg_gateReplayBuf g"
  by (simp add: pendingTerminal_def)

lemma drainReset_frame [simp]:
  "sg_gateReplayBuf (drainReset g) = sg_gateReplayBuf g"
  "sg_gateState (drainReset g) = sg_gateState g"
  "sg_gateEndError (drainReset g) = sg_gateEndError g"
  "sg_flusher (drainReset g) = sg_flusher g"
  by (simp_all add: drainReset_def)

lemma dequeueReplay_flight:
  assumes "sg_gateReplayBuf g \<noteq> []"
  shows "flight (dequeueReplay mj g) @ sg_gateReplayBuf (dequeueReplay mj g) = sg_gateReplayBuf g"
    "errFlight (dequeueReplay mj g) = []"
  using assms by (auto simp: dequeueReplay_def flight_defs Let_def)

lemma drainedGate_flight:
  assumes "sg_gateState g = StreamStatePaused \<or> sg_gateReplayBuf g = []"
  shows "flight (drainedGate g) @ sg_gateReplayBuf (drainedGate g) =
     sg_gateReplayBuf g @ errFlight (drainedGate g)"
  using assms flusherFinish_flight [of "pendingTerminal g"]
  by (auto simp: drainedGate_def Let_def flight_defs pendingTerminal_def split: if_splits)

lemma drainBufferLocked_flight:
  "flight (drainBufferLocked mj g) @ sg_gateReplayBuf (drainBufferLocked mj g) =
     sg_gateReplayBuf g @ errFlight (drainBufferLocked mj g)"
proof (cases "sg_gateState g \<noteq> StreamStatePaused \<and> sg_gateReplayBuf g \<noteq> []")
  case True
  then show ?thesis by (simp add: drainBufferLocked_eq dequeueReplay_flight)
next
  case False
  then show ?thesis using drainedGate_flight [of "drainReset g"] by (auto simp: drainBufferLocked_eq)
qed

lemma gateFlusher_flight:
  "flight (gateFlusher mj g) @ sg_gateReplayBuf (gateFlusher mj g) =
     sg_gateReplayBuf g @ errFlight (gateFlusher mj g)"
  using drainBufferLocked_flight [of mj g] by (simp add: gateFlusher.simps [of mj g] flight_defs)

lemma afterSend_flight:
  "flight (afterSend mj True g) @ sg_gateReplayBuf (afterSend mj True g) =
     sg_gateReplayBuf g @ errFlight (afterSend mj True g)"
  using drainBufferLocked_flight [of mj g] by (simp add: afterSend_def flight_defs)

text \<open>What one event adds to the chunks the gate took charge of, and where they are.\<close>

definition conserves :: "'c gate_sys \<Rightarrow> 'c gate_sys \<Rightarrow> bool" where
  "conserves s s' \<longleftrightarrow> (\<exists>fresh. gs_accepted s' = gs_accepted s @ fresh
     \<and> mset (flow s') = mset (flow s @ fresh)
     \<and> (\<not> overlap s \<and> \<not> overlap s' \<longrightarrow> flow s' = flow s @ fresh))
     \<and> gs_cancelled s' = gs_cancelled s \<and> gs_closed s' = gs_closed s"

lemma conservesI:
  "gs_accepted s' = gs_accepted s @ fresh \<Longrightarrow> mset (flow s') = mset (flow s @ fresh) \<Longrightarrow>
   (\<not> overlap s \<Longrightarrow> \<not> overlap s' \<Longrightarrow> flow s' = flow s @ fresh) \<Longrightarrow>
   gs_cancelled s' = gs_cancelled s \<Longrightarrow> gs_closed s' = gs_closed s \<Longrightarrow> conserves s s'"
  unfolding conserves_def by blast

lemma conserves_gate:
  assumes "sg_gateReplayBuf g = sg_gateReplayBuf (gs_gate s)" "flight g = flight (gs_gate s)"
  shows "conserves s (s\<lparr>gs_gate := g\<rparr>)"
  using assms by (intro conservesI [where fresh = "[]"]) (auto simp: flow_def producing_def)

lemma with_gate_simps [simp]:
  "gs_gate (with_gate s g) = g"
  "gs_received (with_gate s g) = gs_received s"
  "gs_producer (with_gate s g) = gs_producer s"
  "gs_accepted (with_gate s g) = gs_accepted s @ errFlight g"
  "gs_cancelled (with_gate s g) = gs_cancelled s"
  "gs_closed (with_gate s g) = gs_closed s"
  by (simp_all add: with_gate_def errFlight_def)

lemma conserves_flusher:
  assumes "flight g @ sg_gateReplayBuf g = sg_gateReplayBuf (gs_gate s) @ errFlight g"
  shows "conserves s (with_gate (s\<lparr>gs_received := gs_received s @ flight (gs_gate s)\<rparr>) g)"
proof (rule conservesI [where fresh = "errFlight g"])
  let ?s' = "with_gate (s\<lparr>gs_received := gs_received s @ flight (gs_gate s)\<rparr>) g"
  have f: "flow ?s' = gs_received s @ flight (gs_gate s) @ producing s @ sg_gateReplayBuf (gs_gate s) @ errFlight g"
    using assms by (simp add: flow_def producing_def)
  show "mset (flow ?s') = mset (flow s @ errFlight g)"
    unfolding f by (simp add: flow_def producing_def)
  show "\<not> overlap s \<Longrightarrow> flow ?s' = flow s @ errFlight g"
    unfolding f by (auto simp: flow_def producing_def overlap_def split: option.splits)
qed simp_all

lemma Broadcast_frame [simp]:
  "sg_gateReplayBuf (Broadcast g) = sg_gateReplayBuf g"
  "flight (Broadcast g) = flight g"
  "sg_gateState (Broadcast g) = sg_gateState g"
  "sg_gateEndError (Broadcast g) = sg_gateEndError g"
  "sg_gateFlusherOn (Broadcast g) = sg_gateFlusherOn g"
  by (auto simp: Broadcast_def flight_def)

lemma startFlusher_flight:
  "sg_gateFlusherOn g = (sg_flusher g \<noteq> FOff) \<Longrightarrow> \<not> sg_gateFlusherOn g \<Longrightarrow>
   flight (startFlusher g) = flight g"
  by (auto simp: startFlusher_def flight_def)

definition handled_effect :: "'c chunk \<Rightarrow> gate_result \<Rightarrow> 'c chunk list" where
  "handled_effect c r = (case r of Handled ok \<Rightarrow> if ok then [c] else [] | Passthrough \<Rightarrow> [])"

lemma gateSendPaused_effect:
  assumes "gateSendPaused mj c t g = (g', r)" "sg_gateFlusherOn g = (sg_flusher g \<noteq> FOff)"
  shows "sg_gateReplayBuf g' = sg_gateReplayBuf g @ handled_effect c r \<and> flight g' = flight g \<and> r \<noteq> Passthrough"
  using assms
  by (auto simp: gateSendPaused_def Let_def handled_effect_def appendReplay_def startFlusher_def
      Broadcast_def flight_def split: if_splits)

lemma gateSendActive_effect:
  assumes "gateSendActive mj c t g = (g', r)"
  shows "sg_gateReplayBuf g' = sg_gateReplayBuf g @ handled_effect c r \<and> flight g' = flight g
    \<and> (r = Passthrough \<longrightarrow> sg_gateReplayBuf g = [])"
  using assms
  by (auto simp: gateSendActive_def handled_effect_def appendReplay_def Broadcast_def flight_def
      split: if_splits)

lemma GateSend_effect:
  assumes "GateSend mj c f h ctx g = (g', r)" "gate_inv mj g"
  shows "sg_gateReplayBuf g' = sg_gateReplayBuf g @ handled_effect c r \<and> flight g' = flight g
    \<and> (r = Passthrough \<longrightarrow> sg_gateReplayBuf g = [])"
proof -
  let ?g = "captureTarget ctx g"
  have g: "sg_gateReplayBuf ?g = sg_gateReplayBuf g" "flight ?g = flight g"
    "sg_gateFlusherOn ?g = (sg_flusher ?g \<noteq> FOff)"
    using assms(2) by (auto simp: captureTarget_def flight_def gate_inv_def)
  show ?thesis
    using assms(1) g gateSendPaused_effect [of mj c "f \<or> h" ?g g' r]
      gateSendActive_effect [of mj c "f \<or> h" ?g g' r]
    by (cases "sg_gateState ?g") (auto simp: GateSend_def Let_def handled_effect_def)
qed

lemma ev_GateSend_conserves:
  assumes "ev_GateSend mj c f h ctx s = Some s'" "gate_inv mj (gs_gate s)"
  shows "conserves s s'"
proof -
  obtain g' r where gs: "GateSend mj c f h ctx (gs_gate s) = (g', r)" by force
  note eff = GateSend_effect [OF gs assms(2)]
  have p: "gs_producer s = None"
    using assms(1) by (cases "gs_producer s") (auto simp: ev_GateSend_def)
  show ?thesis
  proof (cases r)
    case (Handled ok)
    then have "s' = s\<lparr>gs_gate := g', gs_accepted := gs_accepted s @ handled_effect c r\<rparr>"
      using assms(1) gs p by (auto simp: ev_GateSend_def handled_effect_def)
    then show ?thesis
      using eff by (intro conservesI [where fresh = "handled_effect c r"]) (auto simp: flow_def producing_def)
  next
    case Passthrough
    then have s': "s' = s\<lparr>gs_gate := g', gs_producer := Some (c, ctx), gs_accepted := gs_accepted s @ [c]\<rparr>"
      using assms(1) gs p by (auto simp: ev_GateSend_def)
    show ?thesis
      using eff p Passthrough unfolding s'
      by (intro conservesI [where fresh = "[c]"])
        (auto simp: flow_def producing_def handled_effect_def overlap_def)
  qed
qed

lemma End_frame:
  assumes "gate_inv mj g"
  shows "sg_gateReplayBuf (End err g) = sg_gateReplayBuf g \<and> flight (End err g) = flight g"
  using assms
  by (auto simp: End_def Let_def startFlusher_def flight_def Broadcast_def gate_inv_def)

lemma ev_Flusher_conserves:
  assumes "ev_Flusher mj ok s = Some s'" "gate_inv mj (gs_gate s)" "\<not> gs_cancelled s" "\<not> gs_closed s"
  shows "conserves s s'"
proof -
  let ?g = "gs_gate s"
  have ok: "ok" using assms by (auto simp: ev_Flusher_def Let_def sendOrCancel_def split: flusher.splits if_splits)
  have idle: "flight ?g = [] \<Longrightarrow> s\<lparr>gs_received := gs_received s @ flight ?g\<rparr> = s" by simp
  show ?thesis
  proof (cases "sg_flusher ?g")
    case FReady
    then show ?thesis
      using assms ok conserves_flusher [of "gateFlusher mj ?g" s, OF gateFlusher_flight] idle
      by (auto simp: ev_Flusher_def Let_def flight_def)
  next
    case (FSend c)
    then show ?thesis
      using assms ok conserves_flusher [of "afterSend mj True ?g" s, OF afterSend_flight]
      by (auto simp: ev_Flusher_def Let_def sendOrCancel_def flight_def)
  next
    case FPace
    then show ?thesis
      using assms ok conserves_flusher [of "drainBufferLocked mj ?g" s, OF drainBufferLocked_flight] idle
      by (auto simp: ev_Flusher_def Let_def flight_def afterPace_def)
  next
    case (FErr c)
    have "conserves s (with_gate (s\<lparr>gs_received := gs_received s @ flight ?g\<rparr>) (flusherExit ?g))"
      using FErr assms(2) by (intro conserves_flusher) (auto simp: flight_defs gate_inv_def)
    then show ?thesis
      using FErr assms ok by (auto simp: ev_Flusher_def Let_def sendOrCancel_def flight_def)
  qed (use assms in \<open>auto simp: ev_Flusher_def\<close>)
qed

lemma gate_event_conserves:
  assumes "gate_event mj e s = Some s'" "gate_inv mj (gs_gate s)" "lossless e"
    "\<not> gs_cancelled s" "\<not> gs_closed s"
  shows "conserves s s'"
proof (cases e)
  case (EvGateSend c f h ctx)
  then show ?thesis using assms ev_GateSend_conserves by auto
next
  case (EvSent ok)
  then obtain c ctx where "gs_producer s = Some (c, ctx)"
    "s' = s\<lparr>gs_received := gs_received s @ [c], gs_producer := None\<rparr>"
    using assms by (auto simp: sendOrCancel_def split: option.splits if_splits)
  then show ?thesis
    by (intro conservesI [where fresh = "[]"]) (auto simp: flow_def producing_def)
next
  case (EvFlusher ok)
  then show ?thesis using assms ev_Flusher_conserves by auto
next
  case (EvEnd err)
  then show ?thesis using assms End_frame by (auto intro!: conserves_gate)
next
  case (EvCleanup force)
  then show ?thesis using assms by (auto intro!: conserves_gate simp: lossless_def flight_def)
qed (use assms in \<open>auto intro!: conserves_gate simp: lossless_def Pause_def Resume_def
    ResumeWithReplayInterval_def flight_def Broadcast_def\<close>)

lemma gate_run_conserves:
  assumes "gate_run mj es s = Some s'" "gate_inv mj (gs_gate s)" "list_all lossless es"
    "\<not> gs_cancelled s" "\<not> gs_closed s" "mset (flow s) = mset (gs_accepted s)"
  shows "mset (flow s') = mset (gs_accepted s')"
  using assms
proof (induction es arbitrary: s)
  case (Cons e es)
  then obtain s1 where s1: "gate_event mj e s = Some s1" "gate_run mj es s1 = Some s'"
    by (auto split: option.splits)
  have "conserves s s1" using gate_event_conserves [OF s1(1)] Cons.prems by simp
  then show ?case
    using Cons.IH [OF s1(2)] gate_event_inv [OF s1(1)] Cons.prems by (auto simp: conserves_def)
qed simp

lemma gate_run_orderly_conserves:
  assumes "gate_run_orderly mj es s = Some s'" "gate_inv mj (gs_gate s)" "list_all lossless es"
    "\<not> gs_cancelled s" "\<not> gs_closed s" "\<not> overlap s" "flow s = gs_accepted s"
  shows "flow s' = gs_accepted s'"
  using assms
proof (induction es arbitrary: s)
  case (Cons e es)
  then obtain s1 where s1: "gate_event mj e s = Some s1" "gate_run_orderly mj es s1 = Some s'" "\<not> overlap s1"
    by (auto split: option.splits if_splits)
  have "conserves s s1" using gate_event_conserves [OF s1(1)] Cons.prems by simp
  then show ?case
    using Cons.IH [OF s1(2)] gate_event_inv [OF s1(1)] Cons.prems s1(3) by (auto simp: conserves_def)
qed simp

subsection \<open>An ended gate drains\<close>

text \<open>What the flusher still has to deliver, and a bound on the sections it has left.\<close>

definition owed :: "'c StreamGate \<Rightarrow> 'c chunk list" where
  "owed g = (case sg_flusher g of
       FOff \<Rightarrow> []
     | FErr c \<Rightarrow> [c]
     | _ \<Rightarrow> flight g @ sg_gateReplayBuf g
          @ (case sg_gateEndError g of Some e \<Rightarrow> [Some (ErrorChunk e)] | None \<Rightarrow> []))"

definition flusherRank :: "'c StreamGate \<Rightarrow> nat" where
  "flusherRank g = (case sg_flusher g of
       FOff \<Rightarrow> 0
     | FErr c \<Rightarrow> 1
     | FSend c \<Rightarrow> 2 * length (sg_gateReplayBuf g) + 3
     | _ \<Rightarrow> 2 * length (sg_gateReplayBuf g) + 2)"

definition ended_sys :: "'c gate_sys \<Rightarrow> bool" where
  "ended_sys s \<longleftrightarrow> sg_gateState (gs_gate s) = StreamStateEnded \<and> gs_producer s = None
     \<and> \<not> gs_cancelled s \<and> \<not> gs_closed s"

definition is_flusher_event :: "'c gate_ev \<Rightarrow> bool" where
  "is_flusher_event e = (case e of EvFlusher ok \<Rightarrow> True | _ \<Rightarrow> False)"

definition interrupts :: "'c gate_ev \<Rightarrow> bool" where
  "interrupts e = (case e of EvCancel \<Rightarrow> True | EvClose \<Rightarrow> True | _ \<Rightarrow> False)"

lemma flusherFinish_ended:
  assumes "sg_gateReplayBuf g = []"
  shows "owed (flusherFinish g) = (case sg_gateEndError g of Some e \<Rightarrow> [Some (ErrorChunk e)] | None \<Rightarrow> [])"
    "flusherRank (flusherFinish g) \<le> 1"
    "sg_gateState (flusherFinish g) = sg_gateState g"
  by (auto simp: flusherFinish_def owed_def flusherRank_def split: option.split)

definition endErrorChunk :: "'c StreamGate \<Rightarrow> 'c chunk list" where
  "endErrorChunk g = (case sg_gateEndError g of Some e \<Rightarrow> [Some (ErrorChunk e)] | None \<Rightarrow> [])"

lemma drain_ended:
  assumes "sg_gateState g = StreamStateEnded"
  shows "owed (drainBufferLocked mj g) = sg_gateReplayBuf g @ endErrorChunk g
    \<and> flusherRank (drainBufferLocked mj g) < 2 * length (sg_gateReplayBuf g) + 2
    \<and> sg_gateState (drainBufferLocked mj g) = StreamStateEnded"
proof (cases "sg_gateReplayBuf g")
  case Nil
  then show ?thesis
    using assms flusherFinish_ended [of "drainReset g"]
    by (simp add: drainBufferLocked_eq drainedGate_def pendingTerminal_def Let_def endErrorChunk_def)
next
  case (Cons c cs)
  then show ?thesis
    using assms
    by (simp add: drainBufferLocked_eq dequeueReplay_def Let_def owed_def flusherRank_def
        flight_def endErrorChunk_def split: option.split)
qed

lemma ev_Flusher_ended:
  assumes "ev_Flusher mj ok s = Some s'" "ended_sys s" "gate_inv mj (gs_gate s)"
  shows "ended_sys s' \<and> flusherRank (gs_gate s') < flusherRank (gs_gate s)
    \<and> gs_received s' @ owed (gs_gate s') = gs_received s @ owed (gs_gate s)"
proof -
  let ?g = "gs_gate s"
  have ok: "ok"
    using assms by (auto simp: ended_sys_def ev_Flusher_def Let_def sendOrCancel_def split: flusher.splits if_splits)
  have e: "sg_gateState ?g = StreamStateEnded" "gs_producer s = None" "\<not> gs_cancelled s" "\<not> gs_closed s"
    using assms(2) by (auto simp: ended_sys_def)
  note d = drain_ended [OF e(1), of mj]
  have g: "gateFlusher mj ?g = drainBufferLocked mj ?g"
    using e(1) by (simp add: gateFlusher.simps [of mj ?g] flusherWaits_def)
  show ?thesis
  proof (cases "sg_flusher ?g")
    case FReady
    then show ?thesis
      using assms(1) ok e d g
      by (auto simp: ev_Flusher_def Let_def ended_sys_def owed_def [of ?g] endErrorChunk_def flusherRank_def [of ?g] flight_def)
  next
    case (FSend c)
    show ?thesis
    proof (cases "sg_gateReplayBuf ?g \<noteq> [] \<and> sg_gateReplayEventInterval ?g > 0")
      case True
      then show ?thesis
        using FSend assms(1) ok e
        by (auto simp: ev_Flusher_def Let_def ended_sys_def owed_def flusherRank_def flight_def
            sendOrCancel_def afterSend_def)
    next
      case False
      then have "afterSend mj True ?g = drainBufferLocked mj ?g" by (auto simp: afterSend_def)
      then show ?thesis
        using FSend assms(1) ok e d
        by (auto simp: ev_Flusher_def Let_def ended_sys_def owed_def [of ?g] endErrorChunk_def flusherRank_def [of ?g] flight_def
            sendOrCancel_def)
    qed
  next
    case FPace
    then show ?thesis
      using assms(1) ok e d
      by (auto simp: ev_Flusher_def Let_def ended_sys_def owed_def [of ?g] endErrorChunk_def flusherRank_def [of ?g] flight_def
          afterPace_def)
  next
    case (FErr c)
    then show ?thesis
      using assms(1) ok e
      by (auto simp: ev_Flusher_def Let_def ended_sys_def owed_def flusherRank_def sendOrCancel_def)
  qed (use assms in \<open>auto simp: ev_Flusher_def\<close>)
qed

lemma owed_cong:
  assumes "sg_flusher g' = sg_flusher g" "sg_gateReplayBuf g' = sg_gateReplayBuf g"
    "sg_gateEndError g' = sg_gateEndError g"
  shows "owed g' = owed g" "flusherRank g' = flusherRank g"
  using assms by (auto simp: owed_def flusherRank_def flight_def split: flusher.split)

lemma other_event_ended:
  assumes "gate_event mj e s = Some s'" "ended_sys s" "\<not> is_flusher_event e" "\<not> interrupts e"
  shows "ended_sys s' \<and> flusherRank (gs_gate s') = flusherRank (gs_gate s)
    \<and> owed (gs_gate s') = owed (gs_gate s) \<and> gs_received s' = gs_received s"
proof -
  let ?g = "gs_gate s" and ?g' = "gs_gate s'"
  have "ended_sys s' \<and> sg_flusher ?g' = sg_flusher ?g \<and> sg_gateReplayBuf ?g' = sg_gateReplayBuf ?g
    \<and> sg_gateEndError ?g' = sg_gateEndError ?g \<and> gs_received s' = gs_received s"
  proof (cases e)
    case (EvCleanup force)
    then show ?thesis
      using assms by (auto simp: ended_sys_def cleanupStreamAccumulator_def Let_def)
  qed (use assms in \<open>auto simp: ended_sys_def is_flusher_event_def interrupts_def ev_GateSend_def
      GateSend_def captureTarget_def Let_def Pause_def Resume_def ResumeWithReplayInterval_def
      ClearPausedBuffer_def End_def\<close>)
  then show ?thesis using owed_cong by blast
qed

lemma gate_run_ended:
  assumes "gate_run mj es s = Some s'" "ended_sys s" "gate_inv mj (gs_gate s)" "list_all (\<lambda>e. \<not> interrupts e) es"
  shows "ended_sys s' \<and> length (filter is_flusher_event es) + flusherRank (gs_gate s') \<le> flusherRank (gs_gate s)
    \<and> gs_received s' @ owed (gs_gate s') = gs_received s @ owed (gs_gate s) \<and> gate_inv mj (gs_gate s')"
  using assms
proof (induction es arbitrary: s)
  case (Cons e es)
  then obtain s1 where s1: "gate_event mj e s = Some s1" "gate_run mj es s1 = Some s'"
    by (auto split: option.splits)
  have inv: "gate_inv mj (gs_gate s1)" using gate_event_inv [OF s1(1)] Cons.prems by simp
  show ?case
  proof (cases e)
    case (EvFlusher ok)
    then show ?thesis
      using ev_Flusher_ended [of mj ok s s1] Cons.IH [OF s1(2) _ inv] Cons.prems s1(1)
      by (auto simp: is_flusher_event_def)
  qed (use other_event_ended [OF s1(1)] Cons.IH [OF s1(2) _ inv] Cons.prems in
      \<open>auto simp: is_flusher_event_def\<close>)
qed simp

lemma flusher_enabled:
  assumes "ended_sys s" "gate_inv mj (gs_gate s)" "sg_flusher (gs_gate s) \<noteq> FOff"
  shows "\<exists>s'. gate_event mj (EvFlusher True) s = Some s'"
  using assms
  by (cases "sg_flusher (gs_gate s)")
    (auto simp: ev_Flusher_def Let_def sendOrCancel_def ended_sys_def gate_inv_def flusherWaits_def)

text \<open>The flusher of an ended gate as a draining machine: \<open>cs\<close> is what the consumer has and is owed.\<close>

interpretation flushing: draining_machine "gate_event mj" "\<lambda>_. EvFlusher True"
  "\<lambda>s. ended_sys s \<and> gate_inv mj (gs_gate s) \<and> gs_received s @ owed (gs_gate s) = cs"
  "\<lambda>s. flusherRank (gs_gate s)" "\<lambda>s. sg_flusher (gs_gate s) = FOff" for mj cs
proof unfold_locales
  fix s :: "'a gate_sys" and s'
  assume "ended_sys s \<and> gate_inv mj (gs_gate s) \<and> gs_received s @ owed (gs_gate s) = cs"
    "gate_event mj (EvFlusher True) s = Some s'"
  then show "(ended_sys s' \<and> gate_inv mj (gs_gate s') \<and> gs_received s' @ owed (gs_gate s') = cs)
      \<and> flusherRank (gs_gate s') < flusherRank (gs_gate s)"
    using ev_Flusher_ended [of mj True s s'] gate_event_inv [of mj "EvFlusher True" s s'] by auto
qed (use flusher_enabled in blast)

lemma flusher_drains:
  assumes "ended_sys s" "gate_inv mj (gs_gate s)"
  shows "\<exists>n s'. n \<le> flusherRank (gs_gate s) \<and> gate_run mj (replicate n (EvFlusher True)) s = Some s'
    \<and> sg_flusher (gs_gate s') = FOff \<and> gs_received s' = gs_received s @ owed (gs_gate s)"
proof -
  obtain es s' where es: "length es \<le> flusherRank (gs_gate s)" "set es \<subseteq> {EvFlusher True}"
    "gate_run mj es s = Some s'" "sg_flusher (gs_gate s') = FOff"
    "gs_received s' @ owed (gs_gate s') = gs_received s @ owed (gs_gate s)"
    using flushing.drains [of s mj "gs_received s @ owed (gs_gate s)"] assms by auto
  then have "es = replicate (length es) (EvFlusher True)" by (intro replicate_eqI) auto
  then show ?thesis using es by (intro exI [of _ "length es"] exI [of _ s']) (simp add: owed_def [of "gs_gate s'"])
qed

subsection \<open>Properties\<close>

lemma init_sys_simps [simp]:
  "gs_gate init_sys = newGate" "gs_producer init_sys = None" "\<not> gs_cancelled init_sys"
  "\<not> gs_closed init_sys" "flow init_sys = []" "gs_accepted init_sys = []" "\<not> overlap init_sys"
  by (simp_all add: init_sys_def flow_def producing_def overlap_def newGate_def flight_def)

text \<open>C13. In every interleaving the flusher flag tells whether a flusher runs, a non-empty replay
  buffer always has a flusher, the byte counter is the size of the buffer, a flusher that parks
  has nothing to do (no wake-up is lost), and the terminal error is sent on an ended, empty gate.\<close>

theorem gate_invariant:
  assumes "gate_reach mj s"
  shows "gate_inv mj (gs_gate s)"
  using assms by (rule gate.reachable_safe)

theorem gate_invariant_witness:
  "\<exists>s :: nat gate_sys. gate_run (\<lambda>_. Some 1) [EvPause, EvGateSend (Some (ResponseChunk 1)) False False True,
       EvFlusher True] init_sys = Some s
     \<and> sg_flusher (gs_gate s) = FParked \<and> gate_inv (\<lambda>_. Some 1) (gs_gate s)"
proof -
  let ?mj = "\<lambda>_. Some 1" and ?es = "[EvPause, EvGateSend (Some (ResponseChunk (1 :: nat))) False False True, EvFlusher True]"
  have "map_option (\<lambda>s. sg_flusher (gs_gate s) = FParked) (gate_run ?mj ?es init_sys) = Some True"
    by code_simp
  then obtain s where s: "gate_run ?mj ?es init_sys = Some s" "sg_flusher (gs_gate s) = FParked" by auto
  show ?thesis
    using s gate_invariant [OF run_events_reachable [OF s(1) reachable.start]] by blast
qed

text \<open>C9. As long as nobody cancels the request, closes the channel, clears the paused buffer or
  reaps the stream, every chunk the gate took charge of is delivered, being sent or buffered,
  exactly once, in every interleaving of the provider, the plugins and the flusher.\<close>

theorem gate_conserves_chunks:
  assumes "gate_run mj es init_sys = Some s" "list_all lossless es"
  shows "mset (gs_accepted s) = mset (gs_received s) + mset (producing s)
     + mset (flight (gs_gate s)) + mset (sg_gateReplayBuf (gs_gate s))"
  using gate_run_conserves [OF assms(1) _ assms(2)] by (simp add: newGate_inv flow_def [of s] ac_simps)

theorem gate_conserves_chunks_witness:
  "\<exists>s :: nat gate_sys. gate_run (\<lambda>_. Some 1) [EvGateSend (Some (ResponseChunk 1)) False False True, EvSent True,
       EvPause, EvGateSend (Some (ResponseChunk 2)) True False True, EvEnd (Some zeroError)] init_sys = Some s
     \<and> mset (gs_accepted s) = mset (gs_received s) + mset (producing s)
       + mset (flight (gs_gate s)) + mset (sg_gateReplayBuf (gs_gate s))
     \<and> length (gs_accepted s) = 2"
proof -
  let ?mj = "\<lambda>_. Some 1" and ?es = "[EvGateSend (Some (ResponseChunk (1 :: nat))) False False True, EvSent True,
       EvPause, EvGateSend (Some (ResponseChunk 2)) True False True, EvEnd (Some zeroError)]"
  have "map_option (\<lambda>s. length (gs_accepted s) = 2) (gate_run ?mj ?es init_sys) = Some True"
    by code_simp
  then obtain s where s: "gate_run ?mj ?es init_sys = Some s" "length (gs_accepted s) = 2" by auto
  show ?thesis
    using s gate_conserves_chunks [OF s(1)] by (simp add: lossless_def)
qed

text \<open>C29. When moreover no direct send overlaps one of the flusher's, the consumer sees the chunks in
  the order in which the gate took charge of them: what was received, then what is being sent, then
  the buffer.\<close>

theorem gate_delivers_in_order:
  assumes "gate_run_orderly mj es init_sys = Some s" "list_all lossless es"
  shows "gs_accepted s = gs_received s @ producing s @ flight (gs_gate s) @ sg_gateReplayBuf (gs_gate s)"
  using gate_run_orderly_conserves [OF assms(1) _ assms(2)] by (simp add: newGate_inv flow_def [of s])

theorem gate_delivers_in_order_witness:
  "\<exists>s :: nat gate_sys. gate_run_orderly (\<lambda>_. Some 1) [EvPause, EvGateSend (Some (ResponseChunk 1)) False False True,
       EvGateSend (Some (ResponseChunk 2)) False False True, EvResume, EvFlusher True,
       EvGateSend (Some (ResponseChunk 3)) True False True, EvFlusher True] init_sys = Some s
     \<and> gs_accepted s = gs_received s @ producing s @ flight (gs_gate s) @ sg_gateReplayBuf (gs_gate s)
     \<and> gs_received s = [Some (ResponseChunk 1)]"
proof -
  let ?mj = "\<lambda>_. Some 1" and ?es = "[EvPause, EvGateSend (Some (ResponseChunk (1 :: nat))) False False True,
       EvGateSend (Some (ResponseChunk 2)) False False True, EvResume, EvFlusher True,
       EvGateSend (Some (ResponseChunk 3)) True False True, EvFlusher True]"
  have "map_option (\<lambda>s. gs_received s = [Some (ResponseChunk 1)]) (gate_run_orderly ?mj ?es init_sys) = Some True"
    by code_simp
  then obtain s where s: "gate_run_orderly ?mj ?es init_sys = Some s" "gs_received s = [Some (ResponseChunk 1)]" by auto
  show ?thesis
    using s gate_delivers_in_order [OF s(1)] by (simp add: lossless_def)
qed

text \<open>The overlap happens, and reorders the stream: the flusher has taken the last buffered chunk
  and is sending it with the lock released, the buffer is empty, and the next live chunk of the
  provider is passed straight through and arrives first. (For a terminal chunk \<open>GateSend\<close> tests
  \<open>gateFlusherOn\<close> as well; for a live one it tests the buffer alone.)\<close>

theorem live_chunk_overtakes_replay:
  "map_option (\<lambda>s :: nat gate_sys. (gs_accepted s, gs_received s))
     (gate_run (\<lambda>_. Some 1) [EvPause, EvGateSend (Some (ResponseChunk 1)) False False True, EvResume,
        EvFlusher True, EvGateSend (Some (ResponseChunk 2)) False False True, EvSent True, EvFlusher True]
        init_sys)
   = Some ([Some (ResponseChunk 1), Some (ResponseChunk 2)], [Some (ResponseChunk 2), Some (ResponseChunk 1)])"
  by code_simp



lemma gateSendPaused_overflow:
  assumes "gate_inv mj g" "sg_gateFlusherCh g" "sg_gateState g = StreamStatePaused"
    "sg_gateReplayBufBytes g + chunkBytes mj c > gateReplayBufMaxBytes"
  shows "\<exists>g'. gateSendPaused mj c t g = (g', Handled False) \<and> sg_gateState g' = StreamStateEnded
     \<and> owed g' = flight g @ sg_gateReplayBuf g @ [Some (ErrorChunk overflowError)]"
  using assms
  by (cases "sg_flusher g")
    (auto simp: gateSendPaused_def Let_def gate_inv_def owed_def flight_def Broadcast_def startFlusher_def)

text \<open>C30. Overflow of the replay buffer: a chunk that would take a paused buffer beyond 100 MB is
  refused and dropped, the gate ends, and the consumer gets everything held so far followed by the
  overflow error, whatever was running before.\<close>

theorem overflow_ends_stream:
  assumes "gate_reach mj s" "sg_gateState (gs_gate s) = StreamStatePaused" "gs_producer s = None"
    "\<not> gs_cancelled s" "\<not> gs_closed s"
    "sg_gateReplayBufBytes (gs_gate s) + chunkBytes mj c > gateReplayBufMaxBytes"
  shows "\<exists>s1 n s'. gate_event mj (EvGateSend c isFinal isHardErr ctx) s = Some s1
     \<and> gs_accepted s1 = gs_accepted s \<and> sg_gateState (gs_gate s1) = StreamStateEnded
     \<and> gate_run mj (replicate n (EvFlusher True)) s1 = Some s' \<and> sg_flusher (gs_gate s') = FOff
     \<and> gs_received s' = gs_received s @ flight (gs_gate s) @ sg_gateReplayBuf (gs_gate s)
         @ [Some (ErrorChunk overflowError)]"
proof -
  let ?g = "captureTarget ctx (gs_gate s)"
  have inv: "gate_inv mj (gs_gate s)" using assms(1) by (rule gate.reachable_safe)
  have g: "sg_gateFlusherCh ?g" "sg_gateState ?g = StreamStatePaused" "flight ?g = flight (gs_gate s)"
    "sg_gateReplayBuf ?g = sg_gateReplayBuf (gs_gate s)"
    "sg_gateReplayBufBytes ?g = sg_gateReplayBufBytes (gs_gate s)"
    using assms(2) by (simp_all add: captureTarget_def flight_def)
  obtain g' where g': "gateSendPaused mj c (isFinal \<or> isHardErr) ?g = (g', Handled False)"
    "sg_gateState g' = StreamStateEnded"
    "owed g' = flight (gs_gate s) @ sg_gateReplayBuf (gs_gate s) @ [Some (ErrorChunk overflowError)]"
    using gateSendPaused_overflow [OF captureTarget_inv [OF inv] g(1,2), of c "isFinal \<or> isHardErr"] g assms(6)
    by auto
  let ?s1 = "s\<lparr>gs_gate := g'\<rparr>"
  have s1: "gate_event mj (EvGateSend c isFinal isHardErr ctx) s = Some ?s1"
    using assms(3) g(2) g'(1) by (simp add: ev_GateSend_def GateSend_def Let_def)
  moreover have "ended_sys ?s1" using assms g'(2) by (simp add: ended_sys_def)
  moreover have "gate_inv mj (gs_gate ?s1)" using gate_event_inv [OF s1 inv] .
  ultimately show ?thesis
    using flusher_drains [of ?s1 mj] g' by (intro exI [of _ ?s1]) auto
qed

theorem overflow_ends_stream_witness:
  "\<exists>(s :: nat gate_sys) s1 n s'. gate_run (\<lambda>_. Some 104857601) [EvPause] init_sys = Some s
     \<and> gate_event (\<lambda>_. Some 104857601) (EvGateSend (Some (ResponseChunk 1)) False False True) s = Some s1
     \<and> gs_accepted s1 = gs_accepted s \<and> sg_gateState (gs_gate s1) = StreamStateEnded
     \<and> gate_run (\<lambda>_. Some 104857601) (replicate n (EvFlusher True)) s1 = Some s' \<and> sg_flusher (gs_gate s') = FOff
     \<and> gs_received s' = [Some (ErrorChunk overflowError)]"
proof -
  let ?s = "init_sys\<lparr>gs_gate := Pause newGate\<rparr> :: nat gate_sys"
  have s: "gate_run (\<lambda>_. Some 104857601) [EvPause] init_sys = Some ?s" by simp
  show ?thesis
    using overflow_ends_stream [OF run_events_reachable [OF s reachable.start], of "Some (ResponseChunk 1)" False False True] s
    by (auto simp: Pause_def newGate_def init_sys_def chunkBytes_def gateReplayBufMaxBytes_def flight_def)
qed

definition is_cleanup :: "'c gate_ev \<Rightarrow> bool" where
  "is_cleanup e = (case e of EvCleanup force \<Rightarrow> True | _ \<Rightarrow> False)"

definition idle_ended :: "'c gate_sys \<Rightarrow> bool" where
  "idle_ended s \<longleftrightarrow> sg_gateState (gs_gate s) = StreamStateEnded \<and> sg_flusher (gs_gate s) = FOff
     \<and> sg_registered (gs_gate s) \<and> sg_gatePendingCleanup (gs_gate s)"

lemma idle_ended_stays:
  assumes "gate_run mj es s = Some s'" "idle_ended s" "list_all (\<lambda>e. \<not> is_cleanup e) es"
  shows "idle_ended s'"
  using assms
proof (induction es arbitrary: s)
  case (Cons e es)
  then obtain s1 where s1: "gate_event mj e s = Some s1" "gate_run mj es s1 = Some s'"
    by (auto split: option.splits)
  have "idle_ended s1"
    using s1(1) Cons.prems
    by (cases e) (auto simp: idle_ended_def is_cleanup_def ev_GateSend_def GateSend_def captureTarget_def
        Let_def Pause_def Resume_def ResumeWithReplayInterval_def ClearPausedBuffer_def End_def
        ev_Flusher_def sendOrCancel_def split: if_splits option.splits)
  then show ?case using Cons.IH [OF s1(2)] Cons.prems by simp
qed simp

text \<open>A cleanup deferred because the gate is paused is lost when no chunk was buffered: no flusher
  is running whose exit would run it, ending the stream starts none, and whatever happens
  afterwards the accumulator stays registered until somebody asks for a cleanup again.\<close>

theorem deferred_cleanup_lost:
  assumes "gate_run mj ([EvPause, EvCleanup False, EvResume, EvEnd None] @ es) init_sys = Some s"
    "list_all (\<lambda>e. \<not> is_cleanup e) es"
  shows "sg_gatePendingCleanup (gs_gate s) \<and> sg_registered (gs_gate s) \<and> \<not> sg_gateFlusherOn (gs_gate s)"
proof -
  obtain s1 where s1: "gate_run mj [EvPause, EvCleanup False, EvResume, EvEnd None] init_sys = Some s1"
    "gate_run mj es s1 = Some s" "idle_ended s1"
    using assms(1)
    by (auto simp: Pause_def newGate_def init_sys_def cleanupStreamAccumulator_def Resume_def End_def
        Let_def Broadcast_def idle_ended_def)
  have "gate_inv mj (gs_gate s)" using gate.run_safe [OF assms(1)] by (simp add: newGate_inv)
  then show ?thesis
    using idle_ended_stays [OF s1(2,3) assms(2)] by (auto simp: idle_ended_def gate_inv_def)
qed

theorem deferred_cleanup_lost_witness:
  "\<exists>s :: nat gate_sys. gate_run (\<lambda>_. Some 1) ([EvPause, EvCleanup False, EvResume, EvEnd None]
       @ [EvGateSend (Some (ResponseChunk 1)) True False True]) init_sys = Some s
     \<and> sg_gatePendingCleanup (gs_gate s) \<and> sg_registered (gs_gate s) \<and> \<not> sg_gateFlusherOn (gs_gate s)"
proof -
  let ?mj = "\<lambda>_. Some 1" and ?es = "[EvGateSend (Some (ResponseChunk (1 :: nat))) True False True]"
  have "map_option (\<lambda>s. True) (gate_run ?mj ([EvPause, EvCleanup False, EvResume, EvEnd None] @ ?es) init_sys) = Some True"
    by code_simp
  then obtain s where s: "gate_run ?mj ([EvPause, EvCleanup False, EvResume, EvEnd None] @ ?es) init_sys = Some s" by auto
  show ?thesis using s deferred_cleanup_lost [OF s] by (simp add: is_cleanup_def)
qed

end
