(* ===== verification/Go_Time.thy ===== *)
theory Go_Time
  imports Prelude "HOL-Library.Signed_Division"
begin

text \<open>
  What the governance code uses of Go's \<open>time\<close> package, and the theory of reset grids.

  \<^item> An \<^typ>\<open>instant\<close> is in nanoseconds since the Unix epoch, in UTC. The zero \<open>time.Time\<close> is the
    start of 1 January of year 1. \<open>Sub\<close> saturates at the ends of \<open>time.Duration\<close>.
  \<^item> \<open>time.ParseDuration\<close> with its grammar, its overflow checks and its fractions; a fraction of
    a unit is rounded down exactly, where Go computes it in \<open>float64\<close>.
  \<^item> The proleptic Gregorian calendar: \<open>Year\<close>, \<open>Month\<close>, \<open>Day\<close>, \<open>Weekday\<close>, \<open>AddDate\<close> on days
    and \<open>Date\<close> with the normalisation of months, computed from the day number as the library does.
  \<^item> A grid is a strictly increasing sequence of boundaries together with the index of the last
    boundary at or before an instant. The locale \<open>period_grid\<close> gives what every reset schedule
    needs: the boundary found is the latest one, finding it again changes nothing, and the number
    of boundaries in an interval is the difference of the indices. It is interpreted on days,
    weeks, months, fiscal quarters, years and rolling windows.
\<close>

subsection \<open>Instants and durations\<close>

abbreviation day_ns :: duration where
  "day_ns \<equiv> 86400000000000"

definition max_duration :: duration where
  "max_duration = 2 ^ 63 - 1"

definition time_Sub :: "instant \<Rightarrow> instant \<Rightarrow> duration" where
  "time_Sub t u = max (- (2 ^ 63)) (min max_duration (t - u))"

lemma time_Sub_exact: "\<bar>t - u\<bar> < 2 ^ 63 \<Longrightarrow> time_Sub t u = t - u"
  by (auto simp: time_Sub_def max_duration_def)

definition zeroTime :: instant where
  "zeroTime = - 719162 * day_ns"

definition IsZero :: "instant \<Rightarrow> bool" where
  "IsZero t \<longleftrightarrow> t = zeroTime"

subsection \<open>time.ParseDuration\<close>

definition is_digit :: "char \<Rightarrow> bool" where
  "is_digit c \<longleftrightarrow> 48 \<le> (of_char c :: nat) \<and> (of_char c :: nat) \<le> 57"

definition digit_val :: "char \<Rightarrow> int" where
  "digit_val c = of_char c - 48"

fun leadingInt :: "int \<Rightarrow> string \<Rightarrow> (int \<times> string) option" where
  "leadingInt x [] = Some (x, [])"
| "leadingInt x (c # s) =
     (if \<not> is_digit c then Some (x, c # s)
      else if x > 2 ^ 63 div 10 then None
      else let x' = x * 10 + digit_val c in if x' > 2 ^ 63 then None else leadingInt x' s)"

fun leadingFraction :: "bool \<Rightarrow> int \<Rightarrow> int \<Rightarrow> string \<Rightarrow> int \<times> int \<times> string" where
  "leadingFraction overflow x scale [] = (x, scale, [])"
| "leadingFraction overflow x scale (c # s) =
     (if \<not> is_digit c then (x, scale, c # s)
      else if overflow \<or> x > (2 ^ 63 - 1) div 10 then leadingFraction True x scale s
      else let y = x * 10 + digit_val c in
           if y > 2 ^ 63 then leadingFraction True x scale s
           else leadingFraction False y (scale * 10) s)"

definition is_unit_char :: "char \<Rightarrow> bool" where
  "is_unit_char c \<longleftrightarrow> c \<noteq> CHR ''.'' \<and> \<not> is_digit c"

definition unitMap :: "string \<rightharpoonup> int" where
  "unitMap = map_of [(''ns'', 1), (''us'', 10 ^ 3), ([CHR 0xC2, CHR 0xB5, CHR ''s''], 10 ^ 3),
     ([CHR 0xCE, CHR 0xBC, CHR ''s''], 10 ^ 3), (''ms'', 10 ^ 6), (''s'', 10 ^ 9),
     (''m'', 60 * 10 ^ 9), (''h'', 3600 * 10 ^ 9)]"

text \<open>One number with its unit, and the rest of the input.\<close>

definition fraction_part :: "string \<Rightarrow> int \<times> int \<times> bool \<times> string" where
  "fraction_part s = (case s of
       [] \<Rightarrow> (0, 1, False, s)
     | c # s' \<Rightarrow> if c = CHR ''.''
         then (case leadingFraction False 0 1 s' of (f, scale, s'') \<Rightarrow> (f, scale, length s'' \<noteq> length s', s''))
         else (0, 1, False, s))"

definition parse_elem :: "string \<Rightarrow> (int \<times> string) option" where
  "parse_elem s = (case leadingInt 0 s of
       None \<Rightarrow> None
     | Some (v, s1) \<Rightarrow> (case fraction_part s1 of (f, scale, post, s2) \<Rightarrow>
         if length s1 = length s \<and> \<not> post then None
         else let u = takeWhile is_unit_char s2; s3 = dropWhile is_unit_char s2 in
           if u = [] then None
           else (case unitMap u of
               None \<Rightarrow> None
             | Some unit \<Rightarrow>
                 if v > 2 ^ 63 div unit then None
                 else let v = v * unit + f * unit div scale in
                   if v > 2 ^ 63 then None else Some (v, s3))))"

lemma leadingInt_length: "leadingInt x s = Some (v, s') \<Longrightarrow> length s' \<le> length s"
  by (induction x s rule: leadingInt.induct) (auto simp: Let_def split: if_splits)

lemma leadingFraction_length: "leadingFraction b x sc s = (f, sc', s') \<Longrightarrow> length s' \<le> length s"
  by (induction b x sc s rule: leadingFraction.induct) (auto simp: Let_def split: if_splits)

lemma fraction_part_length: "fraction_part s = (f, sc, post, s') \<Longrightarrow> length s' \<le> length s"
  by (auto simp: fraction_part_def split: list.splits prod.splits if_splits dest!: leadingFraction_length)

lemma parse_elem_length:
  assumes "parse_elem s = Some (v, s')"
  shows "length s' < length s"
proof -
  obtain v1 s1 where 1: "leadingInt 0 s = Some (v1, s1)"
    using assms by (auto simp: parse_elem_def split: option.splits)
  obtain f sc post s2 where 2: "fraction_part s1 = (f, sc, post, s2)" by (metis prod_cases4)
  have u: "takeWhile is_unit_char s2 \<noteq> []" and s': "s' = dropWhile is_unit_char s2"
    using assms 1 2 by (auto simp: parse_elem_def Let_def split: if_splits option.splits)
  have "length (takeWhile is_unit_char s2) + length s' = length s2"
    unfolding s' by (metis length_append takeWhile_dropWhile_id)
  moreover have "0 < length (takeWhile is_unit_char s2)" using u by simp
  moreover have "length s2 \<le> length s1" using fraction_part_length [OF 2] .
  moreover have "length s1 \<le> length s" using leadingInt_length [OF 1] .
  ultimately show ?thesis by linarith
qed

function parse_elems :: "int \<Rightarrow> string \<Rightarrow> int option" where
  "parse_elems d s =
     (if s = [] then Some d
      else case parse_elem s of
          None \<Rightarrow> None
        | Some (v, s') \<Rightarrow> if d + v > 2 ^ 63 then None else parse_elems (d + v) s')"
  by pat_completeness auto
termination
  by (relation "measure (\<lambda>(d, s). length s)") (auto dest: parse_elem_length)

declare parse_elems.simps [simp del]

definition time_ParseDuration :: "string \<Rightarrow> duration option" where
  "time_ParseDuration orig =
     (let neg = (orig \<noteq> [] \<and> hd orig = CHR ''-'');
          s = (if orig \<noteq> [] \<and> (hd orig = CHR ''-'' \<or> hd orig = CHR ''+'') then tl orig else orig)
      in if s = ''0'' then Some 0
         else if s = '''' then None
         else case parse_elems 0 s of
             None \<Rightarrow> None
           | Some d \<Rightarrow> if neg then Some (- d)
                       else if d > max_duration then None else Some d)"

subsection \<open>Grids of boundaries\<close>

locale period_grid =
  fixes start :: "int \<Rightarrow> int"
    and index :: "int \<Rightarrow> int"
  assumes step: "start k < start (k + 1)"
    and below: "start (index t) \<le> t"
    and above: "t < start (index t + 1)"
begin

lemma start_less: "k < l \<Longrightarrow> start k < start l"
proof (induction l rule: int_gr_induct)
  case base
  then show ?case using step .
next
  case (step i)
  then show ?case using period_grid.step [OF period_grid_axioms, of i] by linarith
qed

lemma start_less_iff: "start k < start l \<longleftrightarrow> k < l"
  by (metis less_irrefl less_trans linorder_neqE start_less)

lemma start_le_iff: "start k \<le> start l \<longleftrightarrow> k \<le> l"
  using start_less_iff by (meson not_le)

lemma start_le_index: "start k \<le> t \<longleftrightarrow> k \<le> index t"
proof
  assume "start k \<le> t"
  then have "start k < start (index t + 1)" using above [of t] by linarith
  then show "k \<le> index t" by (simp add: start_less_iff)
next
  assume "k \<le> index t"
  then have "start k \<le> start (index t)" by (simp add: start_le_iff)
  then show "start k \<le> t" using below [of t] by linarith
qed

lemma index_start: "index (start k) = k"
  by (metis above below start_le_iff start_less_iff order.antisym zle_iff_zadd zless_add1_eq not_le
      linorder_neqE less_le)

lemma start_idem: "start (index (start (index t))) = start (index t)"
  by (simp add: index_start)

lemma index_mono: "t \<le> u \<Longrightarrow> index t \<le> index u"
  using below [of t] start_le_index [of "index t" u] by linarith

lemma start_greatest: "start k \<le> t \<Longrightarrow> start k \<le> start (index t)"
  using start_le_index start_le_iff by blast

lemma same_window: "start (index t) = start (index u) \<longleftrightarrow> index t = index u"
  by (metis index_start)

lemma boundaries_between:
  "{b. b \<in> range start \<and> t < b \<and> b \<le> u} = start ` {index t <.. index u}"
  by (auto simp: start_le_index not_le [symmetric])

lemma card_boundaries:
  "card {b. b \<in> range start \<and> t < b \<and> b \<le> u} = nat (index u - index t)"
proof -
  have "inj_on start A" for A using start_less_iff by (metis inj_onI less_irrefl linorder_neqE)
  then show ?thesis by (simp add: boundaries_between card_image)
qed

end

subsection \<open>The calendar\<close>

text \<open>Days are numbered from 1 January of year 1, a Monday. The year of a day is found as the library
  does, by cutting off cycles of 400, 100, 4 years and one year.\<close>

definition day_of :: "instant \<Rightarrow> int" where
  "day_of t = t div day_ns + 719162"

definition midnight :: "int \<Rightarrow> instant" where
  "midnight n = (n - 719162) * day_ns"

definition is_leap :: "int \<Rightarrow> bool" where
  "is_leap y \<longleftrightarrow> y mod 4 = 0 \<and> (y mod 100 \<noteq> 0 \<or> y mod 400 = 0)"

definition year_start :: "int \<Rightarrow> int" where
  "year_start y = (let p = y - 1 in 365 * p + p div 4 - p div 100 + p div 400)"

definition year_of_day :: "int \<Rightarrow> int" where
  "year_of_day n =
     (let c = n div 146097; r = n mod 146097;
          a = min 3 (r div 36524); r = r - 36524 * a;
          b = r div 1461; r = r mod 1461;
          e = min 3 (r div 365)
      in 400 * c + 100 * a + 4 * b + e + 1)"

definition month_days :: "bool \<Rightarrow> int \<Rightarrow> int" where
  "month_days leap m =
     (let l = (if leap then 1 else 0) in
      if m \<le> 0 then 0 else if m = 1 then 31 else if m = 2 then 59 + l else if m = 3 then 90 + l
      else if m = 4 then 120 + l else if m = 5 then 151 + l else if m = 6 then 181 + l
      else if m = 7 then 212 + l else if m = 8 then 243 + l else if m = 9 then 273 + l
      else if m = 10 then 304 + l else if m = 11 then 334 + l else 365 + l)"

definition month_of_yday :: "bool \<Rightarrow> int \<Rightarrow> int" where
  "month_of_yday leap d =
     (let l = (if leap then 1 else 0) in
      if d < 31 then 0 else if d < 59 + l then 1 else if d < 90 + l then 2 else if d < 120 + l then 3
      else if d < 151 + l then 4 else if d < 181 + l then 5 else if d < 212 + l then 6
      else if d < 243 + l then 7 else if d < 273 + l then 8 else if d < 304 + l then 9
      else if d < 334 + l then 10 else 11)"

text \<open>Months are numbered from January of year 0, as in \<open>year * 12 + month - 1\<close>.\<close>

definition month_start :: "int \<Rightarrow> int" where
  "month_start m = year_start (m div 12) + month_days (is_leap (m div 12)) (m mod 12)"

definition month_of_day :: "int \<Rightarrow> int" where
  "month_of_day n = (let y = year_of_day n in 12 * y + month_of_yday (is_leap y) (n - year_start y))"

definition Year :: "instant \<Rightarrow> int" where
  "Year t = year_of_day (day_of t)"

definition Month :: "instant \<Rightarrow> int" where
  "Month t = month_of_day (day_of t) mod 12 + 1"

definition Day :: "instant \<Rightarrow> int" where
  "Day t = day_of t - month_start (month_of_day (day_of t)) + 1"

definition Weekday :: "instant \<Rightarrow> int" where
  "Weekday t = (day_of t + 1) mod 7"

definition AddDays :: "instant \<Rightarrow> int \<Rightarrow> instant" where
  "AddDays t n = t + n * day_ns"

definition time_Date :: "int \<Rightarrow> int \<Rightarrow> int \<Rightarrow> instant" where
  "time_Date y m d = midnight (month_start (12 * y + (m - 1)) + (d - 1))"

lemma le_div_iff:
  fixes k :: int
  assumes "0 < k"
  shows "n * k \<le> t \<longleftrightarrow> n \<le> t div k"
proof
  assume "n * k \<le> t"
  then have "(n * k) div k \<le> t div k" using assms by (rule zdiv_mono1)
  then show "n \<le> t div k" using assms by simp
next
  assume "n \<le> t div k"
  then have "n * k \<le> (t div k) * k" using assms by simp
  moreover have "0 \<le> t mod k" using assms by simp
  ultimately show "n * k \<le> t" using div_mult_mod_eq [of t k] by linarith
qed

lemma div_window:
  fixes k :: int
  assumes "0 < k"
  shows "t div k * k \<le> t \<and> t < t div k * k + k"
  using div_mult_mod_eq [of t k] pos_mod_sign [OF assms, of t] pos_mod_bound [OF assms, of t] by linarith

lemma div_parts: "0 \<le> r \<Longrightarrow> r < k \<Longrightarrow> (k * q + r) div k = (q :: int)"
  by (simp add: div_mult_self4)

lemma suc_div_mod_parts:
  fixes k :: int
  assumes "0 \<le> r" "r < k"
  shows "(k * q + r + 1) mod k = 0 \<longleftrightarrow> r = k - 1"
    and "(k * q + r + 1) div k = q + (if r = k - 1 then 1 else 0)"
proof -
  have "(k * q + r + 1) mod k = (r + 1) mod k" by (simp add: add.assoc)
  moreover have "(r + 1) mod k = (if r = k - 1 then 0 else r + 1)" using assms by auto
  ultimately show "(k * q + r + 1) mod k = 0 \<longleftrightarrow> r = k - 1" using assms by auto
  show "(k * q + r + 1) div k = q + (if r = k - 1 then 1 else 0)"
  proof (cases "r = k - 1")
    case True
    then have "k * q + r + 1 = k * (q + 1)" by (simp add: algebra_simps)
    then show ?thesis using True assms by simp
  next
    case False
    then show ?thesis using assms div_parts [of "r + 1" k q] by (simp add: add.assoc)
  qed
qed

lemma suc_div:
  fixes k :: int
  assumes "0 < k"
  shows "(x + 1) div k = x div k + (if (x + 1) mod k = 0 then 1 else 0)"
  using suc_div_mod_parts [of "x mod k" k "x div k"] assms by simp

lemma year_start_parts:
  assumes "0 \<le> a" "a \<le> 3" "0 \<le> b" "b \<le> 24" "0 \<le> e" "e \<le> 3"
  shows "year_start (400 * c + 100 * a + 4 * b + e + 1) = 146097 * c + 36524 * a + 1461 * b + 365 * e"
proof -
  let ?p = "400 * c + 100 * a + 4 * b + e"
  have "?p div 4 = 100 * c + 25 * a + b" "?p div 100 = 4 * c + a" "?p div 400 = c"
    using assms div_parts [of e 4 "100 * c + 25 * a + b"] div_parts [of "4 * b + e" 100 "4 * c + a"]
      div_parts [of "100 * a + 4 * b + e" 400 c]
    by (simp_all add: algebra_simps)
  then show ?thesis by (simp add: year_start_def Let_def)
qed

lemma is_leap_parts:
  assumes "0 \<le> a" "a \<le> 3" "0 \<le> b" "b \<le> 24" "0 \<le> e" "e \<le> 3"
  shows "is_leap (400 * c + 100 * a + 4 * b + e + 1) \<longleftrightarrow> e = 3 \<and> (b \<noteq> 24 \<or> a = 3)"
proof -
  let ?y = "400 * c + 100 * a + 4 * b + e + 1"
  have "?y mod 4 = 0 \<longleftrightarrow> e = 3" "?y mod 100 = 0 \<longleftrightarrow> 4 * b + e = 99"
    "?y mod 400 = 0 \<longleftrightarrow> 100 * a + 4 * b + e = 399"
    using assms suc_div_mod_parts(1) [of e 4 "100 * c + 25 * a + b"]
      suc_div_mod_parts(1) [of "4 * b + e" 100 "4 * c + a"]
      suc_div_mod_parts(1) [of "100 * a + 4 * b + e" 400 c]
    by (simp_all add: algebra_simps)
  moreover have "4 * b + e = 99 \<longleftrightarrow> b = 24 \<and> e = 3" using assms by (intro iffI conjI) linarith+
  moreover have "100 * a + 4 * b + e = 399 \<longleftrightarrow> a = 3 \<and> b = 24 \<and> e = 3" using assms by (intro iffI conjI) linarith+
  ultimately show ?thesis by (auto simp: is_leap_def)
qed

lemma leap_count:
  fixes a4 a100 a400 :: int
  assumes "a4 = p4 + (if m4 then 1 else 0)" "a100 = p100 + (if m100 then 1 else 0)"
    "a400 = p400 + (if m400 then 1 else 0)" "m400 \<Longrightarrow> m100" "m100 \<Longrightarrow> m4"
  shows "365 * y + a4 - a100 + a400 =
    365 * (y - 1) + p4 - p100 + p400 + 365 + (if m4 \<and> (\<not> m100 \<or> m400) then 1 else 0)"
  using assms by (cases m4; cases m100; cases m400) auto

lemma year_start_Suc: "year_start (y + 1) = year_start y + 365 + (if is_leap y then 1 else 0)"
proof -
  have d: "y div 4 = (y - 1) div 4 + (if y mod 4 = 0 then 1 else 0)"
    "y div 100 = (y - 1) div 100 + (if y mod 100 = 0 then 1 else 0)"
    "y div 400 = (y - 1) div 400 + (if y mod 400 = 0 then 1 else 0)"
    using suc_div [of _ "y - 1", OF zero_less_numeral, unfolded diff_add_cancel] by blast+
  have "(400 :: int) dvd y \<Longrightarrow> 100 dvd y" by (rule dvd_trans [of 100 400]) simp_all
  moreover have "(100 :: int) dvd y \<Longrightarrow> 4 dvd y" by (rule dvd_trans [of 4 100]) simp_all
  ultimately have "y mod 400 = 0 \<Longrightarrow> y mod 100 = 0" "y mod 100 = 0 \<Longrightarrow> y mod 4 = 0"
    by (simp_all only: mod_eq_0_iff_dvd)
  then show ?thesis
    unfolding year_start_def is_leap_def Let_def add_diff_cancel_right' by (rule leap_count [OF d])
qed

lemma year_of_day_bounds: "year_start (year_of_day n) \<le> n \<and> n < year_start (year_of_day n + 1)"
proof -
  define c r where "c = n div 146097" and "r = n mod 146097"
  define a r2 where "a = min 3 (r div 36524)" and "r2 = r - 36524 * a"
  define b r3 where "b = r2 div 1461" and "r3 = r2 mod 1461"
  define e where "e = min 3 (r3 div 365)"
  have r: "0 \<le> r" "r < 146097" "n = 146097 * c + r" by (simp_all add: r_def c_def)
  have a: "0 \<le> a" "a \<le> 3" using r by (auto simp: a_def)
  have r2: "0 \<le> r2" "r2 < 36525" "a < 3 \<Longrightarrow> r2 < 36524"
    using r a_def unfolding r2_def by (auto simp: min_def split: if_splits)
  have b: "0 \<le> b" "b \<le> 24" "r2 = 1461 * b + r3" "0 \<le> r3" "r3 < 1461"
    using r2 by (simp_all add: b_def r3_def)
  have e: "0 \<le> e" "e \<le> 3" "365 * e \<le> r3" "e < 3 \<Longrightarrow> r3 < 365 * e + 365"
    using b(4,5) by (auto simp: e_def min_def split: if_splits)
  have y: "year_of_day n = 400 * c + 100 * a + 4 * b + e + 1"
    by (simp add: year_of_day_def Let_def c_def r_def a_def r2_def b_def r3_def e_def)
  have leap: "is_leap (year_of_day n) \<longleftrightarrow> e = 3 \<and> (b \<noteq> 24 \<or> a = 3)"
    unfolding y by (rule is_leap_parts [OF a b(1,2) e(1,2)])
  have s: "year_start (year_of_day n) = 146097 * c + 36524 * a + 1461 * b + 365 * e"
    unfolding y by (rule year_start_parts [OF a b(1,2) e(1,2)])
  have n: "n - year_start (year_of_day n) = r3 - 365 * e"
    unfolding s using r(3) b(3) r2_def by linarith
  have "r3 - 365 * e < 365 + (if is_leap (year_of_day n) then 1 else 0)"
  proof (cases "e = 3")
    case True
    show ?thesis
    proof (cases "b = 24 \<and> a < 3")
      case True
      then show ?thesis using r2(3) b(3) \<open>e = 3\<close> leap by auto
    next
      case False
      then show ?thesis using b(5) a(2) \<open>e = 3\<close> leap by auto
    qed
  next
    case False
    then show ?thesis using e by auto
  qed
  then show ?thesis using n e(3) year_start_Suc [of "year_of_day n"] by linarith
qed

lemma month_days_step:
  "0 \<le> m \<Longrightarrow> m < 12 \<Longrightarrow> month_days l m < month_days l (m + 1)"
  by (auto simp: month_days_def Let_def; presburger)

lemma month_of_yday_bounds:
  assumes "0 \<le> d" "d < 365 + (if l then 1 else 0)"
  shows "0 \<le> month_of_yday l d \<and> month_of_yday l d < 12
    \<and> month_days l (month_of_yday l d) \<le> d \<and> d < month_days l (month_of_yday l d + 1)"
  using assms by (cases l) (auto simp: month_of_yday_def month_days_def Let_def)

lemma month_start_parts:
  "0 \<le> k \<Longrightarrow> k \<le> 12 \<Longrightarrow> month_start (12 * y + k) = year_start y + month_days (is_leap y) k"
proof (cases "k = 12")
  case True
  have "month_start (12 * (y + 1)) = year_start (y + 1)" by (simp add: month_start_def month_days_def)
  then show ?thesis by (simp add: True year_start_Suc month_days_def)
qed (simp add: month_start_def div_mult_self4)

lemma month_parts:
  obtains y k :: int where "m = 12 * y + k" "0 \<le> k" "k < 12"
  by (rule that [of "m div 12" "m mod 12"]) simp_all

lemma month_start_step: "month_start m < month_start (m + 1)"
proof -
  obtain y k where m: "m = 12 * y + k" "0 \<le> k" "k < 12" by (rule month_parts)
  then have "month_start (m + 1) = year_start y + month_days (is_leap y) (k + 1)"
    using month_start_parts [of "k + 1" y] by (simp add: add.assoc)
  then show ?thesis using m month_start_parts [of k y] month_days_step [of k] by simp
qed

lemma month_of_day_parts:
  fixes n
  defines "y \<equiv> year_of_day n"
  defines "k \<equiv> month_of_yday (is_leap y) (n - year_start y)"
  shows "month_of_day n = 12 * y + k" "0 \<le> k" "k < 12"
    "year_start y + month_days (is_leap y) k \<le> n" "n < year_start y + month_days (is_leap y) (k + 1)"
  using month_of_yday_bounds [of "n - year_start y" "is_leap y"] year_of_day_bounds [of n] year_start_Suc [of y]
  by (simp_all add: month_of_day_def Let_def y_def k_def)

lemma month_of_day_bounds: "month_start (month_of_day n) \<le> n \<and> n < month_start (month_of_day n + 1)"
  using month_of_day_parts [of n] month_start_parts [of "month_of_yday (is_leap (year_of_day n)) (n - year_start (year_of_day n))" "year_of_day n"]
    month_start_parts [of "month_of_yday (is_leap (year_of_day n)) (n - year_start (year_of_day n)) + 1" "year_of_day n"]
  by (simp add: add.assoc)

lemma year_of_month: "month_of_day n div 12 = year_of_day n"
  using month_of_day_parts [of n] by (simp add: div_mult_self4)

lemma day_of_midnight [simp]: "day_of (midnight n) = n"
  by (simp add: day_of_def midnight_def)

text \<open>Grids of days give grids of instants.\<close>

locale day_grid = period_grid
begin

lemma instant_grid: "period_grid (\<lambda>k. midnight (start k)) (\<lambda>t. index (day_of t))"
proof
  fix k t
  show "midnight (start k) < midnight (start (k + 1))" using step by (simp add: midnight_def)
  have m: "midnight n \<le> t \<longleftrightarrow> n \<le> day_of t" for n
    using le_div_iff [of day_ns "n - 719162" t] by (auto simp: midnight_def day_of_def)
  show "midnight (start (index (day_of t))) \<le> t" using below m by blast
  show "t < midnight (start (index (day_of t) + 1))" using above m not_le by blast
qed

end

sublocale day_grid \<subseteq> inst: period_grid "\<lambda>k. midnight (start k)" "\<lambda>t. index (day_of t)"
  by (rule instant_grid)

interpretation days: day_grid "\<lambda>k. k" "\<lambda>n. n"
  by unfold_locales simp_all

interpretation weeks: day_grid "\<lambda>k. 7 * k" "\<lambda>n. n div 7"
proof
  fix t :: int
  show "7 * (t div 7) \<le> t" "t < 7 * (t div 7 + 1)"
    using div_window [of 7 t] by auto
qed simp

interpretation months: day_grid month_start month_of_day
  using month_start_step month_of_day_bounds by unfold_locales auto

interpretation years: day_grid year_start year_of_day
  using year_start_Suc year_of_day_bounds by unfold_locales auto

interpretation quarters: day_grid "\<lambda>k. month_start (3 * k + r)" "\<lambda>n. (month_of_day n - r) div 3" for r
proof
  fix k t :: int
  show "month_start (3 * k + r) < month_start (3 * (k + 1) + r)" by (simp add: months.start_less_iff)
  let ?m = "month_of_day t" and ?q = "(month_of_day t - r) div 3"
  have "3 * ?q + r \<le> ?m" "?m + 1 \<le> 3 * (?q + 1) + r"
    using div_window [of 3 "?m - r"] by auto
  then have "month_start (3 * ?q + r) \<le> month_start ?m" "month_start (?m + 1) \<le> month_start (3 * (?q + 1) + r)"
    by (simp_all add: months.start_le_iff)
  then show "month_start (3 * ?q + r) \<le> t" "t < month_start (3 * (?q + 1) + r)"
    using month_of_day_bounds [of t] by linarith+
qed

lemma rolling_grid:
  assumes "0 < d"
  shows "period_grid (\<lambda>k. anchor + k * d) (\<lambda>t. (t - anchor) div d)"
proof
  fix k t
  show "anchor + k * d < anchor + (k + 1) * d" using assms by (simp add: distrib_right)
  show "anchor + (t - anchor) div d * d \<le> t" "t < anchor + ((t - anchor) div d + 1) * d"
    using div_window [OF assms, of "t - anchor"] by (simp_all add: distrib_right)
qed

text \<open>The calendar fields of an instant in terms of the grids.\<close>

lemma Month_Year: "12 * Year t + (Month t - 1) = month_of_day (day_of t)"
  using div_mult_mod_eq [of "month_of_day (day_of t)" 12]
  by (simp add: Year_def Month_def year_of_month mult.commute)

lemma Date_day: "time_Date (Year t) (Month t) (Day t) = midnight (day_of t)"
  by (simp add: time_Date_def Month_Year Day_def)

lemma Date_month: "time_Date (Year t) (Month t) 1 = midnight (month_start (month_of_day (day_of t)))"
  by (simp add: time_Date_def Month_Year)

lemma Date_year: "time_Date (Year t) 1 1 = midnight (year_start (year_of_day (day_of t)))"
  using month_start_parts [of 0 "Year t"] by (simp add: time_Date_def Year_def month_days_def)

lemma Date_absolute_month: "time_Date (m sdiv 12) (m smod 12 + 1) 1 = midnight (month_start m)"
  using sdiv_mult_smod_eq [of m 12] by (simp add: time_Date_def mult.commute)

end
