(* ===== verification/Governance_Windows.thy ===== *)
theory Governance_Windows
  imports Complex_Main Go_Time
begin

text \<open>
  Budgets and rate limits as rows: \<open>src/framework/configstore/tables/utils.go\<close>, \<open>budget.go\<close> and
  \<open>ratelimit.go\<close>. A row carries a usage counter, the boundary at which its current window opened
  (\<open>LastReset\<close>) and, for budgets, an override of the limit granted for a number of windows.

  \<^item> A dollar amount is a \<open>float64\<close>: a rational, an infinity or not a number. Sums are exact; the
    rounding of \<open>float64\<close> is not modelled. Token and request counts are 64-bit integers and wrap.
  \<^item> Fields that the modelled code never reads (hashes, update times, deprecated input) and the
    JSON copy of the reset configuration are left out.

  Shown: the window start is the latest boundary of the row's grid; the number of closed windows
  counts exactly the boundaries crossed; an override expires at its last window and replaying its
  grant never gives a spent window back; what validation guarantees.
\<close>

subsection \<open>Dollar amounts\<close>

datatype float64 = Fin rat | Inf bool | NaN

fun f_add :: "float64 \<Rightarrow> float64 \<Rightarrow> float64" where
  "f_add (Fin a) (Fin b) = Fin (a + b)"
| "f_add (Inf s) (Inf s') = (if s = s' then Inf s else NaN)"
| "f_add NaN x = NaN"
| "f_add x NaN = NaN"
| "f_add (Inf s) (Fin b) = Inf s"
| "f_add (Fin a) (Inf s) = Inf s"

fun f_less :: "float64 \<Rightarrow> float64 \<Rightarrow> bool" where
  "f_less NaN x = False"
| "f_less x NaN = False"
| "f_less (Fin a) (Fin b) = (a < b)"
| "f_less (Inf s) (Inf s') = (s \<and> \<not> s')"
| "f_less (Inf s) (Fin b) = s"
| "f_less (Fin a) (Inf s) = (\<not> s)"

definition f_le :: "float64 \<Rightarrow> float64 \<Rightarrow> bool" where
  "f_le x y \<longleftrightarrow> f_less x y \<or> (x = y \<and> x \<noteq> NaN)"

definition f_ne :: "float64 \<Rightarrow> float64 \<Rightarrow> bool" where
  "f_ne x y \<longleftrightarrow> x \<noteq> y \<or> x = NaN"

subsection \<open>Durations\<close>

text \<open>The last byte of a duration string chooses its calendar period; \<open>Inf True\<close> above is minus
  infinity.\<close>

definition suffix_of :: "string \<Rightarrow> char option" where
  "suffix_of d = (if d = '''' then None else Some (last d))"

definition IsCalendarAlignableDuration :: "string \<Rightarrow> bool" where
  "IsCalendarAlignableDuration duration \<longleftrightarrow>
     suffix_of duration \<in> Some ` {CHR ''d'', CHR ''w'', CHR ''M'', CHR ''Q'', CHR ''Y''}"

text \<open>A day is parsed as so many hours and the result multiplied: the product is taken in 64 bits.\<close>

definition scaled_hours :: "string \<Rightarrow> int \<Rightarrow> duration option" where
  "scaled_hours duration k = map_option (\<lambda>h. wrap64 (h * k)) (time_ParseDuration (butlast duration @ ''h''))"

definition ParseDuration :: "string \<Rightarrow> duration option" where
  "ParseDuration duration =
     (if duration = '''' then None
      else if last duration = CHR ''d'' then scaled_hours duration 24
      else if last duration = CHR ''w'' then scaled_hours duration (24 * 7)
      else if last duration = CHR ''M'' then scaled_hours duration (24 * 30)
      else if last duration = CHR ''Q'' then scaled_hours duration (24 * 90)
      else if last duration = CHR ''Y'' then scaled_hours duration (24 * 365)
      else time_ParseDuration duration)"

subsection \<open>Windows\<close>

definition quarterStartAt :: "instant \<Rightarrow> int \<Rightarrow> instant" where
  "quarterStartAt t quarterStart =
     (let quarterStart = (if quarterStart < 1 \<or> quarterStart > 12 then 1 else quarterStart);
          absoluteMonth = Year t * 12 + Month t - 1;
          monthsIntoQuarter = ((absoluteMonth - (quarterStart - 1)) smod 3 + 3) smod 3;
          st = absoluteMonth - monthsIntoQuarter
      in time_Date (st sdiv 12) (st smod 12 + 1) 1)"

definition GetCalendarPeriodStart :: "string \<Rightarrow> instant \<Rightarrow> int \<Rightarrow> instant" where
  "GetCalendarPeriodStart duration t quarterStart =
     (if duration = '''' then t
      else if last duration = CHR ''d'' then time_Date (Year t) (Month t) (Day t)
      else if last duration = CHR ''w''
      then let daysFromMonday = (Weekday t + 6) mod 7; monday = AddDays t (- daysFromMonday)
           in time_Date (Year monday) (Month monday) (Day monday)
      else if last duration = CHR ''M'' then time_Date (Year t) (Month t) 1
      else if last duration = CHR ''Q'' then quarterStartAt t quarterStart
      else if last duration = CHR ''Y'' then time_Date (Year t) 1 1
      else t)"

definition RollingWindowStart :: "instant \<Rightarrow> duration \<Rightarrow> instant \<Rightarrow> instant" where
  "RollingWindowStart anchor duration now =
     (if duration \<le> 0 then anchor
      else let elapsed = time_Sub now anchor in
        if elapsed < 0 then anchor else anchor + (elapsed sdiv duration) * duration)"

definition CountCalendarPeriods :: "string \<Rightarrow> instant \<Rightarrow> instant \<Rightarrow> int \<Rightarrow> int" where
  "CountCalendarPeriods duration from to quarterStart =
     (if duration = '''' \<or> \<not> from < to then 0
      else if last duration = CHR ''d''
      then time_Sub (time_Date (Year to) (Month to) (Day to)) (time_Date (Year from) (Month from) (Day from)) sdiv day_ns
      else if last duration = CHR ''w''
      then time_Sub (GetCalendarPeriodStart ''1w'' to 1) (GetCalendarPeriodStart ''1w'' from 1) sdiv (7 * day_ns)
      else if last duration = CHR ''M'' then (Year to - Year from) * 12 + Month to - Month from
      else if last duration = CHR ''Q''
      then let fromQuarter = quarterStartAt from quarterStart; toQuarter = quarterStartAt to quarterStart;
               months = (Year toQuarter - Year fromQuarter) * 12 + Month toQuarter - Month fromQuarter
           in months sdiv 3
      else if last duration = CHR ''Y'' then Year to - Year from
      else 0)"

text \<open>The grid of a calendar suffix: its boundaries and the index of the window of an instant.\<close>

definition quarter_offset :: "int \<Rightarrow> int" where
  "quarter_offset q = ((if q < 1 \<or> q > 12 then 1 else q) - 1) mod 3"

definition grid_start :: "char \<Rightarrow> int \<Rightarrow> int \<Rightarrow> instant" where
  "grid_start c q k =
     midnight (if c = CHR ''w'' then 7 * k else if c = CHR ''M'' then month_start k
       else if c = CHR ''Q'' then month_start (3 * k + quarter_offset q)
       else if c = CHR ''Y'' then year_start k else k)"

definition grid_index :: "char \<Rightarrow> int \<Rightarrow> instant \<Rightarrow> int" where
  "grid_index c q t =
     (if c = CHR ''w'' then day_of t div 7 else if c = CHR ''M'' then month_of_day (day_of t)
      else if c = CHR ''Q'' then (month_of_day (day_of t) - quarter_offset q) div 3
      else if c = CHR ''Y'' then year_of_day (day_of t) else day_of t)"

interpretation calendar: period_grid "grid_start c q" "grid_index c q" for c q
proof -
  consider "c = CHR ''w''" | "c = CHR ''M''" | "c = CHR ''Q''" | "c = CHR ''Y''"
    | "c \<notin> {CHR ''w'', CHR ''M'', CHR ''Q'', CHR ''Y''}" by blast
  then show "period_grid (grid_start c q) (grid_index c q)"
  proof cases
    case 1
    then show ?thesis using weeks.inst.period_grid_axioms by (simp add: grid_start_def [abs_def] grid_index_def [abs_def])
  next
    case 2
    then show ?thesis using months.inst.period_grid_axioms by (simp add: grid_start_def [abs_def] grid_index_def [abs_def])
  next
    case 3
    then show ?thesis
      using quarters.inst.period_grid_axioms [of "quarter_offset q"]
      by (simp add: grid_start_def [abs_def] grid_index_def [abs_def])
  next
    case 4
    then show ?thesis using years.inst.period_grid_axioms by (simp add: grid_start_def [abs_def] grid_index_def [abs_def])
  next
    case 5
    then show ?thesis using days.inst.period_grid_axioms by (simp add: grid_start_def [abs_def] grid_index_def [abs_def])
  qed
qed

lemma months_into_quarter: "((m - (q - 1)) smod 3 + 3) smod 3 = (m - (q - 1)) mod (3 :: int)"
proof -
  have *: "x smod 3 = (if x < 0 \<and> x mod 3 \<noteq> 0 then x mod 3 - 3 else x mod 3)" for x :: int
    by (cases "x < 0") (auto simp: signed_modulo_int_def sgn_if zmod_zminus1_eq_if)
  show ?thesis by (simp add: *) presburger
qed

lemma quarterStartAt_grid: "quarterStartAt t q = grid_start (CHR ''Q'') q (grid_index (CHR ''Q'') q t)"
proof -
  define p where "p = (if q < 1 \<or> q > 12 then 1 else q)"
  let ?m = "month_of_day (day_of t)"
  have m: "Year t * 12 + Month t - 1 = ?m" using Month_Year [of t] by linarith
  have r: "quarter_offset q = (p - 1) mod 3" by (simp add: quarter_offset_def p_def)
  have "?m - (?m - (p - 1)) mod 3 = 3 * ((?m - (p - 1) mod 3) div 3) + (p - 1) mod 3" by presburger
  then show ?thesis
    unfolding quarterStartAt_def Let_def p_def [symmetric] m months_into_quarter Date_absolute_month
    by (simp add: grid_start_def grid_index_def r)
qed

lemma week_grid: "GetCalendarPeriodStart ''1w'' t q = grid_start (CHR ''w'') q (grid_index (CHR ''w'') q t)"
proof -
  have "day_of (AddDays t k) = day_of t + k" for k by (simp add: day_of_def AddDays_def)
  moreover have "day_of t - ((day_of t + 1) mod 7 + 6) mod 7 = 7 * (day_of t div 7)" by presburger
  ultimately show ?thesis
    by (simp add: GetCalendarPeriodStart_def Let_def Date_day grid_start_def grid_index_def Weekday_def)
qed

lemma GetCalendarPeriodStart_last:
  "d \<noteq> '''' \<Longrightarrow> d' \<noteq> '''' \<Longrightarrow> last d = last d' \<Longrightarrow>
   GetCalendarPeriodStart d t q = GetCalendarPeriodStart d' t q"
  by (simp add: GetCalendarPeriodStart_def)

lemma alignable_cases:
  assumes "IsCalendarAlignableDuration d"
  shows "d \<noteq> ''''" "last d \<in> {CHR ''d'', CHR ''w'', CHR ''M'', CHR ''Q'', CHR ''Y''}"
  using assms by (auto simp: IsCalendarAlignableDuration_def suffix_of_def split: if_splits)

lemma GetCalendarPeriodStart_grid:
  assumes "IsCalendarAlignableDuration d"
  shows "GetCalendarPeriodStart d t q = grid_start (last d) q (grid_index (last d) q t)"
proof (cases "last d = CHR ''w''")
  case True
  then show ?thesis
    using GetCalendarPeriodStart_last [of d "''1w''" t q] alignable_cases(1) [OF assms] week_grid by simp
next
  case False
  then show ?thesis
    using alignable_cases [OF assms]
    by (auto simp: GetCalendarPeriodStart_def Date_day Date_month Date_year quarterStartAt_grid
        grid_start_def grid_index_def)
qed

lemma sdiv_exact: "0 < k \<Longrightarrow> (k * n) sdiv k = (n :: int)"
  by (cases "n = 0") (auto simp: signed_divide_int_def abs_mult sgn_mult mult_sgn_abs)

lemma Sub_midnight:
  assumes "\<bar>midnight a - midnight b\<bar> < 2 ^ 63"
  shows "time_Sub (midnight a) (midnight b) = day_ns * (a - b)"
  using time_Sub_exact [OF assms] by (simp add: midnight_def)

lemma month_of_quarter: "month_of_day (day_of (quarterStartAt t q)) = 3 * grid_index (CHR ''Q'') q t + quarter_offset q"
  by (simp add: quarterStartAt_grid grid_start_def months.index_start)

lemma CountCalendarPeriods_grid:
  assumes "IsCalendarAlignableDuration d" "from < to" "to - from < 2 ^ 63 - 7 * day_ns"
  shows "CountCalendarPeriods d from to q = grid_index (last d) q to - grid_index (last d) q from"
proof -
  have near: "\<bar>grid_start c q (grid_index c q to) - grid_start c q (grid_index c q from)\<bar> < 2 ^ 63"
    if "c = CHR ''d'' \<or> c = CHR ''w''" for c
  proof -
    have "grid_start c q (grid_index c q from + 1) \<le> grid_start c q (grid_index c q from) + 7 * day_ns"
      using that by (auto simp: grid_start_def midnight_def)
    moreover have "grid_start c q (grid_index c q from) \<le> grid_start c q (grid_index c q to)"
      using calendar.index_mono [of "from" to c q] assms(2) by (simp add: calendar.start_le_iff)
    ultimately show ?thesis
      using calendar.above [of "from" c q] calendar.below [of c q to] assms(3) by linarith
  qed
  have M: "(Year b - Year a) * 12 + Month b - Month a = month_of_day (day_of b) - month_of_day (day_of a)" for a b
    unfolding Month_Year [symmetric] by (simp add: algebra_simps)
  have D: "time_Sub (midnight (day_of to)) (midnight (day_of from)) = day_ns * (day_of to - day_of from)"
    using Sub_midnight near [of "CHR ''d''"] by (simp add: grid_start_def grid_index_def)
  have W: "time_Sub (midnight (7 * (day_of to div 7))) (midnight (7 * (day_of from div 7)))
      = (7 * day_ns) * (day_of to div 7 - day_of from div 7)"
    using Sub_midnight [of "7 * (day_of to div 7)" "7 * (day_of from div 7)"] near [of "CHR ''w''"]
    by (simp add: grid_start_def grid_index_def algebra_simps)
  have wk: "GetCalendarPeriodStart ''1w'' t 1 = midnight (7 * (day_of t div 7))" for t
    by (simp add: week_grid grid_start_def grid_index_def)
  have sd: "day_ns * n sdiv day_ns = n" "(7 * day_ns) * n sdiv (7 * day_ns) = n" "3 * n sdiv 3 = n" for n :: int
    by (rule sdiv_exact; simp)+
  consider "last d = CHR ''d''" | "last d = CHR ''w''" | "last d = CHR ''M''" | "last d = CHR ''Q''" | "last d = CHR ''Y''"
    using alignable_cases(2) [OF assms(1)] by blast
  then show ?thesis
  proof cases
    case 1
    then show ?thesis
      using alignable_cases(1) [OF assms(1)] assms(2) sd(1)
      by (simp only: CountCalendarPeriods_def Date_day D) (simp add: grid_index_def)
  next
    case 2
    then show ?thesis
      using alignable_cases(1) [OF assms(1)] assms(2) sd(2)
      by (simp only: CountCalendarPeriods_def wk W) (simp add: grid_index_def)
  next
    case 3
    then show ?thesis
      using alignable_cases(1) [OF assms(1)] assms(2) by (simp only: CountCalendarPeriods_def M) (simp add: grid_index_def)
  next
    case 4
    have "month_of_day (day_of (quarterStartAt to q)) - month_of_day (day_of (quarterStartAt from q))
        = 3 * (grid_index (CHR ''Q'') q to - grid_index (CHR ''Q'') q from)" by (simp add: month_of_quarter)
    then show ?thesis
      using 4 alignable_cases(1) [OF assms(1)] assms(2) sd(3)
      by (simp only: CountCalendarPeriods_def Let_def M) simp
  next
    case 5
    then show ?thesis
      using alignable_cases(1) [OF assms(1)] assms(2) by (simp add: CountCalendarPeriods_def Year_def grid_index_def)
  qed
qed

lemma RollingWindowStart_grid:
  assumes "0 < d" "anchor \<le> now" "now - anchor < 2 ^ 63"
  shows "RollingWindowStart anchor d now = anchor + (now - anchor) div d * d"
proof -
  have "time_Sub now anchor = now - anchor" using assms by (intro time_Sub_exact) auto
  moreover have "(now - anchor) sdiv d = (now - anchor) div d"
    using assms by (auto simp: signed_divide_int_def sgn_if)
  ultimately show ?thesis using assms by (simp add: RollingWindowStart_def Let_def)
qed

subsection \<open>Budget rows\<close>

datatype BudgetOverrideMode = BudgetOverrideModeNone | BudgetOverrideModeCycles
  | BudgetOverrideModeForever | BudgetOverrideModeOther string

text \<open>A reset configuration is its quarter start month.\<close>

record TableBudget =
  tb_ID :: string
  tb_MaxLimit :: float64
  tb_ResetDuration :: string
  tb_LastReset :: instant
  tb_CurrentUsage :: float64
  tb_OverrideAmount :: float64
  tb_OverrideMode :: BudgetOverrideMode
  tb_OverrideCyclesRemaining :: int
  tb_OverrideCyclesTotal :: int
  tb_OverrideAnchorReset :: "instant option"
  tb_ResetConfig :: "int option"
  tb_TeamID :: "string option"
  tb_VirtualKeyID :: "string option"
  tb_ProviderConfigID :: "nat option"
  tb_ModelConfigID :: "string option"
  tb_CustomerID :: "string option"
  tb_IsCalendarAligned :: bool
  tb_CreatedAt :: instant

definition QuarterStart :: "int option \<Rightarrow> int" where
  "QuarterStart c = (case c of
       None \<Rightarrow> 1
     | Some m \<Rightarrow> if m < 1 \<or> m > 12 then 1 else m)"

definition QuarterStartMonth :: "TableBudget \<Rightarrow> int" where
  "QuarterStartMonth b = QuarterStart (tb_ResetConfig b)"

definition IsQuarterlyDuration :: "string \<Rightarrow> bool" where
  "IsQuarterlyDuration duration \<longleftrightarrow> duration \<noteq> '''' \<and> last duration = CHR ''Q''"

definition validateResetConfig :: "TableBudget \<Rightarrow> string option" where
  "validateResetConfig b = (case tb_ResetConfig b of
       None \<Rightarrow> None
     | Some month \<Rightarrow>
         if \<not> IsQuarterlyDuration (tb_ResetDuration b)
         then Some (''reset_config is only valid on a quarterly reset duration, got: '' @ tb_ResetDuration b)
         else if month \<noteq> 0 \<and> (month < 1 \<or> month > 12)
         then Some (''quarter_start_month must be between 1 and 12, got: '' @ strconv_Itoa month)
         else None)"

definition WindowStart :: "TableBudget \<Rightarrow> instant \<Rightarrow> instant" where
  "WindowStart b now =
     (if tb_ResetDuration b = '''' then tb_LastReset b
      else if tb_IsCalendarAligned b \<and> IsCalendarAlignableDuration (tb_ResetDuration b)
      then GetCalendarPeriodStart (tb_ResetDuration b) now (QuarterStartMonth b)
      else case ParseDuration (tb_ResetDuration b) of
          None \<Rightarrow> tb_LastReset b
        | Some duration \<Rightarrow>
            if duration \<le> 0 then tb_LastReset b
            else RollingWindowStart (if IsZero (tb_CreatedAt b) then tb_LastReset b else tb_CreatedAt b) duration now)"

definition AdoptCalendarAlignment :: "instant \<Rightarrow> TableBudget \<Rightarrow> TableBudget \<times> bool" where
  "AdoptCalendarAlignment now b =
     (if \<not> tb_IsCalendarAligned b \<or> \<not> IsCalendarAlignableDuration (tb_ResetDuration b) then (b, False)
      else let st = WindowStart b now in
        if \<not> tb_LastReset b < st then (b, False) else (b\<lparr>tb_LastReset := st\<rparr>, True))"

definition HasActiveOverride :: "TableBudget \<Rightarrow> bool" where
  "HasActiveOverride b =
     (if f_le (tb_OverrideAmount b) (Fin 0) then False
      else tb_OverrideMode b = BudgetOverrideModeForever
        \<or> tb_OverrideMode b = BudgetOverrideModeCycles \<and> tb_OverrideCyclesRemaining b > 0)"

definition EffectiveMaxLimit :: "TableBudget \<Rightarrow> float64" where
  "EffectiveMaxLimit b =
     (if \<not> HasActiveOverride b then tb_MaxLimit b else f_add (tb_MaxLimit b) (tb_OverrideAmount b))"

definition validateOverride :: "TableBudget \<Rightarrow> string option" where
  "validateOverride b =
     (if (case tb_OverrideAmount b of Fin a \<Rightarrow> False | _ \<Rightarrow> True)
      then Some ''budget override_amount must be finite''
      else case tb_OverrideMode b of
          BudgetOverrideModeNone \<Rightarrow>
            if f_ne (tb_OverrideAmount b) (Fin 0) \<or> tb_OverrideCyclesRemaining b \<noteq> 0
            then Some ''budget override fields require override_mode''
            else if tb_OverrideCyclesTotal b \<noteq> 0 \<or> tb_OverrideAnchorReset b \<noteq> None
            then Some ''budget override grant fields require override_mode''
            else None
        | BudgetOverrideModeCycles \<Rightarrow>
            if f_le (tb_OverrideAmount b) (Fin 0)
            then Some ''budget override_amount must be > 0 for cycles mode''
            else if tb_OverrideCyclesRemaining b \<le> 0
            then Some ''budget override_cycles_remaining must be > 0 for cycles mode''
            else if tb_OverrideAnchorReset b = None
            then Some ''budget override_anchor_reset is required for cycles mode''
            else if tb_OverrideCyclesTotal b < tb_OverrideCyclesRemaining b
            then Some ''budget override_cycles_total must be >= override_cycles_remaining for cycles mode''
            else None
        | BudgetOverrideModeForever \<Rightarrow>
            if f_le (tb_OverrideAmount b) (Fin 0)
            then Some ''budget override_amount must be > 0 for forever mode''
            else if tb_OverrideCyclesRemaining b \<noteq> 0
            then Some ''budget override_cycles_remaining must be 0 for forever mode''
            else if tb_OverrideCyclesTotal b \<noteq> 0 \<or> tb_OverrideAnchorReset b \<noteq> None
            then Some ''budget override grant fields must be empty for forever mode''
            else None
        | BudgetOverrideModeOther m \<Rightarrow> Some (''invalid budget override_mode: '' @ m))"

definition SetOverrideAt ::
    "float64 \<Rightarrow> BudgetOverrideMode \<Rightarrow> int \<Rightarrow> instant \<Rightarrow> TableBudget \<Rightarrow> TableBudget \<times> string option" where
  "SetOverrideAt amount mode cyclesTotal anchor b =
     (let b1 = b\<lparr>tb_OverrideAmount := amount, tb_OverrideMode := mode, tb_OverrideCyclesRemaining := cyclesTotal\<rparr>;
          b2 = (if mode = BudgetOverrideModeCycles
                then b1\<lparr>tb_OverrideCyclesTotal := cyclesTotal, tb_OverrideAnchorReset := Some anchor\<rparr>
                else b1\<lparr>tb_OverrideCyclesTotal := 0, tb_OverrideAnchorReset := None\<rparr>)
      in case validateOverride b2 of
          Some err \<Rightarrow>
            (b2\<lparr>tb_OverrideAmount := tb_OverrideAmount b, tb_OverrideMode := tb_OverrideMode b,
               tb_OverrideCyclesRemaining := tb_OverrideCyclesRemaining b,
               tb_OverrideCyclesTotal := tb_OverrideCyclesTotal b,
               tb_OverrideAnchorReset := tb_OverrideAnchorReset b\<rparr>, Some err)
        | None \<Rightarrow> (b2, None))"

definition SetOverride ::
    "float64 \<Rightarrow> BudgetOverrideMode \<Rightarrow> int \<Rightarrow> TableBudget \<Rightarrow> TableBudget \<times> string option" where
  "SetOverride amount mode cyclesRemaining b = SetOverrideAt amount mode cyclesRemaining (tb_LastReset b) b"

definition ClearOverride :: "TableBudget \<Rightarrow> TableBudget" where
  "ClearOverride b = b\<lparr>tb_OverrideAmount := Fin 0, tb_OverrideMode := BudgetOverrideModeNone,
     tb_OverrideCyclesRemaining := 0, tb_OverrideCyclesTotal := 0, tb_OverrideAnchorReset := None\<rparr>"

definition boundaryJitterTolerance :: duration where
  "boundaryJitterTolerance = 1000000"

definition WindowsSinceAnchor :: "TableBudget \<Rightarrow> int" where
  "WindowsSinceAnchor b = (case tb_OverrideAnchorReset b of
       None \<Rightarrow> 0
     | Some anchor \<Rightarrow>
         if tb_ResetDuration b = '''' then 0
         else if \<not> anchor + boundaryJitterTolerance < tb_LastReset b then 0
         else if tb_IsCalendarAligned b \<and> IsCalendarAlignableDuration (tb_ResetDuration b)
         then CountCalendarPeriods (tb_ResetDuration b) (anchor + boundaryJitterTolerance)
                (tb_LastReset b + boundaryJitterTolerance) (QuarterStartMonth b)
         else (case ParseDuration (tb_ResetDuration b) of
             None \<Rightarrow> 0
           | Some duration \<Rightarrow>
               if duration \<le> 0 then 0
               else wrap64 (time_Sub (tb_LastReset b) anchor + boundaryJitterTolerance) sdiv duration))"

definition RefreshOverrideCyclesRemaining :: "TableBudget \<Rightarrow> TableBudget" where
  "RefreshOverrideCyclesRemaining b =
     (if tb_OverrideMode b \<noteq> BudgetOverrideModeCycles then b
      else let remaining = tb_OverrideCyclesTotal b - WindowsSinceAnchor b in
        if remaining \<le> 0 then ClearOverride b
        else b\<lparr>tb_OverrideCyclesRemaining := remaining\<rparr>)"

definition budget_BeforeSave :: "TableBudget \<Rightarrow> string option" where
  "budget_BeforeSave b =
     (let owners = length (filter id [tb_TeamID b \<noteq> None, tb_VirtualKeyID b \<noteq> None, tb_ProviderConfigID b \<noteq> None,
                     tb_ModelConfigID b \<noteq> None, tb_CustomerID b \<noteq> None])
      in if owners > 1
         then Some ''budget cannot have more than one owner (team/virtual key/provider config/model config/customer)''
         else case ParseDuration (tb_ResetDuration b) of
             None \<Rightarrow> Some (''invalid reset duration format: '' @ tb_ResetDuration b)
           | Some d \<Rightarrow>
               if d \<le> 0 then Some (''reset duration must be > 0: '' @ tb_ResetDuration b)
               else if f_less (tb_MaxLimit b) (Fin 0) then Some ''budget max_limit cannot be negative''
               else (case validateOverride b of
                   Some err \<Rightarrow> Some err
                 | None \<Rightarrow> validateResetConfig b))"

subsection \<open>Rate limit rows\<close>

record TableRateLimit =
  rl_ID :: string
  rl_TokenMaxLimit :: "int option"
  rl_TokenResetDuration :: "string option"
  rl_TokenCurrentUsage :: int
  rl_TokenLastReset :: instant
  rl_RequestMaxLimit :: "int option"
  rl_RequestResetDuration :: "string option"
  rl_RequestCurrentUsage :: int
  rl_RequestLastReset :: instant
  rl_IsCalendarAligned :: bool
  rl_CreatedAt :: instant

definition duration_error :: "string \<Rightarrow> string option \<Rightarrow> string option" where
  "duration_error kind duration = (case duration of
       None \<Rightarrow> None
     | Some s \<Rightarrow> (case ParseDuration s of
         None \<Rightarrow> Some (''invalid '' @ kind @ '' reset duration format: '' @ s)
       | Some d \<Rightarrow> if d \<le> 0 then Some (kind @ '' reset duration cannot be zero or negative: '' @ s) else None))"

definition ratelimit_BeforeSave :: "TableRateLimit \<Rightarrow> string option" where
  "ratelimit_BeforeSave rl =
     (case duration_error ''token'' (rl_TokenResetDuration rl) of Some e \<Rightarrow> Some e | None \<Rightarrow>
      (case duration_error ''request'' (rl_RequestResetDuration rl) of Some e \<Rightarrow> Some e | None \<Rightarrow>
       if rl_TokenMaxLimit rl \<noteq> None \<and> rl_TokenResetDuration rl = None
       then Some ''token_reset_duration is required when token_max_limit is set''
       else if rl_RequestMaxLimit rl \<noteq> None \<and> rl_RequestResetDuration rl = None
       then Some ''request_reset_duration is required when request_max_limit is set''
       else if (case rl_TokenMaxLimit rl of Some m \<Rightarrow> m \<le> 0 | None \<Rightarrow> False)
       then Some (''token_max_limit cannot be zero or negative: '' @ strconv_Itoa (the (rl_TokenMaxLimit rl)))
       else if (case rl_RequestMaxLimit rl of Some m \<Rightarrow> m \<le> 0 | None \<Rightarrow> False)
       then Some (''request_max_limit cannot be zero or negative: '' @ strconv_Itoa (the (rl_RequestMaxLimit rl)))
       else None))"

definition adopt_boundary :: "instant \<Rightarrow> string option \<Rightarrow> instant \<Rightarrow> instant \<times> bool" where
  "adopt_boundary now duration lastReset = (case duration of
       None \<Rightarrow> (lastReset, False)
     | Some d \<Rightarrow>
         if \<not> IsCalendarAlignableDuration d then (lastReset, False)
         else let st = GetCalendarPeriodStart d now 1 in
           if \<not> lastReset < st then (lastReset, False) else (st, True))"

definition rl_AdoptCalendarAlignment :: "instant \<Rightarrow> TableRateLimit \<Rightarrow> TableRateLimit \<times> bool" where
  "rl_AdoptCalendarAlignment now rl =
     (if \<not> rl_IsCalendarAligned rl then (rl, False)
      else let (tok, tokenMoved) = adopt_boundary now (rl_TokenResetDuration rl) (rl_TokenLastReset rl);
               (req, requestMoved) = adopt_boundary now (rl_RequestResetDuration rl) (rl_RequestLastReset rl)
           in (rl\<lparr>rl_TokenLastReset := tok, rl_RequestLastReset := req\<rparr>, tokenMoved \<or> requestMoved))"

definition StampCalendarAlignment ::
    "bool \<Rightarrow> TableBudget list \<Rightarrow> TableRateLimit option \<Rightarrow> TableBudget list \<times> TableRateLimit option" where
  "StampCalendarAlignment calendarAligned budgets rateLimit =
     (map (\<lambda>b. b\<lparr>tb_IsCalendarAligned := calendarAligned\<rparr>) budgets,
      map_option (\<lambda>rl. rl\<lparr>rl_IsCalendarAligned := calendarAligned\<rparr>) rateLimit)"

subsection \<open>The grid of a budget\<close>

definition budget_anchor :: "TableBudget \<Rightarrow> instant" where
  "budget_anchor b = (if IsZero (tb_CreatedAt b) then tb_LastReset b else tb_CreatedAt b)"

definition calendar_budget :: "TableBudget \<Rightarrow> bool" where
  "calendar_budget b \<longleftrightarrow> tb_IsCalendarAligned b \<and> IsCalendarAlignableDuration (tb_ResetDuration b)"

definition rolling_length :: "TableBudget \<Rightarrow> duration option" where
  "rolling_length b = (if calendar_budget b then None else ParseDuration (tb_ResetDuration b))"

definition budget_grid :: "TableBudget \<Rightarrow> int \<Rightarrow> instant" where
  "budget_grid b k = (if calendar_budget b then grid_start (last (tb_ResetDuration b)) (QuarterStartMonth b) k
     else budget_anchor b + k * the (rolling_length b))"

definition has_grid :: "TableBudget \<Rightarrow> bool" where
  "has_grid b \<longleftrightarrow> calendar_budget b \<or> (\<exists>d. rolling_length b = Some d \<and> 0 < d)"

lemma ParseDuration_nonempty: "ParseDuration s = Some d \<Longrightarrow> s \<noteq> ''''"
  by (auto simp: ParseDuration_def)

lemma WindowStart_calendar:
  "calendar_budget b \<Longrightarrow> WindowStart b now =
     grid_start (last (tb_ResetDuration b)) (QuarterStartMonth b)
       (grid_index (last (tb_ResetDuration b)) (QuarterStartMonth b) now)"
  using alignable_cases(1) by (auto simp: WindowStart_def calendar_budget_def GetCalendarPeriodStart_grid)

lemma WindowStart_rolling:
  "rolling_length b = Some d \<Longrightarrow> 0 < d \<Longrightarrow> WindowStart b now = RollingWindowStart (budget_anchor b) d now"
  using ParseDuration_nonempty
  by (auto simp: WindowStart_def rolling_length_def calendar_budget_def budget_anchor_def split: if_splits)

lemma budget_grid_period:
  assumes "has_grid b"
  obtains ind where "period_grid (budget_grid b) ind"
    and "\<And>now. calendar_budget b \<or> budget_anchor b \<le> now \<and> now - budget_anchor b < 2 ^ 63 \<Longrightarrow>
      WindowStart b now = budget_grid b (ind now)"
proof (cases "calendar_budget b")
  case True
  have "budget_grid b = grid_start (last (tb_ResetDuration b)) (QuarterStartMonth b)"
    using True by (simp add: budget_grid_def fun_eq_iff)
  then show ?thesis
    using True that [of "grid_index (last (tb_ResetDuration b)) (QuarterStartMonth b)"]
      calendar.period_grid_axioms WindowStart_calendar [OF True] by simp
next
  case False
  then obtain d where d: "rolling_length b = Some d" "0 < d" using assms by (auto simp: has_grid_def)
  have g: "budget_grid b = (\<lambda>k. budget_anchor b + k * d)" using False d by (simp add: budget_grid_def fun_eq_iff)
  show ?thesis
    using that [of "\<lambda>t. (t - budget_anchor b) div d"] rolling_grid [OF d(2), of "budget_anchor b"] False
      WindowStart_rolling [OF d] RollingWindowStart_grid [OF d(2)] by (simp add: g)
qed

text \<open>C22. The window of a budget opens at a boundary of its own grid (the calendar periods of its
  duration, or the multiples of its duration since its creation), not after \<open>now\<close>, and no other
  boundary lies between the two; so it is the same instant on every node and at every time
  within the window.\<close>

theorem window_start_latest_boundary:
  assumes "has_grid b" "calendar_budget b \<or> budget_anchor b \<le> now \<and> now - budget_anchor b < 2 ^ 63"
  shows "WindowStart b now \<in> range (budget_grid b) \<and> WindowStart b now \<le> now
    \<and> (\<forall>k. budget_grid b k \<le> now \<longrightarrow> budget_grid b k \<le> WindowStart b now)
    \<and> (\<forall>now'. WindowStart b now \<le> now' \<and> now' \<le> now \<longrightarrow> WindowStart b now' = WindowStart b now)"
proof -
  obtain ind where g: "period_grid (budget_grid b) ind"
    and w: "\<And>now. calendar_budget b \<or> budget_anchor b \<le> now \<and> now - budget_anchor b < 2 ^ 63 \<Longrightarrow>
      WindowStart b now = budget_grid b (ind now)"
    using budget_grid_period [OF assms(1)] by blast
  have le: "budget_grid b k \<le> t \<longleftrightarrow> k \<le> ind t" and iff: "budget_grid b k \<le> budget_grid b l \<longleftrightarrow> k \<le> l" for k l t
    using period_grid.start_le_index [OF g] period_grid.start_le_iff [OF g] by blast+
  have W: "WindowStart b now = budget_grid b (ind now)" using w assms(2) by blast
  have same: "WindowStart b now' = WindowStart b now" if "budget_grid b (ind now) \<le> now'" "now' \<le> now" for now'
  proof -
    have "ind now' = ind now"
      using that le [of "ind now" now'] le [of "ind now'" now'] le [of "ind now'" now] by force
    moreover have "budget_anchor b \<le> now'" if "\<not> calendar_budget b"
    proof -
      have "budget_grid b 0 = budget_anchor b" using that by (simp add: budget_grid_def)
      then show ?thesis using le [of 0 now] le [of 0 now'] assms(2) that \<open>ind now' = ind now\<close> by auto
    qed
    ultimately show ?thesis using w [of now'] W that(2) assms(2) by force
  qed
  have "budget_grid b (ind now) \<le> now" by (simp add: le)
  then show ?thesis unfolding W using le iff same [unfolded W] by auto
qed

definition hourly_budget :: TableBudget where
  "hourly_budget = \<lparr>tb_ID = ''b'', tb_MaxLimit = Fin 10, tb_ResetDuration = ''1h'',
    tb_LastReset = 1700000000000000000, tb_CurrentUsage = Fin 0, tb_OverrideAmount = Fin 0,
    tb_OverrideMode = BudgetOverrideModeNone,
    tb_OverrideCyclesRemaining = 0, tb_OverrideCyclesTotal = 0, tb_OverrideAnchorReset = None,
    tb_ResetConfig = None, tb_TeamID = None, tb_VirtualKeyID = None, tb_ProviderConfigID = None,
    tb_ModelConfigID = None, tb_CustomerID = None, tb_IsCalendarAligned = False,
    tb_CreatedAt = 1700000000000000000\<rparr>"

lemma hourly_budget_grid:
  "rolling_length hourly_budget = Some 3600000000000" "has_grid hourly_budget"
  "budget_anchor hourly_budget = 1700000000000000000" "\<not> calendar_budget hourly_budget"
proof -
  show 1: "rolling_length hourly_budget = Some 3600000000000" by code_simp
  show "budget_anchor hourly_budget = 1700000000000000000" by code_simp
  show "\<not> calendar_budget hourly_budget" by code_simp
  show "has_grid hourly_budget" using 1 by (simp add: has_grid_def)
qed

theorem window_start_latest_boundary_witness:
  "WindowStart hourly_budget 1700009000000000000 = 1700007200000000000
    \<and> WindowStart hourly_budget 1700008000000000000 = WindowStart hourly_budget 1700009000000000000"
proof -
  have anchored: "budget_anchor hourly_budget \<le> 1700009000000000000
      \<and> 1700009000000000000 - budget_anchor hourly_budget < 2 ^ 63"
    by (simp add: hourly_budget_grid)
  have start: "WindowStart hourly_budget 1700009000000000000 = 1700007200000000000" by code_simp
  have "\<forall>now'. WindowStart hourly_budget 1700009000000000000 \<le> now' \<and> now' \<le> 1700009000000000000 \<longrightarrow>
      WindowStart hourly_budget now' = WindowStart hourly_budget 1700009000000000000"
    using window_start_latest_boundary [OF hourly_budget_grid(2) disjI2 [OF anchored]] by blast
  from spec [OF this, of 1700008000000000000] start show ?thesis by simp
qed

text \<open>\<open>CountCalendarPeriods\<close> counts exactly the boundaries that \<open>GetCalendarPeriodStart\<close> produces:
  the instants in the interval that open a period of their own. (The interval must be shorter than
  the 292 years of a duration, where \<open>Sub\<close> saturates.)\<close>

theorem periods_counted_exactly:
  assumes "IsCalendarAlignableDuration d" "from < to" "to - from < 2 ^ 63 - 7 * day_ns"
  shows "CountCalendarPeriods d from to q =
    int (card {t. from < t \<and> t \<le> to \<and> GetCalendarPeriodStart d t q = t})"
proof -
  let ?c = "last d"
  have "GetCalendarPeriodStart d t q = t \<longleftrightarrow> t \<in> range (grid_start ?c q)" for t
    unfolding GetCalendarPeriodStart_grid [OF assms(1)] by (auto simp: calendar.index_start) (metis rangeI)
  then have "{t. from < t \<and> t \<le> to \<and> GetCalendarPeriodStart d t q = t}
      = {t. t \<in> range (grid_start ?c q) \<and> from < t \<and> t \<le> to}" by auto
  moreover have "grid_index ?c q from \<le> grid_index ?c q to" using assms(2) by (simp add: calendar.index_mono)
  ultimately show ?thesis by (simp add: CountCalendarPeriods_grid [OF assms] calendar.card_boundaries)
qed

theorem periods_counted_exactly_witness:
  "CountCalendarPeriods ''1Q'' 1700000000000000000 1720000000000000000 4 = 3
   \<and> card {t. 1700000000000000000 < t \<and> t \<le> 1720000000000000000 \<and> GetCalendarPeriodStart ''1Q'' t 4 = t} = 3"
proof -
  have 1: "CountCalendarPeriods ''1Q'' 1700000000000000000 1720000000000000000 4 = 3" by code_simp
  have "IsCalendarAlignableDuration ''1Q''" by code_simp
  from periods_counted_exactly [OF this, of 1700000000000000000 1720000000000000000 4] 1 show ?thesis by simp
qed

subsection \<open>The life of an override\<close>

lemma count_windows_calendar:
  assumes "calendar_budget b" "tb_OverrideAnchorReset b = Some a"
    and a: "\<bar>a - budget_grid b k0\<bar> < boundaryJitterTolerance"
    and l: "\<bar>tb_LastReset b - budget_grid b k\<bar> < boundaryJitterTolerance"
    and "k0 \<le> k" "tb_LastReset b - a < 2 ^ 63 - 8 * day_ns"
  shows "WindowsSinceAnchor b = k - k0"
proof -
  let ?c = "last (tb_ResetDuration b)" and ?q = "QuarterStartMonth b" and ?t = boundaryJitterTolerance
  have grid: "budget_grid b = grid_start ?c ?q" using assms(1) by (simp add: budget_grid_def fun_eq_iff)
  have day: "grid_start ?c ?q n + 4 * ?t < grid_start ?c ?q (n + 1)" for n
  proof -
    have "grid_start ?c ?q n + day_ns \<le> grid_start ?c ?q (n + 1)"
      using calendar.step [of ?c ?q n] by (simp add: grid_start_def midnight_def)
    then show ?thesis by (simp add: boundaryJitterTolerance_def)
  qed
  have idx: "grid_index ?c ?q (t + ?t) = n" if "\<bar>t - grid_start ?c ?q n\<bar> < ?t" for t n
  proof -
    have "n \<le> grid_index ?c ?q (t + ?t)" "\<not> n + 1 \<le> grid_index ?c ?q (t + ?t)"
      using that day [of n] by (auto simp: calendar.start_le_index [symmetric])
    then show ?thesis by linarith
  qed
  show ?thesis
  proof (cases "k = k0")
    case True
    then have "\<not> a + ?t < tb_LastReset b \<or> CountCalendarPeriods (tb_ResetDuration b) (a + ?t) (tb_LastReset b + ?t) ?q = 0"
      using idx [of a k0] idx [of "tb_LastReset b" k0] a l grid assms(1,6)
        CountCalendarPeriods_grid [of "tb_ResetDuration b" "a + ?t" "tb_LastReset b + ?t" ?q]
      by (auto simp: calendar_budget_def)
    then show ?thesis
      using True assms(1,2) by (auto simp: WindowsSinceAnchor_def calendar_budget_def)
  next
    case False
    then have "k0 + 1 \<le> k" using assms(5) by linarith
    then have "grid_start ?c ?q (k0 + 1) \<le> grid_start ?c ?q k" by (simp add: calendar.start_le_iff)
    then have later: "a + ?t < tb_LastReset b" using a l day [of k0] unfolding grid by linarith
    have "CountCalendarPeriods (tb_ResetDuration b) (a + ?t) (tb_LastReset b + ?t) ?q = k - k0"
      using CountCalendarPeriods_grid [of "tb_ResetDuration b" "a + ?t" "tb_LastReset b + ?t" ?q]
        idx [of a k0] idx [of "tb_LastReset b" k] a l assms(1,6) later
      unfolding grid by (simp add: calendar_budget_def boundaryJitterTolerance_def)
    then show ?thesis
      using later assms(1,2) alignable_cases(1) by (auto simp: WindowsSinceAnchor_def calendar_budget_def)
  qed
qed

lemma WindowsSinceAnchor_frame:
  "WindowsSinceAnchor (b\<lparr>tb_OverrideCyclesRemaining := n\<rparr>) = WindowsSinceAnchor b"
  "WindowsSinceAnchor (b\<lparr>tb_CurrentUsage := u\<rparr>) = WindowsSinceAnchor b"
  by (cases "tb_OverrideAnchorReset b"; auto simp: WindowsSinceAnchor_def QuarterStartMonth_def split: option.split)+

lemma sdiv_window: "0 \<le> e \<Longrightarrow> e < d \<Longrightarrow> 0 \<le> n \<Longrightarrow> (n * d + e) sdiv d = (n :: int)"
  using div_parts [of e d n]
  by (cases "n = 0") (auto simp: signed_divide_int_def sgn_if mult.commute intro!: add_pos_nonneg mult_pos_pos)

lemma count_windows_rolling:
  assumes "rolling_length b = Some d" "4 * boundaryJitterTolerance < d" "tb_OverrideAnchorReset b = Some a"
    and a: "\<bar>a - budget_grid b k0\<bar> < boundaryJitterTolerance div 2"
    and l: "\<bar>tb_LastReset b - budget_grid b k\<bar> < boundaryJitterTolerance div 2"
    and "k0 \<le> k" "tb_LastReset b - a < 2 ^ 63 - 8 * day_ns"
  shows "WindowsSinceAnchor b = k - k0"
proof -
  let ?t = boundaryJitterTolerance
  have nc: "\<not> calendar_budget b" and d: "ParseDuration (tb_ResetDuration b) = Some d" "0 < d"
    using assms(1,2) by (auto simp: rolling_length_def boundaryJitterTolerance_def split: if_splits)
  define e where "e = tb_LastReset b - a - (k - k0) * d"
  have "budget_grid b k - budget_grid b k0 = (k - k0) * d"
    using nc assms(1) by (simp add: budget_grid_def algebra_simps)
  then have e: "\<bar>e\<bar> < ?t" using a l unfolding e_def boundaryJitterTolerance_def by linarith
  have L: "tb_LastReset b = a + (k - k0) * d + e" by (simp add: e_def)
  have later: "a + ?t < tb_LastReset b \<longleftrightarrow> k0 < k"
  proof (cases "k = k0")
    case False
    then have "1 * d \<le> (k - k0) * d" using assms(6) d(2) by (intro mult_right_mono) auto
    then show ?thesis using False assms(2,6) e L by auto
  qed (use e L in auto)
  have sub: "time_Sub (tb_LastReset b) a = tb_LastReset b - a" if "k0 < k"
    using later that assms(7) by (intro time_Sub_exact) (auto simp: boundaryJitterTolerance_def)
  have w: "wrap64 (tb_LastReset b - a + ?t) = tb_LastReset b - a + ?t" if "k0 < k"
    using later that assms(7) by (intro wrap64_id) (auto simp: boundaryJitterTolerance_def)
  have "(tb_LastReset b - a + ?t) sdiv d = k - k0"
    using sdiv_window [of "e + ?t" d "k - k0"] e assms(2,6) by (simp add: L add.assoc)
  then show ?thesis
    using later sub w nc d assms(3,6) ParseDuration_nonempty [OF d(1)]
    by (auto simp: WindowsSinceAnchor_def calendar_budget_def)
qed



text \<open>Granting an override is all or nothing: a rejected change leaves the row as it was, and an
  accepted one leaves a row whose override state is consistent and active exactly when a mode is
  set, with the limit, the usage and the window untouched.\<close>

theorem set_override_atomic:
  "case SetOverrideAt amount mode cycles anchor b of
     (b', Some err) \<Rightarrow> b' = b
   | (b', None) \<Rightarrow> validateOverride b' = None
       \<and> (HasActiveOverride b' \<longleftrightarrow> mode \<noteq> BudgetOverrideModeNone)
       \<and> (mode = BudgetOverrideModeCycles \<longrightarrow>
            1 \<le> cycles \<and> tb_OverrideCyclesTotal b' = cycles \<and> tb_OverrideAnchorReset b' = Some anchor)
       \<and> tb_MaxLimit b' = tb_MaxLimit b \<and> tb_CurrentUsage b' = tb_CurrentUsage b
       \<and> tb_LastReset b' = tb_LastReset b"
  by (cases mode; cases amount)
    (auto simp: SetOverrideAt_def Let_def validateOverride_def HasActiveOverride_def f_ne_def f_le_def
      split: option.splits if_splits)

theorem set_override_atomic_witness:
  "snd (SetOverrideAt (Fin 5) BudgetOverrideModeCycles 3 7 hourly_budget) = None
   \<and> snd (SetOverrideAt (Fin 5) BudgetOverrideModeCycles 0 7 hourly_budget) \<noteq> None
   \<and> HasActiveOverride (fst (SetOverrideAt (Fin 5) BudgetOverrideModeCycles 3 7 hourly_budget))
   \<and> fst (SetOverrideAt (Fin 5) BudgetOverrideModeCycles 0 7 hourly_budget) = hourly_budget"
proof -
  have 1: "snd (SetOverrideAt (Fin 5) BudgetOverrideModeCycles 3 7 hourly_budget) = None" by code_simp
  have 2: "snd (SetOverrideAt (Fin 5) BudgetOverrideModeCycles 0 7 hourly_budget) \<noteq> None" by code_simp
  show ?thesis
    using 1 2 set_override_atomic [where amount = "Fin 5" and mode = BudgetOverrideModeCycles and cycles = 3 and anchor = 7 and b = hourly_budget]
      set_override_atomic [where amount = "Fin 5" and mode = BudgetOverrideModeCycles and cycles = 0 and anchor = 7 and b = hourly_budget]
    by (auto split: prod.splits option.splits)
qed



text \<open>The product of a day, week, month, quarter or year count with its length is taken in 64 bits
  and not checked: a reset duration of 600 years passes validation as one of about fifteen.\<close>

theorem long_duration_wraps:
  "ParseDuration ''600Y'' = Some 474855926290448384
   \<and> 474855926290448384 < 16 * 365 * day_ns
   \<and> budget_BeforeSave (hourly_budget\<lparr>tb_ResetDuration := ''600Y''\<rparr>) = None"
proof (intro conjI)
  show "ParseDuration ''600Y'' = Some 474855926290448384" by code_simp
  show "budget_BeforeSave (hourly_budget\<lparr>tb_ResetDuration := ''600Y''\<rparr>) = None" by code_simp
qed simp

end
