(* ===== verification/Cas_Register.thy ===== *)
theory Cas_Register
  imports Event_Machine
begin

text \<open>
  Compare-and-swap loops on one entry of a \<open>sync.Map\<close>. A goroutine loads the entry, computes a
  modified copy and swaps it in if the entry is still the one it loaded; otherwise it starts over.
  Entries are pointers to fresh copies, so that two entries are the same exactly when they were
  published by the same swap: an entry is a serial number with its value.

  An operation is given by its effect on the loaded value, \<^const>\<open>None\<close> when it returns without
  writing. Shown: in every interleaving of any number of goroutines the entry is the result of the
  committed operations, one after the other, in the order of their swaps; a swap fails only if
  another one succeeded in between; and what every operation keeps or raises, the loops keep or
  raise (\<open>cas_invariant\<close>, \<open>cas_monotone\<close>).
\<close>

record ('o, 'v) cas_sys =
  cs_entry :: "nat \<times> 'v"
  cs_next :: nat
  cs_threads :: "nat \<Rightarrow> ('o \<times> (nat \<times> 'v) option) option"
  cs_log :: "'o list"

definition cas_init :: "'v \<Rightarrow> ('o, 'v) cas_sys" where
  "cas_init v = \<lparr>cs_entry = (0, v), cs_next = 1, cs_threads = (\<lambda>_. None), cs_log = []\<rparr>"

datatype 'o cas_event = CasStart nat 'o | CasLoad nat | CasSwap nat

definition cas_swap :: "('o \<Rightarrow> 'v \<Rightarrow> 'v option) \<Rightarrow> nat \<Rightarrow> 'o \<Rightarrow> nat \<times> 'v \<Rightarrow> ('o, 'v) cas_sys \<Rightarrow> ('o, 'v) cas_sys" where
  "cas_swap effect i op snap s = (case effect op (snd snap) of
       None \<Rightarrow> s\<lparr>cs_threads := (cs_threads s)(i := None)\<rparr>
     | Some v' \<Rightarrow>
         if fst (cs_entry s) = fst snap
         then s\<lparr>cs_entry := (cs_next s, v'), cs_next := Suc (cs_next s),
                cs_threads := (cs_threads s)(i := None), cs_log := cs_log s @ [op]\<rparr>
         else s\<lparr>cs_threads := (cs_threads s)(i := Some (op, None))\<rparr>)"

fun cas_step :: "('o \<Rightarrow> 'v \<Rightarrow> 'v option) \<Rightarrow> 'o cas_event \<Rightarrow> ('o, 'v) cas_sys \<Rightarrow> ('o, 'v) cas_sys option" where
  "cas_step effect (CasStart i op) s =
     (if cs_threads s i \<noteq> None then None
      else Some (s\<lparr>cs_threads := (cs_threads s)(i := Some (op, None))\<rparr>))"
| "cas_step effect (CasLoad i) s = (case cs_threads s i of
       Some (op, None) \<Rightarrow> Some (s\<lparr>cs_threads := (cs_threads s)(i := Some (op, Some (cs_entry s)))\<rparr>)
     | _ \<Rightarrow> None)"
| "cas_step effect (CasSwap i) s = (case cs_threads s i of
       Some (op, Some snap) \<Rightarrow> Some (cas_swap effect i op snap s)
     | _ \<Rightarrow> None)"

text \<open>Sequential execution of operations that all write.\<close>

fun seq_apply :: "('o \<Rightarrow> 'v \<Rightarrow> 'v option) \<Rightarrow> 'o list \<Rightarrow> 'v \<Rightarrow> 'v option" where
  "seq_apply effect [] v = Some v"
| "seq_apply effect (op # ops) v = (case effect op v of None \<Rightarrow> None | Some v' \<Rightarrow> seq_apply effect ops v')"

lemma seq_apply_append:
  "seq_apply effect (ops @ ops') v =
     (case seq_apply effect ops v of None \<Rightarrow> None | Some v' \<Rightarrow> seq_apply effect ops' v')"
  by (induction ops arbitrary: v) (auto split: option.split)

definition cas_inv :: "('o \<Rightarrow> 'v \<Rightarrow> 'v option) \<Rightarrow> 'v \<Rightarrow> ('o, 'v) cas_sys \<Rightarrow> bool" where
  "cas_inv effect v0 s \<longleftrightarrow>
     fst (cs_entry s) < cs_next s \<and>
     (\<forall>i op p v. cs_threads s i = Some (op, Some (p, v)) \<longrightarrow>
        p < cs_next s \<and> (p = fst (cs_entry s) \<longrightarrow> v = snd (cs_entry s))) \<and>
     seq_apply effect (cs_log s) v0 = Some (snd (cs_entry s))"

lemma cas_inv_init: "cas_inv effect v (cas_init v)"
  by (simp add: cas_inv_def cas_init_def)

lemma cas_inv_swap:
  assumes "cas_inv effect v0 s" "cs_threads s i = Some (op, Some snap)"
  shows "cas_inv effect v0 (cas_swap effect i op snap s)"
proof (cases "effect op (snd snap)")
  case None
  then show ?thesis using assms(1) by (auto simp: cas_swap_def cas_inv_def split: if_splits)
next
  case (Some v')
  obtain p v where snap: "snap = (p, v)" by force
  show ?thesis
  proof (cases "fst (cs_entry s) = p")
    case True
    then have v: "v = snd (cs_entry s)" using assms snap unfolding cas_inv_def by blast
    have old: "p' < cs_next s" if "cs_threads s j = Some (op', Some (p', v''))" for j op' p' v''
      using assms(1) that unfolding cas_inv_def by blast
    show ?thesis
      using assms(1) True Some snap v
      by (auto simp: cas_swap_def cas_inv_def seq_apply_append split: if_splits dest: old)
  next
    case False
    then show ?thesis using assms(1) Some snap by (auto simp: cas_swap_def cas_inv_def split: if_splits)
  qed
qed

lemma cas_inv_step:
  assumes "cas_step effect e s = Some s'" "cas_inv effect v0 s"
  shows "cas_inv effect v0 s'"
proof (cases e)
  case (CasSwap i)
  then show ?thesis using assms cas_inv_swap by (auto split: option.splits prod.splits)
next
  case (CasLoad i)
  then show ?thesis
    using assms by (cases "cs_entry s") (auto simp: cas_inv_def split: option.splits prod.splits if_splits)
qed (use assms in \<open>auto simp: cas_inv_def split: option.splits prod.splits if_splits\<close>)

interpretation cas: invariant_machine "cas_step effect" "cas_init v0" "cas_inv effect v0" for effect v0
  by unfold_locales (auto simp: cas_inv_init intro: cas_inv_step)

lemma cas_linearizable:
  assumes "run_events (cas_step effect) es (cas_init v0) = Some s"
  shows "seq_apply effect (cs_log s) v0 = Some (snd (cs_entry s))"
proof -
  have "cas_inv effect v0 s" by (rule cas.run_safe [OF assms cas_inv_init])
  then show ?thesis by (simp add: cas_inv_def)
qed

text \<open>A failed swap is paid for by another goroutine's success: the entry has changed since the load.\<close>

lemma cas_retry_only_after_commit:
  assumes "cs_threads s i = Some (op, Some snap)" "effect op (snd snap) \<noteq> None"
    "cs_threads (cas_swap effect i op snap s) i = Some (op, None)"
  shows "fst snap \<noteq> fst (cs_entry s)"
  using assms by (auto simp: cas_swap_def split: if_splits)

locale cas_invariant =
  fixes effect :: "'o \<Rightarrow> 'v \<Rightarrow> 'v option"
    and good :: "'v \<Rightarrow> bool"
  assumes keeps: "effect op v = Some v' \<Longrightarrow> good v \<Longrightarrow> good v'"
begin

lemma seq_good: "seq_apply effect ops v = Some v' \<Longrightarrow> good v \<Longrightarrow> good v'"
  by (induction ops arbitrary: v) (auto split: option.splits dest: keeps)

lemma cas_good: "run_events (cas_step effect) es (cas_init v0) = Some s \<Longrightarrow> good v0 \<Longrightarrow> good (snd (cs_entry s))"
  by (rule seq_good [OF cas_linearizable])

end

locale cas_monotone =
  fixes effect :: "'o \<Rightarrow> 'v \<Rightarrow> 'v option"
    and le :: "'v \<Rightarrow> 'v \<Rightarrow> bool"
  assumes le_refl: "le v v"
    and le_trans: "le u v \<Longrightarrow> le v w \<Longrightarrow> le u w"
    and raises: "effect op v = Some v' \<Longrightarrow> le v v'"
begin

lemma seq_le: "seq_apply effect ops v = Some v' \<Longrightarrow> le v v'"
  by (induction ops arbitrary: v) (auto split: option.splits intro: le_refl le_trans dest: raises)

lemma cas_le: "run_events (cas_step effect) es (cas_init v0) = Some s \<Longrightarrow> le v0 (snd (cs_entry s))"
  by (rule seq_le [OF cas_linearizable])

end

end
