(* ===== verification/Governance_Store.thy ===== *)
theory Governance_Store
  imports Governance_Windows Cas_Register
begin

text \<open>
  The in-memory governance store: \<open>src/plugins/governance/store.go\<close>. It keeps the live budgets and
  rate limits in two concurrent maps, the usage last written to the database (the baselines from
  which gossip deltas are computed) and a generation per budget that every reset increments.

  \<^item> Each operation that writes an entry is a compare-and-swap loop. Its effect on the loaded row
    is a function (\<open>bump_clone\<close>, \<open>reset_clone\<close>, \<open>rebase_clone\<close>, \<open>upsert_merge\<close>, \<open>adopt_clone\<close>
    and their rate limit counterparts); the operation on the store applies it to the current
    entry, which is what the loop does when its swap succeeds, and the interleavings are those of
    \<open>Cas_Register\<close>.
  \<^item> The time is an argument. \<open>BumpBudgetUsage\<close> and \<open>BumpRateLimitUsage\<close> read the clock
    several times: they take a clock, a function from readings to instants.
  \<^item> Entries of the maps are never nil and of the right type, so the type assertions are left out.
    Not modelled: the reset hooks and the copies of budgets embedded in virtual keys, teams and
    customers (\<open>refreshReferences\<close>), logging, and the database.

  Shown: applying a reset target closes it, so a usage bump resets at most once; no increment is
  lost and no boundary moves backwards under any interleaving; the override count of a stored
  budget is always the one derived from its grant; a dump drops the rows that a reset made stale;
  what the budget and rate limit checks decide.
\<close>

record budgetDumpRow =
  dr_ID :: string
  dr_CurrentUsage :: float64
  dr_LastReset :: instant
  dr_OverrideAmount :: float64
  dr_OverrideMode :: BudgetOverrideMode
  dr_OverrideCyclesRemaining :: int
  dr_OverrideCyclesTotal :: int
  dr_OverrideAnchorReset :: "instant option"

record GovStore =
  gs_budgets :: "(string, TableBudget) gomap"
  gs_rateLimits :: "(string, TableRateLimit) gomap"
  gs_LastDBUsagesBudgets :: "(string, float64) gomap"
  gs_budgetResetGens :: "(string, uint64) gomap"
  gs_LastDBUsagesTokensRateLimits :: "(string, int) gomap"
  gs_LastDBUsagesRequestsRateLimits :: "(string, int) gomap"

definition emptyGovStore :: GovStore where
  "emptyGovStore = \<lparr>gs_budgets = [], gs_rateLimits = [], gs_LastDBUsagesBudgets = [], gs_budgetResetGens = [],
     gs_LastDBUsagesTokensRateLimits = [], gs_LastDBUsagesRequestsRateLimits = []\<rparr>"

subsection \<open>Effects on a row\<close>

definition bump_clone :: "float64 \<Rightarrow> TableBudget \<Rightarrow> TableBudget" where
  "bump_clone cost old = old\<lparr>tb_CurrentUsage := f_add (tb_CurrentUsage old) cost\<rparr>"

definition apply_reset :: "instant \<Rightarrow> TableBudget \<Rightarrow> TableBudget" where
  "apply_reset newLastReset old =
     RefreshOverrideCyclesRemaining (old\<lparr>tb_CurrentUsage := Fin 0, tb_LastReset := newLastReset\<rparr>)"

definition reset_clone :: "instant \<Rightarrow> TableBudget \<Rightarrow> TableBudget option" where
  "reset_clone newLastReset old =
     (if \<not> tb_LastReset old < newLastReset then None else Some (apply_reset newLastReset old))"

definition rebase_clone :: "float64 \<Rightarrow> instant option \<Rightarrow> TableBudget \<Rightarrow> TableBudget" where
  "rebase_clone newUsage newLastReset old =
     (let clone = old\<lparr>tb_CurrentUsage := newUsage\<rparr>;
          clone = (case newLastReset of
              Some t \<Rightarrow> if tb_LastReset clone < t then clone\<lparr>tb_LastReset := t\<rparr> else clone
            | None \<Rightarrow> clone)
      in RefreshOverrideCyclesRemaining clone)"

definition upsert_merge :: "TableBudget \<Rightarrow> TableBudget \<Rightarrow> TableBudget" where
  "upsert_merge config old = RefreshOverrideCyclesRemaining
     (config\<lparr>tb_CurrentUsage := tb_CurrentUsage old, tb_LastReset := tb_LastReset old\<rparr>)"

definition adopt_clone :: "instant \<Rightarrow> TableBudget \<Rightarrow> TableBudget option" where
  "adopt_clone now old =
     (let (clone, moved) = AdoptCalendarAlignment now (old\<lparr>tb_IsCalendarAligned := True\<rparr>)
      in if \<not> moved then None else Some (RefreshOverrideCyclesRemaining clone))"

definition rl_upsert_merge :: "TableRateLimit \<Rightarrow> TableRateLimit \<Rightarrow> TableRateLimit" where
  "rl_upsert_merge config old = config\<lparr>rl_TokenCurrentUsage := rl_TokenCurrentUsage old,
     rl_TokenLastReset := rl_TokenLastReset old, rl_RequestCurrentUsage := rl_RequestCurrentUsage old,
     rl_RequestLastReset := rl_RequestLastReset old\<rparr>"

definition rl_bump_clone :: "int \<Rightarrow> bool \<Rightarrow> bool \<Rightarrow> TableRateLimit \<Rightarrow> TableRateLimit" where
  "rl_bump_clone tokensUsed shouldUpdateTokens shouldUpdateRequests old =
     (let clone = (if shouldUpdateTokens
                   then old\<lparr>rl_TokenCurrentUsage := wrap64 (rl_TokenCurrentUsage old + tokensUsed)\<rparr> else old)
      in if shouldUpdateRequests
         then clone\<lparr>rl_RequestCurrentUsage := wrap64 (rl_RequestCurrentUsage clone + 1)\<rparr> else clone)"

definition rl_bump_by_clone :: "int \<Rightarrow> int \<Rightarrow> TableRateLimit \<Rightarrow> TableRateLimit" where
  "rl_bump_by_clone tokenDelta requestDelta old =
     old\<lparr>rl_TokenCurrentUsage := wrap64 (rl_TokenCurrentUsage old + tokenDelta),
         rl_RequestCurrentUsage := wrap64 (rl_RequestCurrentUsage old + requestDelta)\<rparr>"

definition rl_reset_clone :: "instant option \<Rightarrow> instant option \<Rightarrow> TableRateLimit \<Rightarrow> TableRateLimit option" where
  "rl_reset_clone tokenNewLastReset requestNewLastReset old =
     (let tok = (case tokenNewLastReset of Some t \<Rightarrow> rl_TokenLastReset old < t | None \<Rightarrow> False);
          req = (case requestNewLastReset of Some t \<Rightarrow> rl_RequestLastReset old < t | None \<Rightarrow> False);
          clone = (if tok then old\<lparr>rl_TokenCurrentUsage := 0, rl_TokenLastReset := the tokenNewLastReset\<rparr> else old);
          clone = (if req then clone\<lparr>rl_RequestCurrentUsage := 0, rl_RequestLastReset := the requestNewLastReset\<rparr> else clone)
      in if \<not> tok \<and> \<not> req then None else Some clone)"

definition rl_rebase_clone ::
    "int \<Rightarrow> int \<Rightarrow> instant option \<Rightarrow> instant option \<Rightarrow> TableRateLimit \<Rightarrow> TableRateLimit" where
  "rl_rebase_clone newTokens newRequests tokenLastReset requestLastReset old =
     (let clone = old\<lparr>rl_TokenCurrentUsage := newTokens, rl_RequestCurrentUsage := newRequests\<rparr>;
          clone = (case tokenLastReset of
              Some t \<Rightarrow> if rl_TokenLastReset clone < t then clone\<lparr>rl_TokenLastReset := t\<rparr> else clone
            | None \<Rightarrow> clone)
      in case requestLastReset of
          Some t \<Rightarrow> if rl_RequestLastReset clone < t then clone\<lparr>rl_RequestLastReset := t\<rparr> else clone
        | None \<Rightarrow> clone)"

definition rl_adopt_clone :: "instant \<Rightarrow> TableRateLimit \<Rightarrow> TableRateLimit option" where
  "rl_adopt_clone now old =
     (let (clone, moved) = rl_AdoptCalendarAlignment now (old\<lparr>rl_IsCalendarAligned := True\<rparr>)
      in if \<not> moved then None else Some clone)"

subsection \<open>Budgets in the store\<close>

definition LoadBudget :: "string \<Rightarrow> GovStore \<Rightarrow> TableBudget option" where
  "LoadBudget budgetID gs = mapget (gs_budgets gs) budgetID"

definition put_budget :: "string \<Rightarrow> TableBudget \<Rightarrow> GovStore \<Rightarrow> GovStore" where
  "put_budget budgetID b gs = gs\<lparr>gs_budgets := mapput budgetID b (gs_budgets gs)\<rparr>"

definition storeBudget :: "string \<Rightarrow> TableBudget option \<Rightarrow> GovStore \<Rightarrow> GovStore" where
  "storeBudget budgetID budget gs = (case budget of
       None \<Rightarrow> gs
     | Some b \<Rightarrow> put_budget budgetID (RefreshOverrideCyclesRemaining b) gs)"

definition UpsertBudgetConfig :: "string \<Rightarrow> TableBudget option \<Rightarrow> GovStore \<Rightarrow> GovStore" where
  "UpsertBudgetConfig budgetID config gs = (case config of
       None \<Rightarrow> gs
     | Some c \<Rightarrow> (case LoadBudget budgetID gs of
         None \<Rightarrow> put_budget budgetID (RefreshOverrideCyclesRemaining c) gs
       | Some old \<Rightarrow> put_budget budgetID (upsert_merge c old) gs))"

definition markBudgetResetLocked :: "string \<Rightarrow> GovStore \<Rightarrow> GovStore" where
  "markBudgetResetLocked budgetID gs =
     (let g = (case mapget (gs_budgetResetGens gs) budgetID of Some n \<Rightarrow> n | None \<Rightarrow> 0)
      in gs\<lparr>gs_budgetResetGens := mapput budgetID (g + 1) (gs_budgetResetGens gs)\<rparr>)"

definition SetBudgetDBBaseline :: "string \<Rightarrow> float64 \<Rightarrow> GovStore \<Rightarrow> GovStore" where
  "SetBudgetDBBaseline budgetID currentUsage gs =
     gs\<lparr>gs_LastDBUsagesBudgets := mapput budgetID currentUsage (gs_LastDBUsagesBudgets gs)\<rparr>"

text \<open>Clearing the baseline and marking the reset are one critical section.\<close>

definition clear_baseline :: "string \<Rightarrow> GovStore \<Rightarrow> GovStore" where
  "clear_baseline budgetID gs = markBudgetResetLocked budgetID (SetBudgetDBBaseline budgetID (Fin 0) gs)"

definition DeleteBudget :: "string \<Rightarrow> GovStore \<Rightarrow> GovStore" where
  "DeleteBudget budgetID gs = markBudgetResetLocked budgetID
     (gs\<lparr>gs_budgets := mapdel budgetID (gs_budgets gs),
         gs_LastDBUsagesBudgets := mapdel budgetID (gs_LastDBUsagesBudgets gs)\<rparr>)"

definition reset_gen :: "(string, uint64) gomap \<Rightarrow> string \<Rightarrow> uint64" where
  "reset_gen gens budgetID = (case mapget gens budgetID of Some n \<Rightarrow> n | None \<Rightarrow> 0)"

definition budgetResetGensSnapshot :: "GovStore \<Rightarrow> (string, uint64) gomap" where
  "budgetResetGensSnapshot gs = gs_budgetResetGens gs"

definition keepUnresetRows :: "budgetDumpRow list \<Rightarrow> (string, uint64) gomap \<Rightarrow> GovStore \<Rightarrow> budgetDumpRow list" where
  "keepUnresetRows batch snapshot gs =
     (let stale = length (filter (\<lambda>row. reset_gen (gs_budgetResetGens gs) (dr_ID row) \<noteq> reset_gen snapshot (dr_ID row)) batch)
      in if stale = 0 then batch
         else filter (\<lambda>row. reset_gen (gs_budgetResetGens gs) (dr_ID row) = reset_gen snapshot (dr_ID row)) batch)"

definition ResetBudgetAt :: "string \<Rightarrow> instant \<Rightarrow> GovStore \<Rightarrow> GovStore \<times> TableBudget option" where
  "ResetBudgetAt budgetID newLastReset gs = (case LoadBudget budgetID gs of
       None \<Rightarrow> (gs, None)
     | Some old \<Rightarrow> (case reset_clone newLastReset old of
         None \<Rightarrow> (gs, None)
       | Some clone \<Rightarrow> (put_budget budgetID clone gs, Some clone)))"

definition RebaseBudget ::
    "string \<Rightarrow> float64 \<Rightarrow> instant option \<Rightarrow> GovStore \<Rightarrow> GovStore \<times> TableBudget option" where
  "RebaseBudget budgetID newUsage newLastReset gs = (case LoadBudget budgetID gs of
       None \<Rightarrow> (gs, None)
     | Some old \<Rightarrow> (let clone = rebase_clone newUsage newLastReset old
         in (put_budget budgetID clone gs, Some clone)))"

definition budgetResetTarget :: "TableBudget \<Rightarrow> instant \<Rightarrow> instant option" where
  "budgetResetTarget budget now =
     (if tb_ResetDuration budget = '''' then None
      else if (\<not> tb_IsCalendarAligned budget \<or> \<not> IsCalendarAlignableDuration (tb_ResetDuration budget))
              \<and> (case ParseDuration (tb_ResetDuration budget) of None \<Rightarrow> True | Some d \<Rightarrow> d \<le> 0)
      then None
      else let target = WindowStart budget now in
        if tb_LastReset budget < target then Some target else None)"

definition resetExpiredBudgetFromSnapshot ::
    "instant \<Rightarrow> TableBudget \<Rightarrow> GovStore \<Rightarrow> GovStore \<times> TableBudget option" where
  "resetExpiredBudgetFromSnapshot now budget gs = (case budgetResetTarget budget now of
       None \<Rightarrow> (gs, None)
     | Some newLastReset \<Rightarrow> (case ResetBudgetAt (tb_ID budget) newLastReset gs of
         (gs', None) \<Rightarrow> (gs', None)
       | (gs', Some resetBudget) \<Rightarrow> (clear_baseline (tb_ID resetBudget) gs', Some resetBudget)))"

definition ResetBudgetUsageInMemory :: "string \<Rightarrow> GovStore \<Rightarrow> GovStore \<times> TableBudget option" where
  "ResetBudgetUsageInMemory budgetID gs = (case RebaseBudget budgetID (Fin 0) None gs of
       (gs', None) \<Rightarrow> (gs', None)
     | (gs', Some reset) \<Rightarrow> (clear_baseline budgetID gs', Some reset))"

definition AdoptCalendarAlignmentInMemory :: "string \<Rightarrow> instant \<Rightarrow> GovStore \<Rightarrow> GovStore \<times> bool" where
  "AdoptCalendarAlignmentInMemory budgetID now gs = (case LoadBudget budgetID gs of
       None \<Rightarrow> (gs, False)
     | Some old \<Rightarrow> (case adopt_clone now old of
         None \<Rightarrow> (gs, False)
       | Some clone \<Rightarrow> (put_budget budgetID clone gs, True)))"

text \<open>One sweep visits the budgets it is given, all of them for an empty list, each with the value
  it finds there when it comes to it.\<close>

fun reset_budgets :: "instant \<Rightarrow> string list \<Rightarrow> GovStore \<Rightarrow> GovStore \<times> TableBudget list" where
  "reset_budgets now [] gs = (gs, [])"
| "reset_budgets now (i # ids) gs = (case LoadBudget i gs of
       None \<Rightarrow> reset_budgets now ids gs
     | Some budget \<Rightarrow> (case resetExpiredBudgetFromSnapshot now budget gs of
         (gs1, r) \<Rightarrow> (case reset_budgets now ids gs1 of
           (gs2, rs) \<Rightarrow> (gs2, (case r of None \<Rightarrow> rs | Some b \<Rightarrow> b # rs)))))"

definition ResetExpiredBudgetsInMemory ::
    "instant \<Rightarrow> string list \<Rightarrow> GovStore \<Rightarrow> GovStore \<times> TableBudget list" where
  "ResetExpiredBudgetsInMemory now budgetIDs gs =
     reset_budgets now (if budgetIDs = [] then map fst (gs_budgets gs) else budgetIDs) gs"

definition maxRequestTimeResetAttempts :: nat where
  "maxRequestTimeResetAttempts = 3"

text \<open>The loop of \<open>BumpBudgetUsage\<close>: \<open>k\<close> resets may still be delegated, \<open>i\<close> iterations were made;
  iteration \<open>i\<close> reads the clock for its own target and the sweep reads it again.\<close>

fun bump_budget_loop :: "(nat \<Rightarrow> instant) \<Rightarrow> string \<Rightarrow> float64 \<Rightarrow> nat \<Rightarrow> nat \<Rightarrow> GovStore \<Rightarrow> GovStore" where
  "bump_budget_loop clk budgetID cost k i gs = (case LoadBudget budgetID gs of
       None \<Rightarrow> gs
     | Some old \<Rightarrow> (case budgetResetTarget old (clk (2 * i)) of
         None \<Rightarrow> put_budget budgetID (bump_clone cost old) gs
       | Some target \<Rightarrow> (case k of
           Suc k' \<Rightarrow> bump_budget_loop clk budgetID cost k' (Suc i)
             (fst (ResetExpiredBudgetsInMemory (clk (2 * i + 1)) [budgetID] gs))
         | 0 \<Rightarrow> put_budget budgetID (bump_clone cost (apply_reset target old)) (clear_baseline budgetID gs))))"

declare bump_budget_loop.simps [simp del]

definition BumpBudgetUsage :: "(nat \<Rightarrow> instant) \<Rightarrow> string \<Rightarrow> float64 \<Rightarrow> GovStore \<Rightarrow> GovStore" where
  "BumpBudgetUsage clk budgetID cost gs = bump_budget_loop clk budgetID cost maxRequestTimeResetAttempts 0 gs"

subsection \<open>Rate limits in the store\<close>

definition LoadRateLimit :: "string \<Rightarrow> GovStore \<Rightarrow> TableRateLimit option" where
  "LoadRateLimit rateLimitID gs = mapget (gs_rateLimits gs) rateLimitID"

definition put_rateLimit :: "string \<Rightarrow> TableRateLimit \<Rightarrow> GovStore \<Rightarrow> GovStore" where
  "put_rateLimit rateLimitID rl gs = gs\<lparr>gs_rateLimits := mapput rateLimitID rl (gs_rateLimits gs)\<rparr>"

definition UpsertRateLimitConfig :: "string \<Rightarrow> TableRateLimit option \<Rightarrow> GovStore \<Rightarrow> GovStore" where
  "UpsertRateLimitConfig rateLimitID config gs = (case config of
       None \<Rightarrow> gs
     | Some c \<Rightarrow> (case LoadRateLimit rateLimitID gs of
         None \<Rightarrow> put_rateLimit rateLimitID c gs
       | Some old \<Rightarrow> put_rateLimit rateLimitID (rl_upsert_merge c old) gs))"

definition SetRateLimitDBBaseline :: "string \<Rightarrow> int \<Rightarrow> int \<Rightarrow> GovStore \<Rightarrow> GovStore" where
  "SetRateLimitDBBaseline rateLimitID tokenUsage requestUsage gs =
     gs\<lparr>gs_LastDBUsagesTokensRateLimits := mapput rateLimitID tokenUsage (gs_LastDBUsagesTokensRateLimits gs),
        gs_LastDBUsagesRequestsRateLimits := mapput rateLimitID requestUsage (gs_LastDBUsagesRequestsRateLimits gs)\<rparr>"

definition DeleteRateLimit :: "string \<Rightarrow> GovStore \<Rightarrow> GovStore" where
  "DeleteRateLimit rateLimitID gs =
     gs\<lparr>gs_rateLimits := mapdel rateLimitID (gs_rateLimits gs),
        gs_LastDBUsagesTokensRateLimits := mapdel rateLimitID (gs_LastDBUsagesTokensRateLimits gs),
        gs_LastDBUsagesRequestsRateLimits := mapdel rateLimitID (gs_LastDBUsagesRequestsRateLimits gs)\<rparr>"

definition BumpRateLimitUsageBy :: "string \<Rightarrow> int \<Rightarrow> int \<Rightarrow> GovStore \<Rightarrow> GovStore" where
  "BumpRateLimitUsageBy rateLimitID tokenDelta requestDelta gs =
     (if tokenDelta = 0 \<and> requestDelta = 0 then gs
      else case LoadRateLimit rateLimitID gs of
          None \<Rightarrow> gs
        | Some old \<Rightarrow> put_rateLimit rateLimitID (rl_bump_by_clone tokenDelta requestDelta old) gs)"

definition ResetRateLimitAt ::
    "string \<Rightarrow> instant option \<Rightarrow> instant option \<Rightarrow> GovStore \<Rightarrow> GovStore \<times> TableRateLimit option" where
  "ResetRateLimitAt rateLimitID tokenNewLastReset requestNewLastReset gs =
     (if tokenNewLastReset = None \<and> requestNewLastReset = None then (gs, None)
      else case LoadRateLimit rateLimitID gs of
          None \<Rightarrow> (gs, None)
        | Some old \<Rightarrow> (case rl_reset_clone tokenNewLastReset requestNewLastReset old of
            None \<Rightarrow> (gs, None)
          | Some clone \<Rightarrow> (put_rateLimit rateLimitID clone gs, Some clone)))"

definition RebaseRateLimit ::
    "string \<Rightarrow> int \<Rightarrow> int \<Rightarrow> instant option \<Rightarrow> instant option \<Rightarrow> GovStore \<Rightarrow> GovStore \<times> TableRateLimit option" where
  "RebaseRateLimit rateLimitID newTokens newRequests tokenLastReset requestLastReset gs =
     (case LoadRateLimit rateLimitID gs of
        None \<Rightarrow> (gs, None)
      | Some old \<Rightarrow> (let clone = rl_rebase_clone newTokens newRequests tokenLastReset requestLastReset old
          in (put_rateLimit rateLimitID clone gs, Some clone)))"

definition AdoptRateLimitCalendarAlignmentInMemory :: "string \<Rightarrow> instant \<Rightarrow> GovStore \<Rightarrow> GovStore \<times> bool" where
  "AdoptRateLimitCalendarAlignmentInMemory rateLimitID now gs = (case LoadRateLimit rateLimitID gs of
       None \<Rightarrow> (gs, False)
     | Some old \<Rightarrow> (case rl_adopt_clone now old of
         None \<Rightarrow> (gs, False)
       | Some clone \<Rightarrow> (put_rateLimit rateLimitID clone gs, True)))"

definition rateLimitResetTarget ::
    "string option \<Rightarrow> bool \<Rightarrow> instant \<Rightarrow> instant \<Rightarrow> instant \<Rightarrow> instant option" where
  "rateLimitResetTarget resetDuration calendarAligned anchor lastReset now = (case resetDuration of
       None \<Rightarrow> None
     | Some s \<Rightarrow>
         if calendarAligned \<and> IsCalendarAlignableDuration s
         then let period = GetCalendarPeriodStart s now 1 in if lastReset < period then Some period else None
         else (case ParseDuration s of
             None \<Rightarrow> None
           | Some duration \<Rightarrow>
               if duration \<le> 0 then None
               else let target = RollingWindowStart (if IsZero anchor then lastReset else anchor) duration now
                    in if lastReset < target then Some target else None))"

definition rateLimitResetTargets :: "TableRateLimit \<Rightarrow> instant \<Rightarrow> instant option \<times> instant option" where
  "rateLimitResetTargets rateLimit now =
     (rateLimitResetTarget (rl_TokenResetDuration rateLimit) (rl_IsCalendarAligned rateLimit)
        (rl_CreatedAt rateLimit) (rl_TokenLastReset rateLimit) now,
      rateLimitResetTarget (rl_RequestResetDuration rateLimit) (rl_IsCalendarAligned rateLimit)
        (rl_CreatedAt rateLimit) (rl_RequestLastReset rateLimit) now)"

definition clear_rl_baselines :: "string \<Rightarrow> bool \<Rightarrow> bool \<Rightarrow> GovStore \<Rightarrow> GovStore" where
  "clear_rl_baselines rateLimitID tok req gs =
     (let gs = (if tok then gs\<lparr>gs_LastDBUsagesTokensRateLimits :=
                    mapput rateLimitID 0 (gs_LastDBUsagesTokensRateLimits gs)\<rparr> else gs)
      in if req then gs\<lparr>gs_LastDBUsagesRequestsRateLimits :=
                    mapput rateLimitID 0 (gs_LastDBUsagesRequestsRateLimits gs)\<rparr> else gs)"

definition resetExpiredRateLimitFromSnapshot ::
    "instant \<Rightarrow> TableRateLimit \<Rightarrow> GovStore \<Rightarrow> GovStore \<times> TableRateLimit option" where
  "resetExpiredRateLimitFromSnapshot now rateLimit gs =
     (case rateLimitResetTargets rateLimit now of (tok, req) \<Rightarrow>
        if tok = None \<and> req = None then (gs, None)
        else (case ResetRateLimitAt (rl_ID rateLimit) tok req gs of
            (gs', None) \<Rightarrow> (gs', None)
          | (gs', Some rl) \<Rightarrow> (clear_rl_baselines (rl_ID rl) (tok \<noteq> None) (req \<noteq> None) gs', Some rl)))"

fun reset_rateLimits :: "instant \<Rightarrow> string list \<Rightarrow> GovStore \<Rightarrow> GovStore \<times> TableRateLimit list" where
  "reset_rateLimits now [] gs = (gs, [])"
| "reset_rateLimits now (i # ids) gs = (case LoadRateLimit i gs of
       None \<Rightarrow> reset_rateLimits now ids gs
     | Some rl \<Rightarrow> (case resetExpiredRateLimitFromSnapshot now rl gs of
         (gs1, r) \<Rightarrow> (case reset_rateLimits now ids gs1 of
           (gs2, rs) \<Rightarrow> (gs2, (case r of None \<Rightarrow> rs | Some b \<Rightarrow> b # rs)))))"

definition ResetExpiredRateLimitsInMemory ::
    "instant \<Rightarrow> string list \<Rightarrow> GovStore \<Rightarrow> GovStore \<times> TableRateLimit list" where
  "ResetExpiredRateLimitsInMemory now rateLimitIDs gs =
     reset_rateLimits now (if rateLimitIDs = [] then map fst (gs_rateLimits gs) else rateLimitIDs) gs"

definition rl_apply_reset :: "instant option \<Rightarrow> instant option \<Rightarrow> TableRateLimit \<Rightarrow> TableRateLimit" where
  "rl_apply_reset tok req old =
     (let clone = (case tok of Some t \<Rightarrow> old\<lparr>rl_TokenCurrentUsage := 0, rl_TokenLastReset := t\<rparr> | None \<Rightarrow> old)
      in case req of Some t \<Rightarrow> clone\<lparr>rl_RequestCurrentUsage := 0, rl_RequestLastReset := t\<rparr> | None \<Rightarrow> clone)"

fun bump_ratelimit_loop ::
    "(nat \<Rightarrow> instant) \<Rightarrow> string \<Rightarrow> int \<Rightarrow> bool \<Rightarrow> bool \<Rightarrow> nat \<Rightarrow> nat \<Rightarrow> GovStore \<Rightarrow> GovStore" where
  "bump_ratelimit_loop clk rateLimitID tokensUsed doTokens doRequests k i gs = (case LoadRateLimit rateLimitID gs of
       None \<Rightarrow> gs
     | Some old \<Rightarrow> (case rateLimitResetTargets old (clk (2 * i)) of (tok, req) \<Rightarrow>
         if tok = None \<and> req = None
         then put_rateLimit rateLimitID (rl_bump_clone tokensUsed doTokens doRequests old) gs
         else (case k of
             Suc k' \<Rightarrow> bump_ratelimit_loop clk rateLimitID tokensUsed doTokens doRequests k' (Suc i)
               (fst (ResetExpiredRateLimitsInMemory (clk (2 * i + 1)) [rateLimitID] gs))
           | 0 \<Rightarrow> put_rateLimit rateLimitID
                (rl_bump_clone tokensUsed doTokens doRequests (rl_apply_reset tok req old))
                (clear_rl_baselines rateLimitID (tok \<noteq> None) (req \<noteq> None) gs))))"

declare bump_ratelimit_loop.simps [simp del]

definition BumpRateLimitUsage ::
    "(nat \<Rightarrow> instant) \<Rightarrow> string \<Rightarrow> int \<Rightarrow> bool \<Rightarrow> bool \<Rightarrow> GovStore \<Rightarrow> GovStore" where
  "BumpRateLimitUsage clk rateLimitID tokensUsed shouldUpdateTokens shouldUpdateRequests gs =
     bump_ratelimit_loop clk rateLimitID tokensUsed shouldUpdateTokens shouldUpdateRequests
       maxRequestTimeResetAttempts 0 gs"

subsection \<open>Checks\<close>

datatype Decision = DecisionAllow | DecisionVirtualKeyNotFound | DecisionVirtualKeyBlocked
  | DecisionRateLimited | DecisionBudgetExceeded | DecisionTokenLimited | DecisionRequestLimited
  | DecisionModelBlocked | DecisionProviderBlocked | DecisionMCPToolBlocked

text \<open>The maps from an entity's name to its rows are association lists, in one of the orders in which
  Go may range over them. The text of a budget error leaves out the two amounts.\<close>

type_synonym EntityWiseBudgets = "(string, TableBudget list) gomap"
type_synonym EntityWiseRateLimits = "(string, TableRateLimit list) gomap"

definition baseline_of :: "('k, int) gomap \<Rightarrow> 'k \<Rightarrow> int" where
  "baseline_of m k = (case mapget m k of Some v \<Rightarrow> v | None \<Rightarrow> 0)"

definition limit_expired :: "string option \<Rightarrow> instant \<Rightarrow> instant \<Rightarrow> bool" where
  "limit_expired resetDuration lastReset now = (case resetDuration of
       None \<Rightarrow> False
     | Some s \<Rightarrow> (case ParseDuration s of
         None \<Rightarrow> False
       | Some duration \<Rightarrow> duration \<le> time_Sub now lastReset))"

definition violation_text :: "string \<Rightarrow> int \<Rightarrow> int \<Rightarrow> string option \<Rightarrow> string" where
  "violation_text kind used limit resetDuration =
     kind @ '' limit exceeded ('' @ strconv_Itoa used @ ''/'' @ strconv_Itoa limit @ '', resets every ''
       @ (case resetDuration of Some s \<Rightarrow> s | None \<Rightarrow> ''unknown'') @ '')''"

definition token_violations :: "(string, int) gomap \<Rightarrow> instant \<Rightarrow> TableRateLimit \<Rightarrow> string list" where
  "token_violations tokensBaselines now rl =
     (let used = wrap64 (rl_TokenCurrentUsage rl + baseline_of tokensBaselines (rl_ID rl))
      in if \<not> limit_expired (rl_TokenResetDuration rl) (rl_TokenLastReset rl) now
         then (case rl_TokenMaxLimit rl of
             Some m \<Rightarrow> if m \<le> used then [violation_text ''token'' used m (rl_TokenResetDuration rl)] else []
           | None \<Rightarrow> [])
         else [])"

definition request_violations :: "(string, int) gomap \<Rightarrow> instant \<Rightarrow> TableRateLimit \<Rightarrow> string list" where
  "request_violations requestsBaselines now rl =
     (let used = wrap64 (rl_RequestCurrentUsage rl + baseline_of requestsBaselines (rl_ID rl))
      in if \<not> limit_expired (rl_RequestResetDuration rl) (rl_RequestLastReset rl) now
         then (case rl_RequestMaxLimit rl of
             Some m \<Rightarrow> if m \<le> used then [violation_text ''request'' used m (rl_RequestResetDuration rl)] else []
           | None \<Rightarrow> [])
         else [])"

definition violations_decision :: "string list \<Rightarrow> Decision" where
  "violations_decision violations = (case violations of
       [v] \<Rightarrow> if strings_Contains v ''token'' then DecisionTokenLimited
              else if strings_Contains v ''request'' then DecisionRequestLimited
              else DecisionRateLimited
     | _ \<Rightarrow> DecisionRateLimited)"

definition join_space :: "string list \<Rightarrow> string" where
  "join_space xs = ''['' @ concat (case xs of [] \<Rightarrow> [] | x # ys \<Rightarrow> x # map (\<lambda>y. CHR '' '' # y) ys) @ '']''"

fun check_ratelimits ::
    "string \<Rightarrow> TableRateLimit list \<Rightarrow> (string, int) gomap \<Rightarrow> (string, int) gomap \<Rightarrow> instant \<Rightarrow> (Decision \<times> string) option" where
  "check_ratelimits entity [] tb rb now = None"
| "check_ratelimits entity (rl # rls) tb rb now =
     (let violations = token_violations tb now rl @ request_violations rb now rl
      in if violations \<noteq> []
         then Some (violations_decision violations,
                ''rate limit violated for '' @ entity @ '': '' @ join_space violations)
         else check_ratelimits entity rls tb rb now)"

fun CheckRateLimit ::
    "EntityWiseRateLimits \<Rightarrow> (string, int) gomap \<Rightarrow> (string, int) gomap \<Rightarrow> instant \<Rightarrow> Decision \<times> string option" where
  "CheckRateLimit [] tb rb now = (DecisionAllow, None)"
| "CheckRateLimit ((entity, rateLimits) # es) tb rb now = (case check_ratelimits entity rateLimits tb rb now of
       Some (d, err) \<Rightarrow> (d, Some err)
     | None \<Rightarrow> CheckRateLimit es tb rb now)"

definition budget_exceeded :: "(string, float64) gomap \<Rightarrow> instant \<Rightarrow> TableBudget \<Rightarrow> bool" where
  "budget_exceeded baselines now budget =
     (if budgetResetTarget budget now \<noteq> None then False
      else let baseline = (case mapget baselines (tb_ID budget) of Some v \<Rightarrow> v | None \<Rightarrow> Fin 0)
        in f_le (EffectiveMaxLimit budget) (f_add (tb_CurrentUsage budget) baseline))"

fun check_budgets :: "string \<Rightarrow> TableBudget list \<Rightarrow> (string, float64) gomap \<Rightarrow> instant \<Rightarrow> bool" where
  "check_budgets entity [] baselines now = False"
| "check_budgets entity (b # bs) baselines now =
     (if budget_exceeded baselines now b then True else check_budgets entity bs baselines now)"

fun CheckBudget :: "EntityWiseBudgets \<Rightarrow> (string, float64) gomap \<Rightarrow> instant \<Rightarrow> Decision \<times> string option" where
  "CheckBudget [] baselines now = (DecisionAllow, None)"
| "CheckBudget ((entity, budgets) # es) baselines now =
     (if check_budgets entity budgets baselines now
      then (DecisionBudgetExceeded, Some (entity @ '' budget exceeded''))
      else CheckBudget es baselines now)"

subsection \<open>Dumps\<close>

definition dump_row :: "(string, float64) gomap \<Rightarrow> TableBudget \<Rightarrow> budgetDumpRow" where
  "dump_row baselines b =
     \<lparr>dr_ID = tb_ID b,
      dr_CurrentUsage = (case mapget baselines (tb_ID b) of
          Some v \<Rightarrow> f_add (tb_CurrentUsage b) v | None \<Rightarrow> tb_CurrentUsage b),
      dr_LastReset = tb_LastReset b, dr_OverrideAmount = tb_OverrideAmount b,
      dr_OverrideMode = tb_OverrideMode b, dr_OverrideCyclesRemaining = tb_OverrideCyclesRemaining b,
      dr_OverrideCyclesTotal = tb_OverrideCyclesTotal b, dr_OverrideAnchorReset = tb_OverrideAnchorReset b\<rparr>"

fun string_le :: "string \<Rightarrow> string \<Rightarrow> bool" where
  "string_le [] t = True"
| "string_le (c # s) [] = False"
| "string_le (c # s) (d # t) = ((of_char c :: nat) < of_char d \<or> c = d \<and> string_le s t)"

fun insert_row :: "budgetDumpRow \<Rightarrow> budgetDumpRow list \<Rightarrow> budgetDumpRow list" where
  "insert_row r [] = [r]"
| "insert_row r (x # xs) = (if string_le (dr_ID r) (dr_ID x) then r # x # xs else x # insert_row r xs)"

definition sort_rows :: "budgetDumpRow list \<Rightarrow> budgetDumpRow list" where
  "sort_rows rows = foldr insert_row rows []"

definition snapshotBudgetRows ::
    "(string, float64) gomap \<Rightarrow> GovStore \<Rightarrow> budgetDumpRow list \<times> (string, uint64) gomap" where
  "snapshotBudgetRows baselines gs =
     (sort_rows (map (\<lambda>(k, b). dump_row baselines b) (gs_budgets gs)), budgetResetGensSnapshot gs)"

subsection \<open>A reset target closes\<close>

lemma Refresh_frame [simp]:
  "tb_ID (RefreshOverrideCyclesRemaining b) = tb_ID b"
  "tb_LastReset (RefreshOverrideCyclesRemaining b) = tb_LastReset b"
  "tb_CurrentUsage (RefreshOverrideCyclesRemaining b) = tb_CurrentUsage b"
  "tb_MaxLimit (RefreshOverrideCyclesRemaining b) = tb_MaxLimit b"
  "tb_ResetDuration (RefreshOverrideCyclesRemaining b) = tb_ResetDuration b"
  "tb_IsCalendarAligned (RefreshOverrideCyclesRemaining b) = tb_IsCalendarAligned b"
  "tb_ResetConfig (RefreshOverrideCyclesRemaining b) = tb_ResetConfig b"
  "tb_CreatedAt (RefreshOverrideCyclesRemaining b) = tb_CreatedAt b"
  by (auto simp: RefreshOverrideCyclesRemaining_def ClearOverride_def Let_def)

lemma apply_reset_frame [simp]:
  "tb_ID (apply_reset t b) = tb_ID b"
  "tb_LastReset (apply_reset t b) = t"
  "tb_CurrentUsage (apply_reset t b) = Fin 0"
  "tb_ResetDuration (apply_reset t b) = tb_ResetDuration b"
  "tb_IsCalendarAligned (apply_reset t b) = tb_IsCalendarAligned b"
  "tb_ResetConfig (apply_reset t b) = tb_ResetConfig b"
  "tb_CreatedAt (apply_reset t b) = tb_CreatedAt b"
  by (simp_all add: apply_reset_def)

definition fixed_grid :: "TableBudget \<Rightarrow> bool" where
  "fixed_grid b \<longleftrightarrow> has_grid b \<and> (calendar_budget b \<or> \<not> IsZero (tb_CreatedAt b))"

lemma WindowStart_reset:
  assumes "fixed_grid b"
  shows "WindowStart (apply_reset t b) now = WindowStart b now"
  using assms ParseDuration_nonempty alignable_cases(1)
  by (auto simp: WindowStart_def fixed_grid_def has_grid_def rolling_length_def calendar_budget_def
      QuarterStartMonth_def split: option.splits if_splits)

lemma budgetResetTarget_grid:
  "has_grid b \<Longrightarrow> budgetResetTarget b now =
     (if tb_LastReset b < WindowStart b now then Some (WindowStart b now) else None)"
  using ParseDuration_nonempty alignable_cases(1)
  by (auto simp: budgetResetTarget_def has_grid_def rolling_length_def calendar_budget_def Let_def
      split: option.splits if_splits)

lemma has_grid_reset [simp]: "has_grid (apply_reset t b) = has_grid b"
  by (simp add: has_grid_def rolling_length_def calendar_budget_def)

lemma target_closes:
  assumes "fixed_grid b" "WindowStart b now = w"
  shows "budgetResetTarget (apply_reset w b) now = None"
  using assms WindowStart_reset [OF assms(1)] by (simp add: budgetResetTarget_grid fixed_grid_def)

lemma put_budget_simps [simp]:
  "LoadBudget k (put_budget i b gs) = (if k = i then Some b else LoadBudget k gs)"
  "gs_budgetResetGens (put_budget i b gs) = gs_budgetResetGens gs"
  "gs_LastDBUsagesBudgets (put_budget i b gs) = gs_LastDBUsagesBudgets gs"
  by (simp_all add: LoadBudget_def put_budget_def)

lemma clear_baseline_simps [simp]:
  "LoadBudget k (clear_baseline i gs) = LoadBudget k gs"
  "gs_budgets (clear_baseline i gs) = gs_budgets gs"
  by (simp_all add: LoadBudget_def clear_baseline_def markBudgetResetLocked_def SetBudgetDBBaseline_def Let_def)

lemma put_clear_put:
  "put_budget i b' (clear_baseline j (put_budget i b gs)) = put_budget i b' (clear_baseline j gs)"
  by (simp add: put_budget_def clear_baseline_def markBudgetResetLocked_def SetBudgetDBBaseline_def Let_def)

lemma sweep_one:
  assumes "LoadBudget i gs = Some b" "tb_ID b = i" "budgetResetTarget b now = Some t" "tb_LastReset b < t"
  shows "fst (ResetExpiredBudgetsInMemory now [i] gs) = clear_baseline i (put_budget i (apply_reset t b) gs)"
  using assms
  by (simp add: ResetExpiredBudgetsInMemory_def resetExpiredBudgetFromSnapshot_def ResetBudgetAt_def reset_clone_def)



subsection \<open>Interleavings\<close>

text \<open>The operations on one budget entry as effects of compare-and-swap loops. A usage bump swaps when
  its window is open; the sweep it delegates to is a reset of its own.\<close>

datatype budget_op = BBump float64 | BResetAt instant | BRebase float64 "instant option"
  | BUpsert TableBudget | BAdopt instant

fun budget_effect :: "budget_op \<Rightarrow> TableBudget \<Rightarrow> TableBudget option" where
  "budget_effect (BBump cost) b = Some (bump_clone cost b)"
| "budget_effect (BResetAt t) b = reset_clone t b"
| "budget_effect (BRebase u t) b = Some (rebase_clone u t b)"
| "budget_effect (BUpsert c) b = Some (upsert_merge c b)"
| "budget_effect (BAdopt now) b = adopt_clone now b"

datatype ratelimit_op = RBump int bool bool | RBumpBy int int | RResetAt "instant option" "instant option"
  | RRebase int int "instant option" "instant option" | RUpsert TableRateLimit | RAdopt instant

fun ratelimit_effect :: "ratelimit_op \<Rightarrow> TableRateLimit \<Rightarrow> TableRateLimit option" where
  "ratelimit_effect (RBump n t r) rl = Some (rl_bump_clone n t r rl)"
| "ratelimit_effect (RBumpBy t r) rl = Some (rl_bump_by_clone t r rl)"
| "ratelimit_effect (RResetAt t r) rl = rl_reset_clone t r rl"
| "ratelimit_effect (RRebase t r lt lr) rl = Some (rl_rebase_clone t r lt lr rl)"
| "ratelimit_effect (RUpsert c) rl = Some (rl_upsert_merge c rl)"
| "ratelimit_effect (RAdopt now) rl = rl_adopt_clone now rl"

definition derived_override :: "TableBudget \<Rightarrow> bool" where
  "derived_override b \<longleftrightarrow> RefreshOverrideCyclesRemaining b = b"

lemma Refresh_idem: "RefreshOverrideCyclesRemaining (RefreshOverrideCyclesRemaining b) = RefreshOverrideCyclesRemaining b"
  by (auto simp: RefreshOverrideCyclesRemaining_def ClearOverride_def Let_def WindowsSinceAnchor_frame)

lemma Refresh_usage:
  "RefreshOverrideCyclesRemaining (b\<lparr>tb_CurrentUsage := u\<rparr>) = (RefreshOverrideCyclesRemaining b)\<lparr>tb_CurrentUsage := u\<rparr>"
  by (auto simp: RefreshOverrideCyclesRemaining_def ClearOverride_def Let_def WindowsSinceAnchor_frame)

interpretation budget_entry: cas_invariant budget_effect derived_override
proof
  fix op b b'
  assume "budget_effect op b = Some b'" "derived_override b"
  then show "derived_override b'"
    by (cases op) (auto simp: derived_override_def bump_clone_def Refresh_usage reset_clone_def apply_reset_def
        rebase_clone_def upsert_merge_def adopt_clone_def Refresh_idem Let_def split: if_splits prod.splits)
qed

lemma Adopt_forward:
  "AdoptCalendarAlignment now b = (b', m) \<Longrightarrow> tb_LastReset b \<le> tb_LastReset b' \<and> tb_CurrentUsage b' = tb_CurrentUsage b"
  by (auto simp: AdoptCalendarAlignment_def Let_def split: if_splits)

interpretation budget_entry: cas_monotone budget_effect "\<lambda>b b'. tb_LastReset b \<le> tb_LastReset b'"
proof
  fix op b b'
  assume "budget_effect op b = Some b'"
  then show "tb_LastReset b \<le> tb_LastReset b'"
    by (cases op) (auto simp: bump_clone_def reset_clone_def rebase_clone_def upsert_merge_def adopt_clone_def
        Let_def split: if_splits prod.splits option.splits dest!: Adopt_forward)
qed auto

definition rl_boundaries_le :: "TableRateLimit \<Rightarrow> TableRateLimit \<Rightarrow> bool" where
  "rl_boundaries_le rl rl' \<longleftrightarrow> rl_TokenLastReset rl \<le> rl_TokenLastReset rl' \<and> rl_RequestLastReset rl \<le> rl_RequestLastReset rl'"

lemma adopt_boundary_forward: "adopt_boundary now d l = (l', m) \<Longrightarrow> l \<le> l'"
  by (auto simp: adopt_boundary_def Let_def split: option.splits if_splits)

interpretation ratelimit_entry: cas_monotone ratelimit_effect rl_boundaries_le
proof
  fix op rl rl'
  assume "ratelimit_effect op rl = Some rl'"
  then show "rl_boundaries_le rl rl'"
    by (cases op) (auto simp: rl_boundaries_le_def rl_bump_clone_def rl_bump_by_clone_def rl_reset_clone_def
        rl_rebase_clone_def rl_upsert_merge_def rl_adopt_clone_def rl_AdoptCalendarAlignment_def Let_def
        split: if_splits prod.splits option.splits dest!: adopt_boundary_forward)
qed (auto simp: rl_boundaries_le_def)

lemma seq_bumps:
  "seq_apply budget_effect (map BBump cs) b = Some (b\<lparr>tb_CurrentUsage := foldl f_add (tb_CurrentUsage b) cs\<rparr>)"
  by (induction cs arbitrary: b) (simp_all add: bump_clone_def)



subsection \<open>Rate limit bumps\<close>

lemma rl_target_due: "rateLimitResetTarget d al anchor lr now = Some t \<Longrightarrow> lr < t"
  by (auto simp: rateLimitResetTarget_def Let_def split: option.splits if_splits)

lemma rl_target_closes:
  assumes "\<not> IsZero anchor" "rateLimitResetTarget d al anchor lr now = tgt"
  shows "rateLimitResetTarget d al anchor (case tgt of Some t \<Rightarrow> t | None \<Rightarrow> lr) now = None"
  using assms by (auto simp: rateLimitResetTarget_def Let_def split: option.splits if_splits)

lemma rl_reset_clone_due:
  assumes "rateLimitResetTargets rl now = (tok, req)" "\<not> (tok = None \<and> req = None)"
  shows "rl_reset_clone tok req rl = Some (rl_apply_reset tok req rl)"
  using assms
  by (auto simp: rateLimitResetTargets_def rl_reset_clone_def rl_apply_reset_def Let_def split: option.splits
      dest: rl_target_due)

lemma rl_targets_close:
  assumes "\<not> IsZero (rl_CreatedAt rl)" "rateLimitResetTargets rl now = (tok, req)"
  shows "rateLimitResetTargets (rl_apply_reset tok req rl) now = (None, None)"
  using assms rl_target_closes [OF assms(1), of "rl_TokenResetDuration rl" "rl_IsCalendarAligned rl" "rl_TokenLastReset rl" now tok]
    rl_target_closes [OF assms(1), of "rl_RequestResetDuration rl" "rl_IsCalendarAligned rl" "rl_RequestLastReset rl" now req]
  by (cases tok; cases req) (simp_all add: rateLimitResetTargets_def rl_apply_reset_def)

lemma put_rateLimit_simps [simp]:
  "LoadRateLimit k (put_rateLimit i rl gs) = (if k = i then Some rl else LoadRateLimit k gs)"
  "LoadRateLimit k (clear_rl_baselines i t r gs) = LoadRateLimit k gs"
  by (simp_all add: LoadRateLimit_def put_rateLimit_def clear_rl_baselines_def Let_def)

lemma put_clear_put_rl:
  "put_rateLimit i rl' (clear_rl_baselines j t r (put_rateLimit i rl gs)) = put_rateLimit i rl' (clear_rl_baselines j t r gs)"
  by (simp add: put_rateLimit_def clear_rl_baselines_def Let_def)

lemma rl_apply_reset_ID [simp]: "rl_ID (rl_apply_reset tok req rl) = rl_ID rl"
  by (simp add: rl_apply_reset_def Let_def split: option.split)

text \<open>The two counters of a rate limit reset on their own boundaries. As long as the clock readings
  of one call give the same targets, \<open>BumpRateLimitUsage\<close> resets exactly the counters whose window
  has closed, once, clears their baselines, and then counts the tokens and the request.\<close>

theorem ratelimit_bump_resets_due_counters:
  assumes "LoadRateLimit i gs = Some rl" "rl_ID rl = i" "\<not> IsZero (rl_CreatedAt rl)"
    "\<forall>n. rateLimitResetTargets rl (clk n) = (tok, req)"
  shows "BumpRateLimitUsage clk i tokens doTokens doRequests gs =
    put_rateLimit i (rl_bump_clone tokens doTokens doRequests (rl_apply_reset tok req rl))
      (clear_rl_baselines i (tok \<noteq> None) (req \<noteq> None) gs)"
proof (cases "tok = None \<and> req = None")
  case True
  then show ?thesis
    using assms
    by (simp add: BumpRateLimitUsage_def bump_ratelimit_loop.simps [of clk i tokens doTokens doRequests maxRequestTimeResetAttempts]
        rl_apply_reset_def clear_rl_baselines_def)
next
  case False
  have due: "rateLimitResetTargets rl (clk n) = (tok, req)" for n using assms(4) by blast
  have closed: "rateLimitResetTargets (rl_apply_reset tok req rl) (clk n) = (None, None)" for n
    using rl_targets_close [OF assms(3) due] by blast
  have sweep: "fst (ResetExpiredRateLimitsInMemory (clk n) [i] gs) =
      clear_rl_baselines i (tok \<noteq> None) (req \<noteq> None) (put_rateLimit i (rl_apply_reset tok req rl) gs)" for n
    using assms(1,2) due [of n] False rl_reset_clone_due [OF due False]
    by (auto simp: ResetExpiredRateLimitsInMemory_def resetExpiredRateLimitFromSnapshot_def ResetRateLimitAt_def)
  show ?thesis
    using False assms(1) due sweep closed
    by (auto simp: BumpRateLimitUsage_def maxRequestTimeResetAttempts_def numeral_3_eq_3
        bump_ratelimit_loop.simps [of clk i tokens doTokens doRequests "Suc (Suc (Suc 0))"]
        bump_ratelimit_loop.simps [of clk i tokens doTokens doRequests "Suc (Suc 0)"] put_clear_put_rl)
qed

definition monthly_limit :: TableRateLimit where
  "monthly_limit = \<lparr>rl_ID = ''r'', rl_TokenMaxLimit = Some 2, rl_TokenResetDuration = Some ''1M'',
     rl_TokenCurrentUsage = 9, rl_TokenLastReset = 1704067200000000000,
     rl_RequestMaxLimit = None, rl_RequestResetDuration = None, rl_RequestCurrentUsage = 0,
     rl_RequestLastReset = 1704067200000000000, rl_IsCalendarAligned = True, rl_CreatedAt = 1700000000000000000\<rparr>"

theorem ratelimit_bump_resets_due_counters_witness:
  "LoadRateLimit ''r'' (BumpRateLimitUsage (\<lambda>n. 1706832000000000000) ''r'' 7 True True
      (put_rateLimit ''r'' monthly_limit emptyGovStore)) =
   Some (rl_bump_clone 7 True True (rl_apply_reset (Some 1706745600000000000) None monthly_limit))"
proof -
  have t: "rateLimitResetTargets monthly_limit 1706832000000000000 = (Some 1706745600000000000, None)" by code_simp
  have "rl_ID monthly_limit = ''r''" "\<not> IsZero (rl_CreatedAt monthly_limit)" by code_simp+
  then show ?thesis
    using ratelimit_bump_resets_due_counters [of "''r''" "put_rateLimit ''r'' monthly_limit emptyGovStore" monthly_limit
        "\<lambda>n. 1706832000000000000" "Some 1706745600000000000" None 7 True True] t by simp
qed

subsection \<open>Dumps and resets\<close>

lemma reset_gen_mark:
  "reset_gen (gs_budgetResetGens (markBudgetResetLocked i gs)) k =
     reset_gen (gs_budgetResetGens gs) k + (if k = i then 1 else 0)"
  by (auto simp: markBudgetResetLocked_def reset_gen_def Let_def split: option.split)

lemma reset_gen_clear:
  "reset_gen (gs_budgetResetGens (clear_baseline i gs)) k =
     reset_gen (gs_budgetResetGens gs) k + (if k = i then 1 else 0)"
  unfolding clear_baseline_def reset_gen_mark by (simp add: SetBudgetDBBaseline_def)

lemma keepUnresetRows_filter:
  "keepUnresetRows batch snapshot gs =
     filter (\<lambda>row. reset_gen (gs_budgetResetGens gs) (dr_ID row) = reset_gen snapshot (dr_ID row)) batch"
  by (auto simp: keepUnresetRows_def Let_def filter_empty_conv intro!: filter_True [symmetric])

lemma rows_after_mark:
  assumes "\<And>k. reset_gen (gs_budgetResetGens gs') k = reset_gen (gs_budgetResetGens gs) k + (if k = i then 1 else 0)"
  shows "keepUnresetRows rows (budgetResetGensSnapshot gs) gs' = filter (\<lambda>row. dr_ID row \<noteq> i) rows"
  unfolding keepUnresetRows_filter by (rule filter_cong) (auto simp: assms budgetResetGensSnapshot_def)



subsection \<open>What the checks decide\<close>

lemma check_budgets_iff: "check_budgets entity bs baselines now \<longleftrightarrow> (\<exists>b\<in>set bs. budget_exceeded baselines now b)"
  by (induction bs) auto

lemma CheckBudget_iff:
  "fst (CheckBudget es baselines now) =
     (if \<exists>p\<in>set es. \<exists>b\<in>set (snd p). budget_exceeded baselines now b then DecisionBudgetExceeded else DecisionAllow)
   \<and> (snd (CheckBudget es baselines now) = None \<longleftrightarrow> fst (CheckBudget es baselines now) = DecisionAllow)"
  by (induction es baselines now rule: CheckBudget.induct) (auto simp: check_budgets_iff)

text \<open>The budget check denies a request exactly when some budget of some entity that is not due for
  a reset has used up its effective limit, counting what other nodes used; the order in which the
  entities are visited does not matter, and an error is returned exactly with a denial.\<close>

theorem check_budget_decision:
  "fst (CheckBudget es baselines now) =
     (if \<exists>p. p \<in> set es \<and> (\<exists>b. b \<in> set (snd p) \<and> budgetResetTarget b now = None \<and>
          f_le (EffectiveMaxLimit b) (f_add (tb_CurrentUsage b)
            (case mapget baselines (tb_ID b) of Some v \<Rightarrow> v | None \<Rightarrow> Fin 0)))
      then DecisionBudgetExceeded else DecisionAllow)
   \<and> (snd (CheckBudget es baselines now) = None \<longleftrightarrow> fst (CheckBudget es baselines now) = DecisionAllow)"
proof -
  have "budget_exceeded baselines now b \<longleftrightarrow> budgetResetTarget b now = None \<and>
      f_le (EffectiveMaxLimit b) (f_add (tb_CurrentUsage b)
        (case mapget baselines (tb_ID b) of Some v \<Rightarrow> v | None \<Rightarrow> Fin 0))" for b
    by (simp add: budget_exceeded_def Let_def)
  then show ?thesis using CheckBudget_iff [of es baselines now] by (simp add: Bex_def)
qed

text \<open>Rate limit enforcement does not follow the window that the reset path uses. A monthly limit
  aligned to the calendar counts as expired thirty days after the first of the month, while its
  counter is reset on the first of the next: on 31 January the limit below, used up several times
  over, is not due for a reset and not enforced either. (The budget check had the same fault and
  decides by the reset target.)\<close>

theorem monthly_limit_not_enforced_on_31st:
  "GetCalendarPeriodStart ''1M'' 1706702400000000000 1 = rl_TokenLastReset monthly_limit
   \<and> rateLimitResetTargets monthly_limit 1706702400000000000 = (None, None)
   \<and> fst (CheckRateLimit [(''Team'', [monthly_limit])] [] [] 1706702400000000000) = DecisionAllow
   \<and> fst (CheckRateLimit [(''Team'', [monthly_limit])] [] [] 1706600000000000000) = DecisionTokenLimited"
proof (intro conjI)
  show "GetCalendarPeriodStart ''1M'' 1706702400000000000 1 = rl_TokenLastReset monthly_limit" by code_simp
  show "rateLimitResetTargets monthly_limit 1706702400000000000 = (None, None)" by code_simp
  show "fst (CheckRateLimit [(''Team'', [monthly_limit])] [] [] 1706702400000000000) = DecisionAllow" by code_simp
  show "fst (CheckRateLimit [(''Team'', [monthly_limit])] [] [] 1706600000000000000) = DecisionTokenLimited" by code_simp
qed

end
