(* ===== verification/Governance_Owners.thy ===== *)
theory Governance_Owners
  imports Request_Context Governance_Store
begin

text \<open>
  The owners of budgets and rate limits and the checks of their rows: virtual keys, teams, customers,
  model configurations and providers of \<open>src/plugins/governance/store.go\<close>, with their tables.

  \<^item> \<open>Governance\<close> is the store with the maps of owners. An owner embeds copies of its rows; collectors
    and checks read only their IDs and load the live rows from the store. Rows of the maps are never nil.
  \<^item> The collectors find the rows that apply to a request, and each check hands those of one level to
    \<open>CheckBudget\<close> or \<open>CheckRateLimit\<close>. A check reads one instant \<open>now\<close>.
  \<^item> The base name of a model comes from the model catalog, an argument that is absent without one.
    Checks of users are those of this build, which allow everything.

  Shown: a level that allows a request has no row whose open window is used up.
\<close>

subsection \<open>Owners\<close>

record TableVirtualKeyProviderConfig =
  pc_ID :: nat
  pc_Provider :: string
  pc_AllowedModels :: WhiteList
  pc_BlacklistedModels :: BlackList
  pc_AllowAllKeys :: bool
  pc_Keys :: "string list"
  pc_RateLimitID :: "string option"
  pc_RateLimit :: "TableRateLimit option"
  pc_Budgets :: "TableBudget list"

record TableVirtualKeyMCPConfig =
  mcp_ClientName :: string
  mcp_ToolsToExecute :: WhiteList

record TableCustomer =
  cu_ID :: string
  cu_Name :: string
  cu_RateLimitID :: "string option"
  cu_RateLimit :: "TableRateLimit option"
  cu_Budgets :: "TableBudget list"
  cu_CalendarAligned :: bool

record TableTeam =
  tm_ID :: string
  tm_Name :: string
  tm_CustomerID :: "string option"
  tm_RateLimitID :: "string option"
  tm_Customer :: "TableCustomer option"
  tm_RateLimit :: "TableRateLimit option"
  tm_Budgets :: "TableBudget list"
  tm_CalendarAligned :: bool

record TableVirtualKey =
  vk_ID :: string
  vk_Name :: string
  vk_Value :: string
  vk_IsActive :: "bool option"
  vk_ExpiresAt :: "instant option"
  vk_ProviderConfigs :: "TableVirtualKeyProviderConfig list"
  vk_MCPConfigs :: "TableVirtualKeyMCPConfig list"
  vk_TeamID :: "string option"
  vk_CustomerID :: "string option"
  vk_RateLimitID :: "string option"
  vk_Team :: "TableTeam option"
  vk_Customer :: "TableCustomer option"
  vk_RateLimit :: "TableRateLimit option"
  vk_Budgets :: "TableBudget list"
  vk_CalendarAligned :: bool

record TableModelConfig =
  mc_ID :: string
  mc_ModelName :: string
  mc_Provider :: "string option"
  mc_Scope :: string
  mc_ScopeID :: "string option"
  mc_BudgetID :: "string option"
  mc_RateLimitID :: "string option"
  mc_RateLimit :: "TableRateLimit option"
  mc_Budgets :: "TableBudget list"
  mc_CalendarAligned :: bool

record TableProvider =
  pv_Name :: string
  pv_BudgetID :: "string option"
  pv_RateLimitID :: "string option"
  pv_Budget :: "TableBudget option"
  pv_RateLimit :: "TableRateLimit option"

record Governance =
  gv_store :: GovStore
  gv_virtualKeys :: "(string, TableVirtualKey) gomap"
  gv_virtualKeysByID :: "(string, TableVirtualKey) gomap"
  gv_teams :: "(string, TableTeam) gomap"
  gv_customers :: "(string, TableCustomer) gomap"
  gv_modelConfigs :: "(string, TableModelConfig) gomap"
  gv_providers :: "(string, TableProvider) gomap"

definition IsActiveValue :: "TableVirtualKey \<Rightarrow> bool" where
  "IsActiveValue vk = (case vk_IsActive vk of None \<Rightarrow> True | Some b \<Rightarrow> b)"

definition IsExpiredAt :: "instant \<Rightarrow> TableVirtualKey \<Rightarrow> bool" where
  "IsExpiredAt now vk = (case vk_ExpiresAt vk of None \<Rightarrow> False | Some t \<Rightarrow> \<not> now < t)"

definition GetVirtualKey :: "string \<Rightarrow> Governance \<Rightarrow> TableVirtualKey option" where
  "GetVirtualKey vkValue gv = mapget (gv_virtualKeys gv) vkValue"

subsection \<open>Rows of a virtual key\<close>

text \<open>Adding a live row under the name of its category.\<close>

definition map_append :: "string \<Rightarrow> 'a \<Rightarrow> (string, 'a list) gomap \<Rightarrow> (string, 'a list) gomap" where
  "map_append category x m = mapput category ((case mapget m category of Some xs \<Rightarrow> xs | None \<Rightarrow> []) @ [x]) m"

text \<open>One loop over the budgets of an owner; the customer loops do not consult \<open>seen\<close>.\<close>

fun collect_budgets ::
    "GovStore \<Rightarrow> bool \<Rightarrow> string \<Rightarrow> string list \<Rightarrow> string list \<times> EntityWiseBudgets \<Rightarrow> string list \<times> EntityWiseBudgets" where
  "collect_budgets gs skipSeen category [] acc = acc"
| "collect_budgets gs skipSeen category (i # ids) (seen, m) =
     collect_budgets gs skipSeen category ids
       (if skipSeen \<and> i \<in> set seen then (seen, m)
        else case LoadBudget i gs of
          None \<Rightarrow> (seen, m)
        | Some budget \<Rightarrow> (tb_ID budget # seen, map_append category budget m))"

definition customer_budget_ids :: "Governance \<Rightarrow> string \<Rightarrow> string list" where
  "customer_budget_ids gv c = (case mapget (gv_customers gv) c of Some cu \<Rightarrow> map tb_ID (cu_Budgets cu) | None \<Rightarrow> [])"

definition team_of :: "Governance \<Rightarrow> TableVirtualKey \<Rightarrow> TableTeam option" where
  "team_of gv vk = Option.bind (vk_TeamID vk) (mapget (gv_teams gv))"

definition team_customer :: "Governance \<Rightarrow> TableVirtualKey \<Rightarrow> string option" where
  "team_customer gv vk = Option.bind (team_of gv vk) tm_CustomerID"

text \<open>The customer that pays directly: the key's own, unless the team already brought it in.\<close>

definition direct_customer :: "Governance \<Rightarrow> TableVirtualKey \<Rightarrow> string option" where
  "direct_customer gv vk = (case vk_CustomerID vk of
       None \<Rightarrow> None
     | Some c \<Rightarrow>
         let teamCustomerID = (case team_customer gv vk of Some t \<Rightarrow> t | None \<Rightarrow> '''')
         in if teamCustomerID = '''' \<or> c \<noteq> teamCustomerID then Some c else None)"

fun collect_provider_configs ::
    "GovStore \<Rightarrow> ModelProvider \<Rightarrow> TableVirtualKeyProviderConfig list \<Rightarrow> string list \<times> EntityWiseBudgets
      \<Rightarrow> string list \<times> EntityWiseBudgets" where
  "collect_provider_configs gs provider [] acc = acc"
| "collect_provider_configs gs provider (pc # pcs) acc =
     collect_provider_configs gs provider pcs
       (if pc_Provider pc \<noteq> provider then acc else collect_budgets gs True (pc_Provider pc) (map tb_ID (pc_Budgets pc)) acc)"

definition collectBudgetsFromHierarchy :: "Governance \<Rightarrow> TableVirtualKey \<Rightarrow> ModelProvider \<Rightarrow> EntityWiseBudgets" where
  "collectBudgetsFromHierarchy gv vk provider =
     (let gs = gv_store gv;
          acc = collect_provider_configs gs provider (vk_ProviderConfigs vk) ([], []);
          acc = collect_budgets gs True ''VK'' (map tb_ID (vk_Budgets vk)) acc;
          acc = (case team_of gv vk of None \<Rightarrow> acc
                 | Some team \<Rightarrow> collect_budgets gs True ''Team'' (map tb_ID (tm_Budgets team)) acc);
          acc = (case team_customer gv vk of None \<Rightarrow> acc
                 | Some c \<Rightarrow> collect_budgets gs False ''Customer'' (customer_budget_ids gv c) acc);
          acc = (case direct_customer gv vk of None \<Rightarrow> acc
                 | Some c \<Rightarrow> collect_budgets gs False ''Customer'' (customer_budget_ids gv c) acc)
      in snd acc)"

definition add_rateLimit ::
    "GovStore \<Rightarrow> string \<Rightarrow> string option \<Rightarrow> EntityWiseRateLimits \<Rightarrow> EntityWiseRateLimits" where
  "add_rateLimit gs category rateLimitID m = (case Option.bind rateLimitID (\<lambda>i. LoadRateLimit i gs) of
       None \<Rightarrow> m | Some rl \<Rightarrow> map_append category rl m)"

definition customer_rateLimit_id :: "Governance \<Rightarrow> string \<Rightarrow> string option" where
  "customer_rateLimit_id gv c = Option.bind (mapget (gv_customers gv) c) cu_RateLimitID"

fun collect_pc_rateLimits ::
    "GovStore \<Rightarrow> ModelProvider \<Rightarrow> TableVirtualKeyProviderConfig list \<Rightarrow> EntityWiseRateLimits \<Rightarrow> EntityWiseRateLimits" where
  "collect_pc_rateLimits gs provider [] m = m"
| "collect_pc_rateLimits gs provider (pc # pcs) m =
     collect_pc_rateLimits gs provider pcs
       (if pc_Provider pc = provider then add_rateLimit gs (pc_Provider pc) (pc_RateLimitID pc) m else m)"

definition collectRateLimitsFromHierarchy :: "Governance \<Rightarrow> TableVirtualKey \<Rightarrow> ModelProvider \<Rightarrow> EntityWiseRateLimits" where
  "collectRateLimitsFromHierarchy gv vk provider =
     (let gs = gv_store gv;
          m = collect_pc_rateLimits gs provider (vk_ProviderConfigs vk) [];
          m = add_rateLimit gs ''VK'' (vk_RateLimitID vk) m;
          m = (case team_of gv vk of None \<Rightarrow> m | Some team \<Rightarrow> add_rateLimit gs ''Team'' (tm_RateLimitID team) m);
          m = (case team_customer gv vk of None \<Rightarrow> m
               | Some c \<Rightarrow> add_rateLimit gs ''Customer'' (customer_rateLimit_id gv c) m)
      in case direct_customer gv vk of None \<Rightarrow> m
         | Some c \<Rightarrow> add_rateLimit gs ''Customer'' (customer_rateLimit_id gv c) m)"

definition collectBudgetIDsFromMemory :: "Governance \<Rightarrow> TableVirtualKey \<Rightarrow> ModelProvider \<Rightarrow> string list" where
  "collectBudgetIDsFromMemory gv vk provider = map tb_ID (concat (map snd (collectBudgetsFromHierarchy gv vk provider)))"

definition collectRateLimitIDsFromMemory :: "Governance \<Rightarrow> TableVirtualKey \<Rightarrow> ModelProvider \<Rightarrow> string list" where
  "collectRateLimitIDsFromMemory gv vk provider = map rl_ID (concat (map snd (collectRateLimitsFromHierarchy gv vk provider)))"

subsection \<open>Model configurations\<close>

abbreviation modelConfigWildcard :: string where "modelConfigWildcard \<equiv> ''*''"
abbreviation ModelConfigScopeGlobal :: string where "ModelConfigScopeGlobal \<equiv> ''global''"
abbreviation ModelConfigScopeVirtualKey :: string where "ModelConfigScopeVirtualKey \<equiv> ''virtual_key''"
abbreviation ModelConfigScopeUser :: string where "ModelConfigScopeUser \<equiv> ''user''"

definition modelConfigStoreKey :: "string \<Rightarrow> string \<Rightarrow> string \<Rightarrow> string option \<Rightarrow> string" where
  "modelConfigStoreKey scope scopeID modelKey provider =
     (let base = (case provider of Some p \<Rightarrow> modelKey @ '':'' @ p | None \<Rightarrow> modelKey)
      in if scope = '''' \<or> scope = ModelConfigScopeGlobal then base
         else scope @ '':'' @ scopeID @ '':'' @ base)"

definition loadModelConfig ::
    "Governance \<Rightarrow> string \<Rightarrow> string \<Rightarrow> string \<Rightarrow> string option \<Rightarrow> TableModelConfig option" where
  "loadModelConfig gv scope scopeID modelKey provider =
     mapget (gv_modelConfigs gv) (modelConfigStoreKey scope scopeID modelKey provider)"

definition findScopedModelOnlyConfig ::
    "(string \<Rightarrow> string) option \<Rightarrow> Governance \<Rightarrow> string \<Rightarrow> string \<Rightarrow> string \<Rightarrow> TableModelConfig option" where
  "findScopedModelOnlyConfig baseModelName gv scope scopeID model =
     (case Option.bind baseModelName (\<lambda>f. if f model \<noteq> model then loadModelConfig gv scope scopeID (f model) None else None) of
        Some mc \<Rightarrow> Some mc
      | None \<Rightarrow> loadModelConfig gv scope scopeID model None)"

definition add_config :: "TableModelConfig option \<Rightarrow> TableModelConfig list \<Rightarrow> TableModelConfig list" where
  "add_config c out = (case c of
       None \<Rightarrow> out
     | Some mc \<Rightarrow> if mc_ID mc \<in> mc_ID ` set out then out else out @ [mc])"

definition collectModelConfigsFor ::
    "(string \<Rightarrow> string) option \<Rightarrow> Governance \<Rightarrow> string \<Rightarrow> string \<Rightarrow> string \<Rightarrow> string option \<Rightarrow> TableModelConfig list" where
  "collectModelConfigsFor baseModelName gv scope scopeID model provider =
     (let out = [];
          out = (if provider \<noteq> None then add_config (loadModelConfig gv scope scopeID model provider) out else out);
          out = add_config (findScopedModelOnlyConfig baseModelName gv scope scopeID model) out;
          out = (if provider \<noteq> None then add_config (loadModelConfig gv scope scopeID modelConfigWildcard provider) out else out)
      in add_config (loadModelConfig gv scope scopeID modelConfigWildcard None) out)"

definition modelConfigEntityKey :: "TableModelConfig \<Rightarrow> string" where
  "modelConfigEntityKey mc =
     ''Model:'' @ (if mc_ModelName mc = modelConfigWildcard then ''AllModels'' else mc_ModelName mc)
     @ (case mc_Provider mc of Some p \<Rightarrow> '':Provider:'' @ p | None \<Rightarrow> [])
     @ (if mc_Scope mc \<noteq> '''' \<and> mc_Scope mc \<noteq> ModelConfigScopeGlobal
        then '':'' @ mc_Scope mc @ '':'' @ (case mc_ScopeID mc of Some s \<Rightarrow> s | None \<Rightarrow> []) else [])"

definition loadModelConfigBudgets :: "GovStore \<Rightarrow> TableModelConfig \<Rightarrow> TableBudget list" where
  "loadModelConfigBudgets gs mc = List.map_filter (\<lambda>b. LoadBudget (tb_ID b) gs) (mc_Budgets mc)"

text \<open>The entity maps of the model checks: a later configuration replaces an earlier one with the
  same key.\<close>

definition model_budgets :: "GovStore \<Rightarrow> TableModelConfig list \<Rightarrow> EntityWiseBudgets" where
  "model_budgets gs mcs = fold (\<lambda>mc m. let budgets = loadModelConfigBudgets gs mc
     in if budgets \<noteq> [] then mapput (modelConfigEntityKey mc) budgets m else m) mcs []"

definition model_rateLimits :: "GovStore \<Rightarrow> TableModelConfig list \<Rightarrow> EntityWiseRateLimits" where
  "model_rateLimits gs mcs = fold (\<lambda>mc m. case Option.bind (mc_RateLimitID mc) (\<lambda>i. LoadRateLimit i gs) of
       None \<Rightarrow> m | Some rl \<Rightarrow> mapput (modelConfigEntityKey mc) [rl] m) mcs []"

subsection \<open>Checks per owner\<close>

text \<open>The request and the key are never nil here, and no caller passes baselines of other nodes.\<close>

record EvaluationRequest =
  er_VirtualKey :: string
  er_Provider :: ModelProvider
  er_Model :: string
  er_UserID :: string

definition extractModelAndProvider :: "EvaluationRequest \<Rightarrow> string \<times> string option" where
  "extractModelAndProvider request =
     (er_Model request, if er_Provider request \<noteq> '''' then Some (er_Provider request) else None)"

abbreviation allowed :: "Decision \<times> string option" where
  "allowed \<equiv> (DecisionAllow, None)"

definition CheckVirtualKeyBudget :: "instant \<Rightarrow> Governance \<Rightarrow> TableVirtualKey \<Rightarrow> EvaluationRequest \<Rightarrow> Decision \<times> string option" where
  "CheckVirtualKeyBudget now gv vk request =
     CheckBudget (collectBudgetsFromHierarchy gv vk (er_Provider request)) [] now"

definition CheckProviderBudget :: "instant \<Rightarrow> Governance \<Rightarrow> EvaluationRequest \<Rightarrow> Decision \<times> string option" where
  "CheckProviderBudget now gv request =
     (let providerKey = er_Provider request
      in case Option.bind (mapget (gv_providers gv) providerKey) pv_BudgetID of
        None \<Rightarrow> allowed
      | Some i \<Rightarrow> (case LoadBudget i (gv_store gv) of
          None \<Rightarrow> allowed
        | Some budget \<Rightarrow> CheckBudget [(providerKey, [budget])] [] now))"

definition CheckProviderRateLimit :: "instant \<Rightarrow> Governance \<Rightarrow> EvaluationRequest \<Rightarrow> Decision \<times> string option" where
  "CheckProviderRateLimit now gv request =
     (let providerKey = er_Provider request
      in case Option.bind (mapget (gv_providers gv) providerKey) pv_RateLimitID of
        None \<Rightarrow> allowed
      | Some i \<Rightarrow> (case LoadRateLimit i (gv_store gv) of
          None \<Rightarrow> allowed
        | Some rateLimit \<Rightarrow> CheckRateLimit [(providerKey, [rateLimit])] [] [] now))"

definition CheckModelBudget ::
    "(string \<Rightarrow> string) option \<Rightarrow> instant \<Rightarrow> Governance \<Rightarrow> EvaluationRequest \<Rightarrow> Decision \<times> string option" where
  "CheckModelBudget baseModelName now gv request =
     (let (model, provider) = extractModelAndProvider request
      in CheckBudget (model_budgets (gv_store gv)
           (collectModelConfigsFor baseModelName gv ModelConfigScopeGlobal '''' model provider)) [] now)"

definition CheckModelRateLimit ::
    "(string \<Rightarrow> string) option \<Rightarrow> instant \<Rightarrow> Governance \<Rightarrow> EvaluationRequest \<Rightarrow> Decision \<times> string option" where
  "CheckModelRateLimit baseModelName now gv request =
     (let (model, provider) = extractModelAndProvider request
      in CheckRateLimit (model_rateLimits (gv_store gv)
           (collectModelConfigsFor baseModelName gv ModelConfigScopeGlobal '''' model provider)) [] [] now)"

definition CheckScopedModelBudget ::
    "(string \<Rightarrow> string) option \<Rightarrow> instant \<Rightarrow> Governance \<Rightarrow> string \<Rightarrow> string \<Rightarrow> EvaluationRequest \<Rightarrow> Decision \<times> string option" where
  "CheckScopedModelBudget baseModelName now gv scope scopeID request =
     (if scope = '''' \<or> scopeID = '''' then allowed
      else let (model, provider) = extractModelAndProvider request
        in CheckBudget (model_budgets (gv_store gv)
             (collectModelConfigsFor baseModelName gv scope scopeID model provider)) [] now)"

definition CheckScopedModelRateLimit ::
    "(string \<Rightarrow> string) option \<Rightarrow> instant \<Rightarrow> Governance \<Rightarrow> string \<Rightarrow> string \<Rightarrow> EvaluationRequest \<Rightarrow> Decision \<times> string option" where
  "CheckScopedModelRateLimit baseModelName now gv scope scopeID request =
     (if scope = '''' \<or> scopeID = '''' then allowed
      else let (model, provider) = extractModelAndProvider request
        in CheckRateLimit (model_rateLimits (gv_store gv)
             (collectModelConfigsFor baseModelName gv scope scopeID model provider)) [] [] now)"

definition live_budgets :: "GovStore \<Rightarrow> TableBudget list \<Rightarrow> TableBudget list" where
  "live_budgets gs bs = List.map_filter (\<lambda>b. LoadBudget (tb_ID b) gs) bs"

definition CheckTeamBudget :: "instant \<Rightarrow> Governance \<Rightarrow> string \<Rightarrow> Decision \<times> string option" where
  "CheckTeamBudget now gv teamID =
     (if teamID = '''' then allowed
      else case mapget (gv_teams gv) teamID of
        None \<Rightarrow> allowed
      | Some team \<Rightarrow>
          let hot = live_budgets (gv_store gv) (tm_Budgets team)
          in if hot = [] then allowed else CheckBudget [(''Team:'' @ teamID, hot)] [] now)"

definition CheckTeamRateLimit :: "instant \<Rightarrow> Governance \<Rightarrow> string \<Rightarrow> Decision \<times> string option" where
  "CheckTeamRateLimit now gv teamID =
     (case Option.bind (mapget (gv_teams gv) teamID) tm_RateLimitID of
        None \<Rightarrow> allowed
      | Some i \<Rightarrow> (case LoadRateLimit i (gv_store gv) of
          None \<Rightarrow> allowed
        | Some teamRateLimit \<Rightarrow> CheckRateLimit [(''Team:'' @ teamID, [teamRateLimit])] [] [] now))"

definition CheckCustomerBudget :: "instant \<Rightarrow> Governance \<Rightarrow> string \<Rightarrow> Decision \<times> string option" where
  "CheckCustomerBudget now gv customerID =
     (if customerID = '''' then allowed
      else case mapget (gv_customers gv) customerID of
        None \<Rightarrow> allowed
      | Some customer \<Rightarrow>
          let customerBudgets = live_budgets (gv_store gv) (cu_Budgets customer)
          in if customerBudgets = [] then allowed else CheckBudget [(''Customer:'' @ customerID, customerBudgets)] [] now)"

definition CheckCustomerRateLimit :: "instant \<Rightarrow> Governance \<Rightarrow> string \<Rightarrow> Decision \<times> string option" where
  "CheckCustomerRateLimit now gv customerID =
     (if customerID = '''' then allowed
      else case Option.bind (mapget (gv_customers gv) customerID) cu_RateLimitID of
        None \<Rightarrow> allowed
      | Some i \<Rightarrow> (case LoadRateLimit i (gv_store gv) of
          None \<Rightarrow> allowed
        | Some customerRateLimit \<Rightarrow> CheckRateLimit [(''Customer:'' @ customerID, [customerRateLimit])] [] [] now))"

definition CheckUserBudget :: "instant \<Rightarrow> Governance \<Rightarrow> string \<Rightarrow> Decision \<times> string option" where
  "CheckUserBudget now gv userID = allowed"

definition CheckUserRateLimit :: "instant \<Rightarrow> Governance \<Rightarrow> string \<Rightarrow> Decision \<times> string option" where
  "CheckUserRateLimit now gv userID = allowed"

definition CheckVirtualKeyRateLimit :: "instant \<Rightarrow> Governance \<Rightarrow> TableVirtualKey \<Rightarrow> EvaluationRequest \<Rightarrow> Decision \<times> string option" where
  "CheckVirtualKeyRateLimit now gv vk request =
     CheckRateLimit (collectRateLimitsFromHierarchy gv vk (er_Provider request)) [] [] now"

subsection \<open>Rows that the checks see\<close>

text \<open>A row of the store carries the key it is stored under as its ID.\<close>

definition rows_named :: "GovStore \<Rightarrow> bool" where
  "rows_named gs \<longleftrightarrow> (\<forall>i b. LoadBudget i gs = Some b \<longrightarrow> tb_ID b = i) \<and> (\<forall>i rl. LoadRateLimit i gs = Some rl \<longrightarrow> rl_ID rl = i)"

definition rate_exceeded :: "instant \<Rightarrow> TableRateLimit \<Rightarrow> bool" where
  "rate_exceeded now rl \<longleftrightarrow> token_violations [] now rl \<noteq> [] \<or> request_violations [] now rl \<noteq> []"

text \<open>All rows of an entity map.\<close>

definition entity_rows :: "(string, 'a list) gomap \<Rightarrow> 'a set" where
  "entity_rows m = (\<Union>p\<in>set m. set (snd p))"

lemma entity_rows_simps [simp]:
  "entity_rows [] = {}"
  "entity_rows (p # m) = set (snd p) \<union> entity_rows m"
  by (auto simp: entity_rows_def)

lemma CheckBudget_allows:
  "CheckBudget es [] now = allowed \<longleftrightarrow> (\<forall>b\<in>entity_rows es. \<not> budget_exceeded [] now b)"
  by (induction es "[] :: (string, float64) gomap" now rule: CheckBudget.induct) (auto simp: check_budgets_iff)

lemma check_ratelimits_None:
  "check_ratelimits entity rls [] [] now = None \<longleftrightarrow> (\<forall>rl\<in>set rls. \<not> rate_exceeded now rl)"
  by (induction entity rls "[] :: (string, int) gomap" "[] :: (string, int) gomap" now rule: check_ratelimits.induct)
    (auto simp: rate_exceeded_def Let_def)

lemma CheckRateLimit_allows:
  "CheckRateLimit es [] [] now = allowed \<longleftrightarrow> (\<forall>rl\<in>entity_rows es. \<not> rate_exceeded now rl)"
proof (induction es "[] :: (string, int) gomap" "[] :: (string, int) gomap" now rule: CheckRateLimit.induct)
  case (2 entity rls es now)
  show ?case
  proof (cases "check_ratelimits entity rls [] [] now")
    case None
    then show ?thesis using 2 check_ratelimits_None [of entity rls now] by auto
  next
    case (Some r)
    then have "\<exists>rl\<in>set rls. rate_exceeded now rl" using check_ratelimits_None [of entity rls now] by auto
    then show ?thesis using Some by (cases r) auto
  qed
qed simp

text \<open>A check denies with an error, and with a decision of its own kind.\<close>

lemma CheckBudget_cases:
  "CheckBudget es bl now = allowed \<or> (\<exists>e. CheckBudget es bl now = (DecisionBudgetExceeded, Some e))"
  by (induction es bl now rule: CheckBudget.induct) auto

definition rate_decisions :: "Decision set" where
  "rate_decisions = {DecisionRateLimited, DecisionTokenLimited, DecisionRequestLimited}"

lemma violations_decision_rate: "violations_decision vs \<in> rate_decisions"
  by (auto simp: violations_decision_def rate_decisions_def split: list.splits)

lemma check_ratelimits_rate: "check_ratelimits entity rls tb rb now = Some (d, e) \<Longrightarrow> d \<in> rate_decisions"
  by (induction entity rls tb rb now rule: check_ratelimits.induct)
    (auto simp: Let_def violations_decision_rate split: if_splits)

lemma CheckRateLimit_cases:
  "CheckRateLimit es tb rb now = allowed \<or> (\<exists>d e. CheckRateLimit es tb rb now = (d, Some e) \<and> d \<in> rate_decisions)"
  by (induction es tb rb now rule: CheckRateLimit.induct) (auto split: option.splits dest: check_ratelimits_rate)

subsection \<open>Rows of the collectors\<close>

definition rows_all :: "('a \<Rightarrow> bool) \<Rightarrow> (string, 'a list) gomap \<Rightarrow> bool" where
  "rows_all P m \<longleftrightarrow> (\<forall>x\<in>entity_rows m. P x)"

lemma rows_all_Nil [simp]: "rows_all P []"
  by (simp add: rows_all_def)

lemma update_subset: "set (AList.update k v m) \<subseteq> insert (k, v) (set m)"
  by (induction m) auto

lemma rows_all_append:
  assumes "rows_all P m" "P x"
  shows "rows_all P (map_append c x m)"
proof -
  let ?xs = "case mapget m c of Some xs \<Rightarrow> xs | None \<Rightarrow> []"
  have "\<forall>y\<in>set ?xs. P y"
    using assms(1) by (cases "mapget m c") (auto simp: rows_all_def entity_rows_def dest!: map_of_SomeD)
  then show ?thesis
    using assms update_subset [of c "?xs @ [x]" m]
    by (force simp: rows_all_def entity_rows_def map_append_def)
qed

text \<open>Every row a collector returns was loaded from the store.\<close>

definition live_budget :: "GovStore \<Rightarrow> TableBudget \<Rightarrow> bool" where
  "live_budget gs b \<longleftrightarrow> (\<exists>i. LoadBudget i gs = Some b)"

definition live_rateLimit :: "GovStore \<Rightarrow> TableRateLimit \<Rightarrow> bool" where
  "live_rateLimit gs rl \<longleftrightarrow> (\<exists>i. LoadRateLimit i gs = Some rl)"

lemma live_budgetI: "LoadBudget i gs = Some b \<Longrightarrow> live_budget gs b"
  by (auto simp: live_budget_def)

lemma live_rateLimitI: "LoadRateLimit i gs = Some rl \<Longrightarrow> live_rateLimit gs rl"
  by (auto simp: live_rateLimit_def)

lemma collect_budgets_live:
  "rows_all (live_budget gs) (snd acc) \<Longrightarrow> rows_all (live_budget gs) (snd (collect_budgets gs s c ids acc))"
proof (induction gs s c ids acc rule: collect_budgets.induct)
  case (2 gs s c i ids seen m)
  have "rows_all (live_budget gs) (map_append c x m)" if "LoadBudget i gs = Some x" for x
    using 2(2) that by (auto intro!: rows_all_append live_budgetI)
  then show ?case using 2 by (auto split: option.splits)
qed simp

lemma collect_provider_configs_live:
  "rows_all (live_budget gs) (snd acc) \<Longrightarrow>
   rows_all (live_budget gs) (snd (collect_provider_configs gs provider pcs acc))"
  by (induction gs provider pcs acc rule: collect_provider_configs.induct) (auto simp: collect_budgets_live)

lemma collectBudgets_live: "rows_all (live_budget (gv_store gv)) (collectBudgetsFromHierarchy gv vk provider)"
  unfolding collectBudgetsFromHierarchy_def Let_def
  by (auto simp: collect_budgets_live collect_provider_configs_live split: option.splits)

lemma add_rateLimit_live:
  "rows_all (live_rateLimit gs) m \<Longrightarrow> rows_all (live_rateLimit gs) (add_rateLimit gs c i m)"
  by (auto simp: add_rateLimit_def bind_eq_Some_conv split: option.splits intro!: rows_all_append live_rateLimitI)

lemma collect_pc_rateLimits_live:
  "rows_all (live_rateLimit gs) m \<Longrightarrow> rows_all (live_rateLimit gs) (collect_pc_rateLimits gs provider pcs m)"
  by (induction gs provider pcs m rule: collect_pc_rateLimits.induct) (auto simp: add_rateLimit_live)

lemma collectRateLimits_live:
  "rows_all (live_rateLimit (gv_store gv)) (collectRateLimitsFromHierarchy gv vk provider)"
  unfolding collectRateLimitsFromHierarchy_def Let_def
  by (auto simp: add_rateLimit_live collect_pc_rateLimits_live split: option.splits)

text \<open>The entity maps of the model checks lose no row when the keys differ.\<close>

lemma update_new: "k \<notin> fst ` set m \<Longrightarrow> AList.update k v m = m @ [(k, v)]"
  by (induction m) auto

lemma model_rows_fold:
  assumes "distinct (map key mcs)" "fst ` set m \<inter> key ` set mcs = {}"
  shows "entity_rows (fold (\<lambda>mc m. if rows mc \<noteq> [] then mapput (key mc) (rows mc) m else m) mcs m) =
         entity_rows m \<union> (\<Union>mc\<in>set mcs. set (rows mc))"
  using assms
proof (induction mcs arbitrary: m)
  case (Cons mc mcs)
  let ?m = "if rows mc \<noteq> [] then mapput (key mc) (rows mc) m else m"
  have "fst ` set ?m \<inter> key ` set mcs = {}" using Cons.prems by (auto simp: update_new)
  then have "entity_rows (fold (\<lambda>mc m. if rows mc \<noteq> [] then mapput (key mc) (rows mc) m else m) mcs ?m) =
      entity_rows ?m \<union> (\<Union>mc\<in>set mcs. set (rows mc))"
    using Cons.prems by (intro Cons.IH) auto
  moreover have "entity_rows ?m = entity_rows m \<union> set (rows mc)"
    using Cons.prems by (auto simp: update_new entity_rows_def)
  ultimately show ?case by simp blast
qed simp

lemma model_budgets_rows:
  "distinct (map modelConfigEntityKey mcs) \<Longrightarrow>
   entity_rows (model_budgets gs mcs) = (\<Union>mc\<in>set mcs. set (loadModelConfigBudgets gs mc))"
  using model_rows_fold [of modelConfigEntityKey mcs "[]" "loadModelConfigBudgets gs"]
  by (simp add: model_budgets_def Let_def)

definition config_rateLimits :: "GovStore \<Rightarrow> TableModelConfig \<Rightarrow> TableRateLimit list" where
  "config_rateLimits gs mc = (case Option.bind (mc_RateLimitID mc) (\<lambda>i. LoadRateLimit i gs) of None \<Rightarrow> [] | Some rl \<Rightarrow> [rl])"

lemma model_rateLimits_rows:
  assumes "distinct (map modelConfigEntityKey mcs)"
  shows "entity_rows (model_rateLimits gs mcs) = (\<Union>mc\<in>set mcs. set (config_rateLimits gs mc))"
proof -
  have "model_rateLimits gs mcs = fold (\<lambda>mc m. if config_rateLimits gs mc \<noteq> []
      then mapput (modelConfigEntityKey mc) (config_rateLimits gs mc) m else m) mcs []"
    unfolding model_rateLimits_def config_rateLimits_def
    by (intro fold_cong refl ext) (simp split: option.splits)
  then show ?thesis using model_rows_fold [OF assms, of "[]" "config_rateLimits gs"] by simp
qed

end
