(* ===== verification/Governance_Resolver.thy ===== *)
theory Governance_Resolver
  imports Governance_Owners
begin

text \<open>
  Whether a request may run: the resolver of \<open>src/plugins/governance/resolver.go\<close> and
  \<open>EvaluateGovernanceRequest\<close> of \<open>main.go\<close> with the tool filters beside it.

  \<^item> An evaluation runs its checks in order and stops at the first denial. It reads one instant \<open>now\<close>
    and returns the request context with what it wrote there.
  \<^item> The model catalog is an argument: the base name of a model, and whether a provider may serve a
    model given the key's allow list; both are absent without a catalog. So is the map of MCP
    clients that allow every virtual key.
  \<^item> \<open>BudgetInfo\<close> and \<open>UsageInfo\<close> of a result are never set and left out; the context is never nil.

  Shown: a request is let through only for an active, unexpired key that may use provider and model; a
  refused key is refused whatever the state of its team and customer; the check of added tools is
  not reached unless limits are skipped.
\<close>

subsection \<open>Results\<close>

record EvaluationResult =
  ev_Decision :: Decision
  ev_Reason :: string
  ev_VirtualKey :: "TableVirtualKey option"
  ev_RateLimitInfo :: "TableRateLimit option"

record BudgetResolver =
  br_baseModelName :: "(string \<Rightarrow> string) option"
  br_modelAllowed :: "(ModelProvider \<Rightarrow> string \<Rightarrow> WhiteList \<Rightarrow> bool) option"

fun decision_string :: "Decision \<Rightarrow> string" where
  "decision_string DecisionAllow = ''allow''"
| "decision_string DecisionVirtualKeyNotFound = ''virtual_key_not_found''"
| "decision_string DecisionVirtualKeyBlocked = ''virtual_key_blocked''"
| "decision_string DecisionRateLimited = ''rate_limited''"
| "decision_string DecisionBudgetExceeded = ''budget_exceeded''"
| "decision_string DecisionTokenLimited = ''token_limited''"
| "decision_string DecisionRequestLimited = ''request_limited''"
| "decision_string DecisionModelBlocked = ''model_blocked''"
| "decision_string DecisionProviderBlocked = ''provider_blocked''"
| "decision_string DecisionMCPToolBlocked = ''mcp_tool_blocked''"

definition isRateLimitViolation :: "Decision \<Rightarrow> bool" where
  "isRateLimitViolation decision \<longleftrightarrow>
     decision = DecisionRateLimited \<or> decision = DecisionTokenLimited \<or> decision = DecisionRequestLimited"

definition isBudgetViolation :: "Decision \<Rightarrow> bool" where
  "isBudgetViolation decision \<longleftrightarrow> decision = DecisionBudgetExceeded"

definition reasonFromErr :: "string option \<Rightarrow> Decision \<Rightarrow> string" where
  "reasonFromErr err decision = (case err of
       Some e \<Rightarrow> e
     | None \<Rightarrow> ''policy violation ('' @ decision_string decision @ '')'')"

text \<open>The guards \<open>err != nil || isRateLimitViolation(decision)\<close> and its budget counterpart.\<close>

definition rate_failed :: "Decision \<times> string option \<Rightarrow> bool" where
  "rate_failed r \<longleftrightarrow> snd r \<noteq> None \<or> isRateLimitViolation (fst r)"

definition budget_failed :: "Decision \<times> string option \<Rightarrow> bool" where
  "budget_failed r \<longleftrightarrow> snd r \<noteq> None \<or> isBudgetViolation (fst r)"

definition result_of :: "Decision \<Rightarrow> string \<Rightarrow> TableVirtualKey option \<Rightarrow> EvaluationResult" where
  "result_of d reason vk = \<lparr>ev_Decision = d, ev_Reason = reason, ev_VirtualKey = vk, ev_RateLimitInfo = None\<rparr>"

definition denied :: "string \<Rightarrow> Decision \<times> string option \<Rightarrow> TableVirtualKey option \<Rightarrow> EvaluationResult" where
  "denied prefix r vk = result_of (fst r) (prefix @ reasonFromErr (snd r) (fst r)) vk"

subsection \<open>Evaluations without a virtual key\<close>

definition EvaluateModelAndProviderRequest ::
    "BudgetResolver \<Rightarrow> instant \<Rightarrow> Governance \<Rightarrow> ModelProvider \<Rightarrow> string \<Rightarrow> EvaluationResult" where
  "EvaluateModelAndProviderRequest r now gv provider model =
     (let request = \<lparr>er_VirtualKey = '''', er_Provider = provider, er_Model = model, er_UserID = ''''\<rparr>
      in if provider \<noteq> '''' \<and> rate_failed (CheckProviderRateLimit now gv request)
         then denied ''Provider-level rate limit check failed: '' (CheckProviderRateLimit now gv request) None
         else if provider \<noteq> '''' \<and> budget_failed (CheckProviderBudget now gv request)
         then denied ''Provider-level budget exceeded: '' (CheckProviderBudget now gv request) None
         else if model \<noteq> '''' \<and> rate_failed (CheckModelRateLimit (br_baseModelName r) now gv request)
         then denied ''Model-level rate limit check failed: '' (CheckModelRateLimit (br_baseModelName r) now gv request) None
         else if model \<noteq> '''' \<and> budget_failed (CheckModelBudget (br_baseModelName r) now gv request)
         then denied ''Model-level budget exceeded: '' (CheckModelBudget (br_baseModelName r) now gv request) None
         else result_of DecisionAllow
                ''Request allowed by governance policy (provider-level and model-level checks passed)'' None)"

definition EvaluateCustomerRequest :: "instant \<Rightarrow> Governance \<Rightarrow> string \<Rightarrow> EvaluationResult" where
  "EvaluateCustomerRequest now gv customerID =
     (if customerID = ''''
      then result_of DecisionAllow ''No customer ID provided, skipping customer-level checks'' None
      else if rate_failed (CheckCustomerRateLimit now gv customerID)
      then denied ''Customer-level rate limit exceeded: '' (CheckCustomerRateLimit now gv customerID) None
      else if budget_failed (CheckCustomerBudget now gv customerID)
      then denied ''Customer-level budget exceeded: '' (CheckCustomerBudget now gv customerID) None
      else result_of DecisionAllow ''Customer-level checks passed'' None)"

definition EvaluateTeamRequest :: "instant \<Rightarrow> Governance \<Rightarrow> string \<Rightarrow> EvaluationResult" where
  "EvaluateTeamRequest now gv teamID =
     (if teamID = ''''
      then result_of DecisionAllow ''No team ID provided, skipping team-level checks'' None
      else if rate_failed (CheckTeamRateLimit now gv teamID)
      then denied ''Team-level rate limit exceeded: '' (CheckTeamRateLimit now gv teamID) None
      else if budget_failed (CheckTeamBudget now gv teamID)
      then denied ''Team-level budget exceeded: '' (CheckTeamBudget now gv teamID) None
      else result_of DecisionAllow ''Team-level checks passed'' None)"

definition EvaluateUserRequest ::
    "BudgetResolver \<Rightarrow> instant \<Rightarrow> Governance \<Rightarrow> string \<Rightarrow> EvaluationRequest \<Rightarrow> EvaluationResult" where
  "EvaluateUserRequest r now gv userID request =
     (let scopedRate = CheckScopedModelRateLimit (br_baseModelName r) now gv ModelConfigScopeUser userID request;
          scopedBudget = CheckScopedModelBudget (br_baseModelName r) now gv ModelConfigScopeUser userID request
      in if userID = ''''
         then result_of DecisionAllow ''No user ID provided, skipping user-level checks'' None
         else if rate_failed (CheckUserRateLimit now gv userID)
         then denied ''User-level rate limit exceeded: '' (CheckUserRateLimit now gv userID) None
         else if budget_failed (CheckUserBudget now gv userID)
         then denied ''User-level budget exceeded: '' (CheckUserBudget now gv userID) None
         else if er_Model request \<noteq> '''' \<and> rate_failed scopedRate
         then denied ''User-level model rate limit exceeded: '' scopedRate None
         else if er_Model request \<noteq> '''' \<and> budget_failed scopedBudget
         then denied ''User-level model budget exceeded: '' scopedBudget None
         else result_of DecisionAllow ''User-level checks passed'' None)"

subsection \<open>Evaluation of a virtual key\<close>

abbreviation KeyGovernanceVirtualKeyID :: string where "KeyGovernanceVirtualKeyID \<equiv> ''bifrost-governance-virtual-key-id''"
abbreviation KeyGovernanceVirtualKeyName :: string where "KeyGovernanceVirtualKeyName \<equiv> ''bifrost-governance-virtual-key-name''"
abbreviation KeyGovernanceTeamID :: string where "KeyGovernanceTeamID \<equiv> ''bifrost-governance-team-id''"
abbreviation KeyGovernanceTeamName :: string where "KeyGovernanceTeamName \<equiv> ''bifrost-governance-team-name''"
abbreviation KeyGovernanceCustomerID :: string where "KeyGovernanceCustomerID \<equiv> ''bifrost-governance-customer-id''"
abbreviation KeyGovernanceCustomerName :: string where "KeyGovernanceCustomerName \<equiv> ''bifrost-governance-customer-name''"
abbreviation KeyGovernanceIncludeOnlyKeys :: string where "KeyGovernanceIncludeOnlyKeys \<equiv> ''bf-governance-include-only-keys''"
abbreviation KeyGovernanceRejected :: string where "KeyGovernanceRejected \<equiv> ''bf-governance-rejected''"
abbreviation KeySkipBudgetAndRateLimits :: string where "KeySkipBudgetAndRateLimits \<equiv> ''bifrost-skip-budget-and-rate-limits''"
abbreviation KeyMCPAddedTools :: string where "KeyMCPAddedTools \<equiv> ''bifrost-mcp-added-tools''"
abbreviation KeyDirectKey :: string where "KeyDirectKey \<equiv> ''x-bf-direct-key''"

abbreviation ListModelsRequest :: RequestType where "ListModelsRequest \<equiv> ''list_models''"
abbreviation MCPToolExecutionRequest :: RequestType where "MCPToolExecutionRequest \<equiv> ''mcp_tool_execution''"
abbreviation PassthroughRequest :: RequestType where "PassthroughRequest \<equiv> ''passthrough''"
abbreviation PassthroughStreamRequest :: RequestType where "PassthroughStreamRequest \<equiv> ''passthrough_stream''"

definition IsModelRequiredForRequest :: "RequestType \<Rightarrow> bool" where
  "IsModelRequiredForRequest requestType \<longleftrightarrow> requestType \<notin> set
     [ListModelsRequest, MCPToolExecutionRequest, ''batch_create'', ''batch_list'', ''batch_retrieve'',
      ''batch_cancel'', ''batch_results'', ''file_upload'', ''file_list'', ''file_retrieve'', ''file_delete'',
      ''file_content'', ''container_create'', ''container_list'', ''container_retrieve'', ''container_delete'',
      ''container_file_create'', ''container_file_list'', ''container_file_retrieve'',
      ''container_file_content'', ''container_file_delete'', ''cached_content_list'',
      ''cached_content_retrieve'', ''cached_content_update'', ''cached_content_delete'',
      ''responses_retrieve'', ''responses_retrieve_stream'', ''responses_delete'', ''responses_cancel'',
      ''responses_input_items'', ''video_retrieve'', ''video_download'', ''video_list'', ''video_delete'',
      ''video_remix'', PassthroughRequest, PassthroughStreamRequest]"

definition isModelAllowed :: "BudgetResolver \<Rightarrow> TableVirtualKey \<Rightarrow> ModelProvider \<Rightarrow> string \<Rightarrow> bool" where
  "isModelAllowed r vk provider model =
     (if vk_ProviderConfigs vk = [] then False
      else if list_ex (\<lambda>pc. pc_Provider pc = provider \<and> BlackList_IsBlocked (pc_BlacklistedModels pc) model)
                (vk_ProviderConfigs vk)
      then False
      else list_ex (\<lambda>pc. pc_Provider pc = provider \<and>
             (case br_modelAllowed r of
                Some f \<Rightarrow> f provider model (pc_AllowedModels pc)
              | None \<Rightarrow> WhiteList_IsAllowed (pc_AllowedModels pc) model)) (vk_ProviderConfigs vk))"

definition isProviderAllowed :: "TableVirtualKey \<Rightarrow> ModelProvider \<Rightarrow> bool" where
  "isProviderAllowed vk provider =
     (if vk_ProviderConfigs vk = [] then False
      else list_ex (\<lambda>pc. pc_Provider pc = provider) (vk_ProviderConfigs vk))"

definition checkRateLimitHierarchy ::
    "instant \<Rightarrow> Governance \<Rightarrow> TableVirtualKey \<Rightarrow> EvaluationRequest \<Rightarrow> EvaluationResult option" where
  "checkRateLimitHierarchy now gv vk request =
     (let res = CheckVirtualKeyRateLimit now gv vk request
      in if rate_failed res
         then let rateLimitInfo =
                    (case find (\<lambda>pc. pc_Provider pc = er_Provider request \<and> pc_RateLimitID pc \<noteq> None) (vk_ProviderConfigs vk) of
                       Some pc \<Rightarrow> Option.bind (pc_RateLimitID pc) (\<lambda>i. LoadRateLimit i (gv_store gv))
                     | None \<Rightarrow> None);
                  rateLimitInfo = (if rateLimitInfo = None then Option.bind (vk_RateLimitID vk) (\<lambda>i. LoadRateLimit i (gv_store gv))
                     else rateLimitInfo)
              in Some ((denied ''Rate limit check failed: '' res (Some vk))\<lparr>ev_RateLimitInfo := rateLimitInfo\<rparr>)
         else None)"

definition checkBudgetHierarchy ::
    "instant \<Rightarrow> Governance \<Rightarrow> TableVirtualKey \<Rightarrow> EvaluationRequest \<Rightarrow> EvaluationResult option" where
  "checkBudgetHierarchy now gv vk request =
     (let res = CheckVirtualKeyBudget now gv vk request
      in if budget_failed res then Some (denied ''Budget exceeded: '' res (Some vk)) else None)"

text \<open>What identifying the key writes to the context.\<close>

definition set_vk_context :: "TableVirtualKey \<Rightarrow> BifrostContext \<Rightarrow> BifrostContext" where
  "set_vk_context vk ctx =
     (let ctx = SetValue KeyGovernanceVirtualKeyID (CString (vk_ID vk)) ctx;
          ctx = SetValue KeyGovernanceVirtualKeyName (CString (vk_Name vk)) ctx;
          ctx = (case vk_Team vk of
                   None \<Rightarrow> ctx
                 | Some team \<Rightarrow>
                     let ctx = SetValue KeyGovernanceTeamID (CString (tm_ID team)) ctx;
                         ctx = SetValue KeyGovernanceTeamName (CString (tm_Name team)) ctx
                     in case tm_Customer team of
                          None \<Rightarrow> ctx
                        | Some c \<Rightarrow> SetValue KeyGovernanceCustomerName (CString (cu_Name c))
                                      (SetValue KeyGovernanceCustomerID (CString (cu_ID c)) ctx))
      in case vk_Customer vk of
           None \<Rightarrow> ctx
         | Some c \<Rightarrow> SetValue KeyGovernanceCustomerName (CString (cu_Name c))
                       (SetValue KeyGovernanceCustomerID (CString (cu_ID c)) ctx))"

definition set_include_only_keys :: "TableVirtualKey \<Rightarrow> ModelProvider \<Rightarrow> BifrostContext \<Rightarrow> BifrostContext" where
  "set_include_only_keys vk provider ctx =
     (case find (\<lambda>pc. pc_Provider pc = provider) (vk_ProviderConfigs vk) of
        None \<Rightarrow> ctx
      | Some pc \<Rightarrow> if \<not> pc_AllowAllKeys pc then SetValue KeyGovernanceIncludeOnlyKeys (CStrings (pc_Keys pc)) ctx else ctx)"

text \<open>Steps 4 to 6 of \<open>EvaluateVirtualKeyRequest\<close>: the first limit that denies the request.\<close>

definition vk_limits ::
    "BudgetResolver \<Rightarrow> instant \<Rightarrow> Governance \<Rightarrow> TableVirtualKey \<Rightarrow> EvaluationRequest \<Rightarrow> EvaluationResult option" where
  "vk_limits r now gv vk request =
     (let scopedRate = CheckScopedModelRateLimit (br_baseModelName r) now gv ModelConfigScopeVirtualKey (vk_ID vk) request;
          scopedBudget = CheckScopedModelBudget (br_baseModelName r) now gv ModelConfigScopeVirtualKey (vk_ID vk) request
      in case checkRateLimitHierarchy now gv vk request of
           Some res \<Rightarrow> Some res
         | None \<Rightarrow> (case checkBudgetHierarchy now gv vk request of
             Some res \<Rightarrow> Some res
           | None \<Rightarrow>
               if er_Model request \<noteq> '''' \<and> rate_failed scopedRate
               then Some (denied ''Model-level rate limit check failed (virtual key scope): '' scopedRate (Some vk))
               else if er_Model request \<noteq> '''' \<and> budget_failed scopedBudget
               then Some (denied ''Model-level budget exceeded (virtual key scope): '' scopedBudget (Some vk))
               else None))"

definition provider_filtered :: "RequestType \<Rightarrow> bool" where
  "provider_filtered requestType \<longleftrightarrow> requestType \<noteq> MCPToolExecutionRequest \<and> requestType \<noteq> ListModelsRequest"

definition model_filtered :: "RequestType \<Rightarrow> string \<Rightarrow> bool" where
  "model_filtered requestType model \<longleftrightarrow>
     (let isPassthrough = (requestType = PassthroughRequest \<or> requestType = PassthroughStreamRequest)
      in IsModelRequiredForRequest requestType \<or> (isPassthrough \<and> model \<noteq> ''''))"

definition EvaluateVirtualKeyRequest ::
    "BudgetResolver \<Rightarrow> instant \<Rightarrow> Governance \<Rightarrow> string \<Rightarrow> ModelProvider \<Rightarrow> string \<Rightarrow> RequestType \<Rightarrow> bool
      \<Rightarrow> BifrostContext \<Rightarrow> BifrostContext \<times> EvaluationResult" where
  "EvaluateVirtualKeyRequest r now gv virtualKeyValue provider model requestType skipRateLimitsAndBudgets ctx =
     (case GetVirtualKey virtualKeyValue gv of
        None \<Rightarrow> (ctx, result_of DecisionVirtualKeyNotFound ''Virtual key not found'' None)
      | Some vk \<Rightarrow>
          let ctx = set_vk_context vk ctx;
              request = \<lparr>er_VirtualKey = virtualKeyValue, er_Provider = provider, er_Model = model, er_UserID = ''''\<rparr>
          in if \<not> IsActiveValue vk then (ctx, result_of DecisionVirtualKeyBlocked ''Virtual key is inactive'' None)
             else if IsExpiredAt now vk then (ctx, result_of DecisionVirtualKeyBlocked ''Virtual key has expired'' None)
             else if provider_filtered requestType \<and> \<not> isProviderAllowed vk provider
             then (ctx, result_of DecisionProviderBlocked
                     (''Provider '' @ [CHR 0x27] @ provider @ [CHR 0x27] @ '' is not allowed for this virtual key'') (Some vk))
             else if model_filtered requestType model \<and> \<not> isModelAllowed r vk provider model
             then (ctx, result_of DecisionModelBlocked
                     (''Model '' @ [CHR 0x27] @ model @ [CHR 0x27] @ '' is not allowed for this virtual key'') (Some vk))
             else case (if skipRateLimitsAndBudgets then None else vk_limits r now gv vk request) of
               Some res \<Rightarrow> (ctx, res)
             | None \<Rightarrow> (set_include_only_keys vk provider ctx,
                          result_of DecisionAllow ''Request allowed by governance policy'' (Some vk)))"

definition isProviderBudgetViolated ::
    "instant \<Rightarrow> Governance \<Rightarrow> TableVirtualKey \<Rightarrow> TableVirtualKeyProviderConfig \<Rightarrow> bool" where
  "isProviderBudgetViolated now gv vk config =
     (let request = \<lparr>er_VirtualKey = '''', er_Provider = pc_Provider config, er_Model = '''', er_UserID = ''''\<rparr>
      in if snd (CheckProviderBudget now gv request) \<noteq> None then True
         else if pc_Budgets config = [] then False
         else snd (CheckVirtualKeyBudget now gv vk request) \<noteq> None)"

definition isProviderRateLimitViolated ::
    "instant \<Rightarrow> Governance \<Rightarrow> TableVirtualKey \<Rightarrow> TableVirtualKeyProviderConfig \<Rightarrow> bool" where
  "isProviderRateLimitViolated now gv vk config =
     (let request = \<lparr>er_VirtualKey = '''', er_Provider = pc_Provider config, er_Model = '''', er_UserID = ''''\<rparr>
      in if rate_failed (CheckProviderRateLimit now gv request) then True
         else if pc_RateLimitID config = None then False
         else rate_failed (CheckVirtualKeyRateLimit now gv vk request))"

subsection \<open>Tools\<close>

text \<open>\<open>allowAllClients\<close> lists the names of the clients that allow every virtual key, by client ID.\<close>

fun first_config_for :: "string \<Rightarrow> TableVirtualKeyMCPConfig list \<Rightarrow> TableVirtualKeyMCPConfig option" where
  "first_config_for toolPattern [] = None"
| "first_config_for toolPattern (c # cs) =
     (if toolPattern \<noteq> mcp_ClientName c @ ''-*'' \<and> \<not> strings_HasPrefix toolPattern (mcp_ClientName c @ ''-'')
      then first_config_for toolPattern cs else Some c)"

definition isMCPToolAllowedByVKWith :: "TableVirtualKey \<Rightarrow> string \<Rightarrow> (string, string) gomap \<Rightarrow> bool" where
  "isMCPToolAllowedByVKWith vk toolPattern allowAllClients =
     (case first_config_for toolPattern (vk_MCPConfigs vk) of
        Some mcpConfig \<Rightarrow>
          let clientName = mcp_ClientName mcpConfig
          in if toolPattern = clientName @ ''-*'' then \<not> WhiteList_IsEmpty (mcp_ToolsToExecute mcpConfig)
             else if WhiteList_IsUnrestricted (mcp_ToolsToExecute mcpConfig) then True
             else WhiteList_Contains (mcp_ToolsToExecute mcpConfig) (drop (length (clientName @ ''-'')) toolPattern)
      | None \<Rightarrow> list_ex (\<lambda>(_, clientName).
          strings_HasPrefix toolPattern (clientName @ ''-'') \<or> toolPattern = clientName @ ''-*'') allowAllClients)"

subsection \<open>The whole evaluation\<close>

record GovernancePlugin =
  gp_resolver :: BudgetResolver
  gp_isVkMandatory :: "bool option"
  gp_allowAllClients :: "(string, string) gomap"

definition GetBoolFromContext :: "BifrostContext \<Rightarrow> string \<Rightarrow> bool" where
  "GetBoolFromContext ctx k = (case Value ctx k of Some (CBool b) \<Rightarrow> b | _ \<Rightarrow> False)"

definition hasDirectKeyAuth :: "BifrostContext \<Rightarrow> bool" where
  "hasDirectKeyAuth ctx = (case Value ctx KeyDirectKey of Some (CKey _) \<Rightarrow> True | _ \<Rightarrow> False)"

definition hierarchy_customer_id :: "TableVirtualKey \<Rightarrow> string" where
  "hierarchy_customer_id vk =
     (case vk_CustomerID vk of
        Some c \<Rightarrow> c
      | None \<Rightarrow> (case vk_Customer vk of
          Some c \<Rightarrow> cu_ID c
        | None \<Rightarrow> (case vk_Team vk of
            None \<Rightarrow> ''''
          | Some team \<Rightarrow> (case tm_CustomerID team of
              Some c \<Rightarrow> c
            | None \<Rightarrow> (case tm_Customer team of Some c \<Rightarrow> cu_ID c | None \<Rightarrow> '''')))))"

definition hierarchy_team_id :: "TableVirtualKey \<Rightarrow> string" where
  "hierarchy_team_id vk =
     (case vk_TeamID vk of
        Some t \<Rightarrow> t
      | None \<Rightarrow> (case vk_Team vk of Some team \<Rightarrow> tm_ID team | None \<Rightarrow> ''''))"

text \<open>The check of the tools added to a request.\<close>

fun join_comma :: "string list \<Rightarrow> string" where
  "join_comma [] = ''''"
| "join_comma [x] = x"
| "join_comma (x # y # xs) = x @ '', '' @ join_comma (y # xs)"

definition check_added_tools ::
    "GovernancePlugin \<Rightarrow> BifrostContext \<Rightarrow> EvaluationResult \<Rightarrow> EvaluationResult" where
  "check_added_tools p ctx result =
     (case ev_VirtualKey result of
        Some vk \<Rightarrow>
          if ev_Decision result = DecisionAllow
          then (case Option.bind (Value ctx KeyMCPAddedTools) dest_strings of
              None \<Rightarrow> result
            | Some addedTools \<Rightarrow>
                let disallowed = filter (\<lambda>t. \<not> isMCPToolAllowedByVKWith vk t (gp_allowAllClients p)) addedTools
                in if disallowed \<noteq> []
                   then result_of DecisionMCPToolBlocked
                     (''MCP tools not allowed for virtual key '' @ [CHR 0x27] @ vk_Name vk @ [CHR 0x27] @ '': '' @ join_comma disallowed)
                     (Some vk)
                   else result)
          else result
      | None \<Rightarrow> result)"

definition governance_error :: "Decision \<Rightarrow> string \<Rightarrow> BifrostError option" where
  "governance_error d reason =
     (let err = \<lambda>code. Some (zeroError\<lparr>be_Type := Some (decision_string d), be_StatusCode := Some code,
                  be_Error := Some \<lparr>ef_Type = None, ef_Code = None, ef_Message = reason, ef_Error = None\<rparr>\<rparr>)
      in case d of
           DecisionAllow \<Rightarrow> None
         | DecisionVirtualKeyNotFound \<Rightarrow> err 403
         | DecisionVirtualKeyBlocked \<Rightarrow> err 403
         | DecisionModelBlocked \<Rightarrow> err 403
         | DecisionProviderBlocked \<Rightarrow> err 403
         | DecisionRateLimited \<Rightarrow> err 429
         | DecisionTokenLimited \<Rightarrow> err 429
         | DecisionRequestLimited \<Rightarrow> err 429
         | DecisionBudgetExceeded \<Rightarrow> err 402
         | DecisionMCPToolBlocked \<Rightarrow> err 403)"

definition unauthorized :: "string \<Rightarrow> string \<Rightarrow> BifrostError" where
  "unauthorized t message = zeroError\<lparr>be_Type := Some t, be_StatusCode := Some 401,
     be_Error := Some \<lparr>ef_Type = None, ef_Code = None, ef_Message = message, ef_Error = None\<rparr>\<rparr>"

text \<open>Steps 1 to 4, after the provider and model level.\<close>

definition step_virtual_key ::
    "GovernancePlugin \<Rightarrow> instant \<Rightarrow> Governance \<Rightarrow> EvaluationRequest \<Rightarrow> RequestType \<Rightarrow> bool
      \<Rightarrow> BifrostContext \<times> EvaluationResult \<Rightarrow> BifrostContext \<times> EvaluationResult" where
  "step_virtual_key p now gv request requestType skip cr =
     (if ev_Decision (snd cr) = DecisionAllow \<and> er_VirtualKey request \<noteq> ''''
      then EvaluateVirtualKeyRequest (gp_resolver p) now gv (er_VirtualKey request) (er_Provider request) (er_Model request)
             requestType (er_UserID request \<noteq> '''' \<or> skip) (fst cr)
      else cr)"

definition step_customer :: "instant \<Rightarrow> Governance \<Rightarrow> TableVirtualKey option \<Rightarrow> bool \<Rightarrow> EvaluationResult \<Rightarrow> EvaluationResult" where
  "step_customer now gv hierarchyVK skip result = (case hierarchyVK of
       Some vk \<Rightarrow> if \<not> skip \<and> ev_Decision result = DecisionAllow \<and> hierarchy_customer_id vk \<noteq> ''''
                  then EvaluateCustomerRequest now gv (hierarchy_customer_id vk) else result
     | None \<Rightarrow> result)"

definition step_team :: "instant \<Rightarrow> Governance \<Rightarrow> TableVirtualKey option \<Rightarrow> bool \<Rightarrow> EvaluationResult \<Rightarrow> EvaluationResult" where
  "step_team now gv hierarchyVK skip result = (case hierarchyVK of
       Some vk \<Rightarrow> if \<not> skip \<and> ev_Decision result = DecisionAllow \<and> hierarchy_team_id vk \<noteq> ''''
                  then EvaluateTeamRequest now gv (hierarchy_team_id vk) else result
     | None \<Rightarrow> result)"

definition step_user ::
    "GovernancePlugin \<Rightarrow> instant \<Rightarrow> Governance \<Rightarrow> EvaluationRequest \<Rightarrow> bool \<Rightarrow> EvaluationResult \<Rightarrow> EvaluationResult" where
  "step_user p now gv request skip result =
     (if \<not> skip \<and> ev_Decision result = DecisionAllow
      then EvaluateUserRequest (gp_resolver p) now gv (er_UserID request) request else result)"

definition EvaluateGovernanceRequest ::
    "GovernancePlugin \<Rightarrow> instant \<Rightarrow> Governance \<Rightarrow> EvaluationRequest \<Rightarrow> RequestType \<Rightarrow> BifrostContext
      \<Rightarrow> BifrostContext \<times> EvaluationResult option \<times> BifrostError option" where
  "EvaluateGovernanceRequest p now gv request requestType ctx =
     (let hierarchyVK = (if er_VirtualKey request \<noteq> '''' then GetVirtualKey (er_VirtualKey request) gv else None)
      in if er_VirtualKey request \<noteq> '''' \<and> hierarchyVK = None
         then (ctx, None, Some (unauthorized ''virtual_key_not_found''
                ''virtual key not found. The provided virtual key does not exist or has been revoked.''))
         else if hierarchyVK = None \<and> \<not> hasDirectKeyAuth ctx \<and> er_UserID request = '''' \<and> gp_isVkMandatory p = Some True
         then (ctx, None, Some (unauthorized ''virtual_key_required''
                ''virtual key is required. Provide a virtual key via the x-bf-vk header.''))
         else
           let skip = GetBoolFromContext ctx KeySkipBudgetAndRateLimits;
               result = (if skip
                 then result_of DecisionAllow ''Provider-level and model-level checks skipped for read-only request'' None
                 else EvaluateModelAndProviderRequest (gp_resolver p) now gv (er_Provider request) (er_Model request));
               (ctx, result) = step_virtual_key p now gv request requestType skip (ctx, result);
               result = step_customer now gv hierarchyVK skip result;
               result = step_team now gv hierarchyVK skip result;
               result = step_user p now gv request skip result;
               result = check_added_tools p ctx result;
               ctx = (if ev_Decision result \<noteq> DecisionAllow
                      then (case Value ctx KeyGovernanceRejected of Some (CBool _) \<Rightarrow> ctx
                            | _ \<Rightarrow> SetValue KeyGovernanceRejected (CBool True) ctx)
                      else ClearValue KeyGovernanceRejected ctx)
           in (ctx, Some result, governance_error (ev_Decision result) (ev_Reason result)))"

subsection \<open>Outcomes of the checks\<close>

declare CheckRateLimit.simps [simp del] CheckBudget.simps [simp del]

definition rate_outcome :: "Decision \<times> string option \<Rightarrow> bool" where
  "rate_outcome r \<longleftrightarrow> r = allowed \<or> (\<exists>d e. r = (d, Some e) \<and> d \<in> rate_decisions)"

definition budget_outcome :: "Decision \<times> string option \<Rightarrow> bool" where
  "budget_outcome r \<longleftrightarrow> r = allowed \<or> (\<exists>e. r = (DecisionBudgetExceeded, Some e))"

lemma outcome_basic [simp]:
  "rate_outcome allowed" "budget_outcome allowed"
  "rate_outcome (CheckRateLimit es tb rb now)" "budget_outcome (CheckBudget bs bl now)"
  using CheckRateLimit_cases [of es tb rb now] CheckBudget_cases [of bs bl now]
  by (auto simp: rate_outcome_def budget_outcome_def)

lemma outcome_checks [simp]:
  "rate_outcome (CheckProviderRateLimit now gv rq)" "budget_outcome (CheckProviderBudget now gv rq)"
  "rate_outcome (CheckModelRateLimit f now gv rq)" "budget_outcome (CheckModelBudget f now gv rq)"
  "rate_outcome (CheckScopedModelRateLimit f now gv s i rq)" "budget_outcome (CheckScopedModelBudget f now gv s i rq)"
  "rate_outcome (CheckTeamRateLimit now gv t)" "budget_outcome (CheckTeamBudget now gv t)"
  "rate_outcome (CheckCustomerRateLimit now gv c)" "budget_outcome (CheckCustomerBudget now gv c)"
  "rate_outcome (CheckUserRateLimit now gv u)" "budget_outcome (CheckUserBudget now gv u)"
  "rate_outcome (CheckVirtualKeyRateLimit now gv vk rq)" "budget_outcome (CheckVirtualKeyBudget now gv vk rq)"
  by (simp_all add: extractModelAndProvider_def CheckProviderRateLimit_def CheckProviderBudget_def CheckModelRateLimit_def CheckModelBudget_def
      CheckScopedModelRateLimit_def CheckScopedModelBudget_def CheckTeamRateLimit_def CheckTeamBudget_def
      CheckCustomerRateLimit_def CheckCustomerBudget_def CheckUserRateLimit_def CheckUserBudget_def
      CheckVirtualKeyRateLimit_def CheckVirtualKeyBudget_def Let_def split: option.split)

lemma failed_iff [simp]:
  "rate_outcome r \<Longrightarrow> rate_failed r \<longleftrightarrow> r \<noteq> allowed"
  "budget_outcome r \<Longrightarrow> budget_failed r \<longleftrightarrow> r \<noteq> allowed"
  by (auto simp: rate_outcome_def budget_outcome_def rate_failed_def budget_failed_def
      isRateLimitViolation_def isBudgetViolation_def)

text \<open>Decisions that come out of limits.\<close>

definition limit_decisions :: "Decision set" where
  "limit_decisions = insert DecisionBudgetExceeded rate_decisions"

lemma limit_decisions_not [simp]:
  "DecisionAllow \<notin> limit_decisions" "DecisionMCPToolBlocked \<notin> limit_decisions"
  by (auto simp: limit_decisions_def rate_decisions_def)

lemma denied_limit:
  "rate_outcome r \<Longrightarrow> r \<noteq> allowed \<Longrightarrow> ev_Decision (denied prefix r vk) \<in> limit_decisions"
  "budget_outcome r \<Longrightarrow> r \<noteq> allowed \<Longrightarrow> ev_Decision (denied prefix r vk) \<in> limit_decisions"
  by (auto simp: rate_outcome_def budget_outcome_def denied_def result_of_def limit_decisions_def)

lemma result_of_simps [simp]:
  "ev_Decision (result_of d s vk) = d" "ev_VirtualKey (result_of d s vk) = vk" "ev_Reason (result_of d s vk) = s"
  by (simp_all add: result_of_def)

lemma denied_simps [simp]: "ev_VirtualKey (denied s r vk) = vk"
  by (simp add: denied_def)

lemma denied_not [simp]:
  assumes "rate_outcome r \<or> budget_outcome r" "r \<noteq> allowed"
  shows "ev_Decision (denied s r vk) \<noteq> DecisionAllow" "ev_Decision (denied s r vk) \<noteq> DecisionMCPToolBlocked"
  using assms denied_limit [of r s vk] by auto

subsection \<open>What an evaluation lets through\<close>

abbreviation plain_request :: "string \<Rightarrow> ModelProvider \<Rightarrow> string \<Rightarrow> EvaluationRequest" where
  "plain_request v provider model \<equiv> \<lparr>er_VirtualKey = v, er_Provider = provider, er_Model = model, er_UserID = ''''\<rparr>"

lemma EvaluateModelAndProvider_allow:
  "ev_Decision (EvaluateModelAndProviderRequest r now gv provider model) = DecisionAllow \<longleftrightarrow>
     (let rq = plain_request '''' provider model
      in (provider \<noteq> '''' \<longrightarrow> CheckProviderRateLimit now gv rq = allowed \<and> CheckProviderBudget now gv rq = allowed)
       \<and> (model \<noteq> '''' \<longrightarrow> CheckModelRateLimit (br_baseModelName r) now gv rq = allowed
            \<and> CheckModelBudget (br_baseModelName r) now gv rq = allowed))"
  by (auto simp: EvaluateModelAndProviderRequest_def Let_def)

lemma EvaluateModelAndProvider_decision:
  "ev_Decision (EvaluateModelAndProviderRequest r now gv provider model) \<noteq> DecisionMCPToolBlocked
   \<and> ev_VirtualKey (EvaluateModelAndProviderRequest r now gv provider model) = None"
  by (auto simp: EvaluateModelAndProviderRequest_def Let_def)

lemma Evaluate_levels_decision:
  "ev_Decision (EvaluateCustomerRequest now gv c) \<noteq> DecisionMCPToolBlocked"
  "ev_Decision (EvaluateTeamRequest now gv t) \<noteq> DecisionMCPToolBlocked"
  "ev_Decision (EvaluateUserRequest r now gv u rq) \<noteq> DecisionMCPToolBlocked"
  "ev_VirtualKey (EvaluateUserRequest r now gv u rq) = None"
  by (auto simp: EvaluateCustomerRequest_def EvaluateTeamRequest_def EvaluateUserRequest_def Let_def)

lemma vk_limits_None:
  "vk_limits r now gv vk rq = None \<longleftrightarrow>
     CheckVirtualKeyRateLimit now gv vk rq = allowed \<and> CheckVirtualKeyBudget now gv vk rq = allowed
     \<and> (er_Model rq \<noteq> '''' \<longrightarrow>
          CheckScopedModelRateLimit (br_baseModelName r) now gv ModelConfigScopeVirtualKey (vk_ID vk) rq = allowed
        \<and> CheckScopedModelBudget (br_baseModelName r) now gv ModelConfigScopeVirtualKey (vk_ID vk) rq = allowed)"
  by (auto simp: vk_limits_def checkRateLimitHierarchy_def checkBudgetHierarchy_def Let_def split: option.split)

lemma vk_limits_Some: "vk_limits r now gv vk rq = Some res \<Longrightarrow> ev_Decision res \<in> limit_decisions"
  by (auto simp: vk_limits_def checkRateLimitHierarchy_def checkBudgetHierarchy_def Let_def denied_limit
      split: option.splits if_splits)

text \<open>The identity of a key: it exists, is active and unexpired, and may use provider and model.\<close>

definition vk_identity :: "BudgetResolver \<Rightarrow> instant \<Rightarrow> TableVirtualKey \<Rightarrow> ModelProvider \<Rightarrow> string \<Rightarrow> RequestType \<Rightarrow> bool" where
  "vk_identity r now vk provider model rt \<longleftrightarrow>
     IsActiveValue vk \<and> \<not> IsExpiredAt now vk
     \<and> (provider_filtered rt \<longrightarrow> isProviderAllowed vk provider)
     \<and> (model_filtered rt model \<longrightarrow> isModelAllowed r vk provider model)"

lemma EvaluateVirtualKey_found:
  assumes "GetVirtualKey v gv = Some vk" "vk_identity r now vk provider model rt"
  shows "EvaluateVirtualKeyRequest r now gv v provider model rt skip ctx =
     (case (if skip then None else vk_limits r now gv vk (plain_request v provider model)) of
        Some res \<Rightarrow> (set_vk_context vk ctx, res)
      | None \<Rightarrow> (set_include_only_keys vk provider (set_vk_context vk ctx),
                  result_of DecisionAllow ''Request allowed by governance policy'' (Some vk)))"
  using assms by (auto simp: EvaluateVirtualKeyRequest_def vk_identity_def Let_def)

definition identity_decisions :: "Decision set" where
  "identity_decisions = {DecisionVirtualKeyBlocked, DecisionProviderBlocked, DecisionModelBlocked}"

lemma EvaluateVirtualKey_refused:
  assumes "GetVirtualKey v gv = Some vk" "\<not> vk_identity r now vk provider model rt"
  shows "ev_Decision (snd (EvaluateVirtualKeyRequest r now gv v provider model rt skip ctx)) \<in> identity_decisions"
  using assms by (auto simp: EvaluateVirtualKeyRequest_def vk_identity_def identity_decisions_def Let_def)

lemma EvaluateVirtualKey_allow:
  "ev_Decision (snd (EvaluateVirtualKeyRequest r now gv v provider model rt skip ctx)) = DecisionAllow \<longleftrightarrow>
     (\<exists>vk. GetVirtualKey v gv = Some vk \<and> vk_identity r now vk provider model rt
        \<and> (\<not> skip \<longrightarrow> vk_limits r now gv vk (plain_request v provider model) = None))"
proof (cases "GetVirtualKey v gv")
  case None
  then show ?thesis by (simp add: EvaluateVirtualKeyRequest_def)
next
  case (Some vk)
  show ?thesis
  proof (cases "vk_identity r now vk provider model rt")
    case True
    have "ev_Decision res \<noteq> DecisionAllow" if "vk_limits r now gv vk (plain_request v provider model) = Some res" for res
      using vk_limits_Some [OF that] by auto
    then show ?thesis using Some True by (simp add: EvaluateVirtualKey_found [OF Some True] split: option.split)
  next
    case False
    then show ?thesis
      using Some EvaluateVirtualKey_refused [OF Some False, of skip ctx] by (auto simp: identity_decisions_def)
  qed
qed

lemma EvaluateVirtualKey_allowed:
  assumes "ev_Decision (snd (EvaluateVirtualKeyRequest r now gv v provider model rt skip ctx)) = DecisionAllow"
    and "GetVirtualKey v gv = Some vk"
  shows "EvaluateVirtualKeyRequest r now gv v provider model rt skip ctx =
           (set_include_only_keys vk provider (set_vk_context vk ctx),
            result_of DecisionAllow ''Request allowed by governance policy'' (Some vk))"
  using assms(1) unfolding EvaluateVirtualKey_allow by (auto simp: assms(2) EvaluateVirtualKey_found)

lemma EvaluateVirtualKey_decision:
  "ev_Decision (snd (EvaluateVirtualKeyRequest r now gv v provider model rt skip ctx)) \<noteq> DecisionMCPToolBlocked"
proof (cases "GetVirtualKey v gv")
  case None
  then show ?thesis by (simp add: EvaluateVirtualKeyRequest_def)
next
  case (Some vk)
  show ?thesis
  proof (cases "vk_identity r now vk provider model rt")
    case True
    then show ?thesis
      using vk_limits_Some [of r now gv vk "plain_request v provider model"]
      by (auto simp: EvaluateVirtualKey_found [OF Some True] split: option.split)
  next
    case False
    then show ?thesis
      using EvaluateVirtualKey_refused [OF Some False, of skip ctx] by (auto simp: identity_decisions_def)
  qed
qed

subsection \<open>The whole evaluation\<close>

lemma governance_error_None: "governance_error d s = None \<longleftrightarrow> d = DecisionAllow"
  by (cases d) (simp_all add: governance_error_def)

lemma step_allow:
  "ev_Decision (step_customer now gv h skip res) = DecisionAllow \<Longrightarrow> ev_Decision res = DecisionAllow"
  "ev_Decision (step_team now gv h skip res) = DecisionAllow \<Longrightarrow> ev_Decision res = DecisionAllow"
  "ev_Decision (step_user p now gv rq skip res) = DecisionAllow \<Longrightarrow> ev_Decision res = DecisionAllow"
  "ev_Decision (check_added_tools p ctx res) = DecisionAllow \<Longrightarrow> ev_Decision res = DecisionAllow"
  by (auto simp: step_customer_def step_team_def step_user_def check_added_tools_def split: option.splits if_splits)

lemma step_denied:
  assumes "ev_Decision res \<noteq> DecisionAllow"
  shows "step_customer now gv h skip res = res" "step_team now gv h skip res = res"
    "step_user p now gv rq skip res = res" "check_added_tools p ctx res = res"
  using assms by (auto simp: step_customer_def step_team_def step_user_def check_added_tools_def split: option.split)

lemma step_not_tools:
  assumes "ev_Decision res \<noteq> DecisionMCPToolBlocked"
  shows "ev_Decision (step_customer now gv h skip res) \<noteq> DecisionMCPToolBlocked"
    "ev_Decision (step_team now gv h skip res) \<noteq> DecisionMCPToolBlocked"
    "ev_Decision (step_user p now gv rq skip res) \<noteq> DecisionMCPToolBlocked"
  using assms by (auto simp: step_customer_def step_team_def step_user_def Evaluate_levels_decision split: option.split)

text \<open>The results after the provider and model level, after the key and at the end.\<close>

definition first_result :: "GovernancePlugin \<Rightarrow> instant \<Rightarrow> Governance \<Rightarrow> EvaluationRequest \<Rightarrow> bool \<Rightarrow> EvaluationResult" where
  "first_result p now gv rq skip = (if skip
     then result_of DecisionAllow ''Provider-level and model-level checks skipped for read-only request'' None
     else EvaluateModelAndProviderRequest (gp_resolver p) now gv (er_Provider rq) (er_Model rq))"

definition level_result ::
    "GovernancePlugin \<Rightarrow> instant \<Rightarrow> Governance \<Rightarrow> EvaluationRequest \<Rightarrow> TableVirtualKey option \<Rightarrow> bool \<Rightarrow> EvaluationResult \<Rightarrow> EvaluationResult" where
  "level_result p now gv rq h skip res =
     step_user p now gv rq skip (step_team now gv h skip (step_customer now gv h skip res))"

lemma EvaluateGovernance_result:
  assumes "EvaluateGovernanceRequest p now gv rq rt ctx = (ctx', Some res, err)"
  obtains h skip c1 r1 where
    "skip = GetBoolFromContext ctx KeySkipBudgetAndRateLimits"
    "h = (if er_VirtualKey rq \<noteq> '''' then GetVirtualKey (er_VirtualKey rq) gv else None)"
    "er_VirtualKey rq \<noteq> '''' \<Longrightarrow> h \<noteq> None"
    "step_virtual_key p now gv rq rt skip (ctx, first_result p now gv rq skip) = (c1, r1)"
    "res = check_added_tools p c1 (level_result p now gv rq h skip r1)"
    "err = governance_error (ev_Decision res) (ev_Reason res)"
    "ev_Decision res = DecisionAllow \<longrightarrow> ctx' = ClearValue KeyGovernanceRejected c1"
proof -
  define skip where "skip = GetBoolFromContext ctx KeySkipBudgetAndRateLimits"
  define h where "h = (if er_VirtualKey rq \<noteq> '''' then GetVirtualKey (er_VirtualKey rq) gv else None)"
  obtain c1 r1 where sv: "step_virtual_key p now gv rq rt skip (ctx, first_result p now gv rq skip) = (c1, r1)"
    by (cases "step_virtual_key p now gv rq rt skip (ctx, first_result p now gv rq skip)")
  have eq: "er_VirtualKey rq \<noteq> '''' \<longrightarrow> h \<noteq> None" "res = check_added_tools p c1 (level_result p now gv rq h skip r1)"
    "err = governance_error (ev_Decision res) (ev_Reason res)"
    "ev_Decision res = DecisionAllow \<longrightarrow> ctx' = ClearValue KeyGovernanceRejected c1"
    using assms sv
    unfolding EvaluateGovernanceRequest_def level_result_def first_result_def h_def [symmetric] skip_def [symmetric] Let_def
    by (auto split: if_splits)
  show ?thesis using that [OF skip_def h_def _ sv eq(2,3)] eq(1,4) by simp
qed

lemma step_virtual_key_allow:
  assumes "step_virtual_key p now gv rq rt skip (ctx, r0) = (c1, r1)" "ev_Decision r1 = DecisionAllow"
    and "er_VirtualKey rq \<noteq> ''''"
  obtains vk where "ev_Decision r0 = DecisionAllow" "GetVirtualKey (er_VirtualKey rq) gv = Some vk"
    "vk_identity (gp_resolver p) now vk (er_Provider rq) (er_Model rq) rt"
    "er_UserID rq = '''' \<and> \<not> skip \<longrightarrow>
       vk_limits (gp_resolver p) now gv vk (plain_request (er_VirtualKey rq) (er_Provider rq) (er_Model rq)) = None"
    "c1 = set_include_only_keys vk (er_Provider rq) (set_vk_context vk ctx)"
proof -
  let ?E = "EvaluateVirtualKeyRequest (gp_resolver p) now gv (er_VirtualKey rq) (er_Provider rq) (er_Model rq) rt
    (er_UserID rq \<noteq> '''' \<or> skip) ctx"
  have r0: "ev_Decision r0 = DecisionAllow" and E: "?E = (c1, r1)"
    using assms by (auto simp: step_virtual_key_def split: if_splits)
  have allow: "ev_Decision (snd ?E) = DecisionAllow" using E assms(2) by simp
  obtain vk where vk: "GetVirtualKey (er_VirtualKey rq) gv = Some vk"
    "vk_identity (gp_resolver p) now vk (er_Provider rq) (er_Model rq) rt"
    "\<not> (er_UserID rq \<noteq> '''' \<or> skip) \<longrightarrow>
       vk_limits (gp_resolver p) now gv vk (plain_request (er_VirtualKey rq) (er_Provider rq) (er_Model rq)) = None"
    using allow unfolding EvaluateVirtualKey_allow by blast
  have "c1 = set_include_only_keys vk (er_Provider rq) (set_vk_context vk ctx)"
    using EvaluateVirtualKey_allowed [OF allow vk(1)] E by simp
  then show ?thesis using that r0 vk by blast
qed

lemma level_result_allow: "ev_Decision (level_result p now gv rq h skip res) = DecisionAllow \<Longrightarrow> ev_Decision res = DecisionAllow"
  unfolding level_result_def by (blast dest: step_allow)

lemma include_only_keys_value:
  assumes "find (\<lambda>pc. pc_Provider pc = provider) (vk_ProviderConfigs vk) = Some pc" "\<not> pc_AllowAllKeys pc"
  shows "Value (ClearValue KeyGovernanceRejected (set_include_only_keys vk provider ctx)) KeyGovernanceIncludeOnlyKeys
    = Some (CStrings (pc_Keys pc))"
  using assms by (simp add: set_include_only_keys_def SetValue_def ClearValue_def reservedKeys_def split: option.split)

subsection \<open>Examples\<close>

text \<open>A key for one provider that expires at instant 100, in a request to which a tool was added that the
  key does not allow.\<close>

definition demo_key :: TableVirtualKey where
  "demo_key = \<lparr>vk_ID = ''vk1'', vk_Name = ''demo'', vk_Value = ''sk-bf-1'', vk_IsActive = None, vk_ExpiresAt = Some 100,
     vk_ProviderConfigs = [\<lparr>pc_ID = 1, pc_Provider = OpenAI, pc_AllowedModels = [''*''], pc_BlacklistedModels = [],
       pc_AllowAllKeys = False, pc_Keys = [''key-1''], pc_RateLimitID = None, pc_RateLimit = None, pc_Budgets = []\<rparr>],
     vk_MCPConfigs = [], vk_TeamID = None, vk_CustomerID = None, vk_RateLimitID = None, vk_Team = None,
     vk_Customer = None, vk_RateLimit = None, vk_Budgets = [], vk_CalendarAligned = False\<rparr>"

definition demo_governance :: Governance where
  "demo_governance = \<lparr>gv_store = emptyGovStore, gv_virtualKeys = [(''sk-bf-1'', demo_key)],
     gv_virtualKeysByID = [(''vk1'', demo_key)], gv_teams = [], gv_customers = [],
     gv_modelConfigs = [], gv_providers = []\<rparr>"

definition demo_plugin :: GovernancePlugin where
  "demo_plugin = \<lparr>gp_resolver = \<lparr>br_baseModelName = None, br_modelAllowed = None\<rparr>, gp_isVkMandatory = Some True,
     gp_allowAllClients = []\<rparr>"

definition demo_request :: EvaluationRequest where
  "demo_request = plain_request ''sk-bf-1'' OpenAI ''gpt-4o''"

definition demo_context :: BifrostContext where
  "demo_context = \<lparr>cx_userValues = None, cx_parent = (\<lambda>k. if k = KeyMCPAddedTools then Some (CStrings [''files-delete'']) else None), cx_blockRestrictedWrites = True\<rparr>"





text \<open>The tools added to a request are never checked against its key unless limits are skipped: the
  result of the user level, which replaces that of the key, carries no key, so no evaluation of an
  ordinary request ends in \<open>DecisionMCPToolBlocked\<close>.\<close>

theorem added_tools_not_checked:
  assumes "EvaluateGovernanceRequest p now gv rq rt ctx = (ctx', Some res, err)"
    and "\<not> GetBoolFromContext ctx KeySkipBudgetAndRateLimits"
  shows "ev_Decision res \<noteq> DecisionMCPToolBlocked"
proof -
  obtain h skip c1 r1 where g: "skip = GetBoolFromContext ctx KeySkipBudgetAndRateLimits"
    "step_virtual_key p now gv rq rt skip (ctx, first_result p now gv rq skip) = (c1, r1)"
    "res = check_added_tools p c1 (level_result p now gv rq h skip r1)"
    using assms(1) by (rule EvaluateGovernance_result) blast
  have skip: "\<not> skip" using g(1) assms(2) by simp
  have "ev_Decision (first_result p now gv rq skip) \<noteq> DecisionMCPToolBlocked"
    using skip EvaluateModelAndProvider_decision by (simp add: first_result_def)
  then have "ev_Decision r1 \<noteq> DecisionMCPToolBlocked"
    using g(2) EvaluateVirtualKey_decision [of "gp_resolver p" now gv "er_VirtualKey rq" "er_Provider rq" "er_Model rq" rt
      "er_UserID rq \<noteq> [] \<or> skip" ctx]
    by (auto simp: step_virtual_key_def split: if_splits)
  then have "ev_Decision (level_result p now gv rq h skip r1) \<noteq> DecisionMCPToolBlocked"
    unfolding level_result_def by (intro step_not_tools)
  moreover have "ev_Decision (level_result p now gv rq h skip r1) = DecisionAllow \<Longrightarrow>
      ev_VirtualKey (level_result p now gv rq h skip r1) = None"
    using skip by (cases "ev_Decision (step_team now gv h skip (step_customer now gv h skip r1)) = DecisionAllow")
      (simp_all add: level_result_def step_user_def Evaluate_levels_decision)
  ultimately show ?thesis by (auto simp: g(3) check_added_tools_def split: option.split)
qed

theorem added_tools_not_checked_witness:
  "isMCPToolAllowedByVKWith demo_key ''files-delete'' (gp_allowAllClients demo_plugin) = False
   \<and> Value demo_context KeyMCPAddedTools = Some (CStrings [''files-delete''])
   \<and> map_option ev_Decision (fst (snd (EvaluateGovernanceRequest demo_plugin 50 demo_governance demo_request
        ''chat_completion'' demo_context))) \<notin> {None, Some DecisionMCPToolBlocked}"
proof -
  let ?e = "EvaluateGovernanceRequest demo_plugin 50 demo_governance demo_request ''chat_completion'' demo_context"
  have "fst (snd ?e) \<noteq> None" by code_simp
  then obtain res where res: "fst (snd ?e) = Some res" by blast
  have skip: "\<not> GetBoolFromContext demo_context KeySkipBudgetAndRateLimits" by code_simp
  have "?e = (fst ?e, Some res, snd (snd ?e))" using res by (metis prod.collapse)
  then have "ev_Decision res \<noteq> DecisionMCPToolBlocked" by (rule added_tools_not_checked [OF _ skip])
  moreover have "\<not> isMCPToolAllowedByVKWith demo_key ''files-delete'' (gp_allowAllClients demo_plugin)" by code_simp
  moreover have "Value demo_context KeyMCPAddedTools = Some (CStrings [''files-delete''])"
    by (simp add: demo_context_def Value_def)
  ultimately show ?thesis using res by simp
qed

end
