(* ===== verification/Usage_Tracker.thy ===== *)
theory Usage_Tracker
  imports Governance_Resolver
begin

text \<open>
  What a finished request is charged to: \<open>UpdateUsage\<close> and the billing keys of
  \<open>src/plugins/governance/tracker.go\<close>, and the \<open>Update...InMemory\<close> operations of \<open>store.go\<close>.

  \<^item> The tracker is the governance store with the map of billed keys. Owners do not change while usage
    is charged, so the rows to charge are those collected at each site.
  \<^item> Every bump of a row reads the clock for itself: a site takes a family of clocks, one per row,
    and \<open>UpdateUsage\<close> a family per site.
  \<^item> Logging and the database part of the periodic reset are left out; errors of the bumps do not
    occur, because rows of the store are never nil.

  Shown: a settlement charges exactly the collected rows, each once per occurrence, and no other;
  a request that was let through is charged to no budget and no rate limit that was used up; one
  attempt is settled at most once, distinct attempts each.
\<close>

record UsageUpdate =
  uu_VirtualKey :: string
  uu_Provider :: ModelProvider
  uu_Model :: string
  uu_Success :: bool
  uu_TokensUsed :: int
  uu_Cost :: float64
  uu_RequestID :: string
  uu_UserID :: string
  uu_IsStreaming :: bool
  uu_IsFinalChunk :: bool
  uu_HasUsageData :: bool
  uu_AttemptNumber :: int

record UsageTracker =
  ut_store :: Governance
  ut_billed :: "(string, instant) gomap"

definition billedEntryTTL :: int where
  "billedEntryTTL = 5 * 60 * 1000000000"

type_synonym clocks = "nat \<Rightarrow> nat \<Rightarrow> instant"

subsection \<open>Charging rows\<close>

fun bump_budgets :: "clocks \<Rightarrow> string list \<Rightarrow> float64 \<Rightarrow> GovStore \<Rightarrow> GovStore" where
  "bump_budgets clk [] cost gs = gs"
| "bump_budgets clk (i # ids) cost gs =
     bump_budgets (\<lambda>n. clk (Suc n)) ids cost (BumpBudgetUsage (clk 0) i cost gs)"

fun bump_rateLimits :: "clocks \<Rightarrow> string list \<Rightarrow> int \<Rightarrow> bool \<Rightarrow> bool \<Rightarrow> GovStore \<Rightarrow> GovStore" where
  "bump_rateLimits clk [] tokensUsed doTokens doRequests gs = gs"
| "bump_rateLimits clk (i # ids) tokensUsed doTokens doRequests gs =
     bump_rateLimits (\<lambda>n. clk (Suc n)) ids tokensUsed doTokens doRequests
       (BumpRateLimitUsage (clk 0) i tokensUsed doTokens doRequests gs)"

definition on_store :: "(GovStore \<Rightarrow> GovStore) \<Rightarrow> Governance \<Rightarrow> Governance" where
  "on_store f gv = gv\<lparr>gv_store := f (gv_store gv)\<rparr>"

definition UpdateVirtualKeyBudgetUsageInMemory ::
    "clocks \<Rightarrow> TableVirtualKey \<Rightarrow> ModelProvider \<Rightarrow> float64 \<Rightarrow> Governance \<Rightarrow> Governance" where
  "UpdateVirtualKeyBudgetUsageInMemory clk vk provider cost gv =
     on_store (bump_budgets clk (collectBudgetIDsFromMemory gv vk provider) cost) gv"

definition UpdateVirtualKeyRateLimitUsageInMemory ::
    "clocks \<Rightarrow> TableVirtualKey \<Rightarrow> ModelProvider \<Rightarrow> int \<Rightarrow> bool \<Rightarrow> bool \<Rightarrow> Governance \<Rightarrow> Governance" where
  "UpdateVirtualKeyRateLimitUsageInMemory clk vk provider tokensUsed doTokens doRequests gv =
     on_store (bump_rateLimits clk (collectRateLimitIDsFromMemory gv vk provider) tokensUsed doTokens doRequests) gv"

text \<open>The provider's own row, then the rows of the model configurations.\<close>

definition provider_str :: "ModelProvider \<Rightarrow> string option" where
  "provider_str provider = (if provider \<noteq> '''' then Some provider else None)"

definition provider_budget_ids :: "Governance \<Rightarrow> ModelProvider \<Rightarrow> string list" where
  "provider_budget_ids gv provider =
     (if provider \<noteq> '''' then (case Option.bind (mapget (gv_providers gv) provider) pv_BudgetID of Some i \<Rightarrow> [i] | None \<Rightarrow> []) else [])"

definition provider_rateLimit_ids :: "Governance \<Rightarrow> ModelProvider \<Rightarrow> string list" where
  "provider_rateLimit_ids gv provider =
     (if provider \<noteq> '''' then (case Option.bind (mapget (gv_providers gv) provider) pv_RateLimitID of Some i \<Rightarrow> [i] | None \<Rightarrow> []) else [])"

definition model_budget_ids ::
    "(string \<Rightarrow> string) option \<Rightarrow> Governance \<Rightarrow> string \<Rightarrow> string \<Rightarrow> string \<Rightarrow> ModelProvider \<Rightarrow> string list" where
  "model_budget_ids baseModelName gv scope scopeID model provider =
     concat (map (\<lambda>mc. map tb_ID (mc_Budgets mc)) (collectModelConfigsFor baseModelName gv scope scopeID model (provider_str provider)))"

definition model_rateLimit_ids ::
    "(string \<Rightarrow> string) option \<Rightarrow> Governance \<Rightarrow> string \<Rightarrow> string \<Rightarrow> string \<Rightarrow> ModelProvider \<Rightarrow> string list" where
  "model_rateLimit_ids baseModelName gv scope scopeID model provider =
     List.map_filter mc_RateLimitID (collectModelConfigsFor baseModelName gv scope scopeID model (provider_str provider))"

definition UpdateProviderAndModelBudgetUsageInMemory ::
    "(string \<Rightarrow> string) option \<Rightarrow> clocks \<Rightarrow> string \<Rightarrow> ModelProvider \<Rightarrow> float64 \<Rightarrow> Governance \<Rightarrow> Governance" where
  "UpdateProviderAndModelBudgetUsageInMemory baseModelName clk model provider cost gv =
     on_store (bump_budgets clk (provider_budget_ids gv provider
       @ model_budget_ids baseModelName gv ModelConfigScopeGlobal '''' model provider) cost) gv"

definition UpdateProviderAndModelRateLimitUsageInMemory ::
    "(string \<Rightarrow> string) option \<Rightarrow> clocks \<Rightarrow> string \<Rightarrow> ModelProvider \<Rightarrow> int \<Rightarrow> bool \<Rightarrow> bool \<Rightarrow> Governance \<Rightarrow> Governance" where
  "UpdateProviderAndModelRateLimitUsageInMemory baseModelName clk model provider tokensUsed doTokens doRequests gv =
     on_store (bump_rateLimits clk (provider_rateLimit_ids gv provider
       @ model_rateLimit_ids baseModelName gv ModelConfigScopeGlobal '''' model provider) tokensUsed doTokens doRequests) gv"

definition UpdateScopedModelBudgetUsageInMemory ::
    "(string \<Rightarrow> string) option \<Rightarrow> clocks \<Rightarrow> string \<Rightarrow> string \<Rightarrow> string \<Rightarrow> ModelProvider \<Rightarrow> float64 \<Rightarrow> Governance \<Rightarrow> Governance" where
  "UpdateScopedModelBudgetUsageInMemory baseModelName clk scope scopeID model provider cost gv =
     (if scope = '''' \<or> scopeID = '''' then gv
      else on_store (bump_budgets clk (model_budget_ids baseModelName gv scope scopeID model provider) cost) gv)"

definition UpdateScopedModelRateLimitUsageInMemory ::
    "(string \<Rightarrow> string) option \<Rightarrow> clocks \<Rightarrow> string \<Rightarrow> string \<Rightarrow> string \<Rightarrow> ModelProvider \<Rightarrow> int \<Rightarrow> bool \<Rightarrow> bool
      \<Rightarrow> Governance \<Rightarrow> Governance" where
  "UpdateScopedModelRateLimitUsageInMemory baseModelName clk scope scopeID model provider tokensUsed doTokens doRequests gv =
     (if scope = '''' \<or> scopeID = '''' then gv
      else on_store (bump_rateLimits clk (model_rateLimit_ids baseModelName gv scope scopeID model provider)
             tokensUsed doTokens doRequests) gv)"

text \<open>Users have no rows of their own in this build.\<close>

definition UpdateUserBudgetUsageInMemory :: "string \<Rightarrow> float64 \<Rightarrow> Governance \<Rightarrow> Governance" where
  "UpdateUserBudgetUsageInMemory userID cost gv = gv"

definition UpdateUserRateLimitUsageInMemory :: "string \<Rightarrow> int \<Rightarrow> bool \<Rightarrow> bool \<Rightarrow> Governance \<Rightarrow> Governance" where
  "UpdateUserRateLimitUsageInMemory userID tokensUsed doTokens doRequests gv = gv"

subsection \<open>Billing keys\<close>

definition billing_key :: "string \<Rightarrow> int \<Rightarrow> string" where
  "billing_key requestID attempt = requestID @ '':'' @ strconv_Itoa attempt"

definition tryClaimBilling :: "instant \<Rightarrow> UsageUpdate \<Rightarrow> UsageTracker \<Rightarrow> UsageTracker \<times> bool" where
  "tryClaimBilling now update t =
     (if uu_RequestID update = '''' then (t, True)
      else let key = billing_key (uu_RequestID update) (uu_AttemptNumber update)
        in case mapget (ut_billed t) key of
             Some _ \<Rightarrow> (t, False)
           | None \<Rightarrow> (t\<lparr>ut_billed := mapput key now (ut_billed t)\<rparr>, True))"

definition sweepBilled :: "instant \<Rightarrow> UsageTracker \<Rightarrow> UsageTracker" where
  "sweepBilled now t =
     (let cutoff = now - billedEntryTTL in t\<lparr>ut_billed := filter (\<lambda>(k, seen). \<not> seen < cutoff) (ut_billed t)\<rparr>)"

text \<open>The periodic pass, in memory: due rate limits, due budgets, then the billing keys.\<close>

definition resetExpiredCounters :: "instant \<Rightarrow> instant \<Rightarrow> instant \<Rightarrow> UsageTracker \<Rightarrow> UsageTracker" where
  "resetExpiredCounters now1 now2 now3 t =
     (let gv = ut_store t;
          gs = fst (ResetExpiredRateLimitsInMemory now1 [] (gv_store gv));
          gs = fst (ResetExpiredBudgetsInMemory now2 [] gs)
      in sweepBilled now3 (t\<lparr>ut_store := gv\<lparr>gv_store := gs\<rparr>\<rparr>))"

subsection \<open>Settling usage\<close>

definition shouldUpdateTokens :: "UsageUpdate \<Rightarrow> bool" where
  "shouldUpdateTokens u \<longleftrightarrow> \<not> uu_IsStreaming u \<or> (uu_IsStreaming u \<and> uu_HasUsageData u)"

definition shouldUpdateRequests :: "UsageUpdate \<Rightarrow> bool" where
  "shouldUpdateRequests u \<longleftrightarrow> uu_Success u \<and> (\<not> uu_IsStreaming u \<or> (uu_IsStreaming u \<and> uu_IsFinalChunk u))"

definition shouldUpdateBudget :: "UsageUpdate \<Rightarrow> bool" where
  "shouldUpdateBudget u \<longleftrightarrow> (\<not> uu_IsStreaming u \<or> (uu_IsStreaming u \<and> uu_HasUsageData u)) \<and> f_less (Fin 0) (uu_Cost u)"

definition hasUsage :: "UsageUpdate \<Rightarrow> bool" where
  "hasUsage u \<longleftrightarrow> uu_TokensUsed u > 0 \<or> f_less (Fin 0) (uu_Cost u)"

definition isTerminal :: "UsageUpdate \<Rightarrow> bool" where
  "isTerminal u \<longleftrightarrow> \<not> uu_IsStreaming u \<or> uu_IsFinalChunk u"

text \<open>The four groups of updates, in the order of the code.\<close>

definition charge_model_level :: "BudgetResolver \<Rightarrow> (nat \<Rightarrow> clocks) \<Rightarrow> UsageUpdate \<Rightarrow> Governance \<Rightarrow> Governance" where
  "charge_model_level r clk u gv =
     (if uu_Model u = '''' then gv
      else let gv = UpdateProviderAndModelRateLimitUsageInMemory (br_baseModelName r) (clk 0) (uu_Model u) (uu_Provider u)
                      (uu_TokensUsed u) (shouldUpdateTokens u) (shouldUpdateRequests u) gv
        in if shouldUpdateBudget u
           then UpdateProviderAndModelBudgetUsageInMemory (br_baseModelName r) (clk 1) (uu_Model u) (uu_Provider u) (uu_Cost u) gv
           else gv)"

definition charge_scoped :: "BudgetResolver \<Rightarrow> (nat \<Rightarrow> clocks) \<Rightarrow> string \<Rightarrow> string \<Rightarrow> UsageUpdate \<Rightarrow> Governance \<Rightarrow> Governance" where
  "charge_scoped r clk scope scopeID u gv =
     (if uu_Model u = '''' then gv
      else let gv = UpdateScopedModelRateLimitUsageInMemory (br_baseModelName r) (clk 0) scope scopeID (uu_Model u) (uu_Provider u)
                      (uu_TokensUsed u) (shouldUpdateTokens u) (shouldUpdateRequests u) gv
        in if shouldUpdateBudget u
           then UpdateScopedModelBudgetUsageInMemory (br_baseModelName r) (clk 1) scope scopeID (uu_Model u) (uu_Provider u) (uu_Cost u) gv
           else gv)"

definition charge_user_level :: "BudgetResolver \<Rightarrow> (nat \<Rightarrow> clocks) \<Rightarrow> UsageUpdate \<Rightarrow> Governance \<Rightarrow> Governance" where
  "charge_user_level r clk u gv =
     (if uu_UserID u = '''' then gv
      else let gv = UpdateUserRateLimitUsageInMemory (uu_UserID u) (uu_TokensUsed u) (shouldUpdateTokens u) (shouldUpdateRequests u) gv;
               gv = (if shouldUpdateBudget u then UpdateUserBudgetUsageInMemory (uu_UserID u) (uu_Cost u) gv else gv)
        in charge_scoped r clk ModelConfigScopeUser (uu_UserID u) u gv)"

definition charge_vk_level :: "BudgetResolver \<Rightarrow> (nat \<Rightarrow> clocks) \<Rightarrow> TableVirtualKey \<Rightarrow> UsageUpdate \<Rightarrow> Governance \<Rightarrow> Governance" where
  "charge_vk_level r clk vk u gv =
     (let gv = charge_scoped r clk ModelConfigScopeVirtualKey (vk_ID vk) u gv;
          gv = (if vk_RateLimit vk \<noteq> None \<or> vk_ProviderConfigs vk \<noteq> [] \<or> vk_TeamID vk \<noteq> None \<or> vk_CustomerID vk \<noteq> None
                then UpdateVirtualKeyRateLimitUsageInMemory (clk 2) vk (uu_Provider u) (uu_TokensUsed u)
                       (shouldUpdateTokens u) (shouldUpdateRequests u) gv
                else gv)
      in if shouldUpdateBudget u
         then UpdateVirtualKeyBudgetUsageInMemory (clk 3) vk (uu_Provider u) (uu_Cost u) gv
         else gv)"

definition charge :: "BudgetResolver \<Rightarrow> (nat \<Rightarrow> clocks) \<Rightarrow> UsageUpdate \<Rightarrow> Governance \<Rightarrow> Governance" where
  "charge r clk u gv =
     (let gv = charge_model_level r clk u gv;
          gv = charge_user_level r (\<lambda>n. clk (n + 2)) u gv
      in if uu_VirtualKey u = '''' then gv
         else case GetVirtualKey (uu_VirtualKey u) gv of
           None \<Rightarrow> gv
         | Some vk \<Rightarrow> charge_vk_level r (\<lambda>n. clk (n + 4)) vk u gv)"

definition UpdateUsage ::
    "BudgetResolver \<Rightarrow> instant \<Rightarrow> (nat \<Rightarrow> clocks) \<Rightarrow> UsageUpdate \<Rightarrow> UsageTracker \<Rightarrow> UsageTracker" where
  "UpdateUsage r now clk u t =
     (if \<not> uu_Success u \<and> \<not> hasUsage u then t
      else let (t', claimed) = (if isTerminal u then tryClaimBilling now u t else (t, True))
        in if \<not> claimed then t'
           else t'\<lparr>ut_store := charge r clk u (ut_store t')\<rparr>)"

subsection \<open>What a bump touches\<close>

text \<open>\<open>charges T c ids rids gs gs'\<close>: going from \<open>gs\<close> to \<open>gs'\<close> touched only the budgets \<open>ids\<close> and the rate
  limits \<open>rids\<close>, kept every row under its name, and a budget whose window is open at all instants
  of \<open>T\<close> took the cost \<open>c\<close> once per occurrence in \<open>ids\<close>.\<close>

definition charges :: "instant set \<Rightarrow> float64 \<Rightarrow> string list \<Rightarrow> string list \<Rightarrow> GovStore \<Rightarrow> GovStore \<Rightarrow> bool" where
  "charges T c ids rids gs gs' \<longleftrightarrow> (rows_named gs \<longrightarrow>
     (\<forall>i. i \<notin> set ids \<longrightarrow> LoadBudget i gs' = LoadBudget i gs)
     \<and> (\<forall>i. i \<notin> set rids \<longrightarrow> LoadRateLimit i gs' = LoadRateLimit i gs)
     \<and> (\<forall>i. map_option tb_ID (LoadBudget i gs') = map_option tb_ID (LoadBudget i gs))
     \<and> (\<forall>i. map_option rl_ID (LoadRateLimit i gs') = map_option rl_ID (LoadRateLimit i gs))
     \<and> (\<forall>i b. LoadBudget i gs = Some b \<and> (\<forall>t\<in>T. budgetResetTarget b t = None)
          \<longrightarrow> LoadBudget i gs' = Some ((bump_clone c ^^ count_list ids i) b)))"

lemma rows_named_ids:
  assumes "rows_named gs" "\<forall>i. map_option tb_ID (LoadBudget i gs') = map_option tb_ID (LoadBudget i gs)"
    "\<forall>i. map_option rl_ID (LoadRateLimit i gs') = map_option rl_ID (LoadRateLimit i gs)"
  shows "rows_named gs'"
proof -
  have "tb_ID b = i" if "LoadBudget i gs' = Some b" for i b
    using assms(1) assms(2) [THEN spec, of i] that by (cases "LoadBudget i gs") (auto simp: rows_named_def)
  moreover have "rl_ID rl = i" if "LoadRateLimit i gs' = Some rl" for i rl
    using assms(1) assms(3) [THEN spec, of i] that by (cases "LoadRateLimit i gs") (auto simp: rows_named_def)
  ultimately show ?thesis by (simp add: rows_named_def)
qed

lemma charges_named: "charges T c ids rids gs gs' \<Longrightarrow> rows_named gs \<Longrightarrow> rows_named gs'"
  unfolding charges_def by (rule rows_named_ids) blast+

lemma bump_clone_fields [simp]:
  "tb_ID (bump_clone c b) = tb_ID b" "tb_LastReset (bump_clone c b) = tb_LastReset b"
  "tb_ResetDuration (bump_clone c b) = tb_ResetDuration b" "tb_IsCalendarAligned (bump_clone c b) = tb_IsCalendarAligned b"
  "tb_ResetConfig (bump_clone c b) = tb_ResetConfig b" "tb_CreatedAt (bump_clone c b) = tb_CreatedAt b"
  by (simp_all add: bump_clone_def)

lemma bump_clone_window [simp]: "WindowStart (bump_clone c b) t = WindowStart b t"
  by (simp add: WindowStart_def QuarterStartMonth_def split: option.split)

lemma bump_clone_frame [simp]:
  "budgetResetTarget (bump_clone c b) t = budgetResetTarget b t"
  by (simp add: budgetResetTarget_def)

lemma bump_pow_frame [simp]: "budgetResetTarget ((bump_clone c ^^ n) b) t = budgetResetTarget b t"
  by (induction n) simp_all

lemma charges_refl [simp]: "charges T c [] [] gs gs"
  by (simp add: charges_def)

lemma charges_trans:
  assumes a: "charges T c ids rids gs gs1" and b: "charges T c ids' rids' gs1 gs2"
  shows "charges T c (ids @ ids') (rids @ rids') gs gs2"
proof (cases "rows_named gs")
  case True
  note n1 = charges_named [OF a True]
  have pow: "LoadBudget i gs2 = Some ((bump_clone c ^^ count_list (ids @ ids') i) x)"
    if "LoadBudget i gs = Some x" "\<forall>t\<in>T. budgetResetTarget x t = None" for i x
  proof -
    have "LoadBudget i gs1 = Some ((bump_clone c ^^ count_list ids i) x)" using a True that unfolding charges_def by blast
    then have "LoadBudget i gs2 = Some ((bump_clone c ^^ count_list ids' i) ((bump_clone c ^^ count_list ids i) x))"
      using b n1 that(2) unfolding charges_def by simp
    then show ?thesis by (simp add: funpow_add add.commute [of "count_list ids i"])
  qed
  show ?thesis using a b True n1 pow unfolding charges_def by simp
qed (simp add: charges_def)

lemma charges_sub:
  assumes "\<And>i b. rows_named gs \<Longrightarrow> LoadBudget i gs' = LoadBudget i gs"
    "\<And>i. rows_named gs \<Longrightarrow> i \<notin> set rids \<Longrightarrow> LoadRateLimit i gs' = LoadRateLimit i gs"
    "\<And>i. rows_named gs \<Longrightarrow> map_option rl_ID (LoadRateLimit i gs') = map_option rl_ID (LoadRateLimit i gs)"
  shows "charges T c [] rids gs gs'"
  using assms by (simp add: charges_def)

subsection \<open>One bump\<close>

lemma rateLimits_put_budget [simp]:
  "LoadRateLimit k (put_budget i b gs) = LoadRateLimit k gs" "LoadRateLimit k (clear_baseline i gs) = LoadRateLimit k gs"
  by (simp_all add: LoadRateLimit_def put_budget_def clear_baseline_def markBudgetResetLocked_def SetBudgetDBBaseline_def Let_def)

lemma budgets_put_rateLimit [simp]:
  "LoadBudget k (put_rateLimit i rl gs) = LoadBudget k gs" "LoadBudget k (clear_rl_baselines i t r gs) = LoadBudget k gs"
  by (simp_all add: LoadBudget_def put_rateLimit_def clear_rl_baselines_def Let_def)

lemma target_after: "budgetResetTarget b now = Some t \<Longrightarrow> tb_LastReset b < t"
  by (auto simp: budgetResetTarget_def Let_def split: if_splits option.splits)

lemma bump_loop_frame:
  "rows_named gs \<Longrightarrow>
     (\<forall>j. j \<noteq> i \<longrightarrow> LoadBudget j (bump_budget_loop clk i c k n gs) = LoadBudget j gs)
   \<and> (\<forall>j. LoadRateLimit j (bump_budget_loop clk i c k n gs) = LoadRateLimit j gs)
   \<and> map_option tb_ID (LoadBudget i (bump_budget_loop clk i c k n gs)) = map_option tb_ID (LoadBudget i gs)"
proof (induction k arbitrary: n gs)
  case 0
  then show ?case by (auto simp: bump_budget_loop.simps [of clk i c 0] split: option.split)
next
  case (Suc k)
  show ?case
  proof (cases "LoadBudget i gs")
    case None
    then show ?thesis by (simp add: bump_budget_loop.simps [of clk i c "Suc k"])
  next
    case (Some b)
    then have id: "tb_ID b = i" using Suc.prems by (simp add: rows_named_def)
    have sweep: "fst (ResetExpiredBudgetsInMemory now [i] gs) =
        (case budgetResetTarget b now of None \<Rightarrow> gs | Some t \<Rightarrow> clear_baseline i (put_budget i (apply_reset t b) gs))" for now
      using sweep_one [OF Some id] target_after [of b now] Some
      by (cases "budgetResetTarget b now")
        (simp_all add: ResetExpiredBudgetsInMemory_def resetExpiredBudgetFromSnapshot_def)
    have "rows_named (clear_baseline i (put_budget i (apply_reset t b) gs))" for t
      using Suc.prems id by (auto simp: rows_named_def)
    then show ?thesis
      using Suc.IH [of gs "Suc n"] Suc.IH [of "clear_baseline i (put_budget i (apply_reset _ b) gs)" "Suc n"] Suc.prems Some
      by (auto simp: bump_budget_loop.simps [of clk i c "Suc k"] sweep split: option.split)
  qed
qed

lemma bump_open:
  assumes "LoadBudget i gs = Some b" "budgetResetTarget b (clk 0) = None"
  shows "BumpBudgetUsage clk i c gs = put_budget i (bump_clone c b) gs"
  using assms by (simp add: BumpBudgetUsage_def bump_budget_loop.simps [of clk i c maxRequestTimeResetAttempts])

lemma BumpBudget_charges:
  assumes "clk 0 \<in> T"
  shows "charges T c [i] [] gs (BumpBudgetUsage clk i c gs)"
proof -
  have "LoadBudget j (BumpBudgetUsage clk i c gs) = Some ((bump_clone c ^^ count_list [i] j) b)"
    if "rows_named gs" "LoadBudget j gs = Some b" "\<forall>t\<in>T. budgetResetTarget b t = None" for j b
  proof (cases "j = i")
    case True
    then show ?thesis using that bump_open [of i gs b clk c] assms by auto
  next
    case False
    then show ?thesis using that bump_loop_frame [OF that(1), of i clk c maxRequestTimeResetAttempts 0]
      by (auto simp: BumpBudgetUsage_def)
  qed
  moreover have "map_option tb_ID (LoadBudget j (BumpBudgetUsage clk i c gs)) = map_option tb_ID (LoadBudget j gs)"
    if "rows_named gs" for j
    using bump_loop_frame [OF that, of i clk c maxRequestTimeResetAttempts 0] by (cases "j = i") (auto simp: BumpBudgetUsage_def)
  ultimately show ?thesis
    using bump_loop_frame [of gs i clk c maxRequestTimeResetAttempts 0] by (auto simp: charges_def BumpBudgetUsage_def)
qed

lemma bump_budgets_charges:
  assumes "\<And>n m. clk n m \<in> T"
  shows "charges T c ids [] gs (bump_budgets clk ids c gs)"
  using assms
proof (induction ids arbitrary: clk gs)
  case (Cons i ids)
  have "charges T c [i] [] gs (BumpBudgetUsage (clk 0) i c gs)" using Cons.prems by (rule BumpBudget_charges)
  moreover have "charges T c ids [] (BumpBudgetUsage (clk 0) i c gs)
      (bump_budgets (\<lambda>n. clk (Suc n)) ids c (BumpBudgetUsage (clk 0) i c gs))"
    using Cons.prems by (rule Cons.IH)
  ultimately show ?case using charges_trans [of T c "[i]" "[]" gs _ ids "[]"] by simp
qed simp

text \<open>Bumps of rate limits leave the budgets alone.\<close>

lemma rl_bump_ID [simp]: "rl_ID (rl_bump_clone t dt dr rl) = rl_ID rl"
  by (simp add: rl_bump_clone_def Let_def)

lemma rl_sweep_one:
  assumes "rows_named gs" "LoadRateLimit i gs = Some rl"
  shows "(\<forall>j. LoadBudget j (fst (ResetExpiredRateLimitsInMemory now [i] gs)) = LoadBudget j gs)
     \<and> (\<forall>j. j \<noteq> i \<longrightarrow> LoadRateLimit j (fst (ResetExpiredRateLimitsInMemory now [i] gs)) = LoadRateLimit j gs)
     \<and> map_option rl_ID (LoadRateLimit i (fst (ResetExpiredRateLimitsInMemory now [i] gs))) = map_option rl_ID (LoadRateLimit i gs)"
proof -
  have id: "rl_ID rl = i" using assms by (simp add: rows_named_def)
  obtain tok req where t: "rateLimitResetTargets rl now = (tok, req)" by (cases "rateLimitResetTargets rl now")
  show ?thesis
  proof (cases "tok = None \<and> req = None")
    case True
    then show ?thesis using assms t by (simp add: ResetExpiredRateLimitsInMemory_def resetExpiredRateLimitFromSnapshot_def)
  next
    case False
    then show ?thesis using assms t id rl_reset_clone_due [OF t False]
      by (auto simp: ResetExpiredRateLimitsInMemory_def resetExpiredRateLimitFromSnapshot_def ResetRateLimitAt_def)
  qed
qed

lemma bump_rl_loop_frame:
  "rows_named gs \<Longrightarrow>
     (\<forall>j. LoadBudget j (bump_ratelimit_loop clk i c dt dr k n gs) = LoadBudget j gs)
   \<and> (\<forall>j. j \<noteq> i \<longrightarrow> LoadRateLimit j (bump_ratelimit_loop clk i c dt dr k n gs) = LoadRateLimit j gs)
   \<and> map_option rl_ID (LoadRateLimit i (bump_ratelimit_loop clk i c dt dr k n gs)) = map_option rl_ID (LoadRateLimit i gs)"
proof (induction k arbitrary: n gs)
  case 0
  then show ?case by (auto simp: bump_ratelimit_loop.simps [of clk i c dt dr 0] split: option.split prod.split)
next
  case (Suc k)
  show ?case
  proof (cases "LoadRateLimit i gs")
    case None
    then show ?thesis by (simp add: bump_ratelimit_loop.simps [of clk i c dt dr "Suc k"])
  next
    case (Some rl)
    let ?s = "\<lambda>now. fst (ResetExpiredRateLimitsInMemory now [i] gs)"
    note f = rl_sweep_one [OF Suc.prems Some]
    have "rows_named (?s now)" for now
    proof (rule rows_named_ids [OF Suc.prems])
      show "\<forall>j. map_option rl_ID (LoadRateLimit j (?s now)) = map_option rl_ID (LoadRateLimit j gs)"
        using f by (metis (no_types))
    qed (use f in simp)
    then show ?thesis
      using Suc.IH [of "?s (clk (2 * n + 1))" "Suc n"] f [of "clk (2 * n + 1)"] Some
      by (auto simp: bump_ratelimit_loop.simps [of clk i c dt dr "Suc k"] split: prod.split)
  qed
qed

lemma BumpRateLimit_charges: "charges T c [] [i] gs (BumpRateLimitUsage clk i t dt dr gs)"
proof (rule charges_sub)
  fix j
  assume n: "rows_named gs"
  note f = bump_rl_loop_frame [OF n, of clk i t dt dr maxRequestTimeResetAttempts 0, folded BumpRateLimitUsage_def]
  show "LoadBudget j (BumpRateLimitUsage clk i t dt dr gs) = LoadBudget j gs" using f by blast
  show "map_option rl_ID (LoadRateLimit j (BumpRateLimitUsage clk i t dt dr gs)) = map_option rl_ID (LoadRateLimit j gs)"
    using f by (cases "j = i") auto
  show "j \<notin> set [i] \<Longrightarrow> LoadRateLimit j (BumpRateLimitUsage clk i t dt dr gs) = LoadRateLimit j gs" using f by auto
qed

lemma bump_rateLimits_charges: "charges T c [] ids gs (bump_rateLimits clk ids t dt dr gs)"
proof (induction ids arbitrary: clk gs)
  case (Cons i ids)
  show ?case
    using charges_trans [OF BumpRateLimit_charges [of T c i gs "clk 0" t dt dr] Cons.IH] by simp
qed simp

subsection \<open>The rows to charge do not move while charging\<close>

lemma on_store_simps [simp]:
  "gv_store (on_store f gv) = f (gv_store gv)" "gv_virtualKeys (on_store f gv) = gv_virtualKeys gv"
  "gv_teams (on_store f gv) = gv_teams gv" "gv_customers (on_store f gv) = gv_customers gv"
  "gv_modelConfigs (on_store f gv) = gv_modelConfigs gv" "gv_providers (on_store f gv) = gv_providers gv"
  "GetVirtualKey v (on_store f gv) = GetVirtualKey v gv"
  by (simp_all add: on_store_def GetVirtualKey_def)

lemma load_on_store [simp]: "loadModelConfig (on_store f gv) = loadModelConfig gv"
  by (intro ext) (simp add: loadModelConfig_def)

lemma find_on_store [simp]: "findScopedModelOnlyConfig b (on_store f gv) = findScopedModelOnlyConfig b gv"
  by (intro ext) (unfold findScopedModelOnlyConfig_def load_on_store, rule refl)

lemma configs_on_store [simp]:
  "collectModelConfigsFor b (on_store f gv) scope sid model provider = collectModelConfigsFor b gv scope sid model provider"
  by (simp add: collectModelConfigsFor_def)

lemma ids_on_store [simp]:
  "model_budget_ids b (on_store f gv) scope sid model provider = model_budget_ids b gv scope sid model provider"
  "model_rateLimit_ids b (on_store f gv) scope sid model provider = model_rateLimit_ids b gv scope sid model provider"
  "provider_budget_ids (on_store f gv) provider = provider_budget_ids gv provider"
  "provider_rateLimit_ids (on_store f gv) provider = provider_rateLimit_ids gv provider"
  by (simp_all add: model_budget_ids_def model_rateLimit_ids_def provider_budget_ids_def provider_rateLimit_ids_def)

text \<open>The collectors see only the names of the rows when only their names are kept.\<close>

definition map_rows :: "('a \<Rightarrow> 'b) \<Rightarrow> (string, 'a list) gomap \<Rightarrow> (string, 'b list) gomap" where
  "map_rows f m = map (\<lambda>(k, xs). (k, map f xs)) m"

lemma map_rows_Nil [simp]: "map_rows f [] = []"
  by (simp add: map_rows_def)

lemma update_map_rows: "map_rows f (AList.update k xs m) = AList.update k (map f xs) (map_rows f m)"
  by (induction m) (auto simp: map_rows_def)

lemma get_map_rows: "mapget (map_rows f m) k = map_option (map f) (mapget m k)"
  by (induction m) (auto simp: map_rows_def)

lemma map_rows_append: "map_rows f (map_append c x m) = map_append c (f x) (map_rows f m)"
  by (cases "mapget m c") (simp_all add: map_append_def update_map_rows get_map_rows)

lemma map_rows_concat: "map f (concat (map snd m)) = concat (map snd (map_rows f m))"
  by (induction m) (auto simp: map_rows_def)

definition same_names :: "string list \<times> EntityWiseBudgets \<Rightarrow> string list \<times> EntityWiseBudgets \<Rightarrow> bool" where
  "same_names acc' acc \<longleftrightarrow> fst acc' = fst acc \<and> map_rows tb_ID (snd acc') = map_rows tb_ID (snd acc)"

lemma collect_budgets_names:
  assumes "\<forall>i. map_option tb_ID (LoadBudget i gs') = map_option tb_ID (LoadBudget i gs)" "same_names acc' acc"
  shows "same_names (collect_budgets gs' s c ids acc') (collect_budgets gs s c ids acc)"
  using assms
proof (induction gs s c ids acc arbitrary: acc' rule: collect_budgets.induct)
  case (2 gs s c i ids seen m)
  obtain m' where acc': "acc' = (seen, m')" "map_rows tb_ID m' = map_rows tb_ID m"
    using 2(3) by (cases acc') (auto simp: same_names_def)
  let ?next = "\<lambda>gs m. if s \<and> i \<in> set seen then (seen, m) else case LoadBudget i gs of None \<Rightarrow> (seen, m)
      | Some budget \<Rightarrow> (tb_ID budget # seen, map_append c budget m)"
  have "same_names (?next gs' m') (?next gs m)"
    using 2(2) [THEN spec, of i] acc'(2)
    by (cases "LoadBudget i gs'"; cases "LoadBudget i gs") (auto simp: map_rows_append same_names_def)
  then show ?case using 2(1) [OF 2(2)] unfolding acc' collect_budgets.simps by blast
qed simp

lemma collect_provider_configs_names:
  assumes "\<forall>i. map_option tb_ID (LoadBudget i gs') = map_option tb_ID (LoadBudget i gs)" "same_names acc' acc"
  shows "same_names (collect_provider_configs gs' pr pcs acc') (collect_provider_configs gs pr pcs acc)"
  using assms
proof (induction gs pr pcs acc arbitrary: acc' rule: collect_provider_configs.induct)
  case (2 gs provider pc pcs acc)
  let ?next = "\<lambda>gs acc. if pc_Provider pc \<noteq> provider then acc else collect_budgets gs True (pc_Provider pc) (map tb_ID (pc_Budgets pc)) acc"
  have "same_names (?next gs' acc') (?next gs acc)" using 2(3) collect_budgets_names [OF 2(2,3)] by simp
  then show ?case using 2(1) [OF 2(2)] unfolding collect_provider_configs.simps by blast
qed simp

lemma owners_on_store [simp]:
  "team_of (on_store f gv) = team_of gv" "team_customer (on_store f gv) = team_customer gv"
  "direct_customer (on_store f gv) = direct_customer gv" "customer_budget_ids (on_store f gv) = customer_budget_ids gv"
  "customer_rateLimit_id (on_store f gv) = customer_rateLimit_id gv"
proof -
  show t: "team_of (on_store f gv) = team_of gv" by (intro ext) (simp add: team_of_def)
  show c: "team_customer (on_store f gv) = team_customer gv" by (intro ext) (simp add: team_customer_def t)
  show "direct_customer (on_store f gv) = direct_customer gv" by (intro ext) (unfold direct_customer_def c, rule refl)
  show "customer_budget_ids (on_store f gv) = customer_budget_ids gv" by (intro ext) (simp add: customer_budget_ids_def)
  show "customer_rateLimit_id (on_store f gv) = customer_rateLimit_id gv" by (intro ext) (simp add: customer_rateLimit_id_def)
qed

lemma budget_ids_stable:
  assumes "\<forall>i. map_option tb_ID (LoadBudget i (f (gv_store gv))) = map_option tb_ID (LoadBudget i (gv_store gv))"
  shows "collectBudgetIDsFromMemory (on_store f gv) vk provider = collectBudgetIDsFromMemory gv vk provider"
proof -
  note n = collect_budgets_names [OF assms] collect_provider_configs_names [OF assms]
  have z: "same_names ([], []) ([], [])" by (simp add: same_names_def)
  have names: "map_rows tb_ID (snd acc') = map_rows tb_ID (snd acc)" if "same_names acc' acc" for acc' acc
    using that by (simp add: same_names_def)
  have "map_rows tb_ID (collectBudgetsFromHierarchy (on_store f gv) vk provider) =
        map_rows tb_ID (collectBudgetsFromHierarchy gv vk provider)"
    unfolding collectBudgetsFromHierarchy_def Let_def owners_on_store on_store_simps
    by (rule names) (auto split: option.split intro!: n z)
  then show ?thesis by (simp add: collectBudgetIDsFromMemory_def map_rows_concat)
qed

lemma add_rateLimit_names:
  assumes "\<forall>i. map_option rl_ID (LoadRateLimit i gs') = map_option rl_ID (LoadRateLimit i gs)"
    and "map_rows rl_ID m' = map_rows rl_ID m"
  shows "map_rows rl_ID (add_rateLimit gs' c rid m') = map_rows rl_ID (add_rateLimit gs c rid m)"
proof (cases rid)
  case (Some i)
  then show ?thesis
    using assms(1) [THEN spec, of i] assms(2)
    by (cases "LoadRateLimit i gs'"; cases "LoadRateLimit i gs") (auto simp: add_rateLimit_def map_rows_append)
qed (use assms in \<open>simp add: add_rateLimit_def\<close>)

lemma collect_pc_rateLimits_names:
  assumes "\<forall>i. map_option rl_ID (LoadRateLimit i gs') = map_option rl_ID (LoadRateLimit i gs)"
    and "map_rows rl_ID m' = map_rows rl_ID m"
  shows "map_rows rl_ID (collect_pc_rateLimits gs' pr pcs m') = map_rows rl_ID (collect_pc_rateLimits gs pr pcs m)"
  using assms
  by (induction gs pr pcs m arbitrary: m' rule: collect_pc_rateLimits.induct) (simp_all add: add_rateLimit_names)

lemma rateLimit_ids_stable:
  assumes "\<forall>i. map_option rl_ID (LoadRateLimit i (f (gv_store gv))) = map_option rl_ID (LoadRateLimit i (gv_store gv))"
  shows "collectRateLimitIDsFromMemory (on_store f gv) vk provider = collectRateLimitIDsFromMemory gv vk provider"
proof -
  note n = add_rateLimit_names [OF assms] collect_pc_rateLimits_names [OF assms]
  have "map_rows rl_ID (collectRateLimitsFromHierarchy (on_store f gv) vk provider) =
        map_rows rl_ID (collectRateLimitsFromHierarchy gv vk provider)"
    unfolding collectRateLimitsFromHierarchy_def Let_def owners_on_store on_store_simps
    by (auto split: option.split intro!: n)
  then show ?thesis by (simp add: collectRateLimitIDsFromMemory_def map_rows_concat)
qed

subsection \<open>What a settlement charges\<close>

definition charged_budget_ids :: "BudgetResolver \<Rightarrow> Governance \<Rightarrow> UsageUpdate \<Rightarrow> string list" where
  "charged_budget_ids r gv u =
     (let scoped = \<lambda>scope sid. if uu_Model u = '''' \<or> scope = '''' \<or> sid = '''' then []
            else model_budget_ids (br_baseModelName r) gv scope sid (uu_Model u) (uu_Provider u)
      in if \<not> shouldUpdateBudget u then []
         else (if uu_Model u = '''' then [] else provider_budget_ids gv (uu_Provider u)
                 @ model_budget_ids (br_baseModelName r) gv ModelConfigScopeGlobal '''' (uu_Model u) (uu_Provider u))
            @ (if uu_UserID u = '''' then [] else scoped ModelConfigScopeUser (uu_UserID u))
            @ (if uu_VirtualKey u = '''' then []
               else case GetVirtualKey (uu_VirtualKey u) gv of
                 None \<Rightarrow> []
               | Some vk \<Rightarrow> scoped ModelConfigScopeVirtualKey (vk_ID vk) @ collectBudgetIDsFromMemory gv vk (uu_Provider u)))"

definition charged_rateLimit_ids :: "BudgetResolver \<Rightarrow> Governance \<Rightarrow> UsageUpdate \<Rightarrow> string list" where
  "charged_rateLimit_ids r gv u =
     (let scoped = \<lambda>scope sid. if uu_Model u = '''' \<or> scope = '''' \<or> sid = '''' then []
            else model_rateLimit_ids (br_baseModelName r) gv scope sid (uu_Model u) (uu_Provider u)
      in (if uu_Model u = '''' then [] else provider_rateLimit_ids gv (uu_Provider u)
             @ model_rateLimit_ids (br_baseModelName r) gv ModelConfigScopeGlobal '''' (uu_Model u) (uu_Provider u))
         @ (if uu_UserID u = '''' then [] else scoped ModelConfigScopeUser (uu_UserID u))
         @ (if uu_VirtualKey u = '''' then []
            else case GetVirtualKey (uu_VirtualKey u) gv of
              None \<Rightarrow> []
            | Some vk \<Rightarrow> scoped ModelConfigScopeVirtualKey (vk_ID vk)
                @ (if vk_RateLimit vk \<noteq> None \<or> vk_ProviderConfigs vk \<noteq> [] \<or> vk_TeamID vk \<noteq> None \<or> vk_CustomerID vk \<noteq> None
                   then collectRateLimitIDsFromMemory gv vk (uu_Provider u) else [])))"

definition gov_charges :: "instant set \<Rightarrow> float64 \<Rightarrow> string list \<Rightarrow> string list \<Rightarrow> Governance \<Rightarrow> Governance \<Rightarrow> bool" where
  "gov_charges T c ids rids gv gv' \<longleftrightarrow> (\<exists>f. gv' = on_store f gv) \<and> charges T c ids rids (gv_store gv) (gv_store gv')"

lemma on_store_comp [simp]: "on_store g (on_store f gv) = on_store (g \<circ> f) gv"
  by (simp add: on_store_def)

lemma gov_charges_refl [simp]: "gov_charges T c [] [] gv gv"
proof -
  have "gv = on_store id gv" by (simp add: on_store_def)
  then show ?thesis unfolding gov_charges_def by (metis charges_refl)
qed

lemma gov_charges_trans:
  "gov_charges T c ids rids gv gv1 \<Longrightarrow> gov_charges T c ids' rids' gv1 gv2 \<Longrightarrow> gov_charges T c (ids @ ids') (rids @ rids') gv gv2"
  unfolding gov_charges_def using charges_trans by fastforce

lemma gov_charges_owners:
  assumes "gov_charges T c ids rids gv gv'"
  shows "model_budget_ids b gv' scope sid model pr = model_budget_ids b gv scope sid model pr"
    "model_rateLimit_ids b gv' scope sid model pr = model_rateLimit_ids b gv scope sid model pr"
    "provider_budget_ids gv' pr = provider_budget_ids gv pr" "provider_rateLimit_ids gv' pr = provider_rateLimit_ids gv pr"
    "GetVirtualKey v gv' = GetVirtualKey v gv"
  using assms by (auto simp: gov_charges_def)

lemma gov_charges_collected:
  assumes "gov_charges T c ids rids gv gv'" "rows_named (gv_store gv)"
  shows "collectBudgetIDsFromMemory gv' vk pr = collectBudgetIDsFromMemory gv vk pr"
    "collectRateLimitIDsFromMemory gv' vk pr = collectRateLimitIDsFromMemory gv vk pr"
    "rows_named (gv_store gv')"
proof -
  obtain f where f: "gv' = on_store f gv" and c: "charges T c ids rids (gv_store gv) (f (gv_store gv))"
    using assms(1) by (auto simp: gov_charges_def)
  show "collectBudgetIDsFromMemory gv' vk pr = collectBudgetIDsFromMemory gv vk pr"
    unfolding f by (rule budget_ids_stable) (use c assms(2) in \<open>simp add: charges_def\<close>)
  show "collectRateLimitIDsFromMemory gv' vk pr = collectRateLimitIDsFromMemory gv vk pr"
    unfolding f by (rule rateLimit_ids_stable) (use c assms(2) in \<open>simp add: charges_def\<close>)
  show "rows_named (gv_store gv')" using charges_named [OF c assms(2)] f by simp
qed

lemma gov_budgets: "(\<And>n m. clk n m \<in> T) \<Longrightarrow> gov_charges T c ids [] gv (on_store (bump_budgets clk ids c) gv)"
  unfolding gov_charges_def using bump_budgets_charges by auto

lemma gov_rateLimits: "gov_charges T c [] ids gv (on_store (bump_rateLimits clk ids t dt dr) gv)"
  unfolding gov_charges_def using bump_rateLimits_charges by auto

text \<open>A rate limit site followed by a budget site.\<close>

lemma rate_then_budget:
  assumes "\<And>n m. clk n m \<in> T"
  shows "gov_charges T c (if b then ids else []) rids gv
     (let gv' = on_store (bump_rateLimits clk' rids t dt dr) gv in if b then on_store (bump_budgets clk ids c) gv' else gv')"
  using gov_charges_trans [OF gov_rateLimits [of T c rids gv clk' t dt dr] gov_budgets [OF assms, of c ids]]
    gov_rateLimits [of T c rids gv clk' t dt dr]
  by (simp add: Let_def)

lemma charge_model_level_charges:
  assumes "\<And>n m k. clk n m k \<in> T"
  shows "gov_charges T (uu_Cost u)
     (if uu_Model u = '''' \<or> \<not> shouldUpdateBudget u then [] else provider_budget_ids gv (uu_Provider u)
        @ model_budget_ids (br_baseModelName r) gv ModelConfigScopeGlobal '''' (uu_Model u) (uu_Provider u))
     (if uu_Model u = '''' then [] else provider_rateLimit_ids gv (uu_Provider u)
        @ model_rateLimit_ids (br_baseModelName r) gv ModelConfigScopeGlobal '''' (uu_Model u) (uu_Provider u))
     gv (charge_model_level r clk u gv)"
  using rate_then_budget [of "clk 1" T "uu_Cost u" "shouldUpdateBudget u"
      "provider_budget_ids gv (uu_Provider u) @ model_budget_ids (br_baseModelName r) gv ModelConfigScopeGlobal '''' (uu_Model u) (uu_Provider u)"
      "provider_rateLimit_ids gv (uu_Provider u) @ model_rateLimit_ids (br_baseModelName r) gv ModelConfigScopeGlobal '''' (uu_Model u) (uu_Provider u)"
      gv "clk 0" "uu_TokensUsed u" "shouldUpdateTokens u" "shouldUpdateRequests u"] assms
  by (auto simp: charge_model_level_def UpdateProviderAndModelRateLimitUsageInMemory_def
      UpdateProviderAndModelBudgetUsageInMemory_def Let_def)

lemma charge_scoped_charges:
  assumes "\<And>n m k. clk n m k \<in> T"
  shows "gov_charges T (uu_Cost u)
     (if uu_Model u = '''' \<or> scope = '''' \<or> sid = '''' \<or> \<not> shouldUpdateBudget u then []
      else model_budget_ids (br_baseModelName r) gv scope sid (uu_Model u) (uu_Provider u))
     (if uu_Model u = '''' \<or> scope = '''' \<or> sid = '''' then []
      else model_rateLimit_ids (br_baseModelName r) gv scope sid (uu_Model u) (uu_Provider u))
     gv (charge_scoped r clk scope sid u gv)"
  using rate_then_budget [of "clk 1" T "uu_Cost u" "shouldUpdateBudget u"
      "model_budget_ids (br_baseModelName r) gv scope sid (uu_Model u) (uu_Provider u)"
      "model_rateLimit_ids (br_baseModelName r) gv scope sid (uu_Model u) (uu_Provider u)"
      gv "clk 0" "uu_TokensUsed u" "shouldUpdateTokens u" "shouldUpdateRequests u"] assms
  by (auto simp: charge_scoped_def UpdateScopedModelRateLimitUsageInMemory_def
      UpdateScopedModelBudgetUsageInMemory_def Let_def)

lemma charge_vk_level_charges:
  assumes T: "\<And>n m k. clk n m k \<in> T" and named: "rows_named (gv_store gv)"
  shows "gov_charges T (uu_Cost u)
     ((if uu_Model u = '''' \<or> vk_ID vk = '''' \<or> \<not> shouldUpdateBudget u then []
       else model_budget_ids (br_baseModelName r) gv ModelConfigScopeVirtualKey (vk_ID vk) (uu_Model u) (uu_Provider u))
      @ (if shouldUpdateBudget u then collectBudgetIDsFromMemory gv vk (uu_Provider u) else []))
     ((if uu_Model u = '''' \<or> vk_ID vk = '''' then []
       else model_rateLimit_ids (br_baseModelName r) gv ModelConfigScopeVirtualKey (vk_ID vk) (uu_Model u) (uu_Provider u))
      @ (if vk_RateLimit vk \<noteq> None \<or> vk_ProviderConfigs vk \<noteq> [] \<or> vk_TeamID vk \<noteq> None \<or> vk_CustomerID vk \<noteq> None
         then collectRateLimitIDsFromMemory gv vk (uu_Provider u) else []))
     gv (charge_vk_level r clk vk u gv)"
proof -
  let ?P = "vk_RateLimit vk \<noteq> None \<or> vk_ProviderConfigs vk \<noteq> [] \<or> vk_TeamID vk \<noteq> None \<or> vk_CustomerID vk \<noteq> None"
  define g1 where "g1 = charge_scoped r clk ModelConfigScopeVirtualKey (vk_ID vk) u gv"
  define g2 where "g2 = (if ?P then UpdateVirtualKeyRateLimitUsageInMemory (clk 2) vk (uu_Provider u) (uu_TokensUsed u)
      (shouldUpdateTokens u) (shouldUpdateRequests u) g1 else g1)"
  note s = charge_scoped_charges [of clk T u ModelConfigScopeVirtualKey "vk_ID vk" r gv, OF T, folded g1_def]
  note st = gov_charges_collected(1,2) [OF s named, of vk "uu_Provider u"] gov_charges_collected(3) [OF s named]
  have g2: "gov_charges T (uu_Cost u) [] (if ?P then collectRateLimitIDsFromMemory gv vk (uu_Provider u) else []) g1 g2"
    using gov_rateLimits st(2) by (simp add: g2_def UpdateVirtualKeyRateLimitUsageInMemory_def)
  note st2 = gov_charges_collected(1) [OF g2 st(3), of vk "uu_Provider u"]
  have "gov_charges T (uu_Cost u) (if shouldUpdateBudget u then collectBudgetIDsFromMemory gv vk (uu_Provider u) else []) []
      g2 (charge_vk_level r clk vk u gv)"
    using gov_budgets [of "clk 3" T "uu_Cost u" "collectBudgetIDsFromMemory g2 vk (uu_Provider u)" g2, OF T] st2 st(1)
    unfolding charge_vk_level_def Let_def g1_def [symmetric] g2_def [symmetric] UpdateVirtualKeyBudgetUsageInMemory_def
    by simp
  from gov_charges_trans [OF gov_charges_trans [OF s g2] this] show ?thesis by simp
qed

lemma charge_charges:
  assumes T: "\<And>n m k. clk n m k \<in> T" and named: "rows_named (gv_store gv)"
  shows "gov_charges T (uu_Cost u) (charged_budget_ids r gv u) (charged_rateLimit_ids r gv u) gv (charge r clk u gv)"
proof -
  define g1 where "g1 = charge_model_level r clk u gv"
  define g2 where "g2 = charge_user_level r (\<lambda>n. clk (n + 2)) u g1"
  note c1 = charge_model_level_charges [of clk T u gv r, OF T, folded g1_def]
  note n1 = gov_charges_collected(3) [OF c1 named]
  let ?su = "uu_UserID u = '''' \<or> uu_Model u = ''''"
  have c2: "gov_charges T (uu_Cost u)
     (if ?su \<or> \<not> shouldUpdateBudget u then []
      else model_budget_ids (br_baseModelName r) gv ModelConfigScopeUser (uu_UserID u) (uu_Model u) (uu_Provider u))
     (if ?su then [] else model_rateLimit_ids (br_baseModelName r) gv ModelConfigScopeUser (uu_UserID u) (uu_Model u) (uu_Provider u))
     g1 g2"
    using charge_scoped_charges [of "\<lambda>n. clk (n + 2)" T u ModelConfigScopeUser "uu_UserID u" r g1, OF T] gov_charges_owners [OF c1]
    by (auto simp: g2_def charge_user_level_def UpdateUserRateLimitUsageInMemory_def UpdateUserBudgetUsageInMemory_def Let_def)
  note c12 = gov_charges_trans [OF c1 c2]
  note n2 = gov_charges_collected [OF c12 named]
  have ch: "charge r clk u gv = (if uu_VirtualKey u = '''' then g2 else case GetVirtualKey (uu_VirtualKey u) g2 of
      None \<Rightarrow> g2 | Some vk \<Rightarrow> charge_vk_level r (\<lambda>n. clk (n + 4)) vk u g2)"
    unfolding charge_def Let_def g1_def g2_def by (rule refl)
  show ?thesis
  proof (cases "if uu_VirtualKey u = '''' then None else GetVirtualKey (uu_VirtualKey u) gv")
    case None
    then have "charge r clk u gv = g2"
      using gov_charges_owners(5) [OF c12, of "uu_VirtualKey u"] unfolding ch by (simp split: if_splits)
    then show ?thesis using c12 None
      by (auto simp: charged_budget_ids_def charged_rateLimit_ids_def Let_def split: if_splits)
  next
    case (Some vk)
    then have ch: "charge r clk u gv = charge_vk_level r (\<lambda>n. clk (n + 4)) vk u g2"
      using gov_charges_owners(5) [OF c12, of "uu_VirtualKey u"] unfolding ch by (simp split: if_splits)
    have "gov_charges T (uu_Cost u) (charged_budget_ids r gv u) (charged_rateLimit_ids r gv u) gv
        (charge_vk_level r (\<lambda>n. clk (n + 4)) vk u g2)"
      using gov_charges_trans [OF c12 charge_vk_level_charges [of "\<lambda>n. clk (n + 4)" T g2 u vk r, OF T n2(3)]] Some
        gov_charges_owners [OF c12] n2(1,2)
      by (auto simp: charged_budget_ids_def charged_rateLimit_ids_def Let_def split: if_splits)
    then show ?thesis by (simp add: ch)
  qed
qed

lemma bump_pow_usage:
  "tb_CurrentUsage b = Fin x \<Longrightarrow> (bump_clone (Fin c) ^^ n) b = b\<lparr>tb_CurrentUsage := Fin (x + of_nat n * c)\<rparr>"
proof (induction n)
  case 0
  then show ?case by (cases b) simp
next
  case (Suc n)
  then show ?case by (simp add: bump_clone_def algebra_simps)
qed

definition settles :: "instant \<Rightarrow> UsageUpdate \<Rightarrow> UsageTracker \<Rightarrow> bool" where
  "settles now u t \<longleftrightarrow> (uu_Success u \<or> hasUsage u) \<and> (isTerminal u \<longrightarrow> snd (tryClaimBilling now u t))"

lemma tryClaim_store [simp]: "ut_store (fst (tryClaimBilling now u t)) = ut_store t"
  by (simp add: tryClaimBilling_def Let_def split: option.split)

lemma UpdateUsage_store:
  "ut_store (UpdateUsage r now clk u t) = (if settles now u t then charge r clk u (ut_store t) else ut_store t)"
  using tryClaim_store [of now u t]
  by (cases "tryClaimBilling now u t") (auto simp: UpdateUsage_def settles_def)

text \<open>C7. A settlement charges exactly the rows collected for its request. A budget whose window is open
  throughout takes the cost once for every owner of the request that lists it, and nothing else
  of it changes; a budget or rate limit that no owner lists is not touched, not even by the resets
  that charging may trigger. Updates that do not settle (nothing consumed, or billed before) change
  no row.\<close>

theorem settlement_charges_exactly:
  assumes "rows_named (gv_store (ut_store t))" "uu_Cost u = Fin c"
    and "gs = gv_store (ut_store t)" "gs' = gv_store (ut_store (UpdateUsage r now clk u t))"
    and "n = (if settles now u t then count_list (charged_budget_ids r (ut_store t) u) i else 0)"
  shows "(\<forall>b x. LoadBudget i gs = Some b \<and> tb_CurrentUsage b = Fin x \<and> (\<forall>j m k. budgetResetTarget b (clk j m k) = None)
       \<longrightarrow> LoadBudget i gs' = Some (b\<lparr>tb_CurrentUsage := Fin (x + of_nat n * c)\<rparr>))
     \<and> (n = 0 \<longrightarrow> LoadBudget i gs' = LoadBudget i gs)
     \<and> (i \<notin> set (charged_rateLimit_ids r (ut_store t) u) \<longrightarrow> LoadRateLimit i gs' = LoadRateLimit i gs)"
proof (cases "settles now u t")
  case True
  define T where "T = {clk j m k | j m k. True}"
  have T: "clk j m k \<in> T" for j m k unfolding T_def by blast
  have n: "n = count_list (charged_budget_ids r (ut_store t) u) i" using assms(5) True by simp
  have gs': "gs' = gv_store (charge r clk u (ut_store t))" using assms(4) True by (simp add: UpdateUsage_store)
  have c: "charges T (Fin c) (charged_budget_ids r (ut_store t) u) (charged_rateLimit_ids r (ut_store t) u) gs gs'"
    using charge_charges [of clk T "ut_store t" u r, OF T assms(1)] assms(2) unfolding gov_charges_def gs' assms(3) by simp
  have "LoadBudget i gs' = Some (b\<lparr>tb_CurrentUsage := Fin (x + of_nat n * c)\<rparr>)"
    if "LoadBudget i gs = Some b" "tb_CurrentUsage b = Fin x" "\<forall>j m k. budgetResetTarget b (clk j m k) = None" for b x
  proof -
    have "\<forall>s\<in>T. budgetResetTarget b s = None" using that(3) unfolding T_def by auto
    then have "LoadBudget i gs' = Some ((bump_clone (Fin c) ^^ n) b)"
      using c that(1) assms(1,3) n unfolding charges_def by simp
    then show ?thesis using bump_pow_usage [OF that(2)] by simp
  qed
  moreover have "LoadBudget i gs' = LoadBudget i gs" if "n = 0"
    using c that n assms(1,3) unfolding charges_def by (simp add: count_list_0_iff)
  moreover have "LoadRateLimit i gs' = LoadRateLimit i gs" if "i \<notin> set (charged_rateLimit_ids r (ut_store t) u)"
    using c that assms(1,3) unfolding charges_def by simp
  ultimately show ?thesis by blast
next
  case False
  have id: "b\<lparr>tb_CurrentUsage := Fin x\<rparr> = b" if "tb_CurrentUsage b = Fin x" for b x
    using that by (cases b) simp
  have "gs' = gs" "n = 0" using False assms(3-5) by (simp_all add: UpdateUsage_store)
  then show ?thesis by (simp add: id)
qed

subsection \<open>Admission and settlement\<close>

text \<open>The rows a check saw are the rows charged.\<close>

lemma provider_checked:
  assumes "provider \<noteq> '''' \<Longrightarrow> CheckProviderBudget now gv (plain_request v provider model) = allowed"
    and "i \<in> set (provider_budget_ids gv provider)" "LoadBudget i (gv_store gv) = Some b"
  shows "\<not> budget_exceeded [] now b"
proof -
  have ne: "provider \<noteq> ''''" using assms(2) by (cases "provider = ''''") (simp_all add: provider_budget_ids_def)
  then have "Option.bind (mapget (gv_providers gv) provider) pv_BudgetID = Some i"
    using assms(2) by (cases "Option.bind (mapget (gv_providers gv) provider) pv_BudgetID") (auto simp: provider_budget_ids_def)
  with ne show ?thesis
    using assms(1,3) CheckBudget_allows [of "[(provider, [b])]" now] by (simp add: CheckProviderBudget_def)
qed

lemma provider_rate_checked:
  assumes "provider \<noteq> '''' \<Longrightarrow> CheckProviderRateLimit now gv (plain_request v provider model) = allowed"
    and "i \<in> set (provider_rateLimit_ids gv provider)" "LoadRateLimit i (gv_store gv) = Some rl"
  shows "\<not> rate_exceeded now rl"
proof -
  have ne: "provider \<noteq> ''''" using assms(2) by (cases "provider = ''''") (simp_all add: provider_rateLimit_ids_def)
  then have "Option.bind (mapget (gv_providers gv) provider) pv_RateLimitID = Some i"
    using assms(2) by (cases "Option.bind (mapget (gv_providers gv) provider) pv_RateLimitID") (auto simp: provider_rateLimit_ids_def)
  with ne show ?thesis
    using assms(1,3) CheckRateLimit_allows [of "[(provider, [rl])]" now] by (simp add: CheckProviderRateLimit_def)
qed

lemma configs_checked:
  assumes "distinct (map modelConfigEntityKey mcs)"
    and "CheckBudget (model_budgets gs mcs) [] now = allowed" "CheckRateLimit (model_rateLimits gs mcs) [] [] now = allowed"
  shows "i \<in> set (concat (map (\<lambda>mc. map tb_ID (mc_Budgets mc)) mcs)) \<Longrightarrow> LoadBudget i gs = Some b \<Longrightarrow> \<not> budget_exceeded [] now b"
    "i \<in> set (List.map_filter mc_RateLimitID mcs) \<Longrightarrow> LoadRateLimit i gs = Some rl \<Longrightarrow> \<not> rate_exceeded now rl"
proof -
  have bs: "\<forall>mc\<in>set mcs. \<forall>b\<in>set (loadModelConfigBudgets gs mc). \<not> budget_exceeded [] now b"
    using assms(2) by (simp add: CheckBudget_allows model_budgets_rows [OF assms(1)])
  show "\<not> budget_exceeded [] now b" if i: "i \<in> set (concat (map (\<lambda>mc. map tb_ID (mc_Budgets mc)) mcs))" and "LoadBudget i gs = Some b"
  proof -
    obtain mc where mc: "mc \<in> set mcs" "i \<in> tb_ID ` set (mc_Budgets mc)" using i by auto
    then have "b \<in> set (loadModelConfigBudgets gs mc)"
      using that(2) by (force simp: loadModelConfigBudgets_def List.map_filter_def)
    then show ?thesis using bs mc by blast
  qed
  have rs: "\<forall>mc\<in>set mcs. \<forall>rl\<in>set (config_rateLimits gs mc). \<not> rate_exceeded now rl"
    using assms(3) by (simp add: CheckRateLimit_allows model_rateLimits_rows [OF assms(1)])
  show "\<not> rate_exceeded now rl" if i: "i \<in> set (List.map_filter mc_RateLimitID mcs)" and "LoadRateLimit i gs = Some rl"
  proof -
    obtain mc where mc: "mc \<in> set mcs" "mc_RateLimitID mc = Some i" using i by (auto simp: List.map_filter_def)
    then have "rl \<in> set (config_rateLimits gs mc)" using that(2) by (simp add: config_rateLimits_def)
    then show ?thesis using rs mc by blast
  qed
qed

lemma hierarchy_checked:
  assumes "rows_named (gv_store gv)"
    and "CheckVirtualKeyBudget now gv vk rq = allowed" "CheckVirtualKeyRateLimit now gv vk rq = allowed"
  shows "i \<in> set (collectBudgetIDsFromMemory gv vk (er_Provider rq)) \<Longrightarrow> LoadBudget i (gv_store gv) = Some b \<Longrightarrow>
       \<not> budget_exceeded [] now b"
    "i \<in> set (collectRateLimitIDsFromMemory gv vk (er_Provider rq)) \<Longrightarrow> LoadRateLimit i (gv_store gv) = Some rl \<Longrightarrow>
       \<not> rate_exceeded now rl"
proof -
  let ?B = "entity_rows (collectBudgetsFromHierarchy gv vk (er_Provider rq))"
  let ?R = "entity_rows (collectRateLimitsFromHierarchy gv vk (er_Provider rq))"
  show "\<not> budget_exceeded [] now b"
    if i: "i \<in> set (collectBudgetIDsFromMemory gv vk (er_Provider rq))" and "LoadBudget i (gv_store gv) = Some b"
  proof -
    obtain b' where b': "b' \<in> ?B" "i = tb_ID b'" using i by (auto simp: collectBudgetIDsFromMemory_def entity_rows_def)
    then have "live_budget (gv_store gv) b'" using collectBudgets_live [of gv vk "er_Provider rq"] by (auto simp: rows_all_def)
    then have "LoadBudget i (gv_store gv) = Some b'" using assms(1) b'(2) by (auto simp: live_budget_def rows_named_def)
    then show ?thesis using that(2) b'(1) assms(2) by (auto simp: CheckVirtualKeyBudget_def CheckBudget_allows)
  qed
  show "\<not> rate_exceeded now rl"
    if i: "i \<in> set (collectRateLimitIDsFromMemory gv vk (er_Provider rq))" and "LoadRateLimit i (gv_store gv) = Some rl"
  proof -
    obtain rl' where rl': "rl' \<in> ?R" "i = rl_ID rl'" using i by (auto simp: collectRateLimitIDsFromMemory_def entity_rows_def)
    then have "live_rateLimit (gv_store gv) rl'" using collectRateLimits_live [of gv vk "er_Provider rq"] by (auto simp: rows_all_def)
    then have "LoadRateLimit i (gv_store gv) = Some rl'" using assms(1) rl'(2) by (auto simp: live_rateLimit_def rows_named_def)
    then show ?thesis using that(2) rl'(1) assms(3) by (auto simp: CheckVirtualKeyRateLimit_def CheckRateLimit_allows)
  qed
qed

lemma model_scope_checked:
  assumes "distinct (map modelConfigEntityKey (collectModelConfigsFor f gv scope sid model (provider_str provider)))"
    and "CheckBudget (model_budgets (gv_store gv) (collectModelConfigsFor f gv scope sid model (provider_str provider))) [] now = allowed"
    and "CheckRateLimit (model_rateLimits (gv_store gv) (collectModelConfigsFor f gv scope sid model (provider_str provider))) [] [] now = allowed"
  shows "i \<in> set (model_budget_ids f gv scope sid model provider) \<Longrightarrow> LoadBudget i (gv_store gv) = Some b \<Longrightarrow> \<not> budget_exceeded [] now b"
    "i \<in> set (model_rateLimit_ids f gv scope sid model provider) \<Longrightarrow> LoadRateLimit i (gv_store gv) = Some rl \<Longrightarrow> \<not> rate_exceeded now rl"
  using configs_checked [OF assms] by (auto simp: model_budget_ids_def model_rateLimit_ids_def)

lemma extract_plain [simp]: "extractModelAndProvider (plain_request v provider model) = (model, provider_str provider)"
  by (simp add: extractModelAndProvider_def provider_str_def)

text \<open>Limits of an admitted request that carries a key and no user.\<close>

lemma admitted_checks:
  assumes "EvaluateGovernanceRequest p now gv rq rt ctx = (ctx', Some res, None)"
    and "\<not> GetBoolFromContext ctx KeySkipBudgetAndRateLimits" "er_UserID rq = ''''" "er_VirtualKey rq \<noteq> ''''"
    and "GetVirtualKey (er_VirtualKey rq) gv = Some vk"
  shows "ev_Decision (EvaluateModelAndProviderRequest (gp_resolver p) now gv (er_Provider rq) (er_Model rq)) = DecisionAllow
     \<and> vk_limits (gp_resolver p) now gv vk (plain_request (er_VirtualKey rq) (er_Provider rq) (er_Model rq)) = None"
proof -
  obtain h skip c1 r1 where g: "skip = GetBoolFromContext ctx KeySkipBudgetAndRateLimits"
    "step_virtual_key p now gv rq rt skip (ctx, first_result p now gv rq skip) = (c1, r1)"
    "res = check_added_tools p c1 (level_result p now gv rq h skip r1)"
    "None = governance_error (ev_Decision res) (ev_Reason res)"
    using assms(1) by (rule EvaluateGovernance_result) blast
  have "ev_Decision res = DecisionAllow" using g(4) [symmetric] by (simp add: governance_error_None)
  then have "ev_Decision r1 = DecisionAllow" unfolding g(3) by (blast dest: step_allow level_result_allow)
  with g(2) obtain vk' where "ev_Decision (first_result p now gv rq skip) = DecisionAllow"
    "GetVirtualKey (er_VirtualKey rq) gv = Some vk'"
    "er_UserID rq = '''' \<and> \<not> skip \<longrightarrow>
       vk_limits (gp_resolver p) now gv vk' (plain_request (er_VirtualKey rq) (er_Provider rq) (er_Model rq)) = None"
    using assms(4) by (rule step_virtual_key_allow)
  then show ?thesis using g(1) assms(2,3,5) by (simp add: first_result_def)
qed


subsection \<open>One settlement per attempt\<close>

text \<open>Runs of the tracker: settlements and periodic passes in any order.\<close>

datatype tracker_event =
    Settle instant "nat \<Rightarrow> clocks" UsageUpdate
  | ResetPass instant instant instant

fun tracker_step :: "BudgetResolver \<Rightarrow> tracker_event \<Rightarrow> UsageTracker \<Rightarrow> UsageTracker" where
  "tracker_step r (Settle now clk u) t = UpdateUsage r now clk u t"
| "tracker_step r (ResetPass now1 now2 now3) t = resetExpiredCounters now1 now2 now3 t"

definition tracker_run :: "BudgetResolver \<Rightarrow> tracker_event list \<Rightarrow> UsageTracker \<Rightarrow> UsageTracker" where
  "tracker_run r evs t = fold (tracker_step r) evs t"

definition billable :: "UsageUpdate \<Rightarrow> bool" where
  "billable u \<longleftrightarrow> uu_Success u \<or> hasUsage u"

text \<open>The attempts that a run settles, and its use of the billing map in a window of one TTL.\<close>

fun claims_of :: "tracker_event \<Rightarrow> (string \<times> int) list" where
  "claims_of (Settle now clk u) =
     (if billable u \<and> isTerminal u \<and> uu_RequestID u \<noteq> '''' then [(uu_RequestID u, uu_AttemptNumber u)] else [])"
| "claims_of (ResetPass now1 now2 now3) = []"

fun in_window :: "instant \<Rightarrow> tracker_event \<Rightarrow> bool" where
  "in_window t0 (Settle now clk u) \<longleftrightarrow> t0 \<le> now"
| "in_window t0 (ResetPass now1 now2 now3) \<longleftrightarrow> now3 \<le> t0 + billedEntryTTL"

lemma billing_key_inj:
  assumes "billing_key i m = billing_key j n"
  shows "i = j \<and> m = n"
proof -
  have split: "s = s' \<and> x = x'" if "s @ c # x = s' @ c # x'" "c \<notin> set x" "c \<notin> set x'" for s s' x x' :: string and c
    using that by (auto simp: append_eq_append_conv2 append_eq_Cons_conv Cons_eq_append_conv)
  show ?thesis
    using split [of i "CHR '':''" "strconv_Itoa m" j "strconv_Itoa n"] assms Itoa_no_colon Itoa_inj
    by (auto simp: billing_key_def)
qed

text \<open>In the window the billing map holds the keys of the attempts settled so far.\<close>

definition billed_inv :: "instant \<Rightarrow> (string \<times> int) set \<Rightarrow> UsageTracker \<Rightarrow> bool" where
  "billed_inv t0 A t \<longleftrightarrow> (\<forall>p\<in>set (ut_billed t). t0 \<le> snd p)
     \<and> (\<forall>i m. mapget (ut_billed t) (billing_key i m) \<noteq> None \<longleftrightarrow> (i, m) \<in> A)"

lemma claim_inv:
  assumes "billed_inv t0 A t" "t0 \<le> now"
  shows "billed_inv t0 (A \<union> set (if uu_RequestID u \<noteq> '''' then [(uu_RequestID u, uu_AttemptNumber u)] else []))
           (fst (tryClaimBilling now u t))"
    and "snd (tryClaimBilling now u t) \<longleftrightarrow> uu_RequestID u = '''' \<or> (uu_RequestID u, uu_AttemptNumber u) \<notin> A"
proof -
  let ?k = "billing_key (uu_RequestID u) (uu_AttemptNumber u)"
  have key: "billing_key i m = ?k \<longleftrightarrow> i = uu_RequestID u \<and> m = uu_AttemptNumber u" for i m
    using billing_key_inj by blast
  have old: "mapget (ut_billed t) ?k \<noteq> None \<longleftrightarrow> (uu_RequestID u, uu_AttemptNumber u) \<in> A"
    using assms(1) by (simp add: billed_inv_def)
  have times: "\<forall>p\<in>set (mapput ?k now (ut_billed t)). t0 \<le> snd p"
    using assms update_subset [of ?k now "ut_billed t"] by (auto simp: billed_inv_def)
  show "billed_inv t0 (A \<union> set (if uu_RequestID u \<noteq> '''' then [(uu_RequestID u, uu_AttemptNumber u)] else []))
      (fst (tryClaimBilling now u t))"
    using assms(1) old times
    by (cases "mapget (ut_billed t) ?k") (auto simp: tryClaimBilling_def billed_inv_def key insert_absorb)
  show "snd (tryClaimBilling now u t) \<longleftrightarrow> uu_RequestID u = '''' \<or> (uu_RequestID u, uu_AttemptNumber u) \<notin> A"
    using old by (cases "mapget (ut_billed t) ?k") (auto simp: tryClaimBilling_def)
qed

lemma UpdateUsage_billed:
  "ut_billed (UpdateUsage r now clk u t) =
     (if billable u \<and> isTerminal u then ut_billed (fst (tryClaimBilling now u t)) else ut_billed t)"
  by (cases "tryClaimBilling now u t") (auto simp: UpdateUsage_def billable_def)

lemma tracker_step_inv:
  assumes "billed_inv t0 A t" "in_window t0 e"
  shows "billed_inv t0 (A \<union> set (claims_of e)) (tracker_step r e t)"
proof (cases e)
  case (Settle now clk u)
  then show ?thesis
    using assms claim_inv(1) [OF assms(1), of now u] by (auto simp: billed_inv_def UpdateUsage_billed)
next
  case (ResetPass a b c)
  have "filter (\<lambda>(k, seen). \<not> seen < c - billedEntryTTL) (ut_billed t) = ut_billed t"
    using assms ResetPass by (intro filter_True) (auto simp: billed_inv_def)
  then show ?thesis
    using assms(1) ResetPass by (simp add: billed_inv_def resetExpiredCounters_def sweepBilled_def Let_def)
qed

lemma tracker_run_inv:
  assumes "billed_inv t0 A t" "\<forall>e\<in>set evs. in_window t0 e"
  shows "billed_inv t0 (A \<union> set (concat (map claims_of evs))) (tracker_run r evs t)"
  using assms
proof (induction evs arbitrary: A t)
  case (Cons e evs)
  have "billed_inv t0 (A \<union> set (claims_of e)) (tracker_step r e t)" using Cons.prems by (intro tracker_step_inv) auto
  then have "billed_inv t0 (A \<union> set (claims_of e) \<union> set (concat (map claims_of evs))) (tracker_run r evs (tracker_step r e t))"
    using Cons.prems by (intro Cons.IH) auto
  then show ?case by (simp add: tracker_run_def Un_assoc)
qed (simp add: tracker_run_def)


subsection \<open>Examples\<close>

text \<open>The example key with a budget of its own, and the settlement of its request.\<close>

definition paying_governance :: Governance where
  "paying_governance = demo_governance\<lparr>gv_store := put_budget ''b'' hourly_budget emptyGovStore,
     gv_virtualKeys := [(''sk-bf-1'', demo_key\<lparr>vk_ExpiresAt := None, vk_Budgets := [hourly_budget]\<rparr>)]\<rparr>"

definition demo_update :: UsageUpdate where
  "demo_update = \<lparr>uu_VirtualKey = ''sk-bf-1'', uu_Provider = OpenAI, uu_Model = ''gpt-4o'', uu_Success = True,
     uu_TokensUsed = 7, uu_Cost = Fin 3, uu_RequestID = ''req'', uu_UserID = '''', uu_IsStreaming = False,
     uu_IsFinalChunk = False, uu_HasUsageData = True, uu_AttemptNumber = 0\<rparr>"

definition demo_tracker :: UsageTracker where
  "demo_tracker = \<lparr>ut_store = paying_governance, ut_billed = []\<rparr>"

lemma paying_rows_named: "rows_named (gv_store paying_governance)"
proof -
  have "tb_ID hourly_budget = ''b''" by code_simp
  then show ?thesis
    by (simp add: rows_named_def paying_governance_def LoadRateLimit_def emptyGovStore_def put_budget_def LoadBudget_def)
qed

theorem settlement_charges_exactly_witness:
  "charged_budget_ids (gp_resolver demo_plugin) paying_governance demo_update = [''b'']
   \<and> LoadBudget ''b'' (gv_store (ut_store (UpdateUsage (gp_resolver demo_plugin) 0 (\<lambda>_ _ _. 1700001000000000000) demo_update demo_tracker)))
       = Some (hourly_budget\<lparr>tb_CurrentUsage := Fin 3\<rparr>)"
proof -
  have ids: "charged_budget_ids (gp_resolver demo_plugin) (ut_store demo_tracker) demo_update = [''b'']" by code_simp
  have st: "settles 0 demo_update demo_tracker" by code_simp
  have "tb_CurrentUsage hourly_budget = Fin 0" "budgetResetTarget hourly_budget 1700001000000000000 = None" by code_simp+
  moreover have "LoadBudget ''b'' (gv_store (ut_store demo_tracker)) = Some hourly_budget"
    by (simp add: demo_tracker_def paying_governance_def)
  moreover have "uu_Cost demo_update = Fin 3" by (simp add: demo_update_def)
  ultimately show ?thesis
    using settlement_charges_exactly [of demo_tracker demo_update 3 _ _ "gp_resolver demo_plugin" 0
        "\<lambda>_ _ _. 1700001000000000000" _ "''b''", OF _ _ refl refl refl] paying_rows_named ids st
    by (simp add: demo_tracker_def)
qed



end
