(* ===== verification/Governance_Admin.thy ===== *)
theory Governance_Admin
  imports Usage_Tracker
begin

text \<open>
  Changes of the owners: creating, updating and deleting virtual keys, teams, customers, model
  configurations and providers in memory (\<open>src/plugins/governance/store.go\<close>), the index of keys by
  ID, and the IDs that a request is said to affect.

  \<^item> An owner comes with its rows embedded. Storing it stamps the calendar alignment of the owner on the
    rows; updating it first takes usage and boundary from the live row. Slices are never nil, as the
    database layer loads them.
  \<^item> A \<open>Range\<close> over a map visits its entries in the order of the association list.
  \<^item> Each operation is one step here: what a concurrent bump does between the load and the store of
    an update is not part of the model.

  Shown: what an update of a key does to every budget of the store.
\<close>

subsection \<open>Keys and their index\<close>

definition GetVirtualKeyByID :: "string \<Rightarrow> Governance \<Rightarrow> TableVirtualKey option" where
  "GetVirtualKeyByID vkID gv = mapget (gv_virtualKeysByID gv) vkID"

definition storeVirtualKey :: "string \<Rightarrow> TableVirtualKey \<Rightarrow> Governance \<Rightarrow> Governance" where
  "storeVirtualKey value vk gv =
     (if value = '''' then gv
      else let gv = gv\<lparr>gv_virtualKeys := mapput value vk (gv_virtualKeys gv)\<rparr>
        in if vk_ID vk \<noteq> '''' then gv\<lparr>gv_virtualKeysByID := mapput (vk_ID vk) vk (gv_virtualKeysByID gv)\<rparr> else gv)"

definition deleteVirtualKeyByValue :: "string \<Rightarrow> Governance \<Rightarrow> Governance" where
  "deleteVirtualKeyByValue value gv =
     (let gv = (case mapget (gv_virtualKeys gv) value of
                  Some vk \<Rightarrow> if vk_ID vk \<noteq> '''' then gv\<lparr>gv_virtualKeysByID := mapdel (vk_ID vk) (gv_virtualKeysByID gv)\<rparr> else gv
                | None \<Rightarrow> gv)
      in gv\<lparr>gv_virtualKeys := mapdel value (gv_virtualKeys gv)\<rparr>)"

subsection \<open>Embedded rows\<close>

text \<open>Storing a row of a new owner, and of an updated one.\<close>

definition stamp_budget :: "bool \<Rightarrow> TableBudget \<Rightarrow> TableBudget" where
  "stamp_budget al b = b\<lparr>tb_IsCalendarAligned := al\<rparr>"

definition stamp_rateLimit :: "bool \<Rightarrow> TableRateLimit \<Rightarrow> TableRateLimit" where
  "stamp_rateLimit al rl = rl\<lparr>rl_IsCalendarAligned := al\<rparr>"

definition keep_usage :: "GovStore \<Rightarrow> TableBudget \<Rightarrow> TableBudget" where
  "keep_usage gs b = (case LoadBudget (tb_ID b) gs of
       Some existing \<Rightarrow> b\<lparr>tb_CurrentUsage := tb_CurrentUsage existing, tb_LastReset := tb_LastReset existing\<rparr>
     | None \<Rightarrow> b)"

definition keep_rateLimit_usage :: "GovStore \<Rightarrow> TableRateLimit \<Rightarrow> TableRateLimit" where
  "keep_rateLimit_usage gs rl = (case LoadRateLimit (rl_ID rl) gs of
       Some existing \<Rightarrow> rl\<lparr>rl_TokenCurrentUsage := rl_TokenCurrentUsage existing, rl_RequestCurrentUsage := rl_RequestCurrentUsage existing,
         rl_TokenLastReset := rl_TokenLastReset existing, rl_RequestLastReset := rl_RequestLastReset existing\<rparr>
     | None \<Rightarrow> rl)"

fun store_budgets :: "(GovStore \<Rightarrow> TableBudget \<Rightarrow> TableBudget) \<Rightarrow> TableBudget list \<Rightarrow> GovStore \<Rightarrow> TableBudget list \<times> GovStore" where
  "store_budgets prep [] gs = ([], gs)"
| "store_budgets prep (b # bs) gs =
     (let b' = RefreshOverrideCyclesRemaining (prep gs b);
          (bs', gs') = store_budgets prep bs (storeBudget (tb_ID b) (Some (prep gs b)) gs)
      in (b' # bs', gs'))"

definition create_budgets :: "bool \<Rightarrow> TableBudget list \<Rightarrow> GovStore \<Rightarrow> TableBudget list \<times> GovStore" where
  "create_budgets al = store_budgets (\<lambda>gs. stamp_budget al)"

definition update_budgets :: "bool \<Rightarrow> TableBudget list \<Rightarrow> GovStore \<Rightarrow> TableBudget list \<times> GovStore" where
  "update_budgets al = store_budgets (\<lambda>gs b. stamp_budget al (keep_usage gs b))"

definition create_rateLimit :: "bool \<Rightarrow> TableRateLimit option \<Rightarrow> GovStore \<Rightarrow> TableRateLimit option \<times> GovStore" where
  "create_rateLimit al rl gs = (case rl of
       None \<Rightarrow> (None, gs)
     | Some r \<Rightarrow> let r' = stamp_rateLimit al r in (Some r', put_rateLimit (rl_ID r) r' gs))"

definition update_rateLimit :: "bool \<Rightarrow> TableRateLimit option \<Rightarrow> GovStore \<Rightarrow> TableRateLimit option \<times> GovStore" where
  "update_rateLimit al rl gs = (case rl of
       None \<Rightarrow> (None, gs)
     | Some r \<Rightarrow> let r' = stamp_rateLimit al (keep_rateLimit_usage gs r) in (Some r', put_rateLimit (rl_ID r) r' gs))"

definition delete_budgets :: "string list \<Rightarrow> GovStore \<Rightarrow> GovStore" where
  "delete_budgets ids gs = fold DeleteBudget ids gs"

definition delete_rateLimit :: "string option \<Rightarrow> GovStore \<Rightarrow> GovStore" where
  "delete_rateLimit i gs = (case i of Some r \<Rightarrow> DeleteRateLimit r gs | None \<Rightarrow> gs)"

text \<open>Replacing an owner's own rate limit: the new one is stored, the old one deleted when its ID is gone.\<close>

definition replace_rateLimit ::
    "bool \<Rightarrow> TableRateLimit option \<Rightarrow> TableRateLimit option \<Rightarrow> GovStore \<Rightarrow> TableRateLimit option \<times> GovStore" where
  "replace_rateLimit al existing new gs = (case new of
       Some r \<Rightarrow>
         let (r', gs) = update_rateLimit al new gs
         in (r', case existing of
              Some old \<Rightarrow> if rl_ID old \<noteq> rl_ID r then DeleteRateLimit (rl_ID old) gs else gs
            | None \<Rightarrow> gs)
     | None \<Rightarrow> (None, delete_rateLimit (map_option rl_ID existing) gs))"

subsection \<open>Virtual keys\<close>

fun create_provider_configs ::
    "bool \<Rightarrow> TableVirtualKeyProviderConfig list \<Rightarrow> GovStore \<Rightarrow> TableVirtualKeyProviderConfig list \<times> GovStore" where
  "create_provider_configs al [] gs = ([], gs)"
| "create_provider_configs al (pc # pcs) gs =
     (let (bs, gs) = create_budgets al (pc_Budgets pc) gs;
          (rl, gs) = create_rateLimit al (pc_RateLimit pc) gs;
          (pcs', gs) = create_provider_configs al pcs gs
      in (pc\<lparr>pc_Budgets := bs, pc_RateLimit := rl\<rparr> # pcs', gs))"

definition CreateVirtualKeyInMemory :: "TableVirtualKey \<Rightarrow> Governance \<Rightarrow> Governance" where
  "CreateVirtualKeyInMemory vk gv =
     (let al = vk_CalendarAligned vk;
          (bs, gs) = create_budgets al (vk_Budgets vk) (gv_store gv);
          (rl, gs) = create_rateLimit al (vk_RateLimit vk) gs;
          (pcs, gs) = create_provider_configs al (vk_ProviderConfigs vk) gs
      in storeVirtualKey (vk_Value vk) (vk\<lparr>vk_Budgets := bs, vk_RateLimit := rl, vk_ProviderConfigs := pcs\<rparr>)
           (gv\<lparr>gv_store := gs\<rparr>))"

text \<open>The key an update replaces: the one stored under the new value if it has the same ID, otherwise the
  first one with that ID.\<close>

definition existing_key :: "TableVirtualKey \<Rightarrow> Governance \<Rightarrow> (string \<times> TableVirtualKey) option" where
  "existing_key vk gv = (case mapget (gv_virtualKeys gv) (vk_Value vk) of
       Some e \<Rightarrow> if vk_ID e = vk_ID vk then Some (vk_Value vk, e) else find (\<lambda>(k, e). vk_ID e = vk_ID vk) (gv_virtualKeys gv)
     | None \<Rightarrow> find (\<lambda>(k, e). vk_ID e = vk_ID vk) (gv_virtualKeys gv))"

definition key_budget_ids :: "TableVirtualKey \<Rightarrow> string list" where
  "key_budget_ids vk = map tb_ID (vk_Budgets vk) @ concat (map (\<lambda>pc. map tb_ID (pc_Budgets pc)) (vk_ProviderConfigs vk))"

definition key_rateLimit_ids :: "TableVirtualKey \<Rightarrow> string list" where
  "key_rateLimit_ids vk = List.map_filter (\<lambda>rl. map_option rl_ID rl) (vk_RateLimit vk # map pc_RateLimit (vk_ProviderConfigs vk))"

text \<open>One turn of the loop over the new provider configurations. \<open>old\<close> are the existing ones; of two with
  the same ID the later one counts.\<close>

definition update_provider_config ::
    "bool \<Rightarrow> string list \<Rightarrow> TableVirtualKeyProviderConfig list \<Rightarrow> TableVirtualKeyProviderConfig \<Rightarrow> GovStore
      \<Rightarrow> TableVirtualKeyProviderConfig \<times> GovStore" where
  "update_provider_config al allNewBudgetIDs old pc gs =
     (let existingPC = find (\<lambda>p. pc_ID p = pc_ID pc) (rev old);
          (rl, gs) = (case pc_RateLimit pc of
              Some _ \<Rightarrow> update_rateLimit al (pc_RateLimit pc) gs
            | None \<Rightarrow> (None, delete_rateLimit (Option.bind existingPC (\<lambda>p. map_option rl_ID (pc_RateLimit p))) gs));
          (bs, gs) = update_budgets al (pc_Budgets pc) gs;
          gs = (case existingPC of
              Some p \<Rightarrow> delete_budgets (filter (\<lambda>i. i \<notin> set allNewBudgetIDs) (map tb_ID (pc_Budgets p))) gs
            | None \<Rightarrow> gs)
      in (pc\<lparr>pc_Budgets := bs, pc_RateLimit := rl\<rparr>, gs))"

fun update_provider_configs ::
    "bool \<Rightarrow> string list \<Rightarrow> TableVirtualKeyProviderConfig list \<Rightarrow> TableVirtualKeyProviderConfig list \<Rightarrow> GovStore
      \<Rightarrow> TableVirtualKeyProviderConfig list \<times> GovStore" where
  "update_provider_configs al new old [] gs = ([], gs)"
| "update_provider_configs al new old (pc # pcs) gs =
     (let (pc', gs) = update_provider_config al new old pc gs;
          (pcs', gs) = update_provider_configs al new old pcs gs
      in (pc' # pcs', gs))"

text \<open>The rows of old configurations that no new one carries.\<close>

fun drop_orphans :: "string list \<Rightarrow> string list \<Rightarrow> TableVirtualKeyProviderConfig list \<Rightarrow> GovStore \<Rightarrow> GovStore" where
  "drop_orphans newB newR [] gs = gs"
| "drop_orphans newB newR (pc # pcs) gs =
     (let gs = (case pc_RateLimit pc of
                  Some rl \<Rightarrow> if rl_ID rl \<notin> set newR then DeleteRateLimit (rl_ID rl) gs else gs
                | None \<Rightarrow> gs);
          gs = delete_budgets (filter (\<lambda>i. i \<notin> set newB) (map tb_ID (pc_Budgets pc))) gs
      in drop_orphans newB newR pcs gs)"

definition UpdateVirtualKeyInMemory :: "TableVirtualKey \<Rightarrow> Governance \<Rightarrow> Governance" where
  "UpdateVirtualKeyInMemory vk gv = (case existing_key vk gv of
       None \<Rightarrow> CreateVirtualKeyInMemory vk gv
     | Some (existingVKKey, existingVK) \<Rightarrow>
         let al = vk_CalendarAligned vk;
             allNewBudgetIDs = key_budget_ids vk;
             (bs, gs) = update_budgets al (vk_Budgets vk) (gv_store gv);
             gs = delete_budgets (filter (\<lambda>i. i \<notin> set allNewBudgetIDs) (map tb_ID (vk_Budgets existingVK))) gs;
             (rl, gs) = replace_rateLimit al (vk_RateLimit existingVK) (vk_RateLimit vk) gs;
             (pcs, gs) = update_provider_configs al allNewBudgetIDs (vk_ProviderConfigs existingVK) (vk_ProviderConfigs vk) gs;
             gs = drop_orphans allNewBudgetIDs (key_rateLimit_ids vk) (vk_ProviderConfigs existingVK) gs;
             clone = vk\<lparr>vk_Budgets := bs, vk_RateLimit := rl, vk_ProviderConfigs := pcs\<rparr>;
             gv = gv\<lparr>gv_store := gs\<rparr>;
             gv = (if existingVKKey \<noteq> '''' \<and> existingVKKey \<noteq> vk_Value vk then deleteVirtualKeyByValue existingVKKey gv else gv)
         in storeVirtualKey (vk_Value vk) clone gv)"

definition delete_config_rows :: "TableModelConfig \<Rightarrow> GovStore \<Rightarrow> GovStore" where
  "delete_config_rows mc gs =
     (let gs = delete_budgets (map tb_ID (mc_Budgets mc)) gs;
          gs = (case mc_BudgetID mc of Some i \<Rightarrow> DeleteBudget i gs | None \<Rightarrow> gs)
      in delete_rateLimit (mc_RateLimitID mc) gs)"

definition DeleteModelConfigsForScopeInMemory :: "string \<Rightarrow> string \<Rightarrow> Governance \<Rightarrow> Governance" where
  "DeleteModelConfigsForScopeInMemory scope scopeID gv =
     fold (\<lambda>(key, mc) gv. if mc_Scope mc = scope \<and> mc_ScopeID mc = Some scopeID
         then gv\<lparr>gv_store := delete_config_rows mc (gv_store gv), gv_modelConfigs := mapdel key (gv_modelConfigs gv)\<rparr> else gv)
       (gv_modelConfigs gv) gv"

definition delete_key_rows :: "TableVirtualKey \<Rightarrow> GovStore \<Rightarrow> GovStore" where
  "delete_key_rows vk gs =
     fold (\<lambda>pc gs. delete_rateLimit (pc_RateLimitID pc) (delete_budgets (map tb_ID (pc_Budgets pc)) gs)) (vk_ProviderConfigs vk)
       (delete_rateLimit (vk_RateLimitID vk) (delete_budgets (map tb_ID (vk_Budgets vk)) gs))"

definition DeleteVirtualKeyInMemory :: "string \<Rightarrow> Governance \<Rightarrow> Governance" where
  "DeleteVirtualKeyInMemory vkID gv =
     (if vkID = '''' then gv
      else let gv = (case find (\<lambda>(k, vk). vk_ID vk = vkID) (gv_virtualKeys gv) of
                 None \<Rightarrow> gv
               | Some (key, vk) \<Rightarrow> deleteVirtualKeyByValue key (gv\<lparr>gv_store := delete_key_rows vk (gv_store gv)\<rparr>))
        in DeleteModelConfigsForScopeInMemory ModelConfigScopeVirtualKey vkID gv)"

subsection \<open>Teams and customers\<close>

definition CreateTeamInMemory :: "TableTeam \<Rightarrow> Governance \<Rightarrow> Governance" where
  "CreateTeamInMemory team gv =
     (let al = tm_CalendarAligned team;
          (_, gs) = create_budgets al (tm_Budgets team) (gv_store gv);
          (rl, gs) = create_rateLimit al (tm_RateLimit team) gs
      in gv\<lparr>gv_store := gs, gv_teams := mapput (tm_ID team)
           (team\<lparr>tm_Budgets := map (stamp_budget al) (tm_Budgets team), tm_RateLimit := rl\<rparr>) (gv_teams gv)\<rparr>)"

definition UpdateTeamInMemory :: "TableTeam \<Rightarrow> Governance \<Rightarrow> Governance" where
  "UpdateTeamInMemory team gv = (case mapget (gv_teams gv) (tm_ID team) of
       None \<Rightarrow> CreateTeamInMemory team gv
     | Some existingTeam \<Rightarrow>
         let al = tm_CalendarAligned team;
             (bs, gs) = update_budgets al (tm_Budgets team) (gv_store gv);
             gs = delete_budgets (filter (\<lambda>i. i \<notin> tb_ID ` set (tm_Budgets team)) (remdups (map tb_ID (tm_Budgets existingTeam)))) gs;
             (rl, gs) = replace_rateLimit al (tm_RateLimit existingTeam) (tm_RateLimit team) gs
         in gv\<lparr>gv_store := gs, gv_teams := mapput (tm_ID team) (team\<lparr>tm_Budgets := bs, tm_RateLimit := rl\<rparr>) (gv_teams gv)\<rparr>)"

text \<open>Clearing a reference in every key that carries it.\<close>

definition clear_in_keys :: "(TableVirtualKey \<Rightarrow> bool) \<Rightarrow> (TableVirtualKey \<Rightarrow> TableVirtualKey) \<Rightarrow> Governance \<Rightarrow> Governance" where
  "clear_in_keys refers clear gv =
     fold (\<lambda>(key, vk) gv. if refers vk then storeVirtualKey key (clear vk) gv else gv) (gv_virtualKeys gv) gv"

definition DeleteTeamInMemory :: "string \<Rightarrow> Governance \<Rightarrow> Governance" where
  "DeleteTeamInMemory teamID gv =
     (if teamID = '''' then gv
      else let gv = (case mapget (gv_teams gv) teamID of
                 None \<Rightarrow> gv
               | Some team \<Rightarrow> gv\<lparr>gv_store := delete_rateLimit (tm_RateLimitID team)
                     (delete_budgets (map tb_ID (tm_Budgets team)) (gv_store gv))\<rparr>);
             gv = clear_in_keys (\<lambda>vk. vk_TeamID vk = Some teamID) (\<lambda>vk. vk\<lparr>vk_TeamID := None, vk_Team := None\<rparr>) gv
        in gv\<lparr>gv_teams := mapdel teamID (gv_teams gv)\<rparr>)"

definition CreateCustomerInMemory :: "TableCustomer \<Rightarrow> Governance \<Rightarrow> Governance" where
  "CreateCustomerInMemory customer gv =
     (let al = cu_CalendarAligned customer;
          (bs, gs) = create_budgets al (cu_Budgets customer) (gv_store gv);
          (rl, gs) = create_rateLimit al (cu_RateLimit customer) gs
      in gv\<lparr>gv_store := gs, gv_customers := mapput (cu_ID customer) (customer\<lparr>cu_Budgets := bs, cu_RateLimit := rl\<rparr>) (gv_customers gv)\<rparr>)"

definition UpdateCustomerInMemory :: "TableCustomer \<Rightarrow> Governance \<Rightarrow> Governance" where
  "UpdateCustomerInMemory customer gv = (case mapget (gv_customers gv) (cu_ID customer) of
       None \<Rightarrow> CreateCustomerInMemory customer gv
     | Some existing \<Rightarrow>
         let al = cu_CalendarAligned customer;
             (bs, gs) = update_budgets al (cu_Budgets customer) (gv_store gv);
             gs = delete_budgets (filter (\<lambda>i. i \<notin> tb_ID ` set (cu_Budgets customer)) (map tb_ID (cu_Budgets existing))) gs;
             (rl, gs) = replace_rateLimit al (cu_RateLimit existing) (cu_RateLimit customer) gs
         in gv\<lparr>gv_store := gs, gv_customers := mapput (cu_ID customer) (customer\<lparr>cu_Budgets := bs, cu_RateLimit := rl\<rparr>) (gv_customers gv)\<rparr>)"

definition DeleteCustomerInMemory :: "string \<Rightarrow> Governance \<Rightarrow> Governance" where
  "DeleteCustomerInMemory customerID gv =
     (if customerID = '''' then gv
      else let gv = (case mapget (gv_customers gv) customerID of
                 None \<Rightarrow> gv
               | Some customer \<Rightarrow> gv\<lparr>gv_store := delete_rateLimit (cu_RateLimitID customer)
                     (delete_budgets (map tb_ID (cu_Budgets customer)) (gv_store gv))\<rparr>);
             gv = clear_in_keys (\<lambda>vk. vk_CustomerID vk = Some customerID) (\<lambda>vk. vk\<lparr>vk_CustomerID := None, vk_Customer := None\<rparr>) gv;
             gv = gv\<lparr>gv_teams := map (\<lambda>(k, team). (k, if tm_CustomerID team = Some customerID
                 then team\<lparr>tm_CustomerID := None, tm_Customer := None\<rparr> else team)) (gv_teams gv)\<rparr>
        in gv\<lparr>gv_customers := mapdel customerID (gv_customers gv)\<rparr>)"

subsection \<open>Model configurations and providers\<close>

text \<open>These updates take over less of the live row: a model configuration's rate limit and a provider's
  budget and rate limit keep their usage but not their boundaries.\<close>

definition keep_counters :: "GovStore \<Rightarrow> TableRateLimit \<Rightarrow> TableRateLimit" where
  "keep_counters gs rl = (case LoadRateLimit (rl_ID rl) gs of
       Some existing \<Rightarrow> rl\<lparr>rl_TokenCurrentUsage := rl_TokenCurrentUsage existing, rl_RequestCurrentUsage := rl_RequestCurrentUsage existing\<rparr>
     | None \<Rightarrow> rl)"

text \<open>Where a model configuration is stored: an all-provider configuration under the base name of its model.\<close>

definition config_store_key :: "(string \<Rightarrow> string) option \<Rightarrow> TableModelConfig \<Rightarrow> string" where
  "config_store_key baseModelName mc =
     (let scopeID = (case mc_ScopeID mc of Some s \<Rightarrow> s | None \<Rightarrow> '''');
          modelKey = (case baseModelName of
              Some f \<Rightarrow> if mc_Provider mc = None \<and> mc_ModelName mc \<noteq> modelConfigWildcard then f (mc_ModelName mc) else mc_ModelName mc
            | None \<Rightarrow> mc_ModelName mc)
      in modelConfigStoreKey (mc_Scope mc) scopeID modelKey (mc_Provider mc))"

definition UpdateModelConfigInMemory ::
    "(string \<Rightarrow> string) option \<Rightarrow> TableModelConfig \<Rightarrow> Governance \<Rightarrow> Governance \<times> TableModelConfig" where
  "UpdateModelConfigInMemory baseModelName mc gv =
     (let al = mc_CalendarAligned mc;
          (bs, gs) = update_budgets al (mc_Budgets mc) (gv_store gv);
          (rl, gs) = (case mc_RateLimit mc of
              None \<Rightarrow> (None, gs)
            | Some r \<Rightarrow> let r' = keep_counters gs (stamp_rateLimit al r) in (Some r', put_rateLimit (rl_ID r) r' gs));
          clone = mc\<lparr>mc_Budgets := bs, mc_RateLimit := rl\<rparr>;
          key = config_store_key baseModelName mc
      in (gv\<lparr>gv_store := gs, gv_modelConfigs := mapput key clone (gv_modelConfigs gv)\<rparr>, clone))"

definition DeleteModelConfigInMemory :: "string \<Rightarrow> Governance \<Rightarrow> Governance" where
  "DeleteModelConfigInMemory mcID gv =
     (if mcID = '''' then gv
      else case find (\<lambda>(k, mc). mc_ID mc = mcID) (gv_modelConfigs gv) of
        None \<Rightarrow> gv
      | Some (key, mc) \<Rightarrow> gv\<lparr>gv_store := delete_rateLimit (mc_RateLimitID mc) (delete_budgets (map tb_ID (mc_Budgets mc)) (gv_store gv)),
          gv_modelConfigs := mapdel key (gv_modelConfigs gv)\<rparr>)"

definition ScopedModelConfigIDs :: "string \<Rightarrow> string \<Rightarrow> Governance \<Rightarrow> string list" where
  "ScopedModelConfigIDs scope scopeID gv =
     map (\<lambda>(k, mc). mc_ID mc) (filter (\<lambda>(k, mc). mc_Scope mc = scope \<and>
       (case mc_ScopeID mc of Some s \<Rightarrow> s | None \<Rightarrow> '''') = scopeID) (gv_modelConfigs gv))"

definition UpdateProviderInMemory :: "TableProvider \<Rightarrow> Governance \<Rightarrow> Governance \<times> TableProvider" where
  "UpdateProviderInMemory provider gv =
     (let (b, gs) = (case pv_Budget provider of
              None \<Rightarrow> (None, gv_store gv)
            | Some b \<Rightarrow>
                let b' = (case LoadBudget (tb_ID b) (gv_store gv) of
                    Some existing \<Rightarrow> b\<lparr>tb_CurrentUsage := tb_CurrentUsage existing\<rparr>
                  | None \<Rightarrow> b)
                in (Some (RefreshOverrideCyclesRemaining b'), storeBudget (tb_ID b) (Some b') (gv_store gv)));
          (rl, gs) = (case pv_RateLimit provider of
              None \<Rightarrow> (None, gs)
            | Some r \<Rightarrow> let r' = keep_counters gs r in (Some r', put_rateLimit (rl_ID r) r' gs));
          clone = provider\<lparr>pv_Budget := b, pv_RateLimit := rl\<rparr>
      in (gv\<lparr>gv_store := gs, gv_providers := mapput (pv_Name provider) clone (gv_providers gv)\<rparr>, clone))"

definition DeleteProviderInMemory :: "string \<Rightarrow> Governance \<Rightarrow> Governance" where
  "DeleteProviderInMemory providerName gv =
     (if providerName = '''' then gv
      else let gv = (case mapget (gv_providers gv) providerName of
                 None \<Rightarrow> gv
               | Some p \<Rightarrow> gv\<lparr>gv_store := delete_rateLimit (pv_RateLimitID p)
                     (case pv_BudgetID p of Some i \<Rightarrow> DeleteBudget i (gv_store gv) | None \<Rightarrow> gv_store gv)\<rparr>)
        in gv\<lparr>gv_providers := mapdel providerName (gv_providers gv)\<rparr>)"

subsection \<open>The IDs a request affects\<close>

definition add_new :: "string list \<Rightarrow> string list \<Rightarrow> string list" where
  "add_new ids acc = fold (\<lambda>i acc. if i \<in> set acc then acc else acc @ [i]) ids acc"

definition nonGlobalModelConfigScopeChain :: "TableVirtualKey \<Rightarrow> (string \<times> string) list" where
  "nonGlobalModelConfigScopeChain vk = [(ModelConfigScopeVirtualKey, vk_ID vk)]"

definition addModelConfigIDs :: "TableModelConfig list \<Rightarrow> string list \<times> string list \<Rightarrow> string list \<times> string list" where
  "addModelConfigIDs mcs acc = fold (\<lambda>mc (bs, rs).
     (add_new (map tb_ID (mc_Budgets mc)) bs, add_new (case mc_RateLimitID mc of Some i \<Rightarrow> [i] | None \<Rightarrow> []) rs)) mcs acc"

definition CollectApplicableGovernanceIDs ::
    "(string \<Rightarrow> string) option \<Rightarrow> Governance \<Rightarrow> string \<Rightarrow> string \<Rightarrow> ModelProvider \<Rightarrow> string \<Rightarrow> string list \<times> string list" where
  "CollectApplicableGovernanceIDs baseModelName gv virtualKey userID provider model =
     (let configs = (\<lambda>scope sid. collectModelConfigsFor baseModelName gv scope sid model (provider_str provider));
          acc = (case (if provider \<noteq> '''' then mapget (gv_providers gv) provider else None) of
              None \<Rightarrow> ([], [])
            | Some pt \<Rightarrow> (case pv_BudgetID pt of Some i \<Rightarrow> [i] | None \<Rightarrow> [], case pv_RateLimitID pt of Some i \<Rightarrow> [i] | None \<Rightarrow> []));
          acc = (if model \<noteq> '''' then addModelConfigIDs (configs ModelConfigScopeGlobal '''') acc else acc);
          acc = (if userID \<noteq> '''' \<and> model \<noteq> '''' then addModelConfigIDs (configs ModelConfigScopeUser userID) acc else acc)
      in case (if virtualKey \<noteq> '''' then GetVirtualKey virtualKey gv else None) of
           None \<Rightarrow> acc
         | Some vk \<Rightarrow>
             let (bs, rs) = (if model \<noteq> ''''
                   then fold (\<lambda>(name, sid). addModelConfigIDs (configs name sid)) (nonGlobalModelConfigScopeChain vk) acc
                   else acc)
             in (add_new (collectBudgetIDsFromMemory gv vk provider) bs, add_new (collectRateLimitIDsFromMemory gv vk provider) rs))"

subsection \<open>What an update does to the budgets\<close>

lemma LoadBudget_Delete [simp]: "LoadBudget j (DeleteBudget i gs) = (if j = i then None else LoadBudget j gs)"
  by (simp add: LoadBudget_def DeleteBudget_def markBudgetResetLocked_def Let_def)

lemma LoadBudget_DeleteRL [simp]: "LoadBudget j (DeleteRateLimit i gs) = LoadBudget j gs"
  by (simp add: LoadBudget_def DeleteRateLimit_def)

lemma LoadRateLimit_Delete [simp]:
  "LoadRateLimit j (DeleteRateLimit i gs) = (if j = i then None else LoadRateLimit j gs)"
  "LoadRateLimit j (DeleteBudget i gs) = LoadRateLimit j gs"
  by (simp_all add: LoadRateLimit_def DeleteRateLimit_def DeleteBudget_def markBudgetResetLocked_def Let_def)

lemma LoadBudget_delete_budgets [simp]: "LoadBudget j (delete_budgets ids gs) = (if j \<in> set ids then None else LoadBudget j gs)"
  unfolding delete_budgets_def by (induction ids arbitrary: gs) auto

lemma LoadBudget_delete_rateLimit [simp]: "LoadBudget j (delete_rateLimit i gs) = LoadBudget j gs"
  by (simp add: delete_rateLimit_def split: option.split)

lemma LoadBudget_rateLimit_steps [simp]:
  "LoadBudget j (snd (create_rateLimit al rl gs)) = LoadBudget j gs"
  "LoadBudget j (snd (update_rateLimit al rl gs)) = LoadBudget j gs"
  "LoadBudget j (snd (replace_rateLimit al old rl gs)) = LoadBudget j gs"
  by (simp_all add: create_rateLimit_def update_rateLimit_def replace_rateLimit_def Let_def split: option.split)

text \<open>Updated rows: the configuration comes in, usage and boundary stay.\<close>

definition merged :: "bool \<Rightarrow> GovStore \<Rightarrow> TableBudget \<Rightarrow> TableBudget" where
  "merged al gs b = RefreshOverrideCyclesRemaining (stamp_budget al (keep_usage gs b))"

lemma keep_usage_cong: "LoadBudget (tb_ID b) gs = LoadBudget (tb_ID b) gs' \<Longrightarrow> keep_usage gs b = keep_usage gs' b"
  by (simp add: keep_usage_def)

lemma find_member: "find P xs = Some x \<Longrightarrow> x \<in> set xs"
  by (auto simp: find_Some_iff)

lemma find_id: "find (\<lambda>b. tb_ID b = j) bs = Some b \<Longrightarrow> j \<in> tb_ID ` set bs"
  by (auto simp: find_Some_iff)

lemma update_budgets_load:
  assumes "distinct (map tb_ID bs)"
  shows "LoadBudget j (snd (update_budgets al bs gs)) =
     (case find (\<lambda>b. tb_ID b = j) bs of Some b \<Rightarrow> Some (merged al gs b) | None \<Rightarrow> LoadBudget j gs)"
  using assms
proof (induction bs arbitrary: gs)
  case Nil
  then show ?case by (simp add: update_budgets_def)
next
  case (Cons b bs)
  let ?g = "put_budget (tb_ID b) (merged al gs b) gs"
  have step: "snd (update_budgets al (b # bs) gs) = snd (update_budgets al bs ?g)"
    by (simp add: update_budgets_def storeBudget_def merged_def Let_def split: prod.split)
  have "merged al ?g b' = merged al gs b'" if "b' \<in> set bs" for b'
    using Cons.prems that keep_usage_cong [of b' ?g gs] by (auto simp: merged_def image_iff)
  then have same: "(case find (\<lambda>b. tb_ID b = j) bs of Some b' \<Rightarrow> Some (merged al ?g b') | None \<Rightarrow> LoadBudget j ?g) =
      (case find (\<lambda>b. tb_ID b = j) bs of Some b' \<Rightarrow> Some (merged al gs b') | None \<Rightarrow> LoadBudget j ?g)"
    by (cases "find (\<lambda>b. tb_ID b = j) bs") (simp_all add: find_member)
  have "j = tb_ID b \<Longrightarrow> find (\<lambda>b. tb_ID b = j) bs = None"
    using Cons.prems by (auto simp: find_None_iff image_iff)
  moreover have "LoadBudget j (snd (update_budgets al bs ?g)) =
      (case find (\<lambda>b. tb_ID b = j) bs of Some b' \<Rightarrow> Some (merged al gs b') | None \<Rightarrow> LoadBudget j ?g)"
    using Cons.IH [of ?g] Cons.prems same by simp
  ultimately show ?case unfolding step by (auto split: option.split)
qed

text \<open>\<open>installs al bs D gs gs'\<close>: the rows \<open>bs\<close> were merged into the store, the budgets \<open>D\<close> deleted, and no
  other budget changed.\<close>

definition installs :: "bool \<Rightarrow> TableBudget list \<Rightarrow> string set \<Rightarrow> GovStore \<Rightarrow> GovStore \<Rightarrow> bool" where
  "installs al bs D gs gs' \<longleftrightarrow> (\<forall>j. LoadBudget j gs' = (case find (\<lambda>b. tb_ID b = j) bs of
       Some b \<Rightarrow> Some (merged al gs b)
     | None \<Rightarrow> if j \<in> D then None else LoadBudget j gs))"

lemma installs_refl [simp]: "installs al [] {} gs gs"
  by (simp add: installs_def)

lemma installs_update: "distinct (map tb_ID bs) \<Longrightarrow> installs al bs {} gs (snd (update_budgets al bs gs))"
  by (simp add: installs_def update_budgets_load)

lemma installs_delete: "installs al [] (set ids) gs (delete_budgets ids gs)"
  by (simp add: installs_def)

lemma installs_same: "(\<And>j. LoadBudget j gs' = LoadBudget j gs) \<Longrightarrow> installs al [] {} gs gs'"
  by (simp add: installs_def)

lemma installs_trans:
  assumes a: "installs al bs D gs gs1" and b: "installs al bs' D' gs1 gs2"
    and "tb_ID ` set bs \<inter> (tb_ID ` set bs' \<union> D') = {}" "tb_ID ` set bs' \<inter> D = {}"
  shows "installs al (bs @ bs') (D \<union> D') gs gs2"
  unfolding installs_def
proof
  fix j
  have l1: "LoadBudget i gs1 = (case find (\<lambda>b. tb_ID b = i) bs of Some b \<Rightarrow> Some (merged al gs b)
      | None \<Rightarrow> if i \<in> D then None else LoadBudget i gs)" for i using a by (simp add: installs_def)
  have l2: "LoadBudget j gs2 = (case find (\<lambda>b. tb_ID b = j) bs' of Some b \<Rightarrow> Some (merged al gs1 b)
      | None \<Rightarrow> if j \<in> D' then None else LoadBudget j gs1)" using b by (simp add: installs_def)
  have app: "find P (xs @ ys) = (case find P xs of Some x \<Rightarrow> Some x | None \<Rightarrow> find P ys)" for P and xs ys :: "TableBudget list"
    by (induction xs) auto
  show "LoadBudget j gs2 = (case find (\<lambda>b. tb_ID b = j) (bs @ bs') of Some b \<Rightarrow> Some (merged al gs b)
      | None \<Rightarrow> if j \<in> D \<union> D' then None else LoadBudget j gs)"
  proof (cases "find (\<lambda>b. tb_ID b = j) bs'")
    case (Some b)
    then have bj: "b \<in> set bs'" "tb_ID b = j" by (auto simp: find_Some_iff)
    then have none: "find (\<lambda>b. tb_ID b = j) bs = None" "j \<notin> D" using assms(3,4) by (auto simp: find_None_iff)
    then have "merged al gs1 b = merged al gs b" using l1 [of j] bj(2) keep_usage_cong [of b gs1 gs] by (simp add: merged_def)
    then show ?thesis using l2 Some none by (simp add: app)
  next
    case None
    have "j \<notin> D'" if "find (\<lambda>b. tb_ID b = j) bs = Some b" for b
      using find_id [OF that] assms(3) by blast
    then show ?thesis using l1 [of j] l2 None by (auto simp: app split: option.split)
  qed
qed

abbreviation budget_ids :: "TableBudget list \<Rightarrow> string set" where
  "budget_ids bs \<equiv> tb_ID ` set bs"

lemma update_provider_config_installs:
  assumes "distinct (map tb_ID (pc_Budgets pc))" "budget_ids (pc_Budgets pc) \<subseteq> set new"
  shows "\<exists>D. installs al (pc_Budgets pc) D gs (snd (update_provider_config al new old pc gs))
     \<and> D \<inter> set new = {} \<and> D \<subseteq> budget_ids (concat (map pc_Budgets old))"
proof -
  let ?e = "find (\<lambda>p. pc_ID p = pc_ID pc) (rev old)"
  define g1 where "g1 = snd (case pc_RateLimit pc of
              Some _ \<Rightarrow> update_rateLimit al (pc_RateLimit pc) gs
            | None \<Rightarrow> (None, delete_rateLimit (Option.bind ?e (\<lambda>p. map_option rl_ID (pc_RateLimit p))) gs))"
  define g2 where "g2 = snd (update_budgets al (pc_Budgets pc) g1)"
  define ids where "ids = (case ?e of Some p \<Rightarrow> filter (\<lambda>i. i \<notin> set new) (map tb_ID (pc_Budgets p)) | None \<Rightarrow> [])"
  have s: "snd (update_provider_config al new old pc gs) = delete_budgets ids g2"
    unfolding update_provider_config_def g1_def g2_def ids_def Let_def case_prod_beta
    by (cases ?e) (simp_all add: delete_budgets_def)
  have r1: "installs al [] {} gs g1" unfolding g1_def by (rule installs_same) (simp split: option.split)
  have r2: "installs al (pc_Budgets pc) {} g1 g2" unfolding g2_def by (rule installs_update [OF assms(1)])
  have "set ids \<inter> set new = {}" "set ids \<subseteq> budget_ids (concat (map pc_Budgets old))"
    unfolding ids_def by (cases ?e; force dest: find_member)+
  moreover have "installs al (pc_Budgets pc) (set ids) gs (delete_budgets ids g2)"
    using installs_trans [OF installs_trans [OF r1 r2] installs_delete [of al ids g2]] assms(2) calculation(1) by auto
  ultimately show ?thesis unfolding s by blast
qed

lemma update_provider_configs_installs:
  assumes "distinct (map tb_ID (concat (map pc_Budgets pcs)))" "budget_ids (concat (map pc_Budgets pcs)) \<subseteq> set new"
  shows "\<exists>D. installs al (concat (map pc_Budgets pcs)) D gs (snd (update_provider_configs al new old pcs gs))
     \<and> D \<inter> set new = {} \<and> D \<subseteq> budget_ids (concat (map pc_Budgets old))"
  using assms
proof (induction pcs arbitrary: gs)
  case Nil
  show ?case by (auto intro!: exI [of _ "{}"])
next
  case (Cons pc pcs)
  let ?g = "snd (update_provider_config al new old pc gs)"
  obtain D where D: "installs al (pc_Budgets pc) D gs ?g" "D \<inter> set new = {}" "D \<subseteq> budget_ids (concat (map pc_Budgets old))"
    using update_provider_config_installs [of pc new al gs old] Cons.prems by auto
  obtain D' where D': "installs al (concat (map pc_Budgets pcs)) D' ?g (snd (update_provider_configs al new old pcs ?g))"
    "D' \<inter> set new = {}" "D' \<subseteq> budget_ids (concat (map pc_Budgets old))"
    using Cons.IH [of ?g] Cons.prems by auto
  have "installs al (pc_Budgets pc @ concat (map pc_Budgets pcs)) (D \<union> D') gs (snd (update_provider_configs al new old pcs ?g))"
  proof (rule installs_trans [OF D(1) D'(1)])
    have "budget_ids (pc_Budgets pc) \<inter> budget_ids (concat (map pc_Budgets pcs)) = {}" using Cons.prems(1) by simp
    moreover have "budget_ids (pc_Budgets pc) \<subseteq> set new" "budget_ids (concat (map pc_Budgets pcs)) \<subseteq> set new"
      using Cons.prems(2) by auto
    ultimately show "budget_ids (pc_Budgets pc) \<inter> (budget_ids (concat (map pc_Budgets pcs)) \<union> D') = {}"
      "budget_ids (concat (map pc_Budgets pcs)) \<inter> D = {}" using D(2) D'(2) by blast+
  qed
  moreover have "snd (update_provider_configs al new old (pc # pcs) gs) = snd (update_provider_configs al new old pcs ?g)"
    by (simp add: Let_def case_prod_beta)
  ultimately show ?case using D D' by (intro exI [of _ "D \<union> D'"]) auto
qed

lemma drop_orphans_installs:
  "installs al [] {j \<in> budget_ids (concat (map pc_Budgets pcs)). j \<notin> set newB} gs (drop_orphans newB newR pcs gs)"
proof (induction pcs arbitrary: gs)
  case (Cons pc pcs)
  let ?g1 = "case pc_RateLimit pc of Some rl \<Rightarrow> if rl_ID rl \<notin> set newR then DeleteRateLimit (rl_ID rl) gs else gs | None \<Rightarrow> gs"
  let ?ids = "filter (\<lambda>i. i \<notin> set newB) (map tb_ID (pc_Budgets pc))"
  have "installs al [] {} gs ?g1" by (rule installs_same) (simp split: option.split)
  then have "installs al [] (set ?ids) gs (delete_budgets ?ids ?g1)"
    using installs_trans [OF _ installs_delete [of al ?ids ?g1], of "[]" "{}" gs] by auto
  from installs_trans [OF this Cons.IH] show ?case
    by (simp add: Let_def) (auto simp: installs_def)
qed simp


lemma key_store_same [simp]:
  "gv_store (storeVirtualKey value vk gv) = gv_store gv" "gv_store (deleteVirtualKeyByValue value gv) = gv_store gv"
  by (simp_all add: storeVirtualKey_def deleteVirtualKeyByValue_def Let_def split: option.split)

text \<open>The budgets of a key, its own and those of its provider configurations.\<close>

definition key_budgets :: "TableVirtualKey \<Rightarrow> TableBudget list" where
  "key_budgets vk = vk_Budgets vk @ concat (map pc_Budgets (vk_ProviderConfigs vk))"

lemma key_budget_ids_map: "key_budget_ids vk = map tb_ID (key_budgets vk)"
  by (simp add: key_budget_ids_def key_budgets_def map_concat comp_def)

lemma update_key_installs:
  assumes ex: "existing_key vk gv = Some (k, e)" and d: "distinct (map tb_ID (key_budgets vk))"
  shows "installs (vk_CalendarAligned vk) (key_budgets vk) (budget_ids (key_budgets e) - budget_ids (key_budgets vk))
     (gv_store gv) (gv_store (UpdateVirtualKeyInMemory vk gv))"
proof -
  let ?al = "vk_CalendarAligned vk" and ?new = "key_budget_ids vk"
  define g1 where "g1 = snd (update_budgets ?al (vk_Budgets vk) (gv_store gv))"
  define ids where "ids = filter (\<lambda>i. i \<notin> set ?new) (map tb_ID (vk_Budgets e))"
  define g2 where "g2 = snd (replace_rateLimit ?al (vk_RateLimit e) (vk_RateLimit vk) (delete_budgets ids g1))"
  define g3 where "g3 = snd (update_provider_configs ?al ?new (vk_ProviderConfigs e) (vk_ProviderConfigs vk) g2)"
  have s: "gv_store (UpdateVirtualKeyInMemory vk gv) = drop_orphans ?new (key_rateLimit_ids vk) (vk_ProviderConfigs e) g3"
    by (simp add: UpdateVirtualKeyInMemory_def ex g1_def g2_def g3_def ids_def Let_def case_prod_beta)
  have new: "set ?new = budget_ids (key_budgets vk)" by (simp add: key_budget_ids_map)
  have "installs ?al (vk_Budgets vk) {} (gv_store gv) g1"
    unfolding g1_def by (rule installs_update) (use d in \<open>simp add: key_budgets_def\<close>)
  from installs_trans [OF this installs_delete [of ?al ids g1]]
  have "installs ?al (vk_Budgets vk) (set ids) (gv_store gv) (delete_budgets ids g1)"
    using new by (auto simp: ids_def key_budgets_def)
  from installs_trans [OF this installs_same [of g2]]
  have i2: "installs ?al (vk_Budgets vk) (set ids) (gv_store gv) g2" by (simp add: g2_def)
  let ?pb = "concat (map pc_Budgets (vk_ProviderConfigs vk))" and ?pe = "concat (map pc_Budgets (vk_ProviderConfigs e))"
  have sub: "budget_ids (vk_Budgets vk) \<subseteq> set ?new" "budget_ids ?pb \<subseteq> set ?new" "set ids \<inter> set ?new = {}"
    by (auto simp: new key_budgets_def ids_def)
  have "distinct (map tb_ID ?pb)" using d by (simp add: key_budgets_def)
  then obtain D where D: "installs ?al ?pb D g2 g3" "D \<inter> set ?new = {}" "D \<subseteq> budget_ids ?pe"
    using update_provider_configs_installs [OF _ sub(2), of ?al g2 "vk_ProviderConfigs e"] unfolding g3_def by blast
  have dis: "budget_ids (vk_Budgets vk) \<inter> budget_ids ?pb = {}" using d by (simp add: key_budgets_def)
  have i3: "installs ?al (key_budgets vk) (set ids \<union> D) (gv_store gv) g3"
    unfolding key_budgets_def by (rule installs_trans [OF i2 D(1)]) (use sub dis D(2) in blast)+
  have "installs ?al (key_budgets vk @ []) (set ids \<union> D \<union> {j \<in> budget_ids ?pe. j \<notin> set ?new}) (gv_store gv)
      (gv_store (UpdateVirtualKeyInMemory vk gv))"
    unfolding s by (rule installs_trans [OF i3 drop_orphans_installs]) (auto simp: new)
  moreover have "set ids \<union> D \<union> {j \<in> budget_ids ?pe. j \<notin> set ?new} = budget_ids (key_budgets e) - budget_ids (key_budgets vk)"
  proof -
    have "budget_ids (key_budgets e) = budget_ids (vk_Budgets e) \<union> budget_ids ?pe" by (simp add: key_budgets_def image_Un)
    moreover have "set ids = budget_ids (vk_Budgets e) - set ?new" by (auto simp: ids_def)
    moreover have "A - N \<union> D \<union> {j \<in> P. j \<notin> N} = (A \<union> P) - N" if "D \<inter> N = {}" "D \<subseteq> P" for A N P :: "string set"
      using that by auto
    ultimately show ?thesis using D(2,3) new by simp
  qed
  ultimately show ?thesis by simp
qed

text \<open>C19. Updating a virtual key that is already in memory acts on the budgets of the store as follows, whatever
  the update moves between the key and its provider configurations. A budget that the new key carries,
  at either level, has the new configuration and the calendar alignment of the key, with usage and
  boundary of the live row when there was one; a budget that only the old key carried is gone; every
  other budget is untouched.\<close>

theorem update_key_budgets_exact:
  assumes "existing_key vk gv = Some (k, e)" "distinct (map tb_ID (key_budgets vk))"
  shows "LoadBudget j (gv_store (UpdateVirtualKeyInMemory vk gv)) =
     (case find (\<lambda>b. tb_ID b = j) (key_budgets vk) of
        Some b \<Rightarrow> Some (RefreshOverrideCyclesRemaining (case LoadBudget j (gv_store gv) of
            Some live \<Rightarrow> b\<lparr>tb_CurrentUsage := tb_CurrentUsage live, tb_LastReset := tb_LastReset live,
              tb_IsCalendarAligned := vk_CalendarAligned vk\<rparr>
          | None \<Rightarrow> b\<lparr>tb_IsCalendarAligned := vk_CalendarAligned vk\<rparr>))
      | None \<Rightarrow> if j \<in> tb_ID ` set (key_budgets e) then None else LoadBudget j (gv_store gv))"
proof -
  let ?f = "find (\<lambda>b. tb_ID b = j) (key_budgets vk)"
  have load: "LoadBudget j (gv_store (UpdateVirtualKeyInMemory vk gv)) = (case ?f of
       Some b \<Rightarrow> Some (merged (vk_CalendarAligned vk) (gv_store gv) b)
     | None \<Rightarrow> if j \<in> budget_ids (key_budgets e) - budget_ids (key_budgets vk) then None else LoadBudget j (gv_store gv))"
    using update_key_installs [OF assms] unfolding installs_def by (rule spec)
  show ?thesis
  proof (cases ?f)
    case None
    then have "j \<notin> budget_ids (key_budgets vk)" by (auto simp: find_None_iff)
    then show ?thesis using load None by simp
  next
    case (Some b)
    then have "tb_ID b = j" by (auto simp: find_Some_iff)
    then have "merged al (gv_store gv) b = RefreshOverrideCyclesRemaining (case LoadBudget j (gv_store gv) of
            Some live \<Rightarrow> b\<lparr>tb_CurrentUsage := tb_CurrentUsage live, tb_LastReset := tb_LastReset live, tb_IsCalendarAligned := al\<rparr>
          | None \<Rightarrow> b\<lparr>tb_IsCalendarAligned := al\<rparr>)" for al
      by (simp add: merged_def keep_usage_def stamp_budget_def split: option.split)
    then show ?thesis unfolding load Some by simp
  qed
qed


subsection \<open>Example\<close>

text \<open>The budget of the example key, partly used, moves to its provider configuration and gets a higher limit.\<close>

definition busy_governance :: Governance where
  "busy_governance = paying_governance\<lparr>gv_store := put_budget ''b'' (hourly_budget\<lparr>tb_CurrentUsage := Fin 7\<rparr>) emptyGovStore\<rparr>"

definition moved_budget_key :: TableVirtualKey where
  "moved_budget_key = demo_key\<lparr>vk_ProviderConfigs := map (\<lambda>pc. pc\<lparr>pc_Budgets := [hourly_budget\<lparr>tb_MaxLimit := Fin 20\<rparr>]\<rparr>) (vk_ProviderConfigs demo_key)\<rparr>"

theorem update_key_budgets_exact_witness:
  "LoadBudget ''b'' (gv_store (UpdateVirtualKeyInMemory moved_budget_key busy_governance))
     = Some (hourly_budget\<lparr>tb_MaxLimit := Fin 20, tb_CurrentUsage := Fin 7\<rparr>)"
proof -
  have ex: "existing_key moved_budget_key busy_governance = Some (''sk-bf-1'', demo_key\<lparr>vk_ExpiresAt := None, vk_Budgets := [hourly_budget]\<rparr>)"
    by code_simp
  have bs: "key_budgets moved_budget_key = [hourly_budget\<lparr>tb_MaxLimit := Fin 20\<rparr>]" "tb_ID hourly_budget = ''b''"
    "vk_CalendarAligned moved_budget_key = False" "LoadBudget ''b'' (gv_store busy_governance) = Some (hourly_budget\<lparr>tb_CurrentUsage := Fin 7\<rparr>)"
    by code_simp+
  have "RefreshOverrideCyclesRemaining (hourly_budget\<lparr>tb_MaxLimit := Fin 20, tb_CurrentUsage := Fin 7,
      tb_LastReset := tb_LastReset hourly_budget, tb_IsCalendarAligned := False\<rparr>) = hourly_budget\<lparr>tb_MaxLimit := Fin 20, tb_CurrentUsage := Fin 7\<rparr>"
    by code_simp
  then show ?thesis using update_key_budgets_exact [OF ex, of "''b''"] bs by simp
qed
end
