(* ===== verification/Governance_Index.thy ===== *)
theory Governance_Index
  imports Event_Machine Governance_Admin
begin

text \<open>
  Loading the owners and keeping their references: \<open>rebuildInMemoryStructures\<close> of
  \<open>src/plugins/governance/store.go\<close> (routing rules aside), and the changes of \<open>Governance_Admin\<close> and
  reloads as the events of a machine.

  Shown: the two maps of keys agree after any events, so that a rotated or deleted value is dead at
  once; a deleted customer is referred to by nothing and its rows are gone; the IDs announced for a
  request are those its settlement charges; a reload forgets the calendar alignment of the
  budgets of keys; a rate limit that moves from a provider configuration to the key is lost.
\<close>

subsection \<open>Loading\<close>

text \<open>The maps hold pointers to the loaded owners, so that a stamp shows in the stored owner too.\<close>

definition load_config :: "(string \<Rightarrow> string) option \<Rightarrow> TableModelConfig \<Rightarrow> Governance \<Rightarrow> Governance" where
  "load_config baseModelName mc gv =
     (let (bs, gs) = create_budgets (mc_CalendarAligned mc) (mc_Budgets mc) (gv_store gv);
          (rl, gs) = create_rateLimit (mc_CalendarAligned mc) (mc_RateLimit mc) gs
      in gv\<lparr>gv_store := gs, gv_modelConfigs := mapput (config_store_key baseModelName mc)
           (mc\<lparr>mc_Budgets := bs, mc_RateLimit := rl\<rparr>) (gv_modelConfigs gv)\<rparr>)"

definition stamp_customer :: "TableCustomer \<Rightarrow> Governance \<Rightarrow> Governance" where
  "stamp_customer customer gv =
     (let al = cu_CalendarAligned customer;
          (bs, gs) = create_budgets al (cu_Budgets customer) (gv_store gv);
          gs = (case cu_RateLimitID customer of
              None \<Rightarrow> gs
            | Some i \<Rightarrow> (case LoadRateLimit i gs of
                Some rl \<Rightarrow> put_rateLimit i (stamp_rateLimit al rl) gs
              | None \<Rightarrow> gs))
      in gv\<lparr>gv_store := gs, gv_customers := mapput (cu_ID customer) (customer\<lparr>cu_Budgets := bs\<rparr>) (gv_customers gv)\<rparr>)"

definition rebuildInMemoryStructures ::
    "(string \<Rightarrow> string) option \<Rightarrow> TableCustomer list \<Rightarrow> TableTeam list \<Rightarrow> TableVirtualKey list \<Rightarrow> TableBudget list
      \<Rightarrow> TableRateLimit list \<Rightarrow> TableModelConfig list \<Rightarrow> TableProvider list \<Rightarrow> Governance \<Rightarrow> Governance" where
  "rebuildInMemoryStructures baseModelName customers teams virtualKeys budgets rateLimits modelConfigs providers gv =
     (let gv = \<lparr>gv_store = (gv_store gv)\<lparr>gs_budgets := [], gs_rateLimits := []\<rparr>, gv_virtualKeys = [], gv_virtualKeysByID = [],
                 gv_teams = [], gv_customers = [], gv_modelConfigs = [], gv_providers = []\<rparr>;
          gv = fold (\<lambda>c gv. gv\<lparr>gv_customers := mapput (cu_ID c) c (gv_customers gv)\<rparr>) customers gv;
          gv = fold (\<lambda>t gv. gv\<lparr>gv_teams := mapput (tm_ID t) t (gv_teams gv)\<rparr>) teams gv;
          gv = fold (\<lambda>b gv. gv\<lparr>gv_store := storeBudget (tb_ID b) (Some b) (gv_store gv)\<rparr>) budgets gv;
          gv = fold (\<lambda>rl gv. gv\<lparr>gv_store := put_rateLimit (rl_ID rl) rl (gv_store gv)\<rparr>) rateLimits gv;
          gv = fold (\<lambda>vk. storeVirtualKey (vk_Value vk) vk) virtualKeys gv;
          gv = fold (load_config baseModelName) modelConfigs gv;
          gv = fold stamp_customer customers gv;
          gv = fold (\<lambda>p gv. gv\<lparr>gv_providers := mapput (pv_Name p) p (gv_providers gv)\<rparr>) providers gv;
          gs = (gv_store gv)\<lparr>gs_LastDBUsagesBudgets := [], gs_LastDBUsagesTokensRateLimits := [], gs_LastDBUsagesRequestsRateLimits := []\<rparr>;
          gs = fold (\<lambda>b. SetBudgetDBBaseline (tb_ID b) (tb_CurrentUsage b)) budgets gs;
          gs = fold (\<lambda>rl. SetRateLimitDBBaseline (rl_ID rl) (rl_TokenCurrentUsage rl) (rl_RequestCurrentUsage rl)) rateLimits gs
      in gv\<lparr>gv_store := gs\<rparr>)"

subsection \<open>The index of keys\<close>

definition index_inv :: "Governance \<Rightarrow> bool" where
  "index_inv gv \<longleftrightarrow> wf_map (gv_virtualKeys gv) \<and> wf_map (gv_virtualKeysByID gv)
     \<and> (\<forall>v vk. mapget (gv_virtualKeys gv) v = Some vk \<longrightarrow> vk_Value vk = v \<and> v \<noteq> '''' \<and> vk_ID vk \<noteq> ''''
          \<and> mapget (gv_virtualKeysByID gv) (vk_ID vk) = Some vk)
     \<and> (\<forall>i vk. mapget (gv_virtualKeysByID gv) i = Some vk \<longrightarrow> vk_ID vk = i \<and> mapget (gv_virtualKeys gv) (vk_Value vk) = Some vk)"

text \<open>No other key has the value or the ID: the unique columns of the table of keys.\<close>

definition may_store :: "TableVirtualKey \<Rightarrow> Governance \<Rightarrow> bool" where
  "may_store vk gv \<longleftrightarrow> vk_Value vk \<noteq> '''' \<and> vk_ID vk \<noteq> ''''
     \<and> (case mapget (gv_virtualKeys gv) (vk_Value vk) of Some e \<Rightarrow> vk_ID e = vk_ID vk | None \<Rightarrow> True)"

definition same_keys :: "Governance \<Rightarrow> Governance \<Rightarrow> bool" where
  "same_keys gv gv' \<longleftrightarrow> gv_virtualKeys gv' = gv_virtualKeys gv \<and> gv_virtualKeysByID gv' = gv_virtualKeysByID gv"

lemma index_cong: "same_keys gv gv' \<Longrightarrow> index_inv gv' \<longleftrightarrow> index_inv gv"
  by (simp add: same_keys_def index_inv_def)

lemma index_by_value:
  assumes "index_inv gv" "mapget (gv_virtualKeys gv) v = Some vk"
  shows "vk_Value vk = v" "v \<noteq> ''''" "vk_ID vk \<noteq> ''''" "mapget (gv_virtualKeysByID gv) (vk_ID vk) = Some vk"
  using assms by (auto simp: index_inv_def)

lemma index_by_id:
  assumes "index_inv gv" "mapget (gv_virtualKeysByID gv) i = Some vk"
  shows "vk_ID vk = i" "mapget (gv_virtualKeys gv) (vk_Value vk) = Some vk"
  using assms by (auto simp: index_inv_def)

lemma index_invI:
  assumes "wf_map (gv_virtualKeys gv)" "wf_map (gv_virtualKeysByID gv)"
    and "\<And>v vk. mapget (gv_virtualKeys gv) v = Some vk \<Longrightarrow> vk_Value vk = v \<and> v \<noteq> '''' \<and> vk_ID vk \<noteq> ''''
          \<and> mapget (gv_virtualKeysByID gv) (vk_ID vk) = Some vk"
    and "\<And>i vk. mapget (gv_virtualKeysByID gv) i = Some vk \<Longrightarrow> vk_ID vk = i \<and> mapget (gv_virtualKeys gv) (vk_Value vk) = Some vk"
  shows "index_inv gv"
  using assms by (simp add: index_inv_def)

lemma index_wf: "index_inv gv \<Longrightarrow> wf_map (gv_virtualKeys gv)" "index_inv gv \<Longrightarrow> wf_map (gv_virtualKeysByID gv)"
  by (simp_all add: index_inv_def)

lemma index_unique:
  assumes "index_inv gv" "mapget (gv_virtualKeys gv) u = Some a" "mapget (gv_virtualKeys gv) v = Some b" "vk_ID a = vk_ID b"
  shows "u = v" "a = b"
proof -
  show "a = b" using index_by_value(4) [OF assms(1,2)] index_by_value(4) [OF assms(1,3)] unfolding assms(4)
    by (metis option.inject)
  then show "u = v" using index_by_value(1) [OF assms(1,2)] index_by_value(1) [OF assms(1,3)] by metis
qed

lemma store_index:
  assumes inv: "index_inv gv" and v: "vk_Value vk \<noteq> ''''" "vk_ID vk \<noteq> ''''"
    and val: "\<And>e. mapget (gv_virtualKeys gv) (vk_Value vk) = Some e \<Longrightarrow> vk_ID e = vk_ID vk"
    and by_id: "\<And>e. mapget (gv_virtualKeysByID gv) (vk_ID vk) = Some e \<Longrightarrow> vk_Value e = vk_Value vk"
  shows "index_inv (storeVirtualKey (vk_Value vk) vk gv)"
proof -
  have "vk_ID w \<noteq> vk_ID vk" if "mapget (gv_virtualKeys gv) u = Some w" "u \<noteq> vk_Value vk" for u w
    using index_by_value [OF inv that(1)] by_id [of w] that(2) by auto
  moreover have "vk_Value w \<noteq> vk_Value vk" if "mapget (gv_virtualKeysByID gv) i = Some w" "i \<noteq> vk_ID vk" for i w
    using index_by_id [OF inv that(1)] val [of w] that(2) by auto
  moreover have "gv_virtualKeys (storeVirtualKey (vk_Value vk) vk gv) = mapput (vk_Value vk) vk (gv_virtualKeys gv)"
    "gv_virtualKeysByID (storeVirtualKey (vk_Value vk) vk gv) = mapput (vk_ID vk) vk (gv_virtualKeysByID gv)"
    using v by (simp_all add: storeVirtualKey_def)
  ultimately show ?thesis
    using v index_wf [OF inv] index_by_value [OF inv] index_by_id [OF inv] by (intro index_invI) (simp_all split: if_splits)
qed

lemma delete_index: "index_inv gv \<Longrightarrow> index_inv (deleteVirtualKeyByValue v gv)"
proof (cases "mapget (gv_virtualKeys gv) v")
  case None
  then show ?thesis if "index_inv gv" using that
    by (simp add: deleteVirtualKeyByValue_def index_inv_def) (metis option.distinct(1))
next
  case (Some vk)
  assume inv: "index_inv gv"
  note k = index_by_value [OF inv Some]
  have "vk_ID w \<noteq> vk_ID vk" if "mapget (gv_virtualKeys gv) u = Some w" "u \<noteq> v" for u w
    using index_unique(1) [OF inv that(1) Some] that(2) by blast
  moreover have "vk_Value w \<noteq> v" if "mapget (gv_virtualKeysByID gv) i = Some w" "i \<noteq> vk_ID vk" for i w
    using index_by_id [OF inv that(1)] Some that(2) by auto
  moreover have "gv_virtualKeys (deleteVirtualKeyByValue v gv) = mapdel v (gv_virtualKeys gv)"
    "gv_virtualKeysByID (deleteVirtualKeyByValue v gv) = mapdel (vk_ID vk) (gv_virtualKeysByID gv)"
    using k Some by (simp_all add: deleteVirtualKeyByValue_def)
  ultimately show ?thesis
    using index_wf [OF inv] index_by_value [OF inv] index_by_id [OF inv] by (intro index_invI) (simp_all split: if_splits)
qed


lemma index_find:
  assumes "index_inv gv"
  shows "find (\<lambda>(k, e). vk_ID e = i) (gv_virtualKeys gv) = map_option (\<lambda>e. (vk_Value e, e)) (mapget (gv_virtualKeysByID gv) i)"
proof (cases "mapget (gv_virtualKeysByID gv) i")
  case None
  have "vk_ID e \<noteq> i" if "(k, e) \<in> set (gv_virtualKeys gv)" for k e
    using that index_by_value(4) [OF assms, of k e] None mapget_in_set [OF index_wf(1) [OF assms]] by auto
  then show ?thesis using None by (auto simp: find_None_iff)
next
  case (Some e)
  note e = index_by_id [OF assms Some]
  then have "(vk_Value e, e) \<in> set (gv_virtualKeys gv)" using mapget_in_set [OF index_wf(1) [OF assms]] by blast
  then have "find (\<lambda>(k, e). vk_ID e = i) (gv_virtualKeys gv) \<noteq> None" using e(1) by (auto simp: find_None_iff)
  then obtain k a where f: "find (\<lambda>(k, e). vk_ID e = i) (gv_virtualKeys gv) = Some (k, a)" by auto
  then have "(k, a) \<in> set (gv_virtualKeys gv)" and a: "vk_ID a = i" using find_member [OF f] by (auto simp: find_Some_iff)
  then have "mapget (gv_virtualKeys gv) k = Some a" using mapget_in_set [OF index_wf(1) [OF assms]] by blast
  from index_unique [OF assms this e(2)] a e(1) show ?thesis using f Some by simp
qed

text \<open>The key that an update replaces is the one with its ID.\<close>

lemma existing_key_id:
  assumes "index_inv gv"
  shows "existing_key vk gv = map_option (\<lambda>e. (vk_Value e, e)) (mapget (gv_virtualKeysByID gv) (vk_ID vk))"
proof -
  have "mapget (gv_virtualKeysByID gv) (vk_ID vk) = Some e \<and> vk_Value e = vk_Value vk"
    if "mapget (gv_virtualKeys gv) (vk_Value vk) = Some e" "vk_ID e = vk_ID vk" for e
    using index_by_value(1,4) [OF assms that(1)] that(2) by simp
  then show ?thesis unfolding existing_key_def index_find [OF assms] by (auto split: option.split)
qed

text \<open>As far as the maps of keys go, creating and updating a key store a key with its value and ID.\<close>

lemma create_key_form:
  "\<exists>bs rl pcs gs. CreateVirtualKeyInMemory vk gv = storeVirtualKey (vk_Value vk)
     (vk\<lparr>vk_Budgets := bs, vk_RateLimit := rl, vk_ProviderConfigs := pcs\<rparr>) (gv\<lparr>gv_store := gs\<rparr>)"
  unfolding CreateVirtualKeyInMemory_def Let_def case_prod_beta by blast

lemma update_key_form:
  assumes "existing_key vk gv = Some (k, e)"
  shows "\<exists>bs rl pcs gs. UpdateVirtualKeyInMemory vk gv = storeVirtualKey (vk_Value vk)
     (vk\<lparr>vk_Budgets := bs, vk_RateLimit := rl, vk_ProviderConfigs := pcs\<rparr>)
       (if k \<noteq> '''' \<and> k \<noteq> vk_Value vk then deleteVirtualKeyByValue k (gv\<lparr>gv_store := gs\<rparr>) else gv\<lparr>gv_store := gs\<rparr>)"
  unfolding UpdateVirtualKeyInMemory_def assms Let_def case_prod_beta option.case fst_conv snd_conv by blast

lemma index_store_update [simp]: "index_inv (gv\<lparr>gv_store := gs\<rparr>) \<longleftrightarrow> index_inv gv"
  by (simp add: index_inv_def)

lemma create_index:
  assumes inv: "index_inv gv" and ok: "may_store vk gv" and new: "mapget (gv_virtualKeysByID gv) (vk_ID vk) = None"
  shows "index_inv (CreateVirtualKeyInMemory vk gv)"
proof -
  obtain bs rl pcs gs where f: "CreateVirtualKeyInMemory vk gv = storeVirtualKey (vk_Value vk)
     (vk\<lparr>vk_Budgets := bs, vk_RateLimit := rl, vk_ProviderConfigs := pcs\<rparr>) (gv\<lparr>gv_store := gs\<rparr>)"
    using create_key_form by blast
  define c where "c = vk\<lparr>vk_Budgets := bs, vk_RateLimit := rl, vk_ProviderConfigs := pcs\<rparr>"
  have c: "vk_Value c = vk_Value vk" "vk_ID c = vk_ID vk" by (simp_all add: c_def)
  have s: "CreateVirtualKeyInMemory vk gv = storeVirtualKey (vk_Value c) c (gv\<lparr>gv_store := gs\<rparr>)" unfolding f c by (simp add: c_def)
  show ?thesis unfolding s
    by (rule store_index) (use inv ok new in \<open>simp_all add: c may_store_def\<close>)
qed

lemma update_index:
  assumes inv: "index_inv gv" and ok: "may_store vk gv"
  shows "index_inv (UpdateVirtualKeyInMemory vk gv)"
proof (cases "mapget (gv_virtualKeysByID gv) (vk_ID vk)")
  case None
  then have "existing_key vk gv = None" using existing_key_id [OF inv] by simp
  then show ?thesis using create_index [OF assms None] by (simp add: UpdateVirtualKeyInMemory_def)
next
  case (Some e)
  then have ex: "existing_key vk gv = Some (vk_Value e, e)" using existing_key_id [OF inv] by simp
  obtain bs rl pcs gs where f: "UpdateVirtualKeyInMemory vk gv = storeVirtualKey (vk_Value vk)
     (vk\<lparr>vk_Budgets := bs, vk_RateLimit := rl, vk_ProviderConfigs := pcs\<rparr>) (if vk_Value e \<noteq> '''' \<and> vk_Value e \<noteq> vk_Value vk
       then deleteVirtualKeyByValue (vk_Value e) (gv\<lparr>gv_store := gs\<rparr>) else gv\<lparr>gv_store := gs\<rparr>)"
    using update_key_form [OF ex] by blast
  define c where "c = vk\<lparr>vk_Budgets := bs, vk_RateLimit := rl, vk_ProviderConfigs := pcs\<rparr>"
  have c: "vk_Value c = vk_Value vk" "vk_ID c = vk_ID vk" by (simp_all add: c_def)
  have s: "UpdateVirtualKeyInMemory vk gv = storeVirtualKey (vk_Value c) c (if vk_Value e \<noteq> '''' \<and> vk_Value e \<noteq> vk_Value vk
       then deleteVirtualKeyByValue (vk_Value e) (gv\<lparr>gv_store := gs\<rparr>) else gv\<lparr>gv_store := gs\<rparr>)" unfolding f c by (simp add: c_def)
  note e = index_by_id [OF inv Some]
  have v: "vk_Value e \<noteq> ''''" using index_by_value(2) [OF inv e(2)] .
  show ?thesis unfolding s
  proof (rule store_index)
    show "vk_Value c \<noteq> ''''" "vk_ID c \<noteq> ''''" using ok by (simp_all add: c may_store_def)
    show "index_inv (if vk_Value e \<noteq> '''' \<and> vk_Value e \<noteq> vk_Value vk
       then deleteVirtualKeyByValue (vk_Value e) (gv\<lparr>gv_store := gs\<rparr>) else gv\<lparr>gv_store := gs\<rparr>)"
      using inv delete_index by simp
  qed (use ok Some e v in \<open>simp_all add: c may_store_def deleteVirtualKeyByValue_def split: if_splits\<close>)
qed


subsection \<open>Clearing references\<close>

abbreviation keeps_identity :: "(TableVirtualKey \<Rightarrow> TableVirtualKey) \<Rightarrow> bool" where
  "keeps_identity f \<equiv> \<forall>vk. vk_ID (f vk) = vk_ID vk \<and> vk_Value (f vk) = vk_Value vk"

definition clear_step :: "(TableVirtualKey \<Rightarrow> bool) \<Rightarrow> (TableVirtualKey \<Rightarrow> TableVirtualKey) \<Rightarrow> string \<times> TableVirtualKey \<Rightarrow> Governance \<Rightarrow> Governance" where
  "clear_step refers clear = (\<lambda>(key, vk) gv. if refers vk then storeVirtualKey key (clear vk) gv else gv)"

lemma clear_step_index:
  assumes "index_inv gv" "mapget (gv_virtualKeys gv) k = Some vk" "keeps_identity clear"
  shows "index_inv (clear_step refers clear (k, vk) gv)"
    and "mapget (gv_virtualKeys (clear_step refers clear (k, vk) gv)) v
      = (if v = k then Some (if refers vk then clear vk else vk) else mapget (gv_virtualKeys gv) v)"
    and "gv_teams (clear_step refers clear (k, vk) gv) = gv_teams gv" "gv_customers (clear_step refers clear (k, vk) gv) = gv_customers gv"
      "gv_store (clear_step refers clear (k, vk) gv) = gv_store gv"
proof -
  note e = index_by_value [OF assms(1,2)]
  have "index_inv (storeVirtualKey (vk_Value (clear vk)) (clear vk) gv)"
    by (rule store_index [OF assms(1)]) (use e assms in auto)
  then show "index_inv (clear_step refers clear (k, vk) gv)" using assms e(1) by (simp add: clear_step_def)
  show "mapget (gv_virtualKeys (clear_step refers clear (k, vk) gv)) v
      = (if v = k then Some (if refers vk then clear vk else vk) else mapget (gv_virtualKeys gv) v)"
    using e(2) assms(2) by (simp add: clear_step_def storeVirtualKey_def Let_def)
  show "gv_teams (clear_step refers clear (k, vk) gv) = gv_teams gv" "gv_customers (clear_step refers clear (k, vk) gv) = gv_customers gv"
      "gv_store (clear_step refers clear (k, vk) gv) = gv_store gv"
    by (simp_all add: clear_step_def storeVirtualKey_def Let_def)
qed

lemma clear_fold:
  assumes "index_inv gv" "keeps_identity clear" "distinct (map fst xs)"
    "\<And>k vk. (k, vk) \<in> set xs \<Longrightarrow> mapget (gv_virtualKeys gv) k = Some vk"
  shows "index_inv (fold (clear_step refers clear) xs gv)
     \<and> (\<forall>v. mapget (gv_virtualKeys (fold (clear_step refers clear) xs gv)) v
         = (case map_of xs v of Some vk \<Rightarrow> Some (if refers vk then clear vk else vk) | None \<Rightarrow> mapget (gv_virtualKeys gv) v))
     \<and> gv_teams (fold (clear_step refers clear) xs gv) = gv_teams gv
     \<and> gv_customers (fold (clear_step refers clear) xs gv) = gv_customers gv
     \<and> gv_store (fold (clear_step refers clear) xs gv) = gv_store gv"
  using assms
proof (induction xs arbitrary: gv)
  case (Cons x xs)
  obtain k vk where x: "x = (k, vk)" by force
  let ?g = "clear_step refers clear (k, vk) gv"
  have kv: "mapget (gv_virtualKeys gv) k = Some vk" using Cons.prems(4) x by simp
  note s = clear_step_index [OF Cons.prems(1) kv Cons.prems(2)]
  have "mapget (gv_virtualKeys ?g) k' = Some vk'" if "(k', vk') \<in> set xs" for k' vk'
    using that Cons.prems(3,4) x by (force simp: s(2))
  from Cons.IH [OF s(1) Cons.prems(2) _ this] Cons.prems(3)
  have IH: "index_inv (fold (clear_step refers clear) xs ?g)"
    "\<forall>v. mapget (gv_virtualKeys (fold (clear_step refers clear) xs ?g)) v
         = (case map_of xs v of Some vk \<Rightarrow> Some (if refers vk then clear vk else vk) | None \<Rightarrow> mapget (gv_virtualKeys ?g) v)"
    "gv_teams (fold (clear_step refers clear) xs ?g) = gv_teams ?g"
    "gv_customers (fold (clear_step refers clear) xs ?g) = gv_customers ?g"
    "gv_store (fold (clear_step refers clear) xs ?g) = gv_store ?g" by auto
  have "map_of xs k = None" using Cons.prems(3) x by (simp add: map_of_eq_None_iff)
  then show ?case using IH s(2-5) x by (auto split: option.splits)
qed simp

lemma clear_in_keys_effect:
  assumes "index_inv gv" "keeps_identity clear"
  shows "index_inv (clear_in_keys refers clear gv)"
    "mapget (gv_virtualKeys (clear_in_keys refers clear gv)) v = map_option (\<lambda>vk. if refers vk then clear vk else vk) (mapget (gv_virtualKeys gv) v)"
    "gv_teams (clear_in_keys refers clear gv) = gv_teams gv" "gv_customers (clear_in_keys refers clear gv) = gv_customers gv"
    "gv_store (clear_in_keys refers clear gv) = gv_store gv"
proof -
  have c: "clear_in_keys refers clear gv = fold (clear_step refers clear) (gv_virtualKeys gv) gv"
    by (simp add: clear_in_keys_def clear_step_def)
  have "distinct (map fst (gv_virtualKeys gv))" using index_wf(1) [OF assms(1)] by (simp add: wf_map_def)
  note f = clear_fold [OF assms this, of refers]
  have "(k, vk) \<in> set (gv_virtualKeys gv) \<Longrightarrow> mapget (gv_virtualKeys gv) k = Some vk" for k vk
    using mapget_in_set [OF index_wf(1) [OF assms(1)]] by simp
  note f = f [OF this, folded c]
  from f show "index_inv (clear_in_keys refers clear gv)" "gv_teams (clear_in_keys refers clear gv) = gv_teams gv"
    "gv_customers (clear_in_keys refers clear gv) = gv_customers gv" "gv_store (clear_in_keys refers clear gv) = gv_store gv" by blast+
  from f show "mapget (gv_virtualKeys (clear_in_keys refers clear gv)) v = map_option (\<lambda>vk. if refers vk then clear vk else vk) (mapget (gv_virtualKeys gv) v)"
    by (auto split: option.splits)
qed

subsection \<open>The changes as events\<close>

text \<open>A key is created or updated after its row was written, so that the unique columns exclude another key
  with its ID or value; the rows of a reload are distinct for the same reason.\<close>

datatype admin_event =
    CreateVK TableVirtualKey | UpdateVK TableVirtualKey | DeleteVK string
  | CreateTeam TableTeam | UpdateTeam TableTeam | DeleteTeam string
  | CreateCustomer TableCustomer | UpdateCustomer TableCustomer | DeleteCustomer string
  | UpdateModelConfig TableModelConfig | DeleteModelConfig string
  | UpdateProviderRow TableProvider | DeleteProvider string
  | Reload "TableCustomer list" "TableTeam list" "TableVirtualKey list" "TableBudget list" "TableRateLimit list"
      "TableModelConfig list" "TableProvider list"

definition loadable :: "TableVirtualKey list \<Rightarrow> bool" where
  "loadable vks \<longleftrightarrow> distinct (map vk_ID vks) \<and> distinct (map vk_Value vks) \<and> list_all (\<lambda>vk. vk_ID vk \<noteq> '''' \<and> vk_Value vk \<noteq> '''') vks"

fun admin_step :: "(string \<Rightarrow> string) option \<Rightarrow> admin_event \<Rightarrow> Governance \<Rightarrow> Governance option" where
  "admin_step base (CreateVK vk) gv =
     (if may_store vk gv \<and> mapget (gv_virtualKeysByID gv) (vk_ID vk) = None then Some (CreateVirtualKeyInMemory vk gv) else None)"
| "admin_step base (UpdateVK vk) gv = (if may_store vk gv then Some (UpdateVirtualKeyInMemory vk gv) else None)"
| "admin_step base (DeleteVK i) gv = Some (DeleteVirtualKeyInMemory i gv)"
| "admin_step base (CreateTeam t) gv = Some (CreateTeamInMemory t gv)"
| "admin_step base (UpdateTeam t) gv = Some (UpdateTeamInMemory t gv)"
| "admin_step base (DeleteTeam i) gv = Some (DeleteTeamInMemory i gv)"
| "admin_step base (CreateCustomer c) gv = Some (CreateCustomerInMemory c gv)"
| "admin_step base (UpdateCustomer c) gv = Some (UpdateCustomerInMemory c gv)"
| "admin_step base (DeleteCustomer i) gv = Some (DeleteCustomerInMemory i gv)"
| "admin_step base (UpdateModelConfig mc) gv = Some (fst (UpdateModelConfigInMemory base mc gv))"
| "admin_step base (DeleteModelConfig i) gv = Some (DeleteModelConfigInMemory i gv)"
| "admin_step base (UpdateProviderRow p) gv = Some (fst (UpdateProviderInMemory p gv))"
| "admin_step base (DeleteProvider n) gv = Some (DeleteProviderInMemory n gv)"
| "admin_step base (Reload cs ts vks bs rls mcs ps) gv =
     (if loadable vks then Some (rebuildInMemoryStructures base cs ts vks bs rls mcs ps gv) else None)"

definition empty_governance :: Governance where
  "empty_governance = \<lparr>gv_store = emptyGovStore, gv_virtualKeys = [], gv_virtualKeysByID = [], gv_teams = [], gv_customers = [],
     gv_modelConfigs = [], gv_providers = []\<rparr>"

lemma index_empty: "index_inv empty_governance"
  by (simp add: index_inv_def empty_governance_def)

lemma same_keys_refl [simp]: "same_keys gv gv"
  by (simp add: same_keys_def)

lemma same_keys_trans: "same_keys a b \<Longrightarrow> same_keys b c \<Longrightarrow> same_keys a c"
  by (simp add: same_keys_def)

lemma same_keys_fold:
  assumes "\<And>x gv. x \<in> set xs \<Longrightarrow> same_keys gv (f x gv)"
  shows "same_keys gv (fold f xs gv)"
  using assms by (induction xs arbitrary: gv) (auto simp: same_keys_def)

lemma same_keys_then_fold:
  "same_keys gv g \<Longrightarrow> (\<And>x g'. same_keys g' (f x g')) \<Longrightarrow> same_keys gv (fold f xs g)"
  using same_keys_trans same_keys_fold by metis

lemma scope_delete_same_keys: "same_keys gv (DeleteModelConfigsForScopeInMemory scope i gv)"
  unfolding DeleteModelConfigsForScopeInMemory_def by (rule same_keys_fold) (auto simp: same_keys_def)

lemma delete_key_index:
  assumes "index_inv gv"
  shows "index_inv (DeleteVirtualKeyInMemory i gv)"
  using assms index_cong [OF scope_delete_same_keys] delete_index
  by (auto simp: DeleteVirtualKeyInMemory_def Let_def split: option.split)

lemma owner_same_keys:
  "same_keys gv (CreateTeamInMemory t gv)" "same_keys gv (UpdateTeamInMemory t gv)"
  "same_keys gv (CreateCustomerInMemory c gv)" "same_keys gv (UpdateCustomerInMemory c gv)"
  "same_keys gv (fst (UpdateModelConfigInMemory base mc gv))" "same_keys gv (DeleteModelConfigInMemory i gv)"
  "same_keys gv (fst (UpdateProviderInMemory p gv))" "same_keys gv (DeleteProviderInMemory n gv)"
  by (simp_all add: same_keys_def CreateTeamInMemory_def UpdateTeamInMemory_def CreateCustomerInMemory_def
      UpdateCustomerInMemory_def UpdateModelConfigInMemory_def DeleteModelConfigInMemory_def UpdateProviderInMemory_def
      DeleteProviderInMemory_def Let_def case_prod_beta split: option.split)

lemma team_delete_index:
  assumes "index_inv gv"
  shows "index_inv (DeleteTeamInMemory i gv)"
proof -
  let ?g = "case mapget (gv_teams gv) i of None \<Rightarrow> gv
      | Some team \<Rightarrow> gv\<lparr>gv_store := delete_rateLimit (tm_RateLimitID team) (delete_budgets (map tb_ID (tm_Budgets team)) (gv_store gv))\<rparr>"
  have "index_inv ?g" using assms by (simp split: option.split)
  from clear_in_keys_effect(1) [OF this, of "\<lambda>vk. vk\<lparr>vk_TeamID := None, vk_Team := None\<rparr>" "\<lambda>vk. vk_TeamID vk = Some i"]
  show ?thesis using assms unfolding DeleteTeamInMemory_def Let_def by (simp add: index_inv_def)
qed

lemma customer_delete_index:
  assumes "index_inv gv"
  shows "index_inv (DeleteCustomerInMemory i gv)"
proof -
  let ?g = "case mapget (gv_customers gv) i of None \<Rightarrow> gv
      | Some customer \<Rightarrow> gv\<lparr>gv_store := delete_rateLimit (cu_RateLimitID customer) (delete_budgets (map tb_ID (cu_Budgets customer)) (gv_store gv))\<rparr>"
  have "index_inv ?g" using assms by (simp split: option.split)
  from clear_in_keys_effect(1) [OF this, of "\<lambda>vk. vk\<lparr>vk_CustomerID := None, vk_Customer := None\<rparr>" "\<lambda>vk. vk_CustomerID vk = Some i"]
  show ?thesis using assms unfolding DeleteCustomerInMemory_def Let_def by (simp add: index_inv_def)
qed

lemma load_keys_index:
  assumes "index_inv gv" "loadable vks"
    "\<And>vk. vk \<in> set vks \<Longrightarrow> mapget (gv_virtualKeys gv) (vk_Value vk) = None \<and> mapget (gv_virtualKeysByID gv) (vk_ID vk) = None"
  shows "index_inv (fold (\<lambda>vk. storeVirtualKey (vk_Value vk) vk) vks gv)"
  using assms
proof (induction vks arbitrary: gv)
  case (Cons vk vks)
  let ?g = "storeVirtualKey (vk_Value vk) vk gv"
  have l: "loadable vks" "vk_Value vk \<noteq> ''''" "vk_ID vk \<noteq> ''''" using Cons.prems(2) by (simp_all add: loadable_def)
  have "index_inv ?g" by (rule store_index [OF Cons.prems(1) l(2,3)]) (use Cons.prems(3) in auto)
  moreover have "mapget (gv_virtualKeys ?g) (vk_Value w) = None \<and> mapget (gv_virtualKeysByID ?g) (vk_ID w) = None" if "w \<in> set vks" for w
  proof -
    have "vk_Value w \<noteq> vk_Value vk" "vk_ID w \<noteq> vk_ID vk" using that Cons.prems(2) by (auto simp: loadable_def image_iff)
    then show ?thesis using that Cons.prems(3) [of w] l by (simp add: storeVirtualKey_def)
  qed
  ultimately show ?case using Cons.IH [of ?g] l(1) by simp
qed simp

lemma reload_index:
  assumes "loadable vks"
  shows "index_inv (rebuildInMemoryStructures base cs ts vks bs rls mcs ps gv)"
proof -
  define g0 where "g0 = \<lparr>gv_store = (gv_store gv)\<lparr>gs_budgets := [], gs_rateLimits := []\<rparr>, gv_virtualKeys = [], gv_virtualKeysByID = [],
     gv_teams = [], gv_customers = [], gv_modelConfigs = [], gv_providers = []\<rparr>"
  define g1 where "g1 = fold (\<lambda>rl gv. gv\<lparr>gv_store := put_rateLimit (rl_ID rl) rl (gv_store gv)\<rparr>) rls
    (fold (\<lambda>b gv. gv\<lparr>gv_store := storeBudget (tb_ID b) (Some b) (gv_store gv)\<rparr>) bs
    (fold (\<lambda>t gv. gv\<lparr>gv_teams := mapput (tm_ID t) t (gv_teams gv)\<rparr>) ts
    (fold (\<lambda>c gv. gv\<lparr>gv_customers := mapput (cu_ID c) c (gv_customers gv)\<rparr>) cs g0)))"
  define g2 where "g2 = fold (\<lambda>vk. storeVirtualKey (vk_Value vk) vk) vks g1"
  define g3 where "g3 = fold (\<lambda>p gv. gv\<lparr>gv_providers := mapput (pv_Name p) p (gv_providers gv)\<rparr>) ps
    (fold stamp_customer cs (fold (load_config base) mcs g2))"
  have "same_keys g0 g1" unfolding g1_def
    by (intro same_keys_then_fold) (simp_all add: same_keys_def)
  then have e: "gv_virtualKeys g1 = []" "gv_virtualKeysByID g1 = []" by (simp_all add: same_keys_def g0_def)
  then have "index_inv g2" unfolding g2_def by (intro load_keys_index assms) (simp_all add: index_inv_def)
  moreover have "same_keys g2 g3" unfolding g3_def
    by (intro same_keys_then_fold) (simp_all add: same_keys_def load_config_def stamp_customer_def Let_def case_prod_beta)
  ultimately have "index_inv g3" by (simp add: index_cong)
  then show ?thesis
    by (simp add: rebuildInMemoryStructures_def Let_def g3_def g2_def g1_def g0_def)
qed

lemma admin_step_index: "admin_step base e gv = Some gv' \<Longrightarrow> index_inv gv \<Longrightarrow> index_inv gv'"
  by (cases e) (auto simp: create_index update_index delete_key_index team_delete_index customer_delete_index reload_index
      index_cong [OF owner_same_keys(1)] index_cong [OF owner_same_keys(2)] index_cong [OF owner_same_keys(3)]
      index_cong [OF owner_same_keys(4)] index_cong [OF owner_same_keys(5)] index_cong [OF owner_same_keys(6)]
      index_cong [OF owner_same_keys(7)] index_cong [OF owner_same_keys(8)] split: if_splits)

interpretation admin: invariant_machine "admin_step base" empty_governance index_inv for base
  by unfold_locales (simp_all add: index_empty admin_step_index)

subsection \<open>Shown of the keys\<close>

text \<open>Whatever keys, teams, customers, model configurations and providers are created, updated, deleted and
  reloaded, the two maps of keys agree: the key stored under an ID is the key stored under its own
  value, each key is stored under the value and the ID it carries, and no ID or value is empty.\<close>

theorem key_index_consistent:
  assumes "reachable (admin_step base) empty_governance gv"
  shows "(GetVirtualKeyByID i gv = Some vk \<longleftrightarrow> i \<noteq> '''' \<and> vk_ID vk = i \<and> GetVirtualKey (vk_Value vk) gv = Some vk)
    \<and> (GetVirtualKey v gv = Some vk \<longleftrightarrow> v \<noteq> '''' \<and> vk_Value vk = v \<and> GetVirtualKeyByID (vk_ID vk) gv = Some vk)"
proof (rule conjI)
  have inv: "index_inv gv" using assms by (rule admin.reachable_safe)
  show "GetVirtualKeyByID i gv = Some vk \<longleftrightarrow> i \<noteq> '''' \<and> vk_ID vk = i \<and> GetVirtualKey (vk_Value vk) gv = Some vk"
    unfolding GetVirtualKeyByID_def GetVirtualKey_def using index_by_id [OF inv] index_by_value(3,4) [OF inv] by metis
  show "GetVirtualKey v gv = Some vk \<longleftrightarrow> v \<noteq> '''' \<and> vk_Value vk = v \<and> GetVirtualKeyByID (vk_ID vk) gv = Some vk"
    unfolding GetVirtualKeyByID_def GetVirtualKey_def using index_by_id [OF inv] index_by_value(1,2,4) [OF inv] by metis
qed

lemma GetVirtualKey_store:
  "value \<noteq> '''' \<Longrightarrow> GetVirtualKey v (storeVirtualKey value vk gv) = (if v = value then Some vk else GetVirtualKey v gv)"
  by (simp add: GetVirtualKey_def storeVirtualKey_def Let_def)

lemma GetVirtualKey_delete: "GetVirtualKey v (deleteVirtualKeyByValue value gv) = (if v = value then None else GetVirtualKey v gv)"
  by (simp add: GetVirtualKey_def deleteVirtualKeyByValue_def Let_def split: option.split)

lemma update_stores_value:
  assumes "vk_Value vk \<noteq> ''''"
  shows "\<exists>w. GetVirtualKey (vk_Value vk) (UpdateVirtualKeyInMemory vk gv) = Some w \<and> vk_ID w = vk_ID vk"
proof (cases "existing_key vk gv")
  case None
  obtain bs rl pcs gs where "CreateVirtualKeyInMemory vk gv = storeVirtualKey (vk_Value vk)
     (vk\<lparr>vk_Budgets := bs, vk_RateLimit := rl, vk_ProviderConfigs := pcs\<rparr>) (gv\<lparr>gv_store := gs\<rparr>)"
    using create_key_form by blast
  then show ?thesis using None assms by (simp add: UpdateVirtualKeyInMemory_def GetVirtualKey_store)
next
  case (Some ke)
  obtain k e where ke: "ke = (k, e)" by force
  show ?thesis using update_key_form [of vk gv k e] Some ke assms by (auto simp: GetVirtualKey_store)
qed

lemma DeleteVirtualKey_lookup:
  assumes "index_inv gv" "i \<noteq> ''''"
  shows "GetVirtualKey v (DeleteVirtualKeyInMemory i gv) = Some w \<Longrightarrow> vk_ID w \<noteq> i"
proof -
  assume *: "GetVirtualKey v (DeleteVirtualKeyInMemory i gv) = Some w"
  let ?g = "case find (\<lambda>(k, vk). vk_ID vk = i) (gv_virtualKeys gv) of None \<Rightarrow> gv
     | Some (key, vk) \<Rightarrow> deleteVirtualKeyByValue key (gv\<lparr>gv_store := delete_key_rows vk (gv_store gv)\<rparr>)"
  have "GetVirtualKey v ?g = Some w"
    using * assms(2) scope_delete_same_keys [of ?g ModelConfigScopeVirtualKey i]
    by (simp add: DeleteVirtualKeyInMemory_def GetVirtualKey_def same_keys_def)
  then show ?thesis
  proof (cases "mapget (gv_virtualKeysByID gv) i")
    case None
    then have "mapget (gv_virtualKeys gv) v = Some w" using \<open>GetVirtualKey v ?g = Some w\<close> index_find [OF assms(1), of i]
      by (simp add: GetVirtualKey_def)
    from index_by_value(4) [OF assms(1) this] None show ?thesis by auto
  next
    case (Some e)
    then have f: "find (\<lambda>(k, vk). vk_ID vk = i) (gv_virtualKeys gv) = Some (vk_Value e, e)" using index_find [OF assms(1), of i] by simp
    have v: "mapget (gv_virtualKeys gv) v = Some w" "v \<noteq> vk_Value e"
      using \<open>GetVirtualKey v ?g = Some w\<close> unfolding f option.case prod.case GetVirtualKey_delete
      by (simp_all add: GetVirtualKey_def split: if_splits)
    note e = index_by_id [OF assms(1) Some]
    from index_unique(1) [OF assms(1) v(1) e(2)] v(2) e(1) show ?thesis by auto
  qed
qed

text \<open>C20. After an update of a key the value it was given is the only one under which requests are taken for
  that key, so a rotated value is dead at once; after a deletion there is none.\<close>

theorem rotated_key_values:
  assumes "reachable (admin_step base) empty_governance gv" "may_store vk gv"
  shows "((\<exists>w. GetVirtualKey v (UpdateVirtualKeyInMemory vk gv) = Some w \<and> vk_ID w = vk_ID vk) \<longleftrightarrow> v = vk_Value vk)
    \<and> \<not> (\<exists>w. GetVirtualKey v (DeleteVirtualKeyInMemory (vk_ID vk) gv) = Some w \<and> vk_ID w = vk_ID vk)"
proof (rule conjI)
  have inv: "index_inv gv" using assms(1) by (rule admin.reachable_safe)
  have vk: "vk_Value vk \<noteq> ''''" "vk_ID vk \<noteq> ''''" using assms(2) by (simp_all add: may_store_def)
  note upd = update_index [OF inv assms(2)] and st = update_stores_value [OF vk(1), of gv]
  show "(\<exists>w. GetVirtualKey v (UpdateVirtualKeyInMemory vk gv) = Some w \<and> vk_ID w = vk_ID vk) \<longleftrightarrow> v = vk_Value vk"
    using st index_unique(1) [OF upd, of v _ "vk_Value vk"] unfolding GetVirtualKey_def by metis
  show "\<not> (\<exists>w. GetVirtualKey v (DeleteVirtualKeyInMemory (vk_ID vk) gv) = Some w \<and> vk_ID w = vk_ID vk)"
    using DeleteVirtualKey_lookup [OF inv vk(2)] by blast
qed

subsection \<open>Deleted owners\<close>

lemma delete_customer_effect:
  assumes "index_inv gv" "c \<noteq> ''''" "mapget (gv_customers gv) c = Some cu"
  defines "gv' \<equiv> DeleteCustomerInMemory c gv"
  shows "mapget (gv_customers gv') c = None"
    and "GetVirtualKey v gv' = map_option (\<lambda>vk. if vk_CustomerID vk = Some c then vk\<lparr>vk_CustomerID := None, vk_Customer := None\<rparr> else vk) (GetVirtualKey v gv)"
    and "mapget (gv_teams gv') t = map_option (\<lambda>tm. if tm_CustomerID tm = Some c then tm\<lparr>tm_CustomerID := None, tm_Customer := None\<rparr> else tm) (mapget (gv_teams gv) t)"
    and "LoadBudget j (gv_store gv') = (if j \<in> tb_ID ` set (cu_Budgets cu) then None else LoadBudget j (gv_store gv))"
    and "LoadRateLimit j (gv_store gv') = (if cu_RateLimitID cu = Some j then None else LoadRateLimit j (gv_store gv))"
proof -
  let ?gs = "delete_rateLimit (cu_RateLimitID cu) (delete_budgets (map tb_ID (cu_Budgets cu)) (gv_store gv))"
  let ?g = "clear_in_keys (\<lambda>vk. vk_CustomerID vk = Some c) (\<lambda>vk. vk\<lparr>vk_CustomerID := None, vk_Customer := None\<rparr>) (gv\<lparr>gv_store := ?gs\<rparr>)"
  have "index_inv (gv\<lparr>gv_store := ?gs\<rparr>)" using assms(1) by simp
  note e = clear_in_keys_effect [OF this, of "\<lambda>vk. vk\<lparr>vk_CustomerID := None, vk_Customer := None\<rparr>" "\<lambda>vk. vk_CustomerID vk = Some c"]
  have g: "gv' = ?g\<lparr>gv_teams := map (\<lambda>(k, team). (k, if tm_CustomerID team = Some c
                 then team\<lparr>tm_CustomerID := None, tm_Customer := None\<rparr> else team)) (gv_teams gv), gv_customers := mapdel c (gv_customers gv)\<rparr>"
    using assms(2,3) e(3,4) by (simp add: gv'_def DeleteCustomerInMemory_def)
  show "mapget (gv_customers gv') c = None" by (simp add: g)
  show "GetVirtualKey v gv' = map_option (\<lambda>vk. if vk_CustomerID vk = Some c then vk\<lparr>vk_CustomerID := None, vk_Customer := None\<rparr> else vk) (GetVirtualKey v gv)"
    using e(2) by (simp add: g GetVirtualKey_def)
  show "mapget (gv_teams gv') t = map_option (\<lambda>tm. if tm_CustomerID tm = Some c then tm\<lparr>tm_CustomerID := None, tm_Customer := None\<rparr> else tm) (mapget (gv_teams gv) t)"
    by (simp add: g map_of_map)
  show "LoadBudget j (gv_store gv') = (if j \<in> tb_ID ` set (cu_Budgets cu) then None else LoadBudget j (gv_store gv))"
    using e(5) by (simp add: g)
  have "LoadRateLimit j (delete_budgets ids gs) = LoadRateLimit j gs" for ids gs
    unfolding delete_budgets_def by (induction ids arbitrary: gs) auto
  then show "LoadRateLimit j (gv_store gv') = (if cu_RateLimitID cu = Some j then None else LoadRateLimit j (gv_store gv))"
    using e(5) by (auto simp: g delete_rateLimit_def split: option.split)
qed
text \<open>Deleting a customer leaves nothing that pays for it: it is gone from the map, no key and no team
  refers to it, its budgets and its rate limit are out of the store, every other budget and rate limit
  is untouched, and keys keep everything else.\<close>

theorem deleted_customer_forgotten:
  assumes "reachable (admin_step base) empty_governance gv" "c \<noteq> ''''" "mapget (gv_customers gv) c = Some cu"
  shows "mapget (gv_customers (DeleteCustomerInMemory c gv)) c = None
    \<and> GetVirtualKey v (DeleteCustomerInMemory c gv)
       = map_option (\<lambda>vk. if vk_CustomerID vk = Some c then vk\<lparr>vk_CustomerID := None, vk_Customer := None\<rparr> else vk) (GetVirtualKey v gv)
    \<and> mapget (gv_teams (DeleteCustomerInMemory c gv)) t
       = map_option (\<lambda>tm. if tm_CustomerID tm = Some c then tm\<lparr>tm_CustomerID := None, tm_Customer := None\<rparr> else tm) (mapget (gv_teams gv) t)
    \<and> LoadBudget j (gv_store (DeleteCustomerInMemory c gv)) = (if j \<in> tb_ID ` set (cu_Budgets cu) then None else LoadBudget j (gv_store gv))
    \<and> LoadRateLimit j (gv_store (DeleteCustomerInMemory c gv)) = (if cu_RateLimitID cu = Some j then None else LoadRateLimit j (gv_store gv))"
  using delete_customer_effect [OF admin.reachable_safe [OF assms(1)] assms(2,3)] by blast

subsection \<open>What a reload makes of the budgets\<close>

lemma stamp_budget_id [simp]: "tb_ID (stamp_budget al b) = tb_ID b"
  by (simp add: stamp_budget_def)

lemma create_budgets_load:
  "LoadBudget j (snd (create_budgets al bs gs)) = (case find (\<lambda>b. tb_ID b = j) (rev (map (stamp_budget al) bs)) of
     Some b \<Rightarrow> Some (RefreshOverrideCyclesRemaining b) | None \<Rightarrow> LoadBudget j gs)"
proof -
  have "LoadBudget j (snd (store_budgets (\<lambda>gs. stamp_budget al) bs gs)) = (case find (\<lambda>b. tb_ID b = j) (rev (map (stamp_budget al) bs)) of
     Some b \<Rightarrow> Some (RefreshOverrideCyclesRemaining b) | None \<Rightarrow> LoadBudget j gs)"
  proof (induction bs arbitrary: gs)
    case (Cons b bs)
    have "find P (xs @ [x]) = (case find P xs of Some y \<Rightarrow> Some y | None \<Rightarrow> if P x then Some x else None)" for P and xs and x :: TableBudget
      by (induction xs) auto
    then show ?case using Cons.IH by (simp add: Let_def case_prod_beta storeBudget_def split: option.split)
  qed simp
  then show ?thesis by (simp add: create_budgets_def)
qed


text \<open>\<open>overlays rows gs gs'\<close>: the rows were stored one after the other, and no other budget changed.\<close>

definition overlays :: "TableBudget list \<Rightarrow> GovStore \<Rightarrow> GovStore \<Rightarrow> bool" where
  "overlays rows gs gs' \<longleftrightarrow> (\<forall>j. LoadBudget j gs' = (case find (\<lambda>b. tb_ID b = j) (rev rows) of
     Some b \<Rightarrow> Some (RefreshOverrideCyclesRemaining b) | None \<Rightarrow> LoadBudget j gs))"

lemma overlays_same: "(\<And>j. LoadBudget j gs' = LoadBudget j gs) \<Longrightarrow> overlays [] gs gs'"
  by (simp add: overlays_def)

lemma overlays_trans: "overlays r1 a b \<Longrightarrow> overlays r2 b c \<Longrightarrow> overlays (r1 @ r2) a c"
proof -
  have "find P (xs @ ys) = (case find P xs of Some x \<Rightarrow> Some x | None \<Rightarrow> find P ys)" for P and xs ys :: "TableBudget list"
    by (induction xs) auto
  then show "overlays r1 a b \<Longrightarrow> overlays r2 b c \<Longrightarrow> overlays (r1 @ r2) a c"
    by (simp add: overlays_def split: option.split)
qed

lemma overlays_fold:
  assumes "\<And>x g. overlays (rows x) (gv_store g) (gv_store (f x g))"
  shows "overlays (concat (map rows xs)) (gv_store g) (gv_store (fold f xs g))"
proof (induction xs arbitrary: g)
  case Nil
  show ?case by (simp add: overlays_same)
next
  case (Cons x xs)
  from overlays_trans [OF assms [of x g] Cons.IH [of "f x g"]] show ?case by simp
qed

lemma overlays_then_fold:
  assumes "overlays r gs (gv_store g)" "\<And>x g. overlays (rows x) (gv_store g) (gv_store (f x g))"
  shows "overlays (r @ concat (map rows xs)) gs (gv_store (fold f xs g))"
  using overlays_trans [OF assms(1) overlays_fold [of rows f, OF assms(2)]] .

lemma overlays_then_keep:
  assumes "overlays r gs (gv_store g)" "\<And>x g j. LoadBudget j (gv_store (f x g)) = LoadBudget j (gv_store g)"
  shows "overlays r gs (gv_store (fold f xs g))"
proof -
  have "concat (map (\<lambda>_. []) xs) = ([] :: TableBudget list)" by simp
  with overlays_then_fold [of r gs g "\<lambda>_. []" f xs, OF assms(1) overlays_same [OF assms(2)]] show ?thesis by simp
qed

lemma overlays_create: "overlays (map (stamp_budget al) bs) gs (snd (create_budgets al bs gs))"
  by (simp add: overlays_def create_budgets_load)

definition reloaded_rows :: "TableBudget list \<Rightarrow> TableModelConfig list \<Rightarrow> TableCustomer list \<Rightarrow> TableBudget list" where
  "reloaded_rows budgets modelConfigs customers = budgets
     @ concat (map (\<lambda>mc. map (stamp_budget (mc_CalendarAligned mc)) (mc_Budgets mc)) modelConfigs)
     @ concat (map (\<lambda>c. map (stamp_budget (cu_CalendarAligned c)) (cu_Budgets c)) customers)"

lemma reload_budgets_exact:
  "LoadBudget j (gv_store (rebuildInMemoryStructures base cs ts vks bs rls mcs ps gv)) =
     map_option RefreshOverrideCyclesRemaining (find (\<lambda>b. tb_ID b = j) (rev (reloaded_rows bs mcs cs)))"
proof -
  define g0 where "g0 = \<lparr>gv_store = (gv_store gv)\<lparr>gs_budgets := [], gs_rateLimits := []\<rparr>, gv_virtualKeys = [], gv_virtualKeysByID = [],
     gv_teams = [], gv_customers = [], gv_modelConfigs = [], gv_providers = []\<rparr>"
  define g1 where "g1 = fold (\<lambda>t gv. gv\<lparr>gv_teams := mapput (tm_ID t) t (gv_teams gv)\<rparr>) ts
    (fold (\<lambda>c gv. gv\<lparr>gv_customers := mapput (cu_ID c) c (gv_customers gv)\<rparr>) cs g0)"
  define g2 where "g2 = fold (\<lambda>b gv. gv\<lparr>gv_store := storeBudget (tb_ID b) (Some b) (gv_store gv)\<rparr>) bs g1"
  define g3 where "g3 = fold (\<lambda>vk. storeVirtualKey (vk_Value vk) vk) vks
    (fold (\<lambda>rl gv. gv\<lparr>gv_store := put_rateLimit (rl_ID rl) rl (gv_store gv)\<rparr>) rls g2)"
  define g4 where "g4 = fold (load_config base) mcs g3"
  define g5 where "g5 = fold stamp_customer cs g4"
  define g6 where "g6 = fold (\<lambda>p gv. gv\<lparr>gv_providers := mapput (pv_Name p) p (gv_providers gv)\<rparr>) ps g5"
  have "overlays [] (gv_store g0) (gv_store g1)" unfolding g1_def
    by (intro overlays_then_keep overlays_same) simp_all
  from overlays_then_fold [of "[]" _ g1 "\<lambda>b. [b]", OF this, of _ bs]
  have "overlays bs (gv_store g0) (gv_store g2)" unfolding g2_def by (simp add: overlays_def storeBudget_def)
  then have "overlays bs (gv_store g0) (gv_store g3)" unfolding g3_def by (intro overlays_then_keep) simp_all
  then have "overlays (bs @ concat (map (\<lambda>mc. map (stamp_budget (mc_CalendarAligned mc)) (mc_Budgets mc)) mcs)) (gv_store g0) (gv_store g4)"
    unfolding g4_def
  proof (rule overlays_then_fold)
    show "overlays (map (stamp_budget (mc_CalendarAligned mc)) (mc_Budgets mc)) (gv_store g) (gv_store (load_config base mc g))" for mc g
      using overlays_create [of "mc_CalendarAligned mc" "mc_Budgets mc" "gv_store g"]
      by (simp add: load_config_def Let_def case_prod_beta overlays_def)
  qed
  then have "overlays (reloaded_rows bs mcs cs) (gv_store g0) (gv_store g5)"
    unfolding g5_def reloaded_rows_def append_assoc [symmetric]
  proof (rule overlays_then_fold)
    show "overlays (map (stamp_budget (cu_CalendarAligned c)) (cu_Budgets c)) (gv_store g) (gv_store (stamp_customer c g))" for c g
      using overlays_create [of "cu_CalendarAligned c" "cu_Budgets c" "gv_store g"]
      by (simp add: stamp_customer_def Let_def case_prod_beta overlays_def split: option.split)
  qed
  then have o: "overlays (reloaded_rows bs mcs cs) (gv_store g0) (gv_store g6)"
    unfolding g6_def by (intro overlays_then_keep) simp_all
  have l: "LoadBudget j (fold (\<lambda>b. SetBudgetDBBaseline (tb_ID b) (tb_CurrentUsage b)) xs gs) = LoadBudget j gs" for xs gs
    by (induction xs arbitrary: gs) (simp_all add: SetBudgetDBBaseline_def LoadBudget_def)
  have l': "LoadBudget j (fold (\<lambda>rl. SetRateLimitDBBaseline (rl_ID rl) (rl_TokenCurrentUsage rl) (rl_RequestCurrentUsage rl)) xs gs) = LoadBudget j gs" for xs gs
    by (induction xs arbitrary: gs) (simp_all add: SetRateLimitDBBaseline_def LoadBudget_def)
  have "LoadBudget j (gv_store (rebuildInMemoryStructures base cs ts vks bs rls mcs ps gv)) = LoadBudget j (gv_store g6)"
    by (simp add: rebuildInMemoryStructures_def Let_def g6_def g5_def g4_def g3_def g2_def g1_def g0_def l l') (simp add: LoadBudget_def)
  moreover have "LoadBudget j (gv_store g0) = None" by (simp add: g0_def LoadBudget_def)
  ultimately show ?thesis using o by (simp add: overlays_def split: option.split)
qed

lemma refresh_alignment [simp]: "tb_IsCalendarAligned (RefreshOverrideCyclesRemaining b) = tb_IsCalendarAligned b"
  by (simp add: RefreshOverrideCyclesRemaining_def ClearOverride_def Let_def)

definition row_aligned :: "string \<Rightarrow> GovStore \<Rightarrow> bool" where
  "row_aligned j gs \<longleftrightarrow> map_option tb_IsCalendarAligned (LoadBudget j gs) = Some True"

lemma create_budgets_aligned:
  "row_aligned j gs \<or> j \<in> tb_ID ` set bs \<Longrightarrow> row_aligned j (snd (create_budgets True bs gs))"
  by (auto simp: row_aligned_def create_budgets_load find_None_iff stamp_budget_def split: option.splits dest!: find_member)

lemma create_configs_aligned: "row_aligned j gs \<Longrightarrow> row_aligned j (snd (create_provider_configs True pcs gs))"
proof (induction pcs arbitrary: gs)
  case (Cons pc pcs)
  let ?g = "snd (create_rateLimit True (pc_RateLimit pc) (snd (create_budgets True (pc_Budgets pc) gs)))"
  have "row_aligned j ?g" using create_budgets_aligned [of j gs "pc_Budgets pc"] Cons.prems by (simp add: row_aligned_def)
  from Cons.IH [OF this] show ?case by (simp add: Let_def case_prod_beta)
qed simp

lemma create_key_aligned:
  assumes "vk_CalendarAligned vk" "j \<in> tb_ID ` set (vk_Budgets vk)"
  shows "row_aligned j (gv_store (CreateVirtualKeyInMemory vk gv))"
proof -
  have "row_aligned j (snd (create_rateLimit True (vk_RateLimit vk) (snd (create_budgets True (vk_Budgets vk) (gv_store gv)))))"
    using create_budgets_aligned [of j "gv_store gv" "vk_Budgets vk"] assms(2) by (simp add: row_aligned_def)
  from create_configs_aligned [OF this] show ?thesis
    using assms(1) by (simp add: CreateVirtualKeyInMemory_def Let_def case_prod_beta)
qed

text \<open>C32. The budgets of a virtual key that follows the calendar do so when the key is created in memory, and
  stop doing so at a restart. The alignment is not a column of the budgets table, so the loaded list of
  budgets carries none of it; the reload puts it back on the budgets of model configurations and
  customers, and on no budget of a virtual key or team.\<close>

theorem reload_forgets_key_alignment:
  assumes "vk_CalendarAligned vk" "j \<in> tb_ID ` set (vk_Budgets vk)" "vk \<in> set vks"
    and "j \<in> tb_ID ` set bs" "\<forall>b\<in>set bs. \<not> tb_IsCalendarAligned b"
    and "\<forall>mc\<in>set mcs. j \<notin> tb_ID ` set (mc_Budgets mc)" "\<forall>c\<in>set cs. j \<notin> tb_ID ` set (cu_Budgets c)"
  shows "map_option tb_IsCalendarAligned (LoadBudget j (gv_store (CreateVirtualKeyInMemory vk gv))) = Some True
    \<and> map_option tb_IsCalendarAligned (LoadBudget j (gv_store (rebuildInMemoryStructures base cs ts vks bs rls mcs ps gv))) = Some False"
proof (rule conjI)
  show "map_option tb_IsCalendarAligned (LoadBudget j (gv_store (CreateVirtualKeyInMemory vk gv))) = Some True"
    using create_key_aligned [OF assms(1,2)] by (simp add: row_aligned_def)
  let ?rows = "reloaded_rows bs mcs cs"
  have "b \<in> set bs" if "b \<in> set ?rows" "tb_ID b = j" for b
    using that assms(6,7) by (auto simp: reloaded_rows_def)
  moreover have "find (\<lambda>b. tb_ID b = j) (rev ?rows) \<noteq> None"
    using assms(4) by (auto simp: find_None_iff reloaded_rows_def)
  then obtain b where b: "find (\<lambda>b. tb_ID b = j) (rev ?rows) = Some b" by blast
  moreover have "b \<in> set ?rows" "tb_ID b = j" using find_member [OF b] b by (auto simp: find_Some_iff)
  ultimately show "map_option tb_IsCalendarAligned (LoadBudget j (gv_store (rebuildInMemoryStructures base cs ts vks bs rls mcs ps gv))) = Some False"
    using assms(5) by (simp add: reload_budgets_exact)
qed

subsection \<open>The announced IDs are those charged\<close>

lemma set_add_new [simp]: "set (add_new ids acc) = set acc \<union> set ids"
  unfolding add_new_def by (induction ids arbitrary: acc) auto

lemma distinct_add_new [simp]: "distinct acc \<Longrightarrow> distinct (add_new ids acc)"
  unfolding add_new_def by (induction ids arbitrary: acc) auto

lemma addModelConfigIDs_sets:
  "set (fst (addModelConfigIDs mcs acc)) = set (fst acc) \<union> set (concat (map (\<lambda>mc. map tb_ID (mc_Budgets mc)) mcs))"
  "set (snd (addModelConfigIDs mcs acc)) = set (snd acc) \<union> set (List.map_filter mc_RateLimitID mcs)"
proof -
  have "set (fst (addModelConfigIDs mcs acc)) = set (fst acc) \<union> set (concat (map (\<lambda>mc. map tb_ID (mc_Budgets mc)) mcs))
    \<and> set (snd (addModelConfigIDs mcs acc)) = set (snd acc) \<union> set (List.map_filter mc_RateLimitID mcs)"
  proof (induction mcs arbitrary: acc)
    case (Cons mc mcs)
    then show ?case unfolding addModelConfigIDs_def
      by (cases acc) (auto simp: map_filter_simps split: option.split)
  qed (simp add: addModelConfigIDs_def map_filter_simps)
  then show "set (fst (addModelConfigIDs mcs acc)) = set (fst acc) \<union> set (concat (map (\<lambda>mc. map tb_ID (mc_Budgets mc)) mcs))"
    "set (snd (addModelConfigIDs mcs acc)) = set (snd acc) \<union> set (List.map_filter mc_RateLimitID mcs)" by blast+
qed

lemma addModelConfigIDs_distinct:
  "distinct (fst acc) \<Longrightarrow> distinct (snd acc) \<Longrightarrow>
     distinct (fst (addModelConfigIDs mcs acc)) \<and> distinct (snd (addModelConfigIDs mcs acc))"
proof (induction mcs arbitrary: acc)
  case (Cons mc mcs)
  obtain bs rs where acc: "acc = (bs, rs)" by force
  from Cons.IH [of "(add_new (map tb_ID (mc_Budgets mc)) bs, add_new (case mc_RateLimitID mc of Some i \<Rightarrow> [i] | None \<Rightarrow> []) rs)"] Cons.prems acc
  show ?case by (simp add: addModelConfigIDs_def)
qed (simp add: addModelConfigIDs_def)

lemma no_rateLimit_owner:
  assumes "vk_RateLimitID vk = None" "vk_ProviderConfigs vk = []" "vk_TeamID vk = None" "vk_CustomerID vk = None"
  shows "collectRateLimitIDsFromMemory gv vk provider = []"
  using assms by (simp add: collectRateLimitIDsFromMemory_def collectRateLimitsFromHierarchy_def add_rateLimit_def
      team_of_def team_customer_def direct_customer_def)

lemma provider_ids_pair:
  "(case (if provider \<noteq> '''' then mapget (gv_providers gv) provider else None) of
      None \<Rightarrow> ([], [])
    | Some pt \<Rightarrow> (case pv_BudgetID pt of Some i \<Rightarrow> [i] | None \<Rightarrow> [], case pv_RateLimitID pt of Some i \<Rightarrow> [i] | None \<Rightarrow> []))
   = (provider_budget_ids gv provider, provider_rateLimit_ids gv provider)"
  by (simp add: provider_budget_ids_def provider_rateLimit_ids_def split: option.split)


subsection \<open>Moving a rate limit to the key\<close>

lemma LoadRateLimit_simps [simp]:
  "LoadRateLimit j (delete_budgets ids gs) = LoadRateLimit j gs"
  "LoadRateLimit j (put_budget i b gs) = LoadRateLimit j gs"
  "LoadRateLimit j (put_rateLimit i rl gs) = (if j = i then Some rl else LoadRateLimit j gs)"
  "LoadRateLimit j (delete_rateLimit io gs) = (if io = Some j then None else LoadRateLimit j gs)"
proof -
  show "LoadRateLimit j (delete_budgets ids gs) = LoadRateLimit j gs"
    unfolding delete_budgets_def by (induction ids arbitrary: gs) auto
  show "LoadRateLimit j (put_budget i b gs) = LoadRateLimit j gs" by (simp add: LoadRateLimit_def put_budget_def)
  show "LoadRateLimit j (put_rateLimit i rl gs) = (if j = i then Some rl else LoadRateLimit j gs)"
    by (simp add: LoadRateLimit_def put_rateLimit_def)
  show "LoadRateLimit j (delete_rateLimit io gs) = (if io = Some j then None else LoadRateLimit j gs)"
    by (auto simp: delete_rateLimit_def split: option.split)
qed

lemma LoadRateLimit_update_budgets [simp]: "LoadRateLimit j (snd (update_budgets al bs gs)) = LoadRateLimit j gs"
  unfolding update_budgets_def
  by (induction bs arbitrary: gs) (simp_all add: Let_def case_prod_beta storeBudget_def)

lemma update_config_rateLimit:
  "LoadRateLimit j (snd (update_provider_config al new old pc gs)) = (case pc_RateLimit pc of
     Some r \<Rightarrow> if j = rl_ID r then Some (stamp_rateLimit al (keep_rateLimit_usage gs r)) else LoadRateLimit j gs
   | None \<Rightarrow> if Option.bind (find (\<lambda>p. pc_ID p = pc_ID pc) (rev old)) (\<lambda>p. map_option rl_ID (pc_RateLimit p)) = Some j
             then None else LoadRateLimit j gs)"
  by (auto simp: update_provider_config_def update_rateLimit_def Let_def case_prod_beta split: option.split)

lemma update_configs_absent:
  assumes "\<And>pc. pc \<in> set pcs \<Longrightarrow> map_option rl_ID (pc_RateLimit pc) \<noteq> Some j" "LoadRateLimit j gs = None"
  shows "LoadRateLimit j (snd (update_provider_configs al new old pcs gs)) = None"
  using assms
proof (induction pcs arbitrary: gs)
  case (Cons pc pcs)
  have "LoadRateLimit j (snd (update_provider_config al new old pc gs)) = None"
    unfolding update_config_rateLimit using Cons.prems by (auto split: option.split)
  from Cons.IH [OF Cons.prems(1) this] show ?case by (simp add: Let_def case_prod_beta)
qed simp

lemma update_configs_removes:
  assumes "\<And>pc. pc \<in> set pcs \<Longrightarrow> map_option rl_ID (pc_RateLimit pc) \<noteq> Some j"
    and "pc \<in> set pcs" "find (\<lambda>p. pc_ID p = pc_ID pc) (rev old) = Some p" "pc_RateLimit pc = None" "pc_RateLimit p = Some rl" "rl_ID rl = j"
  shows "LoadRateLimit j (snd (update_provider_configs al new old pcs gs)) = None"
  using assms(1,2)
proof (induction pcs arbitrary: gs)
  case (Cons q pcs)
  let ?g = "snd (update_provider_config al new old q gs)"
  have step: "snd (update_provider_configs al new old (q # pcs) gs) = snd (update_provider_configs al new old pcs ?g)"
    by (simp add: Let_def case_prod_beta)
  show ?case
  proof (cases "q = pc")
    case True
    then have "LoadRateLimit j ?g = None" unfolding update_config_rateLimit using assms(3-6) by simp
    then show ?thesis unfolding step using Cons.prems(1) by (intro update_configs_absent) auto
  next
    case False
    then show ?thesis unfolding step using Cons.IH Cons.prems by auto
  qed
qed simp

lemma drop_orphans_absent: "LoadRateLimit j gs = None \<Longrightarrow> LoadRateLimit j (drop_orphans newB newR pcs gs) = None"
  by (induction pcs arbitrary: gs) (auto simp: Let_def split: option.split)

text \<open>An update that takes a rate limit off a provider configuration and puts it on the key itself loses it:
  the key's limit is stored, and then deleted when the provider configuration's turn comes, which does not ask
  whether the key carries it now. The stored key still names the limit, and no check finds it. (Budgets that move the same way are
  kept.)\<close>

theorem moved_rate_limit_lost:
  assumes "existing_key vk gv = Some (k, e)"
    and "find (\<lambda>p. pc_ID p = pc_ID pc) (rev (vk_ProviderConfigs e)) = Some p" "pc_RateLimit p = Some rl"
    and "pc \<in> set (vk_ProviderConfigs vk)" "pc_RateLimit pc = None"
    and "vk_RateLimit vk = Some rl'" "rl_ID rl' = rl_ID rl"
    and "\<forall>q\<in>set (vk_ProviderConfigs vk). map_option rl_ID (pc_RateLimit q) \<noteq> Some (rl_ID rl)"
  shows "LoadRateLimit (rl_ID rl) (gv_store (UpdateVirtualKeyInMemory vk gv)) = None"
proof -
  have "LoadRateLimit (rl_ID rl) (snd (update_provider_configs al new (vk_ProviderConfigs e) (vk_ProviderConfigs vk) gs)) = None" for al new gs
    using update_configs_removes [of "vk_ProviderConfigs vk" "rl_ID rl" pc "vk_ProviderConfigs e" p rl] assms by blast
  then show ?thesis
    unfolding UpdateVirtualKeyInMemory_def assms(1) option.case prod.case Let_def case_prod_beta key_store_same
    by (simp add: drop_orphans_absent)
qed

subsection \<open>Examples\<close>

text \<open>A key of a customer with a daily budget on the calendar, loaded from the database and rotated.\<close>

definition daily_row :: TableBudget where
  "daily_row = hourly_budget\<lparr>tb_ID := ''day'', tb_ResetDuration := ''1d'', tb_VirtualKeyID := Some ''vk1''\<rparr>"

definition demo_limit :: TableRateLimit where
  "demo_limit = \<lparr>rl_ID = ''rl'', rl_TokenMaxLimit = Some 100, rl_TokenResetDuration = Some ''1h'', rl_TokenCurrentUsage = 40,
     rl_TokenLastReset = 1700000000000000000, rl_RequestMaxLimit = None, rl_RequestResetDuration = None,
     rl_RequestCurrentUsage = 0, rl_RequestLastReset = 1700000000000000000, rl_IsCalendarAligned = False, rl_CreatedAt = 1700000000000000000\<rparr>"

definition demo_customer :: TableCustomer where
  "demo_customer = \<lparr>cu_ID = ''acme'', cu_Name = ''Acme'', cu_RateLimitID = None, cu_RateLimit = None,
     cu_Budgets = [hourly_budget], cu_CalendarAligned = False\<rparr>"

definition demo_provider_config :: "TableRateLimit option \<Rightarrow> TableVirtualKeyProviderConfig" where
  "demo_provider_config rl = \<lparr>pc_ID = 1, pc_Provider = OpenAI, pc_AllowedModels = [''*''], pc_BlacklistedModels = [],
     pc_AllowAllKeys = True, pc_Keys = [], pc_RateLimitID = map_option rl_ID rl, pc_RateLimit = rl, pc_Budgets = []\<rparr>"

definition team_key :: TableVirtualKey where
  "team_key = demo_key\<lparr>vk_CustomerID := Some ''acme'', vk_Budgets := [stamp_budget True daily_row], vk_CalendarAligned := True,
     vk_ProviderConfigs := [demo_provider_config (Some demo_limit)]\<rparr>"

definition loaded :: Governance where
  "loaded = rebuildInMemoryStructures None [demo_customer] [] [team_key] [daily_row, hourly_budget] [demo_limit] [] [] empty_governance"

definition rotated_key :: TableVirtualKey where
  "rotated_key = team_key\<lparr>vk_Value := ''sk-bf-2'', vk_RateLimitID := Some ''rl'', vk_RateLimit := Some demo_limit,
     vk_ProviderConfigs := [demo_provider_config None]\<rparr>"

lemma loaded_reachable: "reachable (admin_step None) empty_governance loaded"
proof (rule reachable.step [OF reachable.start])
  have "loadable [team_key]" by code_simp
  then show "admin_step None (Reload [demo_customer] [] [team_key] [daily_row, hourly_budget] [demo_limit] [] []) empty_governance = Some loaded"
    by (simp add: loaded_def)
qed

theorem key_index_consistent_witness:
  "GetVirtualKeyByID ''vk1'' loaded = Some team_key \<and> GetVirtualKey ''sk-bf-1'' loaded = Some team_key"
proof -
  have k: "GetVirtualKey ''sk-bf-1'' loaded = Some team_key" "vk_ID team_key = ''vk1''" "vk_Value team_key = ''sk-bf-1''" by code_simp+
  have "GetVirtualKeyByID ''vk1'' loaded = Some team_key"
    by (rule iffD2 [OF conjunct1 [OF key_index_consistent [OF loaded_reachable]]]) (simp add: k)
  then show ?thesis using k(1) by blast
qed

theorem rotated_key_values_witness:
  "GetVirtualKey ''sk-bf-1'' loaded = Some team_key
   \<and> \<not> (\<exists>w. GetVirtualKey ''sk-bf-1'' (UpdateVirtualKeyInMemory rotated_key loaded) = Some w \<and> vk_ID w = ''vk1'')
   \<and> (\<exists>w. GetVirtualKey ''sk-bf-2'' (UpdateVirtualKeyInMemory rotated_key loaded) = Some w \<and> vk_ID w = ''vk1'')"
proof -
  have "GetVirtualKey ''sk-bf-1'' loaded = Some team_key" by code_simp
  moreover have m: "may_store rotated_key loaded" "vk_Value rotated_key = ''sk-bf-2''" "vk_ID rotated_key = ''vk1''" by code_simp+
  ultimately show ?thesis using rotated_key_values [OF loaded_reachable m(1), of "''sk-bf-1''"]
    rotated_key_values [OF loaded_reachable m(1), of "''sk-bf-2''"] by simp
qed

theorem deleted_customer_forgotten_witness:
  "GetVirtualKey ''sk-bf-1'' (DeleteCustomerInMemory ''acme'' loaded) = Some (team_key\<lparr>vk_CustomerID := None, vk_Customer := None\<rparr>)
   \<and> LoadBudget ''b'' (gv_store loaded) = Some hourly_budget
   \<and> LoadBudget ''b'' (gv_store (DeleteCustomerInMemory ''acme'' loaded)) = None"
proof -
  have c: "mapget (gv_customers loaded) ''acme'' = Some demo_customer" "tb_ID ` set (cu_Budgets demo_customer) = {''b''}" by code_simp+
  moreover have "GetVirtualKey ''sk-bf-1'' loaded = Some team_key" "vk_CustomerID team_key = Some ''acme''"
    "LoadBudget ''b'' (gv_store loaded) = Some hourly_budget" by code_simp+
  ultimately show ?thesis using deleted_customer_forgotten [OF loaded_reachable _ c(1), of "''sk-bf-1''" _ "''b''"] by simp
qed

theorem reload_forgets_key_alignment_witness:
  "map_option tb_IsCalendarAligned (LoadBudget ''day'' (gv_store (CreateVirtualKeyInMemory team_key empty_governance))) = Some True
   \<and> map_option tb_IsCalendarAligned (LoadBudget ''day'' (gv_store loaded)) = Some False
   \<and> map_option (\<lambda>b. budgetResetTarget b 1700010000000000000) (LoadBudget ''day'' (gv_store (CreateVirtualKeyInMemory team_key empty_governance)))
       = Some (Some 1700006400000000000)
   \<and> map_option (\<lambda>b. budgetResetTarget b 1700010000000000000) (LoadBudget ''day'' (gv_store loaded)) = Some None"
proof -
  have "vk_CalendarAligned team_key" "''day'' \<in> tb_ID ` set (vk_Budgets team_key)" "''day'' \<in> tb_ID ` set [daily_row, hourly_budget]"
    "\<forall>b\<in>set [daily_row, hourly_budget]. \<not> tb_IsCalendarAligned b" "''day'' \<notin> tb_ID ` set (cu_Budgets demo_customer)" by code_simp+
  then have "map_option tb_IsCalendarAligned (LoadBudget ''day'' (gv_store (CreateVirtualKeyInMemory team_key empty_governance))) = Some True
    \<and> map_option tb_IsCalendarAligned (LoadBudget ''day'' (gv_store loaded)) = Some False"
    unfolding loaded_def by (intro reload_forgets_key_alignment [of team_key "''day''"]) simp_all
  moreover have "map_option (\<lambda>b. budgetResetTarget b 1700010000000000000)
       (LoadBudget ''day'' (gv_store (CreateVirtualKeyInMemory team_key empty_governance))) = Some (Some 1700006400000000000)"
    "map_option (\<lambda>b. budgetResetTarget b 1700010000000000000) (LoadBudget ''day'' (gv_store loaded)) = Some None" by code_simp+
  ultimately show ?thesis by blast
qed

theorem moved_rate_limit_lost_witness:
  "LoadRateLimit ''rl'' (gv_store loaded) = Some demo_limit \<and> vk_RateLimitID rotated_key = Some ''rl''
   \<and> LoadRateLimit ''rl'' (gv_store (UpdateVirtualKeyInMemory rotated_key loaded)) = None"
proof -
  have "existing_key rotated_key loaded = Some (''sk-bf-1'', team_key)"
    "find (\<lambda>p. pc_ID p = pc_ID (demo_provider_config None)) (rev (vk_ProviderConfigs team_key)) = Some (demo_provider_config (Some demo_limit))"
    "LoadRateLimit ''rl'' (gv_store loaded) = Some demo_limit" "rl_ID demo_limit = ''rl''" by code_simp+
  then show ?thesis
    using moved_rate_limit_lost [of rotated_key loaded "''sk-bf-1''" team_key "demo_provider_config None" "demo_provider_config (Some demo_limit)"
        demo_limit demo_limit]
    by (simp add: rotated_key_def demo_provider_config_def)
qed

end
