(* ===== verification/Spec2Isabelle.thy ===== *)
theory Spec2Isabelle
  imports Cooldown_Plugin KV_Store LRU_Cache Key_Pool Retry_Loop Request_Context Requests Plugin_Pipeline Fallback
    Provider_Queue Stream_Gate Governance_Store Governance_Owners Governance_Resolver Usage_Tracker
    Governance_Admin Governance_Index
begin

text \<open>
  \<^bold>\<open>A verification development for pg-gateway\<close>

  The gateway takes a model request from a client and answers it from one of many model providers. Its
  core (\<open>src/core\<close>) sends a request down a chain: the plugins' pre-request hooks may route it; an attempt at
  the primary provider runs the plugins' pre hooks, queues the request, and a worker calls the provider
  with a key of the account, rotating keys and backing off on failures; the post hooks see the outcome;
  and if the attempt failed, the request's fallbacks are tried in turn. The cooldown plugin
  (\<open>src/plugins/providercooldown\<close>) takes keys that hit rate limits or quotas out of rotation for a while.
  Sessions stick to keys through a key-value store, and configuration is read through an LRU cache
  (\<open>src/framework\<close>). Every provider has a queue with workers, which an administrator may replace or remove
  while requests are in flight. The chunks of a streamed answer pass a gate that a plugin can pause
  (\<open>src/framework/streaming\<close>). The governance plugin (\<open>src/plugins/governance\<close>) identifies the virtual key of a
  request, checks the budgets and rate limits of key, team, customer, model and provider before the request
  runs, and charges what it used to them afterwards; their windows reset on a rolling or calendar schedule.

  \<^bold>\<open>Theories and the code they model\<close>

  \<^item> \<open>Prelude\<close>: Go's strings, maps as association lists with distinct keys, durations, and generic lemmas.
  \<^item> \<open>Schemas\<close>: providers, allow and deny lists, keys, errors, routing information
    (\<open>core/schemas/bifrost.go\<close>, \<open>account.go\<close>).
  \<^item> \<open>Cooldown_Policy\<close>, \<open>Cooldown_State\<close>, \<open>Cooldown_Plugin\<close>: match rules and built-in policies
    (\<open>core/schemas/provider.go\<close>), the clocks with their counters, and configuration, classification and hooks
    of the plugin (\<open>plugins/providercooldown\<close>).
  \<^item> \<open>Expiring_Store\<close>: the contract of a store whose entries expire, as a locale with the facts its clients
    use; interpreted by the cooldown clocks and by the key-value store.
  \<^item> \<open>KV_Store\<close>: the store with expiry, conditional writes and replication (\<open>framework/kvstore\<close>).
  \<^item> \<open>LRU_Cache\<close>: the read-through cache with generations and a secondary index (\<open>framework/lrucache\<close>), and the
    bounded list it refines.
  \<^item> \<open>Key_Pool\<close>: eligible keys, session stickiness, weighted choice, the rotating pool (\<open>core/bifrost.go\<close>,
    \<open>core/utils.go\<close>, \<open>core/keyselectors\<close>).
  \<^item> \<open>Retry_Loop\<close>: \<open>executeRequestWithRetries\<close> statement by statement (\<open>core/bifrost.go\<close>), over a locale of key
    providers that the rotating pool and the single key interpret.
  \<^item> \<open>Request_Context\<close>: the value map of the request context and the guard on reserved keys
    (\<open>core/schemas/context.go\<close>).
  \<^item> \<open>Requests\<close>: the request and response unions with their accessors (\<open>core/schemas/bifrost.go\<close>).
  \<^item> \<open>Plugin_Pipeline\<close>: the four hook phases and one attempt, \<open>tryRequest\<close> (\<open>core/bifrost.go\<close>).
  \<^item> \<open>Fallback\<close>: \<open>handleRequest\<close>, \<open>handleStreamRequest\<close> and their helpers (\<open>core/bifrost.go\<close>, \<open>core/utils.go\<close>).
  \<^item> \<open>Event_Machine\<close>, \<open>Cas_Register\<close>: the interfaces of the concurrent components. A machine of atomic sections
    with an invariant, with work that drains, with a rank; and a register updated by compare-and-swap loops.
  \<^item> \<open>Provider_Queue\<close>: a queue with its producers, workers and closing goroutine, the hand-over of an update, and
    the registry of providers (\<open>core/bifrost.go\<close>).
  \<^item> \<open>Stream_Gate\<close>: the delivery gate of a stream with its flusher goroutine (\<open>framework/streaming/gate.go\<close>,
    \<open>accumulator.go\<close>).
  \<^item> \<open>Go_Time\<close>: what the code uses of Go's calendar and durations, and grids of period boundaries as a locale.
  \<^item> \<open>Governance_Windows\<close>: durations, windows, overrides and validation of budgets and rate limits
    (\<open>framework/configstore/tables\<close>).
  \<^item> \<open>Governance_Store\<close>: live usage, resets, checks and dumps (\<open>plugins/governance/store.go\<close>).
  \<^item> \<open>Governance_Owners\<close>, \<open>Governance_Resolver\<close>: the owners with the rows that apply to a request, the checks of
    every level, the resolver and \<open>EvaluateGovernanceRequest\<close> (\<open>plugins/governance/store.go\<close>, \<open>resolver.go\<close>, \<open>main.go\<close>).
  \<^item> \<open>Usage_Tracker\<close>: the settlement of a request (\<open>plugins/governance/tracker.go\<close>).
  \<^item> \<open>Governance_Admin\<close>, \<open>Governance_Index\<close>: loading, creating, updating and deleting owners with their rows, and the
    index of keys as an event machine (\<open>plugins/governance/store.go\<close>).
  \<^item> This theory: the cooldown plugin as a plugin of the pipeline, and what the two promise together.

  \<^bold>\<open>Conventions\<close>

  A Go struct is a record with a field prefix, a pointer an option, a Go map a \<open>gomap\<close>, an error a value of an
  option or sum type. Functions that change state take and return it; what a lock or a scheduler may
  interleave is a sequence of steps (the cooldown and cache step relations, the session race), a schedule of
  an event machine (queues, the stream gate, compare-and-swap loops) or an explicit event (the queue in
  \<open>tryRequest\<close>). Time is an argument; where code reads the clock several times, a clock is. Code outside the repository, and the code
  of plugins, providers and the account, is a parameter. A nil dereference is \<^const>\<open>None\<close>. Counters keep their
  64-bit width; durations are integers except in the backoff, where the wrap-around is written out.

  \<^bold>\<open>What is shown\<close>

  \<^item> Cooldown: a mark suppresses exactly what it names until its deadline; the filter removes exactly
    the cooling keys; sweeping is invisible; the statistics agree; the gateway's own answers start no cooldown.
  \<^item> Keys: only eligible keys are offered, dead keys are not used again, sessions keep their key and two
    racing requests agree on it, choice is proportional to weight.
  \<^item> Retries: the loop ends within the configured number of retries, plus one when encrypted reasoning is
    stripped (it is a recursive function with that measure, there is no fuel), its result is the last attempt's, the attempt trail is
    exact, the marker hears of every transient failure, and the backoff stays in its range until it overflows.
  \<^item> Attempts: pre and post hooks pair, reserved context values are the plugins' to read only, and a
    provider whose keys all cool down is not called.
  \<^item> Fallbacks: the chain tries the configured fallbacks in order and ends as documented, each from a
    clean context and, with two exceptions, at its own provider.
  \<^item> Stores: expiry is not observable as anything but absence, remote writes commute, conditional
    writes exclude each other, stale fills are discarded, evictions are exact, the cache is an LRU list.
  \<^item> Queues: every request in a queue is held exactly once, closing always completes and answers all but the
    stragglers the code documents, the hand-over of an update loses nothing, the registry stays consistent;
    a provider that cannot be constructed leaves a queue behind that nobody serves.
  \<^item> Streams: the gate loses no chunk and no wake-up, keeps the order unless a direct send overlaps the
    flusher, drains when it ends, and reports an overflow; the bound on the flusher's steps is a rank of its state.
  \<^item> Governance: a window starts at the latest boundary of its grid, periods are counted exactly, an override
    lasts the granted windows, a bump resets a due window once and no increment is lost, resets invalidate
    dumps; a monthly rate limit is not enforced on the 31st, and long durations wrap.
  \<^item> Admission and settlement: only a live key that may use provider and model is let through, a request that
    is let through is charged to nothing that was used up, one attempt is settled at most once and charges exactly
    the rows announced for it; the tools added to a request are not checked.
  \<^item> Owners: an update of a key keeps the usage of every budget it carries on and drops the others, a rotated or
    deleted value is dead at once, a deleted customer leaves nothing behind; a reload forgets that the budgets of
    keys follow the calendar, and a rate limit that moves up to the key is lost.

  \<^bold>\<open>Not modelled\<close>

  Streaming attempts and their per-chunk hooks, the accumulation of chunks into responses, \<open>Shutdown\<close>, MCP, the
  provider adapters and HTTP transport (wire formats and I/O), persistence, the model catalog, routing rules,
  weighted choice of providers and the hooks of governance, the other plugins, and everything that only observes
  (spans, logs, metrics). Payloads of requests and responses are opaque. The races between an administrative
  update and a concurrent bump of the same row are left out: an update is one step.
\<close>


subsection \<open>The cooldown plugin in the pipeline\<close>

text \<open>What the cooldown plugin reads of the request context, and its hooks as a plugin of the pipeline. The
  world is the plugin with the current time.\<close>

definition plugin_context :: "BifrostContext \<Rightarrow> PluginContext" where
  "plugin_context ctx =
     \<lparr>px_CooldownPolicy = (case Value ctx KeyCooldownPolicy of Some (CPolicy p) \<Rightarrow> Some p | _ \<Rightarrow> None),
      px_AttemptTrail = Option.bind (Value ctx KeyAttemptTrail) dest_trail,
      px_ProviderKeys = (case Value ctx KeyProviderKeys of Some (CProviderKeys p ks) \<Rightarrow> [(p, ks)] | _ \<Rightarrow> []),
      px_RetryAfterSeconds = (case Value ctx KeyRetryAfterSeconds of Some (CInt s) \<Rightarrow> Some s | _ \<Rightarrow> None)\<rparr>"

definition cooldown_plugin :: "(CooldownPlugin \<times> instant) LLMPlugin" where
  "cooldown_plugin =
     \<lparr>pl_Name = ''provider-cooldown'',
      pl_PreRequestHook = (\<lambda>ctx w req. ([], w, req, None)),
      pl_PreProviderHook = (\<lambda>ctx (pl, now) req.
        let (pl', px, sc) = PreProviderHook pl (plugin_context ctx)
              (map_option (\<lambda>r. (fst (GetRequestFields r), fst (snd (GetRequestFields r)))) req) now;
            ops = (case (sc, px_RetryAfterSeconds px) of
                     (Some _, Some s) \<Rightarrow> [OpSet KeyRetryAfterSeconds (CInt s)]
                   | _ \<Rightarrow> [])
        in (ops, (pl', now), req,
            map_option (\<lambda>s. \<lparr>ps_Response = None, ps_Error = Some (sc_Error s), ps_Silent = sc_Silent s\<rparr>) sc, None)),
      pl_PreLLMHook = (\<lambda>ctx w req. ([], w, fst (PreLLMHook (fst w) req), None, None)),
      pl_PostLLMHook = (\<lambda>ctx (pl, now) resp err.
        let (pl', resp', err') = PostLLMHook pl (Some (plugin_context ctx)) resp err now
        in ([], (pl', now), resp', err', None))\<rparr>"

lemma PostLLMHook_passes: "snd (PostLLMHook pl ctx resp err now) = (resp, err)"
  by (simp add: PostLLMHook_def split_beta Let_def split: option.splits)

lemma PreProviderHook_stamps:
  assumes "p_State pl = Some c" "p \<noteq> ''''" "m \<noteq> ''''" "mapget (px_ProviderKeys ctx) p = Some pool" "pool \<noteq> []"
    and "\<forall>k \<in> set pool. snd (lookupSuppressed c p (k_ID k) m now) \<noteq> None"
  obtains pl' secs where "PreProviderHook pl ctx (Some (p, m)) now =
    (pl', ctx\<lparr>px_RetryAfterSeconds := Some secs\<rparr>, Some \<lparr>sc_Error = no_eligible_keys_error p secs, sc_Silent = True\<rparr>)"
    "0 < secs"
proof -
  let ?S = "\<lambda>k. suppressed_by c p (k_ID k) m now"
  obtain c1 out stamp where f: "AsFilter c True p m pool now = (c1, out, stamp)" by (metis prod_cases3)
  have out: "out = []" and c1: "same_clocks now c c1"
    using filter_out [of c True p m pool now] filter_clocks [of now c True p m pool] f assms(6)
    by (simp_all add: lookupSuppressed_spec filter_empty_conv)
  have left: "0 < snd (ShortestRemainingCooldown c1 p m pool now)"
    using ShortestRemaining_min [of pool c1 p m now] assms(5,6) by (auto simp: suppressed_by_cong [OF c1] lookupSuppressed_spec)
  have "0 < retryAfterSecondsHint (snd (ShortestRemainingCooldown c1 p m pool now))"
    using left div_neg_pos_less0 [of "- snd (ShortestRemainingCooldown c1 p m pool now)" go_second] by (simp add: retryAfter_ceiling)
  moreover have "PreProviderHook pl ctx (Some (p, m)) now =
      (pl\<lparr>p_State := Some (fst (ShortestRemainingCooldown c1 p m pool now))\<rparr>,
       ctx\<lparr>px_RetryAfterSeconds := Some (retryAfterSecondsHint (snd (ShortestRemainingCooldown c1 p m pool now)))\<rparr>,
       Some \<lparr>sc_Error = no_eligible_keys_error p (retryAfterSecondsHint (snd (ShortestRemainingCooldown c1 p m pool now))),
             sc_Silent = True\<rparr>)"
    using f out left assms(1-5) by (cases stamp) (simp_all add: PreProviderHook_def split_beta Let_def)
  ultimately show ?thesis using that by blast
qed


definition cooled_plugin :: CooldownPlugin where
  "cooled_plugin = \<lparr>p_State = Some (MarkWithTTL (NewCooldownState 0) OpenAI ''k1'' ''gpt-4o'' 60 CooldownKindQuota
     CooldownScopeKey 0), p_quotaPatterns = [], p_gcRunning = True\<rparr>"

definition cooled_env :: "(CooldownPlugin \<times> instant) attempt_env" where
  "cooled_env = \<lparr>ae_llmPlugins = [cooldown_plugin], ae_pluginCount = (\<lambda>_. 1), ae_queueError = (\<lambda>_. None),
     ae_addTools = None, ae_hasTracer = True, ae_keys = (\<lambda>_. Some [zeroKey\<lparr>k_ID := ''k1''\<rparr>]), ae_config = (\<lambda>_. None),
     ae_queue = (\<lambda>_. \<lparr>qe_isClosing = False, qe_rerouted = False, qe_select = Some Sent, qe_dropExcessRequests = False,
       qe_isClosing2 = False, qe_select2 = Sent\<rparr>),
     ae_worker = (\<lambda>ctx w r. (ctx, w, GotResponse None))\<rparr>"

lemma cooled_pool:
  "\<forall>k \<in> set [zeroKey\<lparr>k_ID := ''k1''\<rparr>]. snd (lookupSuppressed (MarkWithTTL (NewCooldownState 0) OpenAI ''k1'' ''gpt-4o'' 60
     CooldownKindQuota CooldownScopeKey 0) OpenAI (k_ID k) ''gpt-4o'' 59) \<noteq> None"
  by code_simp


end
